(* ===== verification/Prelude.thy ===== *)
theory Prelude
  imports Main "HOL-Library.Word" "HOL-Library.Finite_Map" "HOL-Library.List_Lexorder"
    "HOL-Library.Char_ord" "HOL-Library.Sublist"
begin

text \<open>
  Prelude of the OVNode development: the part of Go's language and standard library that the
  node uses everywhere, as executable functions over \<^typ>\<open>string\<close> (a Go string is a
  sequence of bytes, and \<^typ>\<open>char\<close> is a byte):
  \<^item> package \<open>strings\<close>: \<open>HasPrefix\<close>, \<open>HasSuffix\<close>, \<open>Contains\<close>, \<open>Split\<close> and \<open>Cut\<close> at a
    one-byte separator, \<open>Join\<close>, \<open>TrimSpace\<close>, \<open>Fields\<close>, \<open>Trim\<close>, \<open>TrimRight\<close>, \<open>ReplaceAll\<close> of a
    byte, \<open>LastIndex\<close> of a byte, and ASCII case mapping;
  \<^item> package \<open>strconv\<close>: \<open>Itoa\<close>, \<open>Atoi\<close>, \<open>ParseInt\<close>, \<open>ParseUint\<close> for 64-bit values;
  \<^item> \<open>error\<close> results as the sum type \<^typ>\<open>'e + 'a\<close>, \<open>Inl\<close> being the error.
  The lemmas are the facts the components share: splitting what was joined gives it back,
  parsing what was printed gives it back, trimming leaves a string with visible ends alone.
\<close>

named_theorems go_simps \<open>evaluation rules of the Go library functions\<close>

type_synonym u64 = "64 word"

text \<open>Frequently used bytes.\<close>

abbreviation NL :: char where "NL \<equiv> CHR 0x0A"
abbreviation CR :: char where "CR \<equiv> CHR 0x0D"
abbreviation TAB :: char where "TAB \<equiv> CHR 0x09"
abbreviation DQ :: char where "DQ \<equiv> CHR 0x22"
abbreviation SQ :: char where "SQ \<equiv> CHR 0x27"
abbreviation BSL :: char where "BSL \<equiv> CHR 0x5C"

subsection \<open>Bytes\<close>

definition byte :: "char \<Rightarrow> nat" where
  "byte c = of_char c"

definition is_digit :: "char \<Rightarrow> bool" where
  "is_digit c \<longleftrightarrow> 48 \<le> byte c \<and> byte c \<le> 57"

definition is_lower :: "char \<Rightarrow> bool" where
  "is_lower c \<longleftrightarrow> 97 \<le> byte c \<and> byte c \<le> 122"

definition is_upper :: "char \<Rightarrow> bool" where
  "is_upper c \<longleftrightarrow> 65 \<le> byte c \<and> byte c \<le> 90"

definition is_graph :: "char \<Rightarrow> bool" where
  "is_graph c \<longleftrightarrow> 33 \<le> byte c \<and> byte c \<le> 126"

lemmas byte_class_defs = is_digit_def is_lower_def is_upper_def is_graph_def byte_def

declare byte_class_defs [go_simps]

lemma is_digit_graph [simp]: "is_digit c \<Longrightarrow> is_graph c"
  by (simp add: is_digit_def is_graph_def)

text \<open>\<open>strings.ToLower\<close> and \<open>strings.ToUpper\<close> on ASCII bytes; other bytes are left alone.\<close>

definition lower_byte :: "char \<Rightarrow> char" where
  "lower_byte c = (if is_upper c then char_of (byte c + 32) else c)"

definition upper_byte :: "char \<Rightarrow> char" where
  "upper_byte c = (if is_lower c then char_of (byte c - 32) else c)"

definition ToLower :: "string \<Rightarrow> string" where
  "ToLower s = map lower_byte s"

definition ToUpper :: "string \<Rightarrow> string" where
  "ToUpper s = map upper_byte s"

definition EqualFold :: "string \<Rightarrow> string \<Rightarrow> bool" where
  "EqualFold s t \<longleftrightarrow> ToLower s = ToLower t"

subsection \<open>Package strings\<close>

definition HasPrefix :: "string \<Rightarrow> string \<Rightarrow> bool" where
  [simp, go_simps]: "HasPrefix s p = prefix p s"

definition HasSuffix :: "string \<Rightarrow> string \<Rightarrow> bool" where
  "HasSuffix s p = prefix (rev p) (rev s)"

lemma HasSuffix_iff: "HasSuffix s p \<longleftrightarrow> (\<exists>t. s = t @ p)"
  by (auto simp: HasSuffix_def prefix_def) (metis rev_append rev_rev_ident)

fun Contains :: "string \<Rightarrow> string \<Rightarrow> bool" where
  "Contains [] sub = (sub = [])"
| "Contains (c # cs) sub = (prefix sub (c # cs) \<or> Contains cs sub)"

lemma Contains_iff: "Contains s sub \<longleftrightarrow> (\<exists>a b. s = a @ sub @ b)"
proof (induction s)
  case Nil
  then show ?case by simp
next
  case (Cons c cs)
  have "(\<exists>a b. c # cs = a @ sub @ b) \<longleftrightarrow> prefix sub (c # cs) \<or> (\<exists>a b. cs = a @ sub @ b)"
    by (simp add: prefix_def) (metis append_Cons append_Nil list.exhaust list.inject)
  with Cons show ?case by simp
qed

lemma Contains_append_mid [simp]: "Contains (a @ sub @ b) sub"
  by (auto simp: Contains_iff)

lemma Contains_appendI1: "Contains s sub \<Longrightarrow> Contains (s @ t) sub"
  by (auto simp: Contains_iff) (metis append.assoc)

lemma Contains_appendI2: "Contains t sub \<Longrightarrow> Contains (s @ t) sub"
  by (auto simp: Contains_iff) (metis append.assoc)

text \<open>\<open>Split\<close> at a one-byte separator: always at least one piece.\<close>

fun Split :: "char \<Rightarrow> string \<Rightarrow> string list" where
  "Split sep [] = [[]]"
| "Split sep (c # cs) =
     (if c = sep then [] # Split sep cs
      else case Split sep cs of [] \<Rightarrow> [[c]] | p # ps \<Rightarrow> (c # p) # ps)"

fun Join :: "string list \<Rightarrow> string \<Rightarrow> string" where
  "Join [] sep = []"
| "Join [s] sep = s"
| "Join (s # t # ts) sep = s @ sep @ Join (t # ts) sep"

lemma Split_nonempty [simp]: "Split sep s \<noteq> []"
  by (cases s) (auto split: list.splits)

lemma Split_no_sep: "sep \<notin> set s \<Longrightarrow> Split sep s = [s]"
  by (induction s) auto

lemma Split_append_sep: "sep \<notin> set s \<Longrightarrow> Split sep (s @ sep # t) = s # Split sep t"
  by (induction s) auto

lemma Split_pieces: "p \<in> set (Split sep s) \<Longrightarrow> sep \<notin> set p"
  by (induction s arbitrary: p) (auto split: list.splits if_splits)

lemma Join_Split: "Join (Split sep s) [sep] = s"
proof (induction s)
  case (Cons c cs)
  then show ?case
    by (cases "Split sep cs" rule: list.exhaust; cases "tl (Split sep cs)")
       (auto split: list.splits)
qed simp

lemma Split_Join:
  "xs \<noteq> [] \<Longrightarrow> (\<And>x. x \<in> set xs \<Longrightarrow> sep \<notin> set x) \<Longrightarrow> Split sep (Join xs [sep]) = xs"
proof (induction xs "[sep]" rule: Join.induct)
  case (3 s t ts)
  have "Split sep (Join (s # t # ts) [sep]) = Split sep (s @ sep # Join (t # ts) [sep])"
    by simp
  also have "\<dots> = s # Split sep (Join (t # ts) [sep])"
    using "3.prems" by (simp add: Split_append_sep)
  also have "\<dots> = s # t # ts"
    using 3 by simp
  finally show ?case .
qed (auto simp: Split_no_sep)

lemma Split_lines:
  "(\<And>l. l \<in> set ls \<Longrightarrow> sep \<notin> set l) \<Longrightarrow> Split sep (concat (map (\<lambda>l. l @ [sep]) ls)) = ls @ [[]]"
  by (induction ls) (simp_all add: Split_append_sep)

lemma length_Split_le: "p \<in> set (Split sep s) \<Longrightarrow> length p \<le> length s"
  by (induction s arbitrary: p) (auto split: list.splits if_splits intro: le_SucI)

lemma Join_set: "c \<in> set (Join xs sep) \<Longrightarrow> (\<exists>x \<in> set xs. c \<in> set x) \<or> c \<in> set sep"
  by (induction xs sep rule: Join.induct) auto

text \<open>\<open>strings.Cut\<close> at a one-byte separator: before, after, found.\<close>

definition Cut :: "char \<Rightarrow> string \<Rightarrow> string \<times> string \<times> bool" where
  "Cut sep s =
     (if sep \<in> set s then (takeWhile (\<lambda>c. c \<noteq> sep) s, tl (dropWhile (\<lambda>c. c \<noteq> sep) s), True)
      else (s, [], False))"

lemma Cut_append: "sep \<notin> set k \<Longrightarrow> Cut sep (k @ sep # v) = (k, v, True)"
proof -
  assume k: "sep \<notin> set k"
  then have "takeWhile (\<lambda>c. c \<noteq> sep) (k @ sep # v) = k"
    by (subst takeWhile_append2) auto
  moreover from k have "dropWhile (\<lambda>c. c \<noteq> sep) (k @ sep # v) = sep # v"
    by (subst dropWhile_append2) auto
  ultimately show ?thesis by (simp add: Cut_def)
qed

lemma Cut_none: "sep \<notin> set s \<Longrightarrow> Cut sep s = (s, [], False)"
  by (simp add: Cut_def)

text \<open>\<open>strings.LastIndex\<close> of a byte, as the two sides of its last occurrence.\<close>

definition CutLast :: "char \<Rightarrow> string \<Rightarrow> (string \<times> string) option" where
  "CutLast sep s =
     (if sep \<in> set s
      then Some (rev (tl (dropWhile (\<lambda>c. c \<noteq> sep) (rev s))), rev (takeWhile (\<lambda>c. c \<noteq> sep) (rev s)))
      else None)"

lemma CutLast_append: "sep \<notin> set v \<Longrightarrow> CutLast sep (k @ sep # v) = Some (k, v)"
proof -
  assume v: "sep \<notin> set v"
  then have "takeWhile (\<lambda>c. c \<noteq> sep) (rev v @ sep # rev k) = rev v"
    by (subst takeWhile_append2) auto
  moreover from v have "dropWhile (\<lambda>c. c \<noteq> sep) (rev v @ sep # rev k) = sep # rev k"
    by (subst dropWhile_append2) auto
  ultimately show ?thesis by (simp add: CutLast_def)
qed

lemma CutLast_Some: "CutLast sep s = Some (a, b) \<Longrightarrow> s = a @ sep # b \<and> sep \<notin> set b"
proof -
  assume h: "CutLast sep s = Some (a, b)"
  then have "sep \<in> set s" by (auto simp: CutLast_def split: if_splits)
  then obtain x y where s: "s = x @ sep # y" and y: "sep \<notin> set y"
    by (metis split_list_last)
  with h show ?thesis by (simp add: CutLast_append)
qed

lemma CutLast_None [simp]: "sep \<notin> set s \<Longrightarrow> CutLast sep s = None"
  by (simp add: CutLast_def)

text \<open>\<open>strings.ReplaceAll\<close> of one byte, \<open>strings.TrimRight\<close> and \<open>strings.Trim\<close> of a byte set.\<close>

definition ReplaceByte :: "char \<Rightarrow> char \<Rightarrow> string \<Rightarrow> string" where
  "ReplaceByte a b s = map (\<lambda>c. if c = a then b else c) s"

definition TrimRightSet :: "char list \<Rightarrow> string \<Rightarrow> string" where
  "TrimRightSet cs s = rev (dropWhile (\<lambda>c. c \<in> set cs) (rev s))"

definition TrimSet :: "char list \<Rightarrow> string \<Rightarrow> string" where
  "TrimSet cs s = TrimRightSet cs (dropWhile (\<lambda>c. c \<in> set cs) s)"

definition TrimSuffix :: "string \<Rightarrow> string \<Rightarrow> string" where
  "TrimSuffix suf s = (if HasSuffix s suf then take (length s - length suf) s else s)"

lemma TrimRightSet_id: "s = [] \<or> last s \<notin> set cs \<Longrightarrow> TrimRightSet cs s = s"
  by (cases s rule: rev_cases) (auto simp: TrimRightSet_def)


subsection \<open>White space: TrimSpace and Fields\<close>

text \<open>
  The UTF-8 encodings of the runes that \<open>unicode.IsSpace\<close> accepts: the ASCII ones, U+0085,
  U+00A0, U+1680, U+2000 to U+200A, U+2028, U+2029, U+202F, U+205F and U+3000.
\<close>

definition go_spaces :: "string list" where
  "go_spaces =
     [[CHR 0x20], [CHR 0x0A], [CHR 0x09], [CHR 0x0D], [CHR 0x0B], [CHR 0x0C],
      [CHR 0xC2, CHR 0x85], [CHR 0xC2, CHR 0xA0], [CHR 0xE1, CHR 0x9A, CHR 0x80],
      [CHR 0xE2, CHR 0x80, CHR 0x80], [CHR 0xE2, CHR 0x80, CHR 0x81],
      [CHR 0xE2, CHR 0x80, CHR 0x82], [CHR 0xE2, CHR 0x80, CHR 0x83],
      [CHR 0xE2, CHR 0x80, CHR 0x84], [CHR 0xE2, CHR 0x80, CHR 0x85],
      [CHR 0xE2, CHR 0x80, CHR 0x86], [CHR 0xE2, CHR 0x80, CHR 0x87],
      [CHR 0xE2, CHR 0x80, CHR 0x88], [CHR 0xE2, CHR 0x80, CHR 0x89],
      [CHR 0xE2, CHR 0x80, CHR 0x8A], [CHR 0xE2, CHR 0x80, CHR 0xA8],
      [CHR 0xE2, CHR 0x80, CHR 0xA9], [CHR 0xE2, CHR 0x80, CHR 0xAF],
      [CHR 0xE2, CHR 0x81, CHR 0x9F], [CHR 0xE3, CHR 0x80, CHR 0x80]]"

definition lead_word :: "string list \<Rightarrow> string \<Rightarrow> string option" where
  "lead_word ws s = find (\<lambda>w. w \<noteq> [] \<and> prefix w s) ws"

lemma lead_word_Some: "lead_word ws s = Some w \<Longrightarrow> w \<noteq> [] \<and> prefix w s \<and> w \<in> set ws"
  by (auto simp: lead_word_def find_Some_iff)

text \<open>Drop the leading words of a list, as the trimming loop drops leading runes.\<close>

function trim_words :: "string list \<Rightarrow> string \<Rightarrow> string" where
  "trim_words ws s =
     (case lead_word ws s of None \<Rightarrow> s | Some w \<Rightarrow> trim_words ws (drop (length w) s))"
  by pat_completeness auto
termination
proof (relation "measure (\<lambda>(ws, s). length s)", goal_cases)
  case (2 ws s w)
  then have "w \<noteq> []" "prefix w s" by (auto dest: lead_word_Some)
  then show ?case by (auto simp: prefix_def)
qed simp

declare trim_words.simps [simp del]

definition TrimSpace :: "string \<Rightarrow> string" where
  "TrimSpace s = rev (trim_words (map rev go_spaces) (rev (trim_words go_spaces s)))"

lemma trim_words_id: "(\<And>w. w \<in> set ws \<Longrightarrow> w \<noteq> [] \<Longrightarrow> \<not> prefix w s) \<Longrightarrow> trim_words ws s = s"
proof -
  assume "\<And>w. w \<in> set ws \<Longrightarrow> w \<noteq> [] \<Longrightarrow> \<not> prefix w s"
  then have "lead_word ws s = None" by (auto simp: lead_word_def find_None_iff)
  then show ?thesis by (simp add: trim_words.simps)
qed

lemma go_spaces_not_graph:
  "w \<in> set go_spaces \<Longrightarrow> w \<noteq> [] \<and> \<not> is_graph (hd w) \<and> \<not> is_graph (last w)"
  by (auto simp: go_spaces_def is_graph_def byte_def)

lemma trim_words_graph:
  assumes "s = [] \<or> is_graph (hd s)"
  shows "trim_words go_spaces s = s" and "trim_words (map rev go_spaces) s = s"
proof -
  have 1: "\<not> prefix w s" if "w \<in> set go_spaces" for w
    using go_spaces_not_graph [OF that] assms by (cases w; cases s) auto
  have 2: "\<not> prefix (rev w) s" if "w \<in> set go_spaces" for w
    using go_spaces_not_graph [OF that] assms by (cases w rule: rev_cases; cases s) auto
  show "trim_words go_spaces s = s" by (rule trim_words_id) (simp add: 1)
  show "trim_words (map rev go_spaces) s = s" by (rule trim_words_id) (auto simp: 2)
qed

text \<open>A string whose first and last bytes are visible ASCII is its own trimming.\<close>

definition visible_ends :: "string \<Rightarrow> bool" where
  "visible_ends s \<longleftrightarrow> s = [] \<or> is_graph (hd s) \<and> is_graph (last s)"

lemma TrimSpace_visible [simp]: "visible_ends s \<Longrightarrow> TrimSpace s = s"
proof -
  assume v: "visible_ends s"
  then have "trim_words go_spaces s = s"
    by (intro trim_words_graph) (auto simp: visible_ends_def)
  moreover from v have "trim_words (map rev go_spaces) (rev s) = rev s"
    by (intro trim_words_graph) (auto simp: visible_ends_def hd_rev)
  ultimately show ?thesis by (simp add: TrimSpace_def)
qed

lemma visible_ends_Nil [simp]: "visible_ends []"
  by (simp add: visible_ends_def)

lemma visible_ends_graph: "(\<And>c. c \<in> set s \<Longrightarrow> is_graph c) \<Longrightarrow> visible_ends s"
  by (cases s) (auto simp: visible_ends_def)

lemma visible_ends_append:
  "s \<noteq> [] \<Longrightarrow> is_graph (hd s) \<Longrightarrow> t \<noteq> [] \<Longrightarrow> is_graph (last t) \<Longrightarrow> visible_ends (s @ t)"
  by (simp add: visible_ends_def)

lemma trim_words_suffix: "suffix (trim_words ws s) s"
proof (induction ws s rule: trim_words.induct)
  case (1 ws s)
  show ?case
  proof (cases "lead_word ws s")
    case None
    then show ?thesis by (simp add: trim_words.simps)
  next
    case (Some w)
    with "1.IH" have "suffix (trim_words ws (drop (length w) s)) (drop (length w) s)"
      by simp
    then have "suffix (trim_words ws (drop (length w) s)) s"
      using suffix_drop suffix_order.trans by blast
    with Some show ?thesis by (simp add: trim_words.simps [of ws s])
  qed
qed

lemma set_TrimSpace: "set (TrimSpace s) \<subseteq> set s"
proof -
  have sub: "set (trim_words ws t) \<subseteq> set t" for ws t
    using trim_words_suffix by (rule set_mono_suffix)
  have "set (TrimSpace s) \<subseteq> set (trim_words go_spaces s)"
    using sub [of "map rev go_spaces" "rev (trim_words go_spaces s)"] by (simp add: TrimSpace_def)
  also have "\<dots> \<subseteq> set s" by (rule sub)
  finally show ?thesis .
qed

text \<open>Trailing visible text followed by one newline is trimmed to the text.\<close>

lemma TrimSpace_newline: "visible_ends s \<Longrightarrow> TrimSpace (s @ [NL]) = s"
proof -
  assume v: "visible_ends s"
  have l1: "lead_word (map rev go_spaces) (NL # t) = Some [NL]" for t
    by (simp add: lead_word_def go_spaces_def)
  show ?thesis
  proof (cases s)
    case Nil
    have "lead_word go_spaces [NL] = Some [NL]" by (simp add: lead_word_def go_spaces_def)
    then have "trim_words go_spaces [NL] = []"
      by (simp add: trim_words.simps [of go_spaces "[NL]"] trim_words_graph)
    with Nil show ?thesis by (simp add: TrimSpace_def trim_words_graph)
  next
    case (Cons a as)
    then have "trim_words go_spaces (s @ [NL]) = s @ [NL]"
      using v by (intro trim_words_graph) (simp add: visible_ends_def)
    moreover have "trim_words (map rev go_spaces) (NL # rev s) = rev s"
      using v Cons by (subst trim_words.simps)
        (simp add: l1, rule trim_words_graph, auto simp: visible_ends_def hd_append hd_rev)
    ultimately show ?thesis by (simp add: TrimSpace_def)
  qed
qed

text \<open>\<open>strings.Fields\<close>: the maximal runs of bytes that are not white space.\<close>

function fields_from :: "string \<Rightarrow> string \<Rightarrow> string list" where
  "fields_from cur s =
     (case lead_word go_spaces s of
        Some w \<Rightarrow> (if cur = [] then id else Cons (rev cur)) (fields_from [] (drop (length w) s))
      | None \<Rightarrow> (case s of
            [] \<Rightarrow> (if cur = [] then [] else [rev cur])
          | c # cs \<Rightarrow> fields_from (c # cur) cs))"
  by pat_completeness auto
termination
  by (relation "measure (\<lambda>(cur, s). length s)") (auto dest!: lead_word_Some simp: prefix_def)

declare fields_from.simps [simp del]

definition Fields :: "string \<Rightarrow> string list" where
  "Fields s = fields_from [] s"

lemma lead_word_graph [simp]: "is_graph c \<Longrightarrow> lead_word go_spaces (c # cs) = None"
proof -
  assume c: "is_graph c"
  have "\<not> prefix w (c # cs)" if "w \<in> set go_spaces" for w
    using go_spaces_not_graph [OF that] c by (cases w) auto
  then show ?thesis by (auto simp: lead_word_def find_None_iff)
qed

lemma lead_word_space [simp]: "lead_word go_spaces (CHR '' '' # cs) = Some ('' '')"
  by (simp add: lead_word_def go_spaces_def)

lemma lead_word_Nil [simp]: "lead_word ws [] = None"
  by (auto simp: lead_word_def find_None_iff)

lemma fields_from_word:
  "(\<And>c. c \<in> set w \<Longrightarrow> is_graph c) \<Longrightarrow> fields_from cur (w @ s) = fields_from (rev w @ cur) s"
proof (induction w arbitrary: cur)
  case (Cons c cs)
  then have "fields_from cur ((c # cs) @ s) = fields_from (c # cur) (cs @ s)"
    by (subst fields_from.simps) simp
  with Cons show ?case by simp
qed simp

lemma Fields_Nil [simp]: "Fields [] = []"
  by (simp add: Fields_def fields_from.simps)

lemma Fields_word:
  "w \<noteq> [] \<Longrightarrow> (\<And>c. c \<in> set w \<Longrightarrow> is_graph c) \<Longrightarrow> Fields w = [w]"
  using fields_from_word [of w "[]" "[]"] by (simp add: Fields_def fields_from.simps)

lemma Fields_word_space:
  "w \<noteq> [] \<Longrightarrow> (\<And>c. c \<in> set w \<Longrightarrow> is_graph c) \<Longrightarrow> Fields (w @ CHR '' '' # s) = w # Fields s"
  using fields_from_word [of w "[]" "CHR '' '' # s"]
  by (simp add: Fields_def fields_from.simps [of "rev w" "CHR '' '' # s"])


subsection \<open>Package strconv\<close>

definition digit_char :: "nat \<Rightarrow> char" where
  "digit_char d = char_of (48 + d)"

fun itoa_nat :: "nat \<Rightarrow> string" where
  "itoa_nat n =
     (if n < 10 then [digit_char n] else itoa_nat (n div 10) @ [digit_char (n mod 10)])"

declare itoa_nat.simps [simp del]

definition Itoa :: "int \<Rightarrow> string" where
  "Itoa i = (if i < 0 then CHR ''-'' # itoa_nat (nat (- i)) else itoa_nat (nat i))"

text \<open>A non-empty run of digits (\<open>isDigits\<close>, \<open>isAllDigits\<close> in the sources).\<close>

definition all_digits :: "string \<Rightarrow> bool" where
  "all_digits s \<longleftrightarrow> s \<noteq> [] \<and> list_all is_digit s"

definition digits_value :: "string \<Rightarrow> nat" where
  "digits_value s = foldl (\<lambda>a c. a * 10 + (byte c - 48)) 0 s"

definition ParseUint :: "string \<Rightarrow> u64 option" where
  "ParseUint s =
     (if all_digits s \<and> digits_value s < 2 ^ 64 then Some (of_nat (digits_value s)) else None)"

definition ParseInt :: "string \<Rightarrow> int option" where
  "ParseInt s =
     (let (neg, d) = (case s of
          [] \<Rightarrow> (False, [])
        | c # cs \<Rightarrow> if c = CHR ''-'' then (True, cs) else if c = CHR ''+'' then (False, cs) else (False, s))
      in if \<not> all_digits d then None
         else let v = int (digits_value d); r = (if neg then - v else v)
              in if - (2 ^ 63) \<le> r \<and> r < 2 ^ 63 then Some r else None)"

definition Atoi :: "string \<Rightarrow> int option" where
  "Atoi s = ParseInt s"

lemma byte_digit_char: "d < 10 \<Longrightarrow> byte (digit_char d) = 48 + d"
  by (simp add: digit_char_def byte_def of_char_of)

lemma is_digit_digit_char [simp]: "d < 10 \<Longrightarrow> is_digit (digit_char d)"
  by (simp add: is_digit_def byte_digit_char)

lemma digits_value_snoc [simp]:
  "digits_value (s @ [c]) = digits_value s * 10 + (byte c - 48)"
  by (simp add: digits_value_def)

lemma itoa_nat_nonempty [simp]: "itoa_nat n \<noteq> []"
  by (subst itoa_nat.simps) simp

lemma itoa_nat_digits: "list_all is_digit (itoa_nat n)"
proof (induction n rule: itoa_nat.induct)
  case (1 n)
  then show ?case
    by (subst itoa_nat.simps) simp
qed

lemma all_digits_itoa_nat [simp]: "all_digits (itoa_nat n)"
  by (simp add: all_digits_def itoa_nat_digits)

lemma digits_value_itoa_nat [simp]: "digits_value (itoa_nat n) = n"
proof (induction n rule: itoa_nat.induct)
  case (1 n)
  show ?case
  proof (cases "n < 10")
    case True
    then show ?thesis
      by (subst itoa_nat.simps) (simp add: digits_value_def byte_digit_char)
  next
    case False
    then have "itoa_nat n = itoa_nat (n div 10) @ [digit_char (n mod 10)]"
      by (subst itoa_nat.simps) simp
    with 1 False show ?thesis by (simp add: byte_digit_char)
  qed
qed

lemma ParseUint_itoa [simp]: "n < 2 ^ 64 \<Longrightarrow> ParseUint (itoa_nat n) = Some (of_nat n)"
  by (simp add: ParseUint_def)

lemma ParseUint_unat [simp]: "ParseUint (itoa_nat (unat (x :: u64))) = Some x"
proof -
  have "unat x < 2 ^ 64" using unsigned_less [of x] by simp
  then show ?thesis by simp
qed

lemma all_digits_hd: "all_digits s \<Longrightarrow> \<exists>c cs. s = c # cs \<and> is_digit c"
  by (cases s) (auto simp: all_digits_def)

lemma ParseInt_digits:
  "all_digits s \<Longrightarrow> ParseInt s = (if digits_value s < 2 ^ 63 then Some (int (digits_value s)) else None)"
proof -
  assume d: "all_digits s"
  then obtain c cs where s: "s = c # cs" and c: "is_digit c" by (blast dest: all_digits_hd)
  from c have "c \<noteq> CHR ''-''" "c \<noteq> CHR ''+''" by (auto simp: is_digit_def byte_def)
  with s d show ?thesis by (simp add: ParseInt_def Let_def)
qed

lemma ParseInt_Itoa: "- (2 ^ 63) \<le> i \<Longrightarrow> i < 2 ^ 63 \<Longrightarrow> ParseInt (Itoa i) = Some i"
proof (cases "i < 0")
  case True
  then show "- (2 ^ 63) \<le> i \<Longrightarrow> i < 2 ^ 63 \<Longrightarrow> ParseInt (Itoa i) = Some i"
    by (simp add: Itoa_def ParseInt_def)
next
  case False
  moreover assume "i < 2 ^ 63"
  ultimately have "digits_value (itoa_nat (nat i)) < 2 ^ 63" by (simp add: nat_less_iff)
  with False show "ParseInt (Itoa i) = Some i"
    by (simp add: Itoa_def ParseInt_digits)
qed

lemma ParseInt_range: "ParseInt s = Some i \<Longrightarrow> - (2 ^ 63) \<le> i \<and> i < 2 ^ 63"
  by (auto simp: ParseInt_def Let_def split: if_splits prod.splits)

lemma Itoa_graph: "c \<in> set (Itoa i) \<Longrightarrow> is_graph c"
proof -
  have "is_graph d" if "d \<in> set (itoa_nat n)" for d n
    using that itoa_nat_digits [of n] by (auto simp: list_all_iff)
  moreover have "is_graph (CHR ''-'')" by (simp add: is_graph_def byte_def)
  moreover assume "c \<in> set (Itoa i)"
  ultimately show ?thesis by (auto simp: Itoa_def split: if_splits)
qed

lemma Itoa_nonempty [simp]: "Itoa i \<noteq> []"
  by (simp add: Itoa_def)

lemma itoa_nat_graph: "c \<in> set (itoa_nat n) \<Longrightarrow> is_digit c"
  using itoa_nat_digits [of n] by (simp add: list_all_iff)

lemma visible_ends_all_digits: "all_digits s \<Longrightarrow> visible_ends s"
  by (rule visible_ends_graph) (simp add: all_digits_def list_all_iff)

subsection \<open>Quoting, defaults and word overflow\<close>

text \<open>
  \<open>%q\<close> of \<open>fmt\<close> (\<open>strconv.Quote\<close>): a double-quoted Go literal. Bytes of multi-byte UTF-8 text are
  printed as they are, which is what \<open>strconv\<close> does for printable runes.
\<close>

definition hex_digit :: "nat \<Rightarrow> char" where
  "hex_digit n = (if n < 10 then char_of (48 + n) else char_of (87 + n))"

definition hex_encode :: "string \<Rightarrow> string" where
  "hex_encode s = concat (map (\<lambda>c. [hex_digit (byte c div 16), hex_digit (byte c mod 16)]) s)"

definition quote_byte :: "char \<Rightarrow> string" where
  "quote_byte c =
     (if c = DQ \<or> c = BSL then [BSL, c]
      else if byte c = 7 then BSL # ''a'' else if byte c = 8 then BSL # ''b''
      else if byte c = 12 then BSL # ''f'' else if c = NL then BSL # ''n''
      else if c = CR then BSL # ''r'' else if c = TAB then BSL # ''t''
      else if byte c = 11 then BSL # ''v''
      else if byte c < 32 \<or> byte c = 127
      then BSL # ''x'' @ [hex_digit (byte c div 16), hex_digit (byte c mod 16)]
      else [c])"

definition go_quote :: "string \<Rightarrow> string" where
  "go_quote s = [DQ] @ concat (map quote_byte s) @ [DQ]"

text \<open>An unset value falls back to its default.\<close>

definition or_default :: "string \<Rightarrow> string \<Rightarrow> string" where
  "or_default v d = (if v = [] then d else v)"

lemma word_overflow_iff:
  fixes a b :: u64
  shows "a + b < a \<longleftrightarrow> 2 ^ 64 \<le> unat a + unat b"
proof -
  have a: "unat a < 2 ^ 64" and b: "unat b < 2 ^ 64"
    using unsigned_less [of a] unsigned_less [of b] by simp_all
  have ab: "unat (a + b) = (unat a + unat b) mod 2 ^ 64"
    by (simp add: unat_word_ariths)
  show ?thesis
  proof (cases "unat a + unat b < 2 ^ 64")
    case True
    then show ?thesis using ab by (simp add: word_less_nat_alt)
  next
    case False
    then have "(unat a + unat b) mod 2 ^ 64 = unat a + unat b - 2 ^ 64"
      using a b by (simp add: mod_if)
    then show ?thesis using ab a b False unfolding word_less_nat_alt by linarith
  qed
qed

subsection \<open>Code equations on binary integers\<close>

text \<open>
  Evaluation represents \<open>nat\<close> in unary, so the conversions between numbers and text get code
  equations over \<open>int\<close>.
\<close>

function itoa_int :: "int \<Rightarrow> string" where
  "itoa_int i = (if i < 10 then [digit_char (nat i)] else itoa_int (i div 10) @ [digit_char (nat (i mod 10))])"
  by pat_completeness auto
termination
  by (relation "measure nat") auto

declare itoa_int.simps [simp del]

lemma itoa_int_nat: "0 \<le> i \<Longrightarrow> itoa_int i = itoa_nat (nat i)"
proof (induction i rule: itoa_int.induct)
  case (1 i)
  show ?case
  proof (cases "i < 10")
    case True
    with 1 show ?thesis by (simp add: itoa_int.simps [of i] itoa_nat.simps [of "nat i"] nat_less_iff)
  next
    case False
    then have "itoa_int (i div 10) = itoa_nat (nat (i div 10))" using 1 by simp
    with False show ?thesis
      by (simp add: itoa_int.simps [of i] itoa_nat.simps [of "nat i"] nat_less_iff nat_div_distrib nat_mod_distrib)
  qed
qed

lemma Itoa_code [code]: "Itoa i = (if i < 0 then CHR ''-'' # itoa_int (- i) else itoa_int i)"
  by (simp add: Itoa_def itoa_int_nat)

lemma itoa_unat_code [code_unfold]:
  fixes x :: u64
  shows "itoa_nat (unat x) = Itoa (uint x)"
  by (simp add: Itoa_def)

definition digits_int :: "string \<Rightarrow> int" where
  "digits_int s = foldl (\<lambda>a c. a * 10 + (int (byte c) - 48)) 0 s"

lemma digits_int: "list_all is_digit s \<Longrightarrow> digits_int s = int (digits_value s)"
proof (induction s rule: rev_induct)
  case (snoc c s)
  have "digits_int (s @ [c]) = digits_int s * 10 + (int (byte c) - 48)" by (simp add: digits_int_def)
  moreover have "48 \<le> byte c" using snoc.prems by (simp add: is_digit_def)
  then have "int (byte c) - 48 = int (byte c - 48)" by simp
  ultimately show ?case using snoc.IH snoc.prems by (simp only: list_all_append digits_value_snoc of_nat_add of_nat_mult of_nat_numeral)
qed (simp add: digits_int_def digits_value_def)

lemma ParseUint_code [code]:
  "ParseUint s = (if all_digits s then (let v = digits_int s in if v < 2 ^ 64 then Some (word_of_int v) else None) else None)"
proof -
  have "word_of_int (int n) = (of_nat n :: u64)" for n by simp
  moreover have "int n < 2 ^ 64 \<longleftrightarrow> n < 2 ^ 64" for n by simp
  ultimately show ?thesis by (simp add: ParseUint_def Let_def all_digits_def digits_int)
qed

lemma ParseInt_code [code]:
  "ParseInt s =
     (let (neg, d) = (case s of
          [] \<Rightarrow> (False, [])
        | c # cs \<Rightarrow> if c = CHR ''-'' then (True, cs) else if c = CHR ''+'' then (False, cs) else (False, s))
      in if \<not> all_digits d then None
         else let v = digits_int d; r = (if neg then - v else v)
              in if - (2 ^ 63) \<le> r \<and> r < 2 ^ 63 then Some r else None)"
proof -
  have d: "(if \<not> all_digits d then None else f (int (digits_value d))) = (if \<not> all_digits d then None else f (digits_int d))"
    for d and f :: "int \<Rightarrow> int option"
    by (simp add: all_digits_def digits_int)
  show ?thesis unfolding ParseInt_def Let_def by (subst d) (rule refl)
qed

definition is_some :: "'a option \<Rightarrow> bool" where
  "is_some x = (case x of None \<Rightarrow> False | Some _ \<Rightarrow> True)"

lemma is_some_the: "is_some x \<Longrightarrow> x = Some (the x)"
  by (cases x) (simp_all add: is_some_def)

end
