(* ===== verification/Fsx.thy ===== *)
theory Fsx
  imports Prelude
begin

text \<open>
  Package \<open>fsx\<close> and the world the node runs in.

  The world is a record: the file system (a finite map from absolute paths, as lists of
  components, to nodes with their kind, mode, owner and link count), the faults the operating
  system injects (for each operation and path, whether it fails in this run), the clock, the
  process identity, the environment, the event log and the store's name cache. Every
  operation of \<open>os\<close> and \<open>syscall\<close> that the sources use is a function of the world that
  returns an error or a value, and the new world; \<open>NotExist\<close> is the error \<open>os.IsNotExist\<close>
  recognises. Symbolic links are followed in the last component of a path only.

  Modelled here: \<open>name.go\<close> (the common-name rules), \<open>atomic.go\<close> (\<open>WriteFileAtomic\<close>) and
  \<open>permissions.go\<close> (directory walking, no-follow opening, \<open>SetPermissions\<close>), and the file
  lock \<open>store.Lock\<close>. The lemmas: the two common-name validators agree, an accepted name is a
  single safe path component, a successful atomic write replaces exactly one file, a failed
  one leaves every non-temporary file alone.
\<close>

subsection \<open>The file system\<close>

type_synonym path = "string list"
type_synonym perm = "12 word"

datatype kind = Dir | Reg string | Link path

record node =
  n_kind :: kind
  n_mode :: perm
  n_uid :: int
  n_gid :: int
  n_nlink :: nat

type_synonym fs = "(path, node) fmap"

datatype io_op =
    OpStat | OpRead | OpReadDir | OpMkdir | OpOpen | OpCreateTemp | OpWrite | OpChmod | OpChown
  | OpSync | OpClose | OpRename | OpRemove | OpFlock

datatype err = NotExist | Fault io_op | Err string

fun err_text :: "err \<Rightarrow> string" where
  "err_text NotExist = ''no such file or directory''"
| "err_text (Fault op) = ''input/output error''"
| "err_text (Err m) = m"

record 'v cache =
  c_at :: int
  c_dir :: path
  c_data :: "(string, 'v) fmap option"
  c_ttl :: int

record world =
  w_fs :: fs
  w_fault :: "io_op \<Rightarrow> path \<Rightarrow> bool"
  w_now :: int
  w_nanos :: int
  w_epochs :: u64
  w_rand :: "string option"
  w_pid :: int
  w_euid :: int
  w_egid :: int
  w_env :: "string \<Rightarrow> string option"
  w_envfile :: "(string, string) fmap"
  w_groups :: "string \<Rightarrow> string option"
  w_events :: "string list"
  w_syslog :: "string list"
  w_names :: "string cache"
  w_usage_cache :: "u64 cache"

type_synonym 'a res = "err + 'a"
type_synonym 'a io = "world \<Rightarrow> 'a res \<times> world"

abbreviation fault :: "world \<Rightarrow> io_op \<Rightarrow> path \<Rightarrow> bool" where
  "fault w op p \<equiv> w_fault w op p"

abbreviation look :: "world \<Rightarrow> path \<Rightarrow> node option" where
  "look w p \<equiv> fmlookup (w_fs w) p"

definition put :: "path \<Rightarrow> node \<Rightarrow> world \<Rightarrow> world" where
  "put p nd w = w\<lparr>w_fs := fmupd p nd (w_fs w)\<rparr>"

definition del :: "path \<Rightarrow> world \<Rightarrow> world" where
  "del p w = w\<lparr>w_fs := fmdrop p (w_fs w)\<rparr>"

text \<open>Octal permission constants of the sources.\<close>

abbreviation perm_0022 :: perm where "perm_0022 \<equiv> 0x012"
abbreviation perm_0600 :: perm where "perm_0600 \<equiv> 0x180"
abbreviation perm_0640 :: perm where "perm_0640 \<equiv> 0x1A0"
abbreviation perm_0644 :: perm where "perm_0644 \<equiv> 0x1A4"
abbreviation perm_0660 :: perm where "perm_0660 \<equiv> 0x1B0"
abbreviation perm_0700 :: perm where "perm_0700 \<equiv> 0x1C0"
abbreviation perm_0750 :: perm where "perm_0750 \<equiv> 0x1E8"
abbreviation perm_0755 :: perm where "perm_0755 \<equiv> 0x1ED"
abbreviation perm_0770 :: perm where "perm_0770 \<equiv> 0x1F8"
abbreviation perm_2750 :: perm where "perm_2750 \<equiv> 0x5E8"
abbreviation perm_2770 :: perm where "perm_2770 \<equiv> 0x5F8"

unbundle bit_operations_syntax

subsection \<open>Package os\<close>

text \<open>Resolution of a symbolic link in the last component, with Linux's limit of 40 hops.\<close>

fun follow :: "nat \<Rightarrow> fs \<Rightarrow> path \<Rightarrow> (path \<times> node) res" where
  "follow 0 f p = Inl (Err ''too many levels of symbolic links'')"
| "follow (Suc k) f p = (case fmlookup f p of
      None \<Rightarrow> Inl NotExist
    | Some nd \<Rightarrow> (case n_kind nd of Link t \<Rightarrow> follow k f t | _ \<Rightarrow> Inr (p, nd)))"

definition max_links :: nat where "max_links = 40"

definition os_Stat :: "world \<Rightarrow> path \<Rightarrow> node res" where
  "os_Stat w p = (if fault w OpStat p then Inl (Fault OpStat)
     else case follow max_links (w_fs w) p of Inl e \<Rightarrow> Inl e | Inr (_, nd) \<Rightarrow> Inr nd)"

definition os_Lstat :: "world \<Rightarrow> path \<Rightarrow> node res" where
  "os_Lstat w p = (if fault w OpStat p then Inl (Fault OpStat)
     else case look w p of None \<Rightarrow> Inl NotExist | Some nd \<Rightarrow> Inr nd)"

definition os_ReadFile :: "world \<Rightarrow> path \<Rightarrow> string res" where
  "os_ReadFile w p = (if fault w OpRead p then Inl (Fault OpRead)
     else case follow max_links (w_fs w) p of
       Inl e \<Rightarrow> Inl e
     | Inr (_, nd) \<Rightarrow> (case n_kind nd of Reg c \<Rightarrow> Inr c | _ \<Rightarrow> Inl (Err ''is a directory'')))"

definition child_names :: "fs \<Rightarrow> path \<Rightarrow> string list" where
  "child_names f d = sorted_list_of_fset (last |`| ffilter (\<lambda>p. p \<noteq> [] \<and> butlast p = d) (fmdom f))"

text \<open>\<open>os.ReadDir\<close>: the entries of a directory in the order of their names, with their nodes.\<close>

definition os_ReadDir :: "world \<Rightarrow> path \<Rightarrow> (string \<times> node) list res" where
  "os_ReadDir w p = (if fault w OpReadDir p then Inl (Fault OpReadDir)
     else case follow max_links (w_fs w) p of
       Inl e \<Rightarrow> Inl e
     | Inr (q, nd) \<Rightarrow> (case n_kind nd of
           Dir \<Rightarrow> Inr (map (\<lambda>n. (n, the (look w (q @ [n])))) (child_names (w_fs w) q))
         | _ \<Rightarrow> Inl (Err ''not a directory'')))"

definition is_dir :: "node \<Rightarrow> bool" where
  "is_dir nd \<longleftrightarrow> n_kind nd = Dir"

definition is_regular :: "node \<Rightarrow> bool" where
  "is_regular nd \<longleftrightarrow> (case n_kind nd of Reg _ \<Rightarrow> True | _ \<Rightarrow> False)"

definition os_Remove :: "path \<Rightarrow> unit io" where
  "os_Remove p w = (if fault w OpRemove p then (Inl (Fault OpRemove), w)
     else case look w p of
       None \<Rightarrow> (Inl NotExist, w)
     | Some nd \<Rightarrow> if is_dir nd \<and> child_names (w_fs w) p \<noteq> []
                   then (Inl (Err ''directory not empty''), w)
                   else (Inr (), del p w))"

definition os_RemoveAll :: "path \<Rightarrow> unit io" where
  "os_RemoveAll p w = (if fault w OpRemove p then (Inl (Fault OpRemove), w)
     else (Inr (), w\<lparr>w_fs := fmfilter (\<lambda>q. \<not> prefix p q) (w_fs w)\<rparr>))"

text \<open>The group of a new file: the parent's when the parent carries the set-group bit.\<close>

definition new_gid :: "world \<Rightarrow> path \<Rightarrow> int" where
  "new_gid w d = (case look w d of
      Some nd \<Rightarrow> if n_mode nd AND 0x400 \<noteq> 0 then n_gid nd else w_egid w
    | None \<Rightarrow> w_egid w)"

definition new_dir :: "world \<Rightarrow> path \<Rightarrow> perm \<Rightarrow> node" where
  "new_dir w d mode = \<lparr>n_kind = Dir, n_mode = mode, n_uid = w_euid w, n_gid = new_gid w d, n_nlink = 2\<rparr>"

definition new_file :: "world \<Rightarrow> path \<Rightarrow> perm \<Rightarrow> string \<Rightarrow> node" where
  "new_file w d mode c = \<lparr>n_kind = Reg c, n_mode = mode, n_uid = w_euid w, n_gid = new_gid w d, n_nlink = 1\<rparr>"

text \<open>\<open>os.MkdirAll\<close>: creates every missing directory on the way.\<close>

fun mkdir_parts :: "path \<Rightarrow> string list \<Rightarrow> perm \<Rightarrow> unit io" where
  "mkdir_parts cur [] mode w = (Inr (), w)"
| "mkdir_parts cur (part # rest) mode w =
     (let p = cur @ [part] in
      case os_Stat w p of
        Inr nd \<Rightarrow> if is_dir nd then mkdir_parts p rest mode w else (Inl (Err ''not a directory''), w)
      | Inl e \<Rightarrow> if fault w OpMkdir p then (Inl (Fault OpMkdir), w)
                  else if look w p \<noteq> None then (Inl e, w)
                  else mkdir_parts p rest mode (put p (new_dir w cur mode) w))"

definition os_MkdirAll :: "path \<Rightarrow> perm \<Rightarrow> unit io" where
  "os_MkdirAll p mode w = mkdir_parts [] p mode w"


subsection \<open>name.go: common names\<close>

definition is_alnum :: "char \<Rightarrow> bool" where
  "is_alnum c \<longleftrightarrow> is_upper c \<or> is_lower c \<or> is_digit c"

definition first_ok :: "char \<Rightarrow> bool" where
  "first_ok c \<longleftrightarrow> is_alnum c \<or> c = CHR ''_''"

definition name_ok :: "char \<Rightarrow> bool" where
  "name_ok c \<longleftrightarrow> is_alnum c \<or> c = CHR ''_'' \<or> c = CHR ''.'' \<or> c = CHR ''-''"

definition StoreKeyRe :: "string \<Rightarrow> bool" where
  "StoreKeyRe s = (case s of
      [] \<Rightarrow> False
    | c # cs \<Rightarrow> first_ok c \<and> list_all name_ok cs \<and> length cs \<le> 63)"

definition HookCNRe :: "string \<Rightarrow> bool" where
  "HookCNRe s = (case s of [] \<Rightarrow> False | c # cs \<Rightarrow> first_ok c \<and> list_all name_ok cs)"

definition bad_cn :: "string \<Rightarrow> err" where
  "bad_cn cn = Err (''invalid common name: '' @ go_quote cn)"

definition SafeCN :: "string \<Rightarrow> string res" where
  "SafeCN cn0 =
     (let cn = TrimSpace cn0 in
      if cn = [] \<or> cn = ''.'' \<or> cn = ''..'' \<or> hd cn = CHR ''.'' then Inl (bad_cn cn)
      else if \<not> StoreKeyRe cn then Inl (bad_cn cn)
      else if hd cn = CHR ''-'' then Inl (bad_cn cn)
      else Inr cn)"

definition Sanitize :: "string \<Rightarrow> string" where
  "Sanitize s = map (\<lambda>c. if name_ok c then c else CHR ''_'') s"

definition HookCNValid :: "string \<Rightarrow> bool" where
  "HookCNValid safe =
     (if safe = [] \<or> 64 < length safe then False
      else if safe = ''.'' \<or> safe = ''..'' \<or> hd safe = CHR ''.'' then False
      else HookCNRe safe)"

lemma name_ok_graph: "name_ok c \<Longrightarrow> is_graph c"
  by (auto simp: name_ok_def is_alnum_def byte_class_defs)

lemma first_ok_name_ok: "first_ok c \<Longrightarrow> name_ok c"
  by (auto simp: first_ok_def name_ok_def)

lemma first_ok_not: "first_ok c \<Longrightarrow> c \<noteq> CHR ''.'' \<and> c \<noteq> CHR ''-''"
  by (auto simp: first_ok_def is_alnum_def byte_class_defs)

lemma StoreKeyRe_name_ok: "StoreKeyRe s \<Longrightarrow> list_all name_ok s"
  by (auto simp: StoreKeyRe_def first_ok_name_ok split: list.splits)

lemma StoreKeyRe_nonempty: "StoreKeyRe s \<Longrightarrow> s \<noteq> []"
  by (auto simp: StoreKeyRe_def)

lemma StoreKeyRe_trim [simp]: "StoreKeyRe s \<Longrightarrow> TrimSpace s = s"
  using StoreKeyRe_name_ok [of s]
  by (auto simp: list_all_iff intro!: TrimSpace_visible visible_ends_graph name_ok_graph)

lemma StoreKeyRe_hd: "StoreKeyRe s \<Longrightarrow> hd s \<noteq> CHR ''.'' \<and> hd s \<noteq> CHR ''-''"
  by (auto simp: StoreKeyRe_def first_ok_not split: list.splits)

lemma SafeCN_StoreKeyRe [simp]: "StoreKeyRe s \<Longrightarrow> SafeCN s = Inr s"
  using StoreKeyRe_hd [of s] StoreKeyRe_nonempty [of s] by (auto simp: SafeCN_def)

lemma SafeCN_iff: "SafeCN cn = Inr s \<longleftrightarrow> StoreKeyRe s \<and> TrimSpace cn = s"
proof -
  have "SafeCN cn = SafeCN (TrimSpace cn)" if "StoreKeyRe (TrimSpace cn)"
    using that by (simp add: SafeCN_def)
  then show ?thesis
    by (cases "StoreKeyRe (TrimSpace cn)")
       (simp, auto simp: SafeCN_def Let_def split: if_splits)
qed

lemma SafeCN_key: "SafeCN cn = Inr s \<Longrightarrow> StoreKeyRe s"
  by (simp add: SafeCN_iff)

lemma HookCNValid_iff: "HookCNValid s \<longleftrightarrow> StoreKeyRe s"
  by (cases s) (auto simp: HookCNValid_def StoreKeyRe_def HookCNRe_def dest: first_ok_not)

lemma name_ok_underscore [simp]: "name_ok CHR ''_''"
  by (simp add: name_ok_def)

lemma Sanitize_name_ok: "list_all name_ok (Sanitize s)"
  by (auto simp: Sanitize_def list_all_iff)

lemma Sanitize_id_iff: "Sanitize s = s \<longleftrightarrow> list_all name_ok s"
proof
  assume "Sanitize s = s"
  then show "list_all name_ok s" using Sanitize_name_ok [of s] by simp
next
  assume "list_all name_ok s"
  then show "Sanitize s = s" by (simp add: Sanitize_def list_all_iff map_idI)
qed

lemma Sanitize_idem [simp]: "Sanitize (Sanitize s) = Sanitize s"
  by (simp add: Sanitize_id_iff Sanitize_name_ok)

lemma length_Sanitize [simp]: "length (Sanitize s) = length s"
  by (simp add: Sanitize_def)

lemma Sanitize_Nil_iff [simp]: "Sanitize s = [] \<longleftrightarrow> s = []"
  by (simp add: Sanitize_def)

subsection \<open>permissions.go: directories and files opened without following links\<close>

text \<open>\<open>openat\<close> with \<open>O_DIRECTORY|O_NOFOLLOW\<close> on one component.\<close>

definition openat_dir :: "world \<Rightarrow> path \<Rightarrow> node res" where
  "openat_dir w p = (if fault w OpOpen p then Inl (Fault OpOpen)
     else case look w p of
       None \<Rightarrow> Inl NotExist
     | Some nd \<Rightarrow> if is_dir nd then Inr nd else Inl (Err ''not a directory''))"

text \<open>
  The body of the creating branch: the parent must be owned by the process and must not be
  writable by group or others; the new directory gets its mode by \<open>fchmod\<close>.
\<close>

definition create_part :: "path \<Rightarrow> string \<Rightarrow> perm \<Rightarrow> unit io" where
  "create_part cur part mode w =
     (let p = cur @ [part] in
      case look w cur of
        None \<Rightarrow> (Inl (Fault OpStat), w)
      | Some parent \<Rightarrow>
          if n_uid parent \<noteq> w_euid w \<or> n_mode parent AND perm_0022 \<noteq> 0
          then (Inl (Err ''cannot safely create a directory under a writable or unowned parent''), w)
          else if fault w OpMkdir p then (Inl (Fault OpMkdir), w)
          else let w1 = put p (new_dir w cur mode) w
               in if fault w OpChmod p then (Inl (Fault OpChmod), w1) else (Inr (), w1))"

text \<open>
  The walk over the components. \<open>filepath.Abs\<close> returns a clean path, so the only empty part is
  the one of the root itself, which is the empty list here.
\<close>

fun openDirectory_parts :: "path \<Rightarrow> string list \<Rightarrow> bool \<Rightarrow> perm \<Rightarrow> unit io" where
  "openDirectory_parts cur [] create perm w = (Inr (), w)"
| "openDirectory_parts cur (part # rest) create perm w =
     (case openat_dir w (cur @ [part]) of
        Inr _ \<Rightarrow> openDirectory_parts (cur @ [part]) rest create perm w
      | Inl e \<Rightarrow>
          if e = NotExist \<and> create then
            (case create_part cur part (if rest = [] then perm else perm_0755) w of
               (Inl e', w1) \<Rightarrow> (Inl e', w1)
             | (Inr _, w1) \<Rightarrow> openDirectory_parts (cur @ [part]) rest create perm w1)
          else (Inl e, w))"

definition openDirectory :: "path \<Rightarrow> bool \<Rightarrow> perm \<Rightarrow> unit io" where
  "openDirectory p create perm w = openDirectory_parts [] p create perm w"

definition MkdirAllNoFollow :: "path \<Rightarrow> perm \<Rightarrow> unit io" where
  "MkdirAllNoFollow p perm w = openDirectory p True perm w"

text \<open>\<open>openPathNoFollow\<close>; \<open>create\<close> is the presence of \<open>O_CREATE\<close> in the flags.\<close>

definition openPathNoFollow :: "path \<Rightarrow> bool \<Rightarrow> perm \<Rightarrow> node io" where
  "openPathNoFollow p create perm w =
     (case openDirectory (butlast p) False 0 w of
        (Inl e, w1) \<Rightarrow> (Inl e, w1)
      | (Inr _, w1) \<Rightarrow>
          if fault w1 OpOpen p then (Inl (Fault OpOpen), w1)
          else (case look w1 p of
             Some nd \<Rightarrow> (case n_kind nd of
                 Link _ \<Rightarrow> (Inl (Err ''too many levels of symbolic links''), w1)
               | _ \<Rightarrow> (Inr nd, w1))
           | None \<Rightarrow> if create
                      then (let nd = new_file w1 (butlast p) perm [] in (Inr nd, put p nd w1))
                      else (Inl NotExist, w1)))"

definition OpenFileNoFollow :: "path \<Rightarrow> bool \<Rightarrow> perm \<Rightarrow> node io" where
  "OpenFileNoFollow p create perm w =
     (case openPathNoFollow p create perm w of
        (Inl e, w1) \<Rightarrow> (Inl e, w1)
      | (Inr nd, w1) \<Rightarrow>
          if fault w1 OpStat p then (Inl (Fault OpStat), w1)
          else if \<not> is_regular nd \<or> n_nlink nd \<noteq> 1
          then (Inl (Err ''is not a single-link regular file''), w1)
          else (Inr nd, w1))"

definition SetPermissions :: "path \<Rightarrow> perm \<Rightarrow> int \<Rightarrow> int \<Rightarrow> unit io" where
  "SetPermissions p perm uid gid w =
     (case openPathNoFollow p False 0 w of
        (Inl e, w1) \<Rightarrow> (Inl e, w1)
      | (Inr nd, w1) \<Rightarrow>
          if fault w1 OpStat p then (Inl (Fault OpStat), w1)
          else if is_regular nd \<and> n_nlink nd = 0 then (Inl NotExist, w1)
          else if \<not> is_dir nd \<and> (\<not> is_regular nd \<or> n_nlink nd \<noteq> 1)
          then (Inl (Err ''is not a directory or single-link regular file''), w1)
          else
            (let r = (if (0 \<le> uid \<and> n_uid nd \<noteq> uid) \<or> (0 \<le> gid \<and> n_gid nd \<noteq> gid) then
                   (let restricted = n_mode nd AND perm in
                    if restricted \<noteq> n_mode nd \<and> fault w1 OpChmod p then (Inl (Fault OpChmod), w1)
                    else let nd1 = (if restricted \<noteq> n_mode nd then nd\<lparr>n_mode := restricted\<rparr> else nd);
                             w2 = put p nd1 w1
                         in if fault w1 OpChown p then (Inl (Fault OpChown), w2)
                            else let nd2 = nd1\<lparr>n_uid := (if 0 \<le> uid then uid else n_uid nd1),
                                               n_gid := (if 0 \<le> gid then gid else n_gid nd1)\<rparr>
                                 in (Inr nd2, put p nd2 w2))
                 else (Inr nd, w1))
             in case r of
                  (Inl e, w2) \<Rightarrow> (Inl e, w2)
                | (Inr nd2, w2) \<Rightarrow>
                    if n_mode nd2 \<noteq> perm then
                      (if fault w2 OpChmod p then (Inl (Fault OpChmod), w2)
                       else (Inr (), put p (nd2\<lparr>n_mode := perm\<rparr>) w2))
                    else (Inr (), w2)))"

subsection \<open>atomic.go: WriteFileAtomic\<close>

text \<open>
  \<open>os.CreateTemp(dir, ".tmp-*")\<close>: the star is replaced by a number that makes the name new.
  The model takes the least such number.
\<close>

definition fresh_name :: "string \<Rightarrow> fs \<Rightarrow> path \<Rightarrow> path" where
  "fresh_name pre f d =
     d @ [pre @ itoa_nat (the (find (\<lambda>k. d @ [pre @ itoa_nat k] |\<notin>| fmdom f) [0..<Suc (fcard (fmdom f))]))]"

definition fresh_tmp :: "fs \<Rightarrow> path \<Rightarrow> path" where
  "fresh_tmp f d = fresh_name ''.tmp-'' f d"

definition WriteFileAtomic :: "path \<Rightarrow> string \<Rightarrow> perm \<Rightarrow> unit io" where
  "WriteFileAtomic p data perm w =
     (let dir = butlast p; tmp = fresh_tmp (w_fs w) dir in
      if fault w OpCreateTemp p \<or> \<not> (case os_Stat w dir of Inr nd \<Rightarrow> is_dir nd | Inl _ \<Rightarrow> False)
      then (Inl (Fault OpCreateTemp), w)
      else
        (let w1 = put tmp (new_file w dir perm_0600 []) w;
             fail = (\<lambda>op wx. (Inl (Fault op), snd (os_Remove tmp wx))) in
         if fault w OpWrite p then fail OpWrite w1
         else let w2 = put tmp (new_file w dir perm_0600 data) w1 in
         if fault w OpChmod p then fail OpChmod w2
         else let w3 = put tmp (new_file w dir perm data) w2 in
         if fault w OpSync p then fail OpSync w3
         else if fault w OpClose p then fail OpClose w3
         else if fault w OpRename p \<or> (case look w3 p of Some nd \<Rightarrow> is_dir nd | None \<Rightarrow> False)
         then fail OpRename w3
         else (Inr (), put p (new_file w dir perm data) (del tmp w3))))"

subsection \<open>store.Lock\<close>

definition Lock :: "path \<Rightarrow> perm \<Rightarrow> 'a io \<Rightarrow> 'a io" where
  "Lock p perm fn w =
     (case OpenFileNoFollow p True perm w of
        (Inl e, w1) \<Rightarrow> (Inl e, w1)
      | (Inr nd, w1) \<Rightarrow>
          if fault w1 OpFlock p then (Inl (Fault OpFlock), w1)
          else if fault w1 OpStat p then (Inl (Fault OpStat), w1)
          else if n_mode nd \<noteq> perm then
            (if fault w1 OpChmod p then (Inl (Fault OpChmod), w1)
             else fn (put p (nd\<lparr>n_mode := perm\<rparr>) w1))
          else fn w1)"


subsection \<open>Frames\<close>

text \<open>
  \<open>frame P w w'\<close>: from \<open>w\<close> to \<open>w'\<close> only paths in \<open>P\<close> may have changed, and the environment
  (faults, clock, identity) is the same.
\<close>

definition same_env :: "world \<Rightarrow> world \<Rightarrow> bool" where
  "same_env w w' \<longleftrightarrow> w_fault w' = w_fault w \<and> w_now w' = w_now w \<and> w_nanos w' = w_nanos w
     \<and> w_rand w' = w_rand w \<and> w_pid w' = w_pid w \<and> w_euid w' = w_euid w \<and> w_egid w' = w_egid w
     \<and> w_env w' = w_env w \<and> w_envfile w' = w_envfile w \<and> w_groups w' = w_groups w"

definition frame :: "(path \<Rightarrow> bool) \<Rightarrow> world \<Rightarrow> world \<Rightarrow> bool" where
  "frame P w w' \<longleftrightarrow> same_env w w' \<and> (\<forall>q. \<not> P q \<longrightarrow> look w' q = look w q)"

text \<open>The in-memory part of the world is the same.\<close>

definition same_mem :: "world \<Rightarrow> world \<Rightarrow> bool" where
  "same_mem w w' \<longleftrightarrow> w_epochs w' = w_epochs w \<and> w_events w' = w_events w
     \<and> w_syslog w' = w_syslog w \<and> w_names w' = w_names w \<and> w_usage_cache w' = w_usage_cache w"

lemma same_mem_refl [simp]: "same_mem w w"
  by (simp add: same_mem_def)

lemma same_mem_trans: "same_mem u v \<Longrightarrow> same_mem v w \<Longrightarrow> same_mem u w"
  by (simp add: same_mem_def)

lemma same_env_refl [simp]: "same_env w w"
  by (simp add: same_env_def)

lemma same_env_trans: "same_env u v \<Longrightarrow> same_env v w \<Longrightarrow> same_env u w"
  by (simp add: same_env_def)

lemma frame_refl [simp]: "frame P w w"
  by (simp add: frame_def)

lemma frame_trans: "frame P u v \<Longrightarrow> frame P v w \<Longrightarrow> frame P u w"
  by (auto simp: frame_def intro: same_env_trans)

lemma frame_mono: "frame P u v \<Longrightarrow> (\<And>q. P q \<Longrightarrow> Q q) \<Longrightarrow> frame Q u v"
  by (auto simp: frame_def)

lemma frame_look: "frame P w w' \<Longrightarrow> \<not> P q \<Longrightarrow> look w' q = look w q"
  by (simp add: frame_def)

lemma frame_fault: "frame P w w' \<Longrightarrow> w_fault w' = w_fault w"
  by (simp add: frame_def same_env_def)

lemma frame_now: "frame P w w' \<Longrightarrow> w_now w' = w_now w"
  by (simp add: frame_def same_env_def)

lemma look_put [simp]: "look (put p nd w) q = (if q = p then Some nd else look w q)"
  by (simp add: put_def)

lemma look_del [simp]: "look (del p w) q = (if q = p then None else look w q)"
  by (simp add: del_def)

lemma put_env [simp]:
  "w_fault (put p nd w) = w_fault w" "w_now (put p nd w) = w_now w" "w_nanos (put p nd w) = w_nanos w"
  "w_epochs (put p nd w) = w_epochs w" "w_rand (put p nd w) = w_rand w" "w_pid (put p nd w) = w_pid w"
  "w_euid (put p nd w) = w_euid w" "w_egid (put p nd w) = w_egid w" "w_events (put p nd w) = w_events w"
  "w_syslog (put p nd w) = w_syslog w" "w_names (put p nd w) = w_names w"
  "w_usage_cache (put p nd w) = w_usage_cache w" "w_env (put p nd w) = w_env w"
  "w_envfile (put p nd w) = w_envfile w" "w_groups (put p nd w) = w_groups w"
  by (simp_all add: put_def)

lemma del_env [simp]:
  "w_fault (del p w) = w_fault w" "w_now (del p w) = w_now w" "w_nanos (del p w) = w_nanos w"
  "w_epochs (del p w) = w_epochs w" "w_rand (del p w) = w_rand w" "w_pid (del p w) = w_pid w"
  "w_euid (del p w) = w_euid w" "w_egid (del p w) = w_egid w" "w_events (del p w) = w_events w"
  "w_syslog (del p w) = w_syslog w" "w_names (del p w) = w_names w"
  "w_usage_cache (del p w) = w_usage_cache w" "w_env (del p w) = w_env w"
  "w_envfile (del p w) = w_envfile w" "w_groups (del p w) = w_groups w"
  by (simp_all add: del_def)

lemma frame_put: "P p \<Longrightarrow> frame P w (put p nd w)"
  by (auto simp: frame_def same_env_def)

lemma frame_del: "P p \<Longrightarrow> frame P w (del p w)"
  by (auto simp: frame_def same_env_def)

lemma del_put_fresh: "look w p = None \<Longrightarrow> del p (put p nd w) = w"
proof -
  assume "look w p = None"
  then have "fmdrop p (fmupd p nd (w_fs w)) = w_fs w" by (intro fmap_ext) auto
  then show ?thesis by (simp add: del_def put_def)
qed

lemma put_put [simp]: "put p nd (put p nd' w) = put p nd w"
  by (simp add: put_def fmupd_idem)

subsection \<open>Atomic writes\<close>

definition tmp_path :: "path \<Rightarrow> bool" where
  "tmp_path q \<longleftrightarrow> q \<noteq> [] \<and> prefix ''.tmp-'' (last q)"

lemma itoa_nat_inject [simp]: "itoa_nat j = itoa_nat k \<longleftrightarrow> j = k"
  by (metis digits_value_itoa_nat)

lemma fresh_name_fresh: "look w (fresh_name pre (w_fs w) d) = None"
proof -
  let ?D = "fmdom (w_fs w)"
  let ?P = "\<lambda>k. d @ [pre @ itoa_nat k] |\<notin>| ?D"
  have "find ?P [0..<Suc (fcard ?D)] \<noteq> None"
  proof
    assume "find ?P [0..<Suc (fcard ?D)] = None"
    then have sub: "(\<lambda>k. d @ [pre @ itoa_nat k]) ` {0..<Suc (fcard ?D)} \<subseteq> fset ?D"
      by (auto simp: find_None_iff simp del: upt_Suc)
    have "inj_on (\<lambda>k. d @ [pre @ itoa_nat k]) {0..<Suc (fcard ?D)}"
      by (auto intro!: inj_onI)
    then have "card ((\<lambda>k. d @ [pre @ itoa_nat k]) ` {0..<Suc (fcard ?D)}) = Suc (fcard ?D)"
      by (simp add: card_image)
    moreover have "card ((\<lambda>k. d @ [pre @ itoa_nat k]) ` {0..<Suc (fcard ?D)}) \<le> card (fset ?D)"
      by (rule card_mono [OF _ sub]) simp
    ultimately show False by (simp add: fcard.rep_eq)
  qed
  then obtain k where k: "find ?P [0..<Suc (fcard ?D)] = Some k" by blast
  then have "?P k" by (auto simp: find_Some_iff simp del: upt_Suc)
  moreover have "fresh_name pre (w_fs w) d = d @ [pre @ itoa_nat k]"
    using k by (simp add: fresh_name_def del: upt_Suc)
  ultimately show ?thesis by (simp add: fmdom_notD)
qed

lemma fresh_tmp_fresh: "look w (fresh_tmp (w_fs w) d) = None"
  unfolding fresh_tmp_def by (rule fresh_name_fresh)

lemma tmp_path_fresh: "tmp_path (fresh_tmp f d)"
  by (simp add: fresh_tmp_def fresh_name_def tmp_path_def)

lemma WriteFileAtomic_ok:
  assumes "WriteFileAtomic p data perm w = (Inr (), w')"
  shows "w' = put p (new_file w (butlast p) perm data) w"
  using assms fresh_tmp_fresh [of w "butlast p"]
  by (auto simp: WriteFileAtomic_def Let_def del_put_fresh split: if_splits sum.splits)

lemma os_Remove_fresh:
  assumes "look w p = None"
  shows "frame tmp_path w (snd (os_Remove p (put p (new_file v d m c) w))) \<or> \<not> tmp_path p"
  by (auto simp: os_Remove_def frame_put frame_del is_dir_def new_file_def
      intro: frame_trans frame_put frame_del)

lemma WriteFileAtomic_err:
  assumes "WriteFileAtomic p data perm w = (Inl e, w')"
  shows "frame tmp_path w w' \<and> same_mem w w'"
proof -
  define t where "t = fresh_tmp (w_fs w) (butlast p)"
  have "look w t = None" "tmp_path t"
    using fresh_tmp_fresh tmp_path_fresh by (simp_all add: t_def)
  then have r: "frame tmp_path w (snd (os_Remove t (put t (new_file v d m c) w)))" for v d m c
    using os_Remove_fresh by blast
  have e: "w_epochs (snd (os_Remove q x)) = w_epochs x" "w_events (snd (os_Remove q x)) = w_events x"
    "w_syslog (snd (os_Remove q x)) = w_syslog x" "w_names (snd (os_Remove q x)) = w_names x"
    "w_usage_cache (snd (os_Remove q x)) = w_usage_cache x" for q x
    by (auto simp: os_Remove_def split: option.splits)
  show ?thesis
    using assms unfolding WriteFileAtomic_def Let_def t_def [symmetric]
    by (auto simp: r e same_mem_def split: if_splits)
qed

lemma WriteFileAtomic_err_clean:
  assumes "WriteFileAtomic p data perm w = (Inl e, w')" and "\<And>q. \<not> fault w OpRemove q"
  shows "w' = w"
proof -
  define t where "t = fresh_tmp (w_fs w) (butlast p)"
  have "look w t = None" using fresh_tmp_fresh by (simp add: t_def)
  then have "snd (os_Remove t (put t (new_file v d m c) w)) = w" for v d m c
    using assms(2) by (simp add: os_Remove_def is_dir_def new_file_def del_put_fresh)
  then show ?thesis
    using assms(1) unfolding WriteFileAtomic_def Let_def t_def [symmetric]
    by (auto split: if_splits)
qed

lemma WriteFileAtomic_frame:
  assumes "WriteFileAtomic p data perm w = (r, w')"
  shows "frame (\<lambda>q. q = p \<or> tmp_path q) w w'"
proof (cases r)
  case (Inl e)
  with assms show ?thesis by (auto dest!: WriteFileAtomic_err elim: frame_mono)
next
  case (Inr u)
  with assms show ?thesis by (auto dest!: WriteFileAtomic_ok intro: frame_put)
qed


subsection \<open>Opening, locking and creating directories\<close>

lemma same_mem_put [simp]: "same_mem w (put p nd w)"
  by (simp add: same_mem_def)

lemma openDirectory_parts_noop:
  "openDirectory_parts cur ps False m w = (r, w') \<Longrightarrow> w' = w"
  by (induction ps arbitrary: cur) (auto split: if_splits sum.splits)

lemma openDirectory_noop: "openDirectory p False m w = (r, w') \<Longrightarrow> w' = w"
  unfolding openDirectory_def by (rule openDirectory_parts_noop)

lemma openPathNoFollow_noop: "openPathNoFollow p False m w = (r, w') \<Longrightarrow> w' = w"
  by (auto simp: openPathNoFollow_def Let_def split: prod.splits sum.splits if_splits option.splits
      kind.splits dest: openDirectory_noop)

lemma openPathNoFollow_ok:
  "openPathNoFollow p c m w = (Inr nd, w') \<Longrightarrow>
   w' = w \<and> look w p = Some nd \<or> c \<and> look w p = None \<and> nd = new_file w (butlast p) m [] \<and> w' = put p nd w"
  by (auto simp: openPathNoFollow_def Let_def split: prod.splits sum.splits if_splits option.splits
      kind.splits dest: openDirectory_noop)

lemma openPathNoFollow_err: "openPathNoFollow p c m w = (Inl e, w') \<Longrightarrow> w' = w"
  by (auto simp: openPathNoFollow_def Let_def split: prod.splits sum.splits if_splits option.splits
      kind.splits dest: openDirectory_noop)

lemma OpenFileNoFollow_noop: "OpenFileNoFollow p False m w = (r, w') \<Longrightarrow> w' = w"
  by (auto simp: OpenFileNoFollow_def split: prod.splits sum.splits if_splits dest: openPathNoFollow_noop)

lemma OpenFileNoFollow_world:
  assumes "OpenFileNoFollow p c m w = (r, w')"
  shows "w' = w \<or> (\<exists>nd. look w p = None \<and> nd = new_file w (butlast p) m [] \<and> w' = put p nd w)"
proof (cases "openPathNoFollow p c m w")
  case (Pair a w1)
  then have "w' = w1"
    using assms by (auto simp: OpenFileNoFollow_def split: sum.splits if_splits)
  with Pair show ?thesis
    by (cases a) (auto dest: openPathNoFollow_err openPathNoFollow_ok)
qed

text \<open>
  A lock is either refused, with at most the lock file touched, or the critical section runs
  from a world that differs in the lock file only.
\<close>

lemma Lock_cases:
  assumes "Lock p perm fn w = (r, w')"
  obtains (refused) e where "r = Inl e" "frame (\<lambda>q. q = p) w w'" "same_mem w w'"
    | (held) w1 where "fn w1 = (r, w')" "frame (\<lambda>q. q = p) w w1" "same_mem w w1"
proof (cases "OpenFileNoFollow p True perm w")
  case (Pair a w1)
  have f: "frame (\<lambda>q. q = p) w w1" "same_mem w w1"
    using OpenFileNoFollow_world [OF Pair] by (auto intro: frame_put)
  show ?thesis
  proof (cases a)
    case (Inl e)
    with Pair assms f show ?thesis by (auto simp: Lock_def intro: refused)
  next
    case (Inr nd)
    let ?w2 = "put p (nd\<lparr>n_mode := perm\<rparr>) w1"
    have g: "frame (\<lambda>q. q = p) w ?w2" "same_mem w ?w2"
      using f by (auto intro: frame_trans frame_put same_mem_trans)
    show ?thesis
      using assms Pair Inr f g by (auto simp: Lock_def split: if_splits intro: refused held)
  qed
qed

lemma create_part_frame:
  "create_part cur part m w = (r, w') \<Longrightarrow> look w (cur @ [part]) = None \<Longrightarrow>
   frame (\<lambda>q. q = cur @ [part] \<and> look w q = None) w w' \<and> same_mem w w'"
  by (auto simp: create_part_def Let_def split: option.splits if_splits intro: frame_put)

lemma openat_dir_None: "openat_dir w p = Inl NotExist \<Longrightarrow> look w p = None"
  by (auto simp: openat_dir_def split: if_splits option.splits)

lemma openDirectory_parts_frame:
  "openDirectory_parts cur ps c m w = (r, w') \<Longrightarrow>
   frame (\<lambda>q. prefix q (cur @ ps) \<and> look w q = None) w w' \<and> same_mem w w'"
proof (induction ps arbitrary: cur w)
  case (Cons p ps)
  show ?case
  proof (cases "openat_dir w (cur @ [p])")
    case (Inr nd)
    with Cons.prems have "openDirectory_parts (cur @ [p]) ps c m w = (r, w')" by simp
    from Cons.IH [OF this] show ?thesis by simp
  next
    case (Inl e)
    show ?thesis
    proof (cases "e = NotExist \<and> c")
      case True
      let ?m = "if ps = [] then m else perm_0755"
      obtain a w1 where c1: "create_part cur p ?m w = (a, w1)" by fastforce
      from True Inl have n: "look w (cur @ [p]) = None" by (simp add: openat_dir_None)
      from create_part_frame [OF c1 n]
      have f: "frame (\<lambda>q. prefix q (cur @ p # ps) \<and> look w q = None) w w1" "same_mem w w1"
        by (auto elim: frame_mono simp: prefix_def)
      show ?thesis
      proof (cases a)
        case (Inl e')
        with c1 True \<open>openat_dir w (cur @ [p]) = Inl e\<close> Cons.prems f show ?thesis by simp
      next
        case (Inr u)
        with c1 True Inl Cons.prems have "openDirectory_parts (cur @ [p]) ps c m w1 = (r, w')" by simp
        from Cons.IH [OF this]
        have g: "frame (\<lambda>q. prefix q (cur @ p # ps) \<and> look w1 q = None) w1 w'" "same_mem w1 w'" by simp_all
        have "look w q = None" if "look w1 q = None" for q
          using that f(1) by (cases "look w q") (auto simp: frame_def)
        then have "frame (\<lambda>q. prefix q (cur @ p # ps) \<and> look w q = None) w1 w'"
          using g(1) by (auto elim: frame_mono)
        with f g show ?thesis by (auto intro: frame_trans same_mem_trans)
      qed
    next
      case False
      with Inl Cons.prems show ?thesis by auto
    qed
  qed
qed simp

lemma MkdirAllNoFollow_frame:
  "MkdirAllNoFollow p m w = (r, w') \<Longrightarrow>
   frame (\<lambda>q. prefix q p \<and> look w q = None) w w' \<and> same_mem w w'"
  unfolding MkdirAllNoFollow_def openDirectory_def
  using openDirectory_parts_frame [of "[]" p True m w r w'] by simp

subsection \<open>Healthy runs\<close>

text \<open>
  \<open>healthy\<close>: the operating system injects no fault. \<open>dir_ready\<close>: a path is a chain of
  directories that can be opened without following links.
\<close>

definition healthy :: "world \<Rightarrow> bool" where
  "healthy w \<longleftrightarrow> (\<forall>op p. \<not> fault w op p)"

fun dirs_ok :: "world \<Rightarrow> path \<Rightarrow> string list \<Rightarrow> bool" where
  "dirs_ok w cur [] = True"
| "dirs_ok w cur (p # ps) = (case openat_dir w (cur @ [p]) of Inr _ \<Rightarrow> dirs_ok w (cur @ [p]) ps | Inl _ \<Rightarrow> False)"

definition dir_ready :: "world \<Rightarrow> path \<Rightarrow> bool" where
  "dir_ready w p = dirs_ok w [] p"

definition file_ready :: "world \<Rightarrow> path \<Rightarrow> bool" where
  "file_ready w p = (case look w p of None \<Rightarrow> True | Some nd \<Rightarrow> is_regular nd \<and> n_nlink nd = 1)"

lemma healthy_fault [simp]: "healthy w \<Longrightarrow> \<not> fault w op p"
  by (simp add: healthy_def)

lemma healthy_frame: "healthy w \<Longrightarrow> frame P w w' \<Longrightarrow> healthy w'"
  by (simp add: healthy_def frame_def same_env_def)

lemma healthy_put [simp]: "healthy (put p nd w) = healthy w"
  by (simp add: healthy_def)

lemma openDirectory_parts_ready:
  "dirs_ok w cur ps \<Longrightarrow> openDirectory_parts cur ps c m w = (Inr (), w)"
  by (induction ps arbitrary: cur) (auto split: sum.splits)

lemma openDirectory_ready: "dir_ready w p \<Longrightarrow> openDirectory p c m w = (Inr (), w)"
  by (simp add: dir_ready_def openDirectory_def openDirectory_parts_ready)

lemma MkdirAllNoFollow_ready: "dir_ready w p \<Longrightarrow> MkdirAllNoFollow p m w = (Inr (), w)"
  by (simp add: MkdirAllNoFollow_def openDirectory_ready)

lemma dirs_ok_frame:
  "frame P w w' \<Longrightarrow> (\<And>q. prefix q (cur @ ps) \<Longrightarrow> \<not> P q) \<Longrightarrow> dirs_ok w' cur ps = dirs_ok w cur ps"
proof (induction ps arbitrary: cur)
  case (Cons p ps)
  have "openat_dir w' (cur @ [p]) = openat_dir w (cur @ [p])"
    using Cons.prems by (simp add: openat_dir_def frame_look frame_fault)
  moreover have "dirs_ok w' (cur @ [p]) ps = dirs_ok w (cur @ [p]) ps"
    by (rule Cons.IH) (use Cons.prems in auto)
  ultimately show ?case by (simp split: sum.splits)
qed simp

lemma dir_ready_frame:
  "frame P w w' \<Longrightarrow> (\<And>q. prefix q p \<Longrightarrow> \<not> P q) \<Longrightarrow> dir_ready w' p = dir_ready w p"
  unfolding dir_ready_def by (rule dirs_ok_frame) auto

lemma dir_ready_children:
  assumes "frame P w w'" "\<And>q. P q \<Longrightarrow> \<exists>n. q = d @ [n]" shows "dir_ready w' d = dir_ready w d"
  by (rule dir_ready_frame [OF assms(1)]) (use assms(2) in \<open>fastforce dest: prefix_length_le\<close>)

lemma openPathNoFollow_ready:
  "healthy w \<Longrightarrow> dir_ready w (butlast p) \<Longrightarrow> look w p = Some nd \<Longrightarrow> (\<And>t. n_kind nd \<noteq> Link t) \<Longrightarrow>
   openPathNoFollow p c m w = (Inr nd, w)"
  by (auto simp: openPathNoFollow_def openDirectory_ready split: kind.splits)

lemma OpenFileNoFollow_ready:
  assumes "healthy w" "dir_ready w (butlast p)" "file_ready w p"
  shows "look w p = Some nd \<Longrightarrow> OpenFileNoFollow p c m w = (Inr nd, w)"
    and "look w p = None \<Longrightarrow> OpenFileNoFollow p True m w
           = (Inr (new_file w (butlast p) m []), put p (new_file w (butlast p) m []) w)"
    and "look w p = None \<Longrightarrow> OpenFileNoFollow p False m w = (Inl NotExist, w)"
proof -
  assume l: "look w p = Some nd"
  with assms have r: "is_regular nd" "n_nlink nd = 1" by (auto simp: file_ready_def)
  then have "n_kind nd \<noteq> Link t" for t by (auto simp: is_regular_def)
  with l assms have "openPathNoFollow p c m w = (Inr nd, w)" by (intro openPathNoFollow_ready)
  with r assms show "OpenFileNoFollow p c m w = (Inr nd, w)" by (simp add: OpenFileNoFollow_def)
next
  assume "look w p = None"
  with assms show "OpenFileNoFollow p True m w
     = (Inr (new_file w (butlast p) m []), put p (new_file w (butlast p) m []) w)"
    by (simp add: OpenFileNoFollow_def openPathNoFollow_def openDirectory_ready Let_def)
       (simp add: new_file_def is_regular_def)
next
  assume "look w p = None"
  with assms show "OpenFileNoFollow p False m w = (Inl NotExist, w)"
    by (simp add: OpenFileNoFollow_def openPathNoFollow_def openDirectory_ready)
qed

text \<open>In a healthy run a lock on a regular or missing file is taken.\<close>

lemma Lock_ready:
  assumes "healthy w" "dir_ready w (butlast p)" "file_ready w p"
  obtains w1 where "Lock p perm fn w = fn w1" "frame (\<lambda>q. q = p) w w1" "same_mem w w1" "healthy w1"
    "file_ready w1 p"
proof (cases "look w p")
  case None
  let ?nd = "new_file w (butlast p) perm []"
  have "Lock p perm fn w = fn (put p ?nd w)"
    using assms None OpenFileNoFollow_ready(2) [OF assms None]
    by (simp add: Lock_def) (simp add: new_file_def)
  then show ?thesis
    by (rule that) (auto intro: frame_put assms simp: file_ready_def new_file_def is_regular_def)
next
  case (Some nd)
  then have o: "OpenFileNoFollow p True perm w = (Inr nd, w)"
    using assms by (intro OpenFileNoFollow_ready)
  show ?thesis
  proof (cases "n_mode nd = perm")
    case True
    then have "Lock p perm fn w = fn w" using assms o by (simp add: Lock_def)
    then show ?thesis by (rule that) (auto intro: assms)
  next
    case False
    then have "Lock p perm fn w = fn (put p (nd\<lparr>n_mode := perm\<rparr>) w)"
      using assms o by (simp add: Lock_def)
    then show ?thesis
      by (rule that) (use assms Some in \<open>auto intro: frame_put simp: file_ready_def is_regular_def\<close>)
  qed
qed

text \<open>A healthy atomic write into an existing directory succeeds, unless the target is a directory.\<close>

lemma WriteFileAtomic_ready:
  assumes "healthy w" "look w (butlast p) = Some dn" "is_dir dn" "p \<noteq> []"
    and "\<And>nd. look w p = Some nd \<Longrightarrow> \<not> is_dir nd"
  shows "WriteFileAtomic p data perm w = (Inr (), put p (new_file w (butlast p) perm data) w)"
proof -
  define t where "t = fresh_tmp (w_fs w) (butlast p)"
  have t: "look w t = None" using fresh_tmp_fresh by (simp add: t_def)
  have s: "os_Stat w (butlast p) = Inr dn"
    using assms by (auto simp: os_Stat_def max_links_def is_dir_def numeral_eq_Suc)
  have r: "\<not> (case look (put t (new_file w (butlast p) perm data) w) p of None \<Rightarrow> False | Some nd \<Rightarrow> is_dir nd)"
    using assms(5) by (auto simp: is_dir_def new_file_def split: option.splits)
  show ?thesis
    unfolding WriteFileAtomic_def Let_def t_def [symmetric]
    using assms s r t by (simp add: del_put_fresh)
qed

lemma dirs_ok_look:
  "dirs_ok w cur ps \<Longrightarrow> ps \<noteq> [] \<Longrightarrow> \<exists>nd. look w (cur @ ps) = Some nd \<and> is_dir nd"
proof (induction ps arbitrary: cur)
  case (Cons p ps)
  from Cons.prems obtain nd where o: "openat_dir w (cur @ [p]) = Inr nd" and d: "dirs_ok w (cur @ [p]) ps"
    by (auto split: sum.splits)
  show ?case
  proof (cases "ps = []")
    case True
    with o show ?thesis by (auto simp: openat_dir_def split: if_splits option.splits)
  next
    case False
    from Cons.IH [OF d False] show ?thesis by simp
  qed
qed simp

lemma dirs_ok_append: "dirs_ok w cur (ps @ qs) \<longleftrightarrow> dirs_ok w cur ps \<and> dirs_ok w (cur @ ps) qs"
  by (induction ps arbitrary: cur) (auto split: sum.splits)

lemma dir_ready_look: "dir_ready w p \<Longrightarrow> p \<noteq> [] \<Longrightarrow> \<exists>nd. look w p = Some nd \<and> is_dir nd"
  unfolding dir_ready_def using dirs_ok_look [of w "[]" p] by simp

subsection \<open>Plain files\<close>

text \<open>The path is not a symbolic link, so that only the file itself decides what is read.\<close>

definition plain :: "world \<Rightarrow> path \<Rightarrow> bool" where
  "plain w p = (case look w p of None \<Rightarrow> True | Some nd \<Rightarrow> is_regular nd)"

lemma follow_max:
  "follow max_links f p = (case fmlookup f p of None \<Rightarrow> Inl NotExist
     | Some nd \<Rightarrow> (case n_kind nd of Link t \<Rightarrow> follow 39 f t | _ \<Rightarrow> Inr (p, nd)))"
proof -
  have m: "max_links = Suc 39" by (simp add: max_links_def)
  show ?thesis unfolding m by (rule follow.simps)
qed

lemma plain_ReadFile:
  "plain w p \<Longrightarrow> os_ReadFile w p = (if fault w OpRead p then Inl (Fault OpRead)
     else case look w p of None \<Rightarrow> Inl NotExist
       | Some nd \<Rightarrow> (case n_kind nd of Reg c \<Rightarrow> Inr c | _ \<Rightarrow> Inl (Err ''is a directory'')))"
  by (cases "look w p"; cases "n_kind (the (look w p))")
     (simp_all add: plain_def os_ReadFile_def follow_max is_regular_def)

lemma plain_frame: "frame P w w' \<Longrightarrow> \<not> P p \<Longrightarrow> plain w' p = plain w p"
  by (simp add: plain_def frame_look)

subsection \<open>Creating directories the ordinary way\<close>

lemma mkdir_parts_frame:
  "mkdir_parts cur ps m w = (r, w') \<Longrightarrow> frame (\<lambda>q. prefix q (cur @ ps)) w w'"
proof (induction ps arbitrary: cur w)
  case (Cons p ps)
  obtain w1 where w1: "frame (\<lambda>q. prefix q (cur @ p # ps)) w w1" "w' = w1 \<or> mkdir_parts (cur @ [p]) ps m w1 = (r, w')"
  proof (cases "w' = w \<or> mkdir_parts (cur @ [p]) ps m w = (r, w')")
    case True
    then show ?thesis using that [of w] by auto
  next
    case False
    then have "mkdir_parts (cur @ [p]) ps m (put (cur @ [p]) (new_dir w cur m) w) = (r, w')"
      using Cons.prems by (auto simp: Let_def split: sum.splits if_splits)
    moreover have "frame (\<lambda>q. prefix q (cur @ p # ps)) w (put (cur @ [p]) (new_dir w cur m) w)"
      by (rule frame_put) (simp add: prefix_def)
    ultimately show ?thesis using that by blast
  qed
  from w1(2) show ?case
  proof
    assume "w' = w1" with w1 show ?thesis by simp
  next
    assume "mkdir_parts (cur @ [p]) ps m w1 = (r, w')"
    from Cons.IH [OF this] have "frame (\<lambda>q. prefix q (cur @ p # ps)) w1 w'" by simp
    with w1(1) show ?thesis by (rule frame_trans)
  qed
qed simp

lemma os_MkdirAll_frame: "os_MkdirAll p m w = (r, w') \<Longrightarrow> frame (\<lambda>q. prefix q p) w w'"
  unfolding os_MkdirAll_def using mkdir_parts_frame [of "[]" p m w r w'] by simp

lemma dir_ready_stat: "healthy w \<Longrightarrow> dir_ready w d \<Longrightarrow> d \<noteq> [] \<Longrightarrow> \<exists>nd. os_Stat w d = Inr nd \<and> is_dir nd"
  using dir_ready_look [of w d] by (auto simp: os_Stat_def follow_max is_dir_def)

lemma os_MkdirAll_stat:
  assumes "\<And>q. \<not> fault w OpStat q" "dir_ready w d" shows "os_MkdirAll d m w = (Inr (), w)"
proof -
  have "dirs_ok w cur ps \<Longrightarrow> mkdir_parts cur ps m w = (Inr (), w)" for cur ps
  proof (induction ps arbitrary: cur)
    case (Cons p ps)
    then obtain nd where "look w (cur @ [p]) = Some nd" "is_dir nd" "dirs_ok w (cur @ [p]) ps"
      by (auto simp: openat_dir_def split: sum.splits if_splits option.splits)
    moreover from this assms(1) have "os_Stat w (cur @ [p]) = Inr nd"
      by (simp add: os_Stat_def follow_max is_dir_def)
    ultimately show ?case using Cons.IH by simp
  qed simp
  with assms(2) show ?thesis by (simp add: os_MkdirAll_def dir_ready_def)
qed

lemma os_MkdirAll_ready: "healthy w \<Longrightarrow> dir_ready w d \<Longrightarrow> os_MkdirAll d m w = (Inr (), w)"
  by (rule os_MkdirAll_stat) simp_all

subsection \<open>Sample worlds\<close>

text \<open>
  A world without faults for the concrete examples: a root-owned file system given as a list of
  directories and files, at a fixed time.
\<close>

definition root_dir :: "path \<Rightarrow> path \<times> node" where
  "root_dir p = (p, \<lparr>n_kind = Dir, n_mode = perm_0755, n_uid = 0, n_gid = 0, n_nlink = 2\<rparr>)"

definition root_file :: "path \<Rightarrow> string \<Rightarrow> path \<times> node" where
  "root_file p c = (p, \<lparr>n_kind = Reg c, n_mode = perm_0660, n_uid = 0, n_gid = 0, n_nlink = 1\<rparr>)"

definition sample_world :: "(path \<times> node) list \<Rightarrow> world" where
  "sample_world l = \<lparr>w_fs = fmap_of_list l, w_fault = (\<lambda>_ _. False), w_now = 100, w_nanos = 7,
     w_epochs = 0, w_rand = Some ''0123456789abcdef'', w_pid = 42, w_euid = 0, w_egid = 0,
     w_env = (\<lambda>_. None), w_envfile = fmempty, w_groups = (\<lambda>_. None), w_events = [], w_syslog = [],
     w_names = \<lparr>c_at = 0, c_dir = [], c_data = None, c_ttl = 30000000000\<rparr>,
     w_usage_cache = \<lparr>c_at = 0, c_dir = [], c_data = None, c_ttl = 8000000000\<rparr>\<rparr>"

lemma healthy_sample [simp]: "healthy (sample_world l)"
  by (simp add: healthy_def sample_world_def)

definition is_ok :: "'a res \<times> world \<Rightarrow> bool" where
  "is_ok r = (case r of (Inr _, _) \<Rightarrow> True | (Inl _, _) \<Rightarrow> False)"

lemma is_okD: "is_ok r \<Longrightarrow> r = (Inr (projr (fst r)), snd r)"
  by (cases r) (auto simp: is_ok_def split: sum.splits)

definition is_err :: "'a res \<times> world \<Rightarrow> bool" where
  "is_err r = (case r of (Inl _, _) \<Rightarrow> True | (Inr _, _) \<Rightarrow> False)"

lemma is_errD: "is_err r \<Longrightarrow> r = (Inl (projl (fst r)), snd r)"
  by (cases r) (auto simp: is_err_def split: sum.splits)

subsection \<open>Properties\<close>

text \<open>
  The two common-name validators agree. The hooks' \<open>HookCNValid\<close> accepts a sanitized name
  exactly when the store's \<open>SafeCN\<close> returns it unchanged, and a name that \<open>SafeCN\<close> returns is one
  safe path component: 1 to 64 bytes, no slash, neither \<open>.\<close> nor \<open>..\<close>, and never the name of a
  lock or temporary file.
\<close>

theorem cn_validators_agree:
  "(HookCNValid s \<longleftrightarrow> SafeCN s = Inr s) \<and>
   (case SafeCN cn of
      Inl _ \<Rightarrow> True
    | Inr safe \<Rightarrow> 1 \<le> length safe \<and> length safe \<le> 64 \<and> CHR ''/'' \<notin> set safe \<and> safe \<noteq> ''.'' \<and> safe \<noteq> ''..''
        \<and> hd safe \<noteq> CHR ''.'' \<and> HookCNValid safe \<and> Sanitize safe = safe)"
proof (intro conjI)
  show "HookCNValid s \<longleftrightarrow> SafeCN s = Inr s"
    by (auto simp: HookCNValid_iff SafeCN_iff)
  have slash: "\<not> name_ok CHR ''/''" by (simp add: name_ok_def is_alnum_def byte_class_defs byte_def)
  have "length safe \<le> 64" if "StoreKeyRe safe" for safe
    using that by (cases safe) (auto simp: StoreKeyRe_def)
  moreover have "safe \<noteq> ''.'' \<and> safe \<noteq> ''..''" if "StoreKeyRe safe" for safe
    using StoreKeyRe_hd [OF that] by auto
  moreover have "CHR ''/'' \<notin> set safe" if "StoreKeyRe safe" for safe
    using StoreKeyRe_name_ok [OF that] slash by (auto simp: list_all_iff)
  ultimately show "case SafeCN cn of
      Inl _ \<Rightarrow> True
    | Inr safe \<Rightarrow> 1 \<le> length safe \<and> length safe \<le> 64 \<and> CHR ''/'' \<notin> set safe \<and> safe \<noteq> ''.'' \<and> safe \<noteq> ''..''
        \<and> hd safe \<noteq> CHR ''.'' \<and> HookCNValid safe \<and> Sanitize safe = safe"
    by (auto simp: HookCNValid_iff Sanitize_id_iff StoreKeyRe_name_ok StoreKeyRe_hd Suc_le_eq dest: StoreKeyRe_nonempty
        dest!: SafeCN_key split: sum.splits)
qed

text \<open>
  C34. \<open>WriteFileAtomic\<close> is all or nothing. On success the target holds exactly the data with the
  requested mode and nothing else in the world has changed, no temporary file included; on any
  error every path that is not a temporary file is what it was.
\<close>

theorem atomic_write_all_or_nothing:
  "case WriteFileAtomic p data perm w of
     (Inr _, w') \<Rightarrow> w' = put p (new_file w (butlast p) perm data) w
   | (Inl _, w') \<Rightarrow> same_mem w w' \<and> frame tmp_path w w'"
  by (auto split: prod.splits sum.splits dest: WriteFileAtomic_ok WriteFileAtomic_err)

end
