(* ===== verification/Cache.thy ===== *)
theory Cache
  imports Fsx
begin

text \<open>
  \<open>store/cache.go\<close>: the time-limited caches of the store. A cache holds one map for one
  directory; \<open>get\<close> answers only for that directory and only within the time to live (times in
  nanoseconds). The name cache and the usage cache live in the world; both are invalidated by
  the operations that change what they describe.
\<close>

definition newCache :: "int \<Rightarrow> 'v cache" where
  "newCache ttl = \<lparr>c_at = 0, c_dir = [], c_data = None, c_ttl = ttl\<rparr>"

definition cache_get :: "int \<Rightarrow> path \<Rightarrow> 'v cache \<Rightarrow> (string, 'v) fmap option" where
  "cache_get now dir c =
     (if c_data c = None \<or> c_dir c \<noteq> dir \<or> c_ttl c < now - c_at c then None else c_data c)"

definition cache_set :: "int \<Rightarrow> path \<Rightarrow> (string, 'v) fmap \<Rightarrow> 'v cache \<Rightarrow> 'v cache" where
  "cache_set now dir data c = c\<lparr>c_data := Some data, c_dir := dir, c_at := now\<rparr>"

definition cache_invalidate :: "'v cache \<Rightarrow> 'v cache" where
  "cache_invalidate c = c\<lparr>c_data := None\<rparr>"

definition nameCacheInst :: "string cache" where
  "nameCacheInst = newCache 30000000000"

definition usageCacheInst :: "u64 cache" where
  "usageCacheInst = newCache 8000000000"

definition InvalidateNameCache :: "world \<Rightarrow> world" where
  "InvalidateNameCache w = w\<lparr>w_names := cache_invalidate (w_names w)\<rparr>"

definition NameCacheGet :: "world \<Rightarrow> path \<Rightarrow> (string, string) fmap option" where
  "NameCacheGet w dir = cache_get (w_nanos w) dir (w_names w)"

definition NameCacheSet :: "path \<Rightarrow> (string, string) fmap \<Rightarrow> world \<Rightarrow> world" where
  "NameCacheSet dir data w = w\<lparr>w_names := cache_set (w_nanos w) dir data (w_names w)\<rparr>"

definition InvalidateUsageCache :: "world \<Rightarrow> world" where
  "InvalidateUsageCache w = w\<lparr>w_usage_cache := cache_invalidate (w_usage_cache w)\<rparr>"

lemma cache_get_set:
  "0 \<le> c_ttl c \<Longrightarrow> cache_get now dir (cache_set now dir data c) = Some data"
  by (simp add: cache_get_def cache_set_def)

lemma cache_get_invalidate [simp]: "cache_get now dir (cache_invalidate c) = None"
  by (simp add: cache_get_def cache_invalidate_def)

lemma cache_get_other_dir: "cache_get now dir c = Some d \<Longrightarrow> c_dir c = dir"
  by (auto simp: cache_get_def split: if_splits)

lemma cache_get_fresh: "cache_get now dir c = Some d \<Longrightarrow> now - c_at c \<le> c_ttl c"
  by (auto simp: cache_get_def split: if_splits)

lemma InvalidateUsageCache_simps [simp]:
  "w_fs (InvalidateUsageCache w) = w_fs w" "w_fault (InvalidateUsageCache w) = w_fault w"
  "w_epochs (InvalidateUsageCache w) = w_epochs w" "w_now (InvalidateUsageCache w) = w_now w"
  "w_nanos (InvalidateUsageCache w) = w_nanos w"
  by (simp_all add: InvalidateUsageCache_def)

lemma InvalidateNameCache_simps [simp]:
  "w_fs (InvalidateNameCache w) = w_fs w" "w_fault (InvalidateNameCache w) = w_fault w"
  "w_epochs (InvalidateNameCache w) = w_epochs w" "w_now (InvalidateNameCache w) = w_now w"
  "w_nanos (InvalidateNameCache w) = w_nanos w"
  by (simp_all add: InvalidateNameCache_def)

lemma frame_InvalidateUsageCache [simp]: "frame P w (InvalidateUsageCache w)"
  by (simp add: frame_def same_env_def InvalidateUsageCache_def)

lemma frame_InvalidateNameCache [simp]: "frame P w (InvalidateNameCache w)"
  by (simp add: frame_def same_env_def InvalidateNameCache_def)

end
