(* ===== verification/Json.thy ===== *)
theory Json
  imports Prelude
begin

text \<open>
  The part of Go's \<open>encoding/json\<close> that the node's persistent files go through, over bytes:
  the encoder of \<open>json.Marshal\<close> (compact output, HTML-safe escapes, invalid UTF-8 replaced)
  and the decoder's grammar (white space, string escapes with surrogate pairs, number
  literals, nested values). A number is kept as its literal, as the decoder does before it
  converts it to the target's type.

  The decoder's recursion is bounded by fuel; \<open>decode_value\<close> gives it twice the length of the
  text, which is enough: \<open>pval_fuel_enough\<close> shows that more fuel never changes an answer. The main
  lemma, \<open>decode_show_json\<close>, is the round trip: what \<open>json.Marshal\<close> writes is read back.
\<close>

subsection \<open>UTF-8\<close>

definition is_cont :: "char \<Rightarrow> bool" where
  "is_cont c \<longleftrightarrow> 0x80 \<le> byte c \<and> byte c \<le> 0xBF"

text \<open>Length of the well-formed rune at the head of a string; 0 when there is none.\<close>

definition utf8_len :: "string \<Rightarrow> nat" where
  "utf8_len s = (case s of
      [] \<Rightarrow> 0
    | c # cs \<Rightarrow>
       (let b = byte c;
            c1 = (case cs of [] \<Rightarrow> 0 | x # _ \<Rightarrow> byte x);
            k1 = (1 \<le> length cs \<and> is_cont (cs ! 0));
            k2 = (2 \<le> length cs \<and> is_cont (cs ! 1));
            k3 = (3 \<le> length cs \<and> is_cont (cs ! 2))
        in if b < 0x80 then 1
           else if 0xC2 \<le> b \<and> b \<le> 0xDF \<and> k1 then 2
           else if 0xE0 \<le> b \<and> b \<le> 0xEF \<and> k1 \<and> k2 \<and> (b = 0xE0 \<longrightarrow> 0xA0 \<le> c1)
                   \<and> (b = 0xED \<longrightarrow> c1 \<le> 0x9F) then 3
           else if 0xF0 \<le> b \<and> b \<le> 0xF4 \<and> k1 \<and> k2 \<and> k3 \<and> (b = 0xF0 \<longrightarrow> 0x90 \<le> c1)
                   \<and> (b = 0xF4 \<longrightarrow> c1 \<le> 0x8F) then 4
           else 0))"

definition replacement :: string where
  "replacement = [CHR 0xEF, CHR 0xBF, CHR 0xBD]"

definition utf8_encode :: "nat \<Rightarrow> string" where
  "utf8_encode r =
     (if r < 0x80 then [char_of r]
      else if r < 0x800 then [char_of (0xC0 + r div 64), char_of (0x80 + r mod 64)]
      else if 0xD800 \<le> r \<and> r \<le> 0xDFFF \<or> 0x10FFFF < r then replacement
      else if r < 0x10000
           then [char_of (0xE0 + r div 4096), char_of (0x80 + (r div 64) mod 64),
                 char_of (0x80 + r mod 64)]
      else [char_of (0xF0 + r div 262144), char_of (0x80 + (r div 4096) mod 64),
            char_of (0x80 + (r div 64) mod 64), char_of (0x80 + r mod 64)])"

subsection \<open>Values and the encoder\<close>

datatype json =
    JNull
  | JBool bool
  | JNum string
  | JStr string
  | JArr "json list"
  | JObj "(string \<times> json) list"

definition esc_byte :: "char \<Rightarrow> string" where
  "esc_byte c =
     (if c = DQ then [BSL, DQ]
      else if c = BSL then [BSL, BSL]
      else if c = CHR 0x08 then [BSL, CHR ''b'']
      else if c = CHR 0x0C then [BSL, CHR ''f'']
      else if c = NL then [BSL, CHR ''n'']
      else if c = CR then [BSL, CHR ''r'']
      else if c = TAB then [BSL, CHR ''t'']
      else if byte c < 32 \<or> c = CHR ''<'' \<or> c = CHR ''>'' \<or> c = CHR ''&''
           then [BSL, CHR ''u'', CHR ''0'', CHR ''0'', hex_digit (byte c div 16),
                 hex_digit (byte c mod 16)]
      else [c])"

function esc :: "string \<Rightarrow> string" where
  "esc s = (case s of
      [] \<Rightarrow> []
    | c # cs \<Rightarrow>
        if byte c < 128 then esc_byte c @ esc cs
        else if utf8_len s = 0 then BSL # ''ufffd'' @ esc cs
        else (let r = take (utf8_len s) s in
               (if r = [CHR 0xE2, CHR 0x80, CHR 0xA8] then BSL # ''u2028''
                else if r = [CHR 0xE2, CHR 0x80, CHR 0xA9] then BSL # ''u2029''
                else r)) @ esc (drop (utf8_len s) s))"
  by pat_completeness auto
termination by (relation "measure length") auto

declare esc.simps [simp del]

definition quote :: "string \<Rightarrow> string" where
  "quote s = DQ # esc s @ [DQ]"

fun show_json :: "json \<Rightarrow> string"
  and show_elems :: "json list \<Rightarrow> string"
  and show_members :: "(string \<times> json) list \<Rightarrow> string"
where
  "show_json JNull = ''null''"
| "show_json (JBool b) = (if b then ''true'' else ''false'')"
| "show_json (JNum n) = n"
| "show_json (JStr s) = quote s"
| "show_json (JArr vs) = CHR ''['' # show_elems vs"
| "show_json (JObj m) = CHR ''{'' # show_members m"
| "show_elems [] = '']''"
| "show_elems [v] = show_json v @ '']''"
| "show_elems (v # w # vs) = show_json v @ CHR '','' # show_elems (w # vs)"
| "show_members [] = ''}''"
| "show_members [(k, v)] = quote k @ CHR '':'' # show_json v @ ''}''"
| "show_members ((k, v) # m # ms) = quote k @ CHR '':'' # show_json v @ CHR '','' # show_members (m # ms)"

subsection \<open>The decoder\<close>

definition is_json_space :: "char \<Rightarrow> bool" where
  "is_json_space c \<longleftrightarrow> c = CHR '' '' \<or> c = TAB \<or> c = CR \<or> c = NL"

definition skip_ws :: "string \<Rightarrow> string" where
  "skip_ws s = dropWhile is_json_space s"

definition hex_val :: "char \<Rightarrow> nat option" where
  "hex_val c =
     (let b = byte c in
      if 48 \<le> b \<and> b \<le> 57 then Some (b - 48)
      else if 97 \<le> b \<and> b \<le> 102 then Some (b - 87)
      else if 65 \<le> b \<and> b \<le> 70 then Some (b - 55)
      else None)"

text \<open>The code point of a leading \<open>\uXXXX\<close>.\<close>

definition getu4 :: "string \<Rightarrow> nat option" where
  "getu4 s = (case s of
      b # u # a1 # a2 # a3 # a4 # _ \<Rightarrow>
        if b = BSL \<and> u = CHR ''u'' then
          (case (hex_val a1, hex_val a2, hex_val a3, hex_val a4) of
             (Some h1, Some h2, Some h3, Some h4) \<Rightarrow> Some (h1 * 4096 + h2 * 256 + h3 * 16 + h4)
           | _ \<Rightarrow> None)
        else None
    | _ \<Rightarrow> None)"

definition simple_esc :: "char \<Rightarrow> char option" where
  "simple_esc e =
     (if e = DQ \<or> e = BSL \<or> e = CHR ''/'' then Some e
      else if e = CHR ''b'' then Some (CHR 0x08)
      else if e = CHR ''f'' then Some (CHR 0x0C)
      else if e = CHR ''n'' then Some NL
      else if e = CHR ''r'' then Some CR
      else if e = CHR ''t'' then Some TAB
      else None)"

definition prepend :: "string \<Rightarrow> (string \<times> string) option \<Rightarrow> (string \<times> string) option" where
  "prepend p r = map_option (\<lambda>(s, rest). (p @ s, rest)) r"

lemma prepend_simps [simp]:
  "prepend p None = None" "prepend p (Some (s, rest)) = Some (p @ s, rest)"
  by (simp_all add: prepend_def)

text \<open>The body of a string literal, from after the opening quote to after the closing one.\<close>

function unquote :: "string \<Rightarrow> (string \<times> string) option" where
  "unquote s = (case s of
      [] \<Rightarrow> None
    | c # cs \<Rightarrow>
        if c = DQ then Some ([], cs)
        else if c = BSL then
          (case cs of
             [] \<Rightarrow> None
           | e # es \<Rightarrow>
               if e = CHR ''u'' then
                 (case getu4 s of
                    None \<Rightarrow> None
                  | Some r \<Rightarrow>
                      if 0xD800 \<le> r \<and> r \<le> 0xDFFF then
                        (case getu4 (drop 6 s) of
                           None \<Rightarrow> prepend replacement (unquote (drop 6 s))
                         | Some r2 \<Rightarrow>
                             if r < 0xDC00 \<and> 0xDC00 \<le> r2 \<and> r2 \<le> 0xDFFF
                             then prepend (utf8_encode (0x10000 + (r - 0xD800) * 1024 + (r2 - 0xDC00)))
                                    (unquote (drop 12 s))
                             else prepend replacement (unquote (drop 6 s)))
                      else prepend (utf8_encode r) (unquote (drop 6 s)))
               else (case simple_esc e of
                       None \<Rightarrow> None
                     | Some x \<Rightarrow> prepend [x] (unquote es)))
        else if byte c < 32 then None
        else if byte c < 128 then prepend [c] (unquote cs)
        else if utf8_len s = 0 then prepend replacement (unquote cs)
        else prepend (take (utf8_len s) s) (unquote (drop (utf8_len s) s)))"
  by pat_completeness auto
termination by (relation "measure length") auto

declare unquote.simps [simp del]

text \<open>A number literal: optional minus, integer part, optional fraction and exponent.\<close>

definition span_digits :: "string \<Rightarrow> string \<times> string" where
  "span_digits s = (takeWhile is_digit s, dropWhile is_digit s)"

definition pnum_int :: "string \<Rightarrow> (string \<times> string) option" where
  "pnum_int s = (case s of
      [] \<Rightarrow> None
    | c # cs \<Rightarrow> if c = CHR ''0'' then Some ([c], cs)
                else if is_digit c then Some (span_digits s) else None)"

definition pnum_frac :: "string \<Rightarrow> (string \<times> string) option" where
  "pnum_frac s = (case s of
      [] \<Rightarrow> Some ([], [])
    | c # cs \<Rightarrow> if c = CHR ''.'' then
                  (let (d, r) = span_digits cs in if d = [] then None else Some (c # d, r))
                else Some ([], s))"

definition pnum_exp :: "string \<Rightarrow> (string \<times> string) option" where
  "pnum_exp s = (case s of
      [] \<Rightarrow> Some ([], [])
    | c # cs \<Rightarrow> if c = CHR ''e'' \<or> c = CHR ''E'' then
                  (let (sg, t) = (case cs of [] \<Rightarrow> ([], [])
                                  | x # xs \<Rightarrow> if x = CHR ''+'' \<or> x = CHR ''-'' then ([x], xs) else ([], cs));
                       (d, r) = span_digits t
                   in if d = [] then None else Some (c # sg @ d, r))
                else Some ([], s))"

definition pnum :: "string \<Rightarrow> (string \<times> string) option" where
  "pnum s =
     (let (sg, s1) = (case s of [] \<Rightarrow> ([], []) | c # cs \<Rightarrow> if c = CHR ''-'' then ([c], cs) else ([], s))
      in case pnum_int s1 of
           None \<Rightarrow> None
         | Some (a, s2) \<Rightarrow> (case pnum_frac s2 of
             None \<Rightarrow> None
           | Some (b, s3) \<Rightarrow> (case pnum_exp s3 of
               None \<Rightarrow> None
             | Some (e, s4) \<Rightarrow> Some (sg @ a @ b @ e, s4))))"

definition pword :: "string \<Rightarrow> json \<Rightarrow> string \<Rightarrow> (json \<times> string) option" where
  "pword w v s = (if prefix w s then Some (v, drop (length w) s) else None)"

fun pval :: "nat \<Rightarrow> string \<Rightarrow> (json \<times> string) option"
  and pelems :: "nat \<Rightarrow> string \<Rightarrow> (json list \<times> string) option"
  and pmembers :: "nat \<Rightarrow> string \<Rightarrow> ((string \<times> json) list \<times> string) option"
where
  "pval 0 s = None"
| "pval (Suc f) s = (case skip_ws s of
      [] \<Rightarrow> None
    | c # cs \<Rightarrow>
        if c = CHR ''{'' then
          (case skip_ws cs of
             [] \<Rightarrow> None
           | d # ds \<Rightarrow> if d = CHR ''}'' then Some (JObj [], ds)
                       else map_option (\<lambda>(m, r). (JObj m, r)) (pmembers f cs))
        else if c = CHR ''['' then
          (case skip_ws cs of
             [] \<Rightarrow> None
           | d # ds \<Rightarrow> if d = CHR '']'' then Some (JArr [], ds)
                       else map_option (\<lambda>(m, r). (JArr m, r)) (pelems f cs))
        else if c = DQ then map_option (\<lambda>(x, r). (JStr x, r)) (unquote cs)
        else if c = CHR ''t'' then pword ''true'' (JBool True) (c # cs)
        else if c = CHR ''f'' then pword ''false'' (JBool False) (c # cs)
        else if c = CHR ''n'' then pword ''null'' JNull (c # cs)
        else map_option (\<lambda>(x, r). (JNum x, r)) (pnum (c # cs)))"
| "pelems 0 s = None"
| "pelems (Suc f) s = (case pval f s of
      None \<Rightarrow> None
    | Some (v, r) \<Rightarrow> (case skip_ws r of
        [] \<Rightarrow> None
      | c # cs \<Rightarrow> if c = CHR '']'' then Some ([v], cs)
                  else if c = CHR '','' then map_option (\<lambda>(vs, t). (v # vs, t)) (pelems f cs)
                  else None))"
| "pmembers 0 s = None"
| "pmembers (Suc f) s = (case skip_ws s of
      [] \<Rightarrow> None
    | q # qs \<Rightarrow>
        if q \<noteq> DQ then None
        else (case unquote qs of
          None \<Rightarrow> None
        | Some (k, r) \<Rightarrow> (case skip_ws r of
            [] \<Rightarrow> None
          | c # cs \<Rightarrow>
              if c \<noteq> CHR '':'' then None
              else (case pval f cs of
                None \<Rightarrow> None
              | Some (v, t) \<Rightarrow> (case skip_ws t of
                  [] \<Rightarrow> None
                | d # ds \<Rightarrow> if d = CHR ''}'' then Some ([(k, v)], ds)
                            else if d = CHR '','' then map_option (\<lambda>(m, u). ((k, v) # m, u)) (pmembers f ds)
                            else None)))))"

text \<open>\<open>Decoder.Decode\<close> into a value: the first document and the text that follows it.\<close>

definition decode_value :: "string \<Rightarrow> (json \<times> string) option" where
  "decode_value s = pval (Suc (2 * length s)) s"

text \<open>\<open>Decoder.More\<close>: there is another element, that is, a byte other than a closing bracket.\<close>

definition dec_more :: "string \<Rightarrow> bool" where
  "dec_more rest = (case skip_ws rest of [] \<Rightarrow> False | c # _ \<Rightarrow> c \<noteq> CHR '']'' \<and> c \<noteq> CHR ''}'')"

text \<open>\<open>json.Unmarshal\<close>: one document and nothing but white space after it.\<close>

definition unmarshal_value :: "string \<Rightarrow> json option" where
  "unmarshal_value s = (case decode_value s of
      None \<Rightarrow> None
    | Some (v, rest) \<Rightarrow> if skip_ws rest = [] then Some v else None)"


subsection \<open>Strings round-trip\<close>

definition ascii :: "string \<Rightarrow> bool" where
  "ascii s \<longleftrightarrow> list_all (\<lambda>c. byte c < 128) s"

lemma ascii_simps [simp]:
  "ascii []" "ascii (c # s) \<longleftrightarrow> byte c < 128 \<and> ascii s" "ascii (s @ t) \<longleftrightarrow> ascii s \<and> ascii t"
  by (auto simp: ascii_def)

lemma byte_hex_digit: "n < 16 \<Longrightarrow> byte (hex_digit n) = (if n < 10 then 48 + n else 87 + n)"
  by (simp add: hex_digit_def byte_def of_char_of)

lemma hex_val_hex_digit [simp]: "n < 16 \<Longrightarrow> hex_val (hex_digit n) = Some n"
  by (auto simp: hex_val_def byte_hex_digit Let_def)

lemma char_of_byte [simp]: "char_of (byte c) = c"
  by (simp add: byte_def)

lemma hex_val_zero [simp]: "hex_val (CHR ''0'') = Some 0"
  by (simp add: hex_val_def byte_def)

lemma unquote_u00:
  assumes "n < 128"
  shows "unquote (BSL # CHR ''u'' # CHR ''0'' # CHR ''0'' # hex_digit (n div 16) # hex_digit (n mod 16) # t)
         = prepend [char_of n] (unquote t)"
proof -
  let ?s = "BSL # CHR ''u'' # CHR ''0'' # CHR ''0'' # hex_digit (n div 16) # hex_digit (n mod 16) # t"
  have "n div 16 < 16" using assms by simp
  then have g: "getu4 ?s = Some n"
    by (simp add: getu4_def)
  have "utf8_encode n = [char_of n]" using assms by (simp add: utf8_encode_def)
  then show ?thesis
    using assms by (subst unquote.simps) (simp add: g)
qed

lemma unquote_simple:
  "simple_esc e = Some x \<Longrightarrow> e \<noteq> CHR ''u'' \<Longrightarrow> unquote (BSL # e # t) = prepend [x] (unquote t)"
  by (subst unquote.simps) simp

lemma unquote_plain:
  "32 \<le> byte c \<Longrightarrow> byte c < 128 \<Longrightarrow> c \<noteq> DQ \<Longrightarrow> c \<noteq> BSL \<Longrightarrow>
   unquote (c # t) = prepend [c] (unquote t)"
  by (subst unquote.simps) simp

definition esc_class :: "char \<Rightarrow> bool" where
  "esc_class c \<longleftrightarrow> byte c < 32 \<or> c = CHR ''<'' \<or> c = CHR ''>'' \<or> c = CHR ''&''"

lemma unquote_esc_byte:
  assumes "byte c < 128"
  shows "unquote (esc_byte c @ t) = prepend [c] (unquote t)"
proof (cases "simple_esc (esc_byte c ! 1) = Some c \<and> esc_byte c = [BSL, esc_byte c ! 1]")
  case True
  then have "unquote (esc_byte c @ t) = unquote (BSL # esc_byte c ! 1 # t)" by (metis append_Cons append_Nil)
  moreover have "esc_byte c ! 1 \<noteq> CHR ''u''" using True by (auto simp: simple_esc_def)
  ultimately show ?thesis using True by (simp add: unquote_simple)
next
  case False
  then have n: "c \<noteq> DQ" "c \<noteq> BSL" "c \<noteq> CHR 0x08" "c \<noteq> CHR 0x0C" "c \<noteq> NL" "c \<noteq> CR" "c \<noteq> TAB"
    by (auto simp: esc_byte_def simple_esc_def)
  show ?thesis
  proof (cases "esc_class c")
    case True
    then have "esc_byte c = [BSL, CHR ''u'', CHR ''0'', CHR ''0'', hex_digit (byte c div 16),
                 hex_digit (byte c mod 16)]"
      using n by (simp add: esc_byte_def esc_class_def)
    then show ?thesis using unquote_u00 [OF assms] by simp
  next
    case False
    then have "esc_byte c = [c]" and "32 \<le> byte c" using n by (simp_all add: esc_byte_def esc_class_def)
    then show ?thesis using n assms by (simp add: unquote_plain)
  qed
qed

lemma unquote_esc: "ascii s \<Longrightarrow> unquote (esc s @ DQ # rest) = Some (s, rest)"
proof (induction s)
  case Nil
  show ?case by (simp add: esc.simps unquote.simps)
next
  case (Cons c cs)
  then have "esc (c # cs) = esc_byte c @ esc cs" by (subst esc.simps) simp
  with Cons show ?case by (simp add: unquote_esc_byte)
qed

subsection \<open>Numbers round-trip\<close>

definition ends_value :: "string \<Rightarrow> bool" where
  "ends_value r \<longleftrightarrow> (case r of [] \<Rightarrow> True | c # _ \<Rightarrow> c = CHR '','' \<or> c = CHR ''}'' \<or> c = CHR '']'')"

lemma ends_value_simps [simp]:
  "ends_value []" "ends_value (c # r) \<longleftrightarrow> c = CHR '','' \<or> c = CHR ''}'' \<or> c = CHR '']''"
  by (simp_all add: ends_value_def)

lemma itoa_nat_hd: "itoa_nat n = ''0'' \<or> (hd (itoa_nat n) \<noteq> CHR ''0'')"
proof (induction n rule: itoa_nat.induct)
  case (1 n)
  show ?case
  proof (cases "n < 10")
    case True
    then have d: "itoa_nat n = [digit_char n]" by (subst itoa_nat.simps) simp
    have "digit_char n \<noteq> CHR ''0''" if "n \<noteq> 0"
    proof
      assume "digit_char n = CHR ''0''"
      then have "byte (digit_char n) = 48" by (simp add: byte_def)
      with True that show False by (simp add: byte_digit_char)
    qed
    then show ?thesis using d by (cases "n = 0") (auto simp: digit_char_def)
  next
    case False
    then have e: "itoa_nat n = itoa_nat (n div 10) @ [digit_char (n mod 10)]"
      by (subst itoa_nat.simps) simp
    have "itoa_nat (n div 10) \<noteq> ''0''"
    proof
      assume "itoa_nat (n div 10) = ''0''"
      then have "digits_value (itoa_nat (n div 10)) = 0" by (simp add: digits_value_def byte_def)
      with False show False by simp
    qed
    with 1 False have "hd (itoa_nat (n div 10)) \<noteq> CHR ''0''" by simp
    with e show ?thesis by simp
  qed
qed

lemma span_digits_append:
  "list_all is_digit d \<Longrightarrow> (r = [] \<or> \<not> is_digit (hd r)) \<Longrightarrow> span_digits (d @ r) = (d, r)"
  by (cases r) (auto simp: span_digits_def list_all_iff takeWhile_tail)

lemma pnum_int_itoa:
  assumes "ends_value r"
  shows "pnum_int (itoa_nat n @ r) = Some (itoa_nat n, r)"
proof -
  have nd: "r = [] \<or> \<not> is_digit (hd r)"
    using assms by (cases r) (auto simp: is_digit_def byte_def)
  obtain c cs where i: "itoa_nat n = c # cs" by (cases "itoa_nat n") auto
  have c: "is_digit c" using itoa_nat_digits [of n] i by simp
  show ?thesis
  proof (cases "c = CHR ''0''")
    case True
    with i itoa_nat_hd [of n] have "cs = []" by auto
    with True i show ?thesis by (simp add: pnum_int_def)
  next
    case False
    have "span_digits (itoa_nat n @ r) = (itoa_nat n, r)"
      using itoa_nat_digits nd by (rule span_digits_append)
    with False i c show ?thesis by (simp add: pnum_int_def)
  qed
qed

lemma pnum_Itoa: "ends_value r \<Longrightarrow> pnum (Itoa i @ r) = Some (Itoa i, r)"
proof -
  assume r: "ends_value r"
  then have fe: "pnum_frac r = Some ([], r)" "pnum_exp r = Some ([], r)"
    by (cases r; auto simp: pnum_frac_def pnum_exp_def)+
  obtain c cs where c: "itoa_nat (nat i) = c # cs" by (cases "itoa_nat (nat i)") auto
  then have "is_digit c" using itoa_nat_digits [of "nat i"] by simp
  then have "c \<noteq> CHR ''-''" by (auto simp: is_digit_def byte_def)
  with c have sign: "(case itoa_nat (nat i) @ r of [] \<Rightarrow> ([], [])
      | c # cs \<Rightarrow> if c = CHR ''-'' then ([c], cs) else ([], itoa_nat (nat i) @ r)) = ([], itoa_nat (nat i) @ r)"
    by simp
  show ?thesis
  proof (cases "i < 0")
    case True
    then show ?thesis using pnum_int_itoa [OF r, of "nat (- i)"] fe by (simp add: pnum_def Itoa_def)
  next
    case False
    then show ?thesis using pnum_int_itoa [OF r, of "nat i"] fe
      by (simp only: pnum_def Itoa_def sign if_False prod.case option.case Let_def) simp
  qed
qed

subsection \<open>Documents round-trip\<close>

fun wf_json :: "json \<Rightarrow> bool" where
  "wf_json JNull = True"
| "wf_json (JBool b) = True"
| "wf_json (JNum n) = (\<exists>i. n = Itoa i)"
| "wf_json (JStr s) = ascii s"
| "wf_json (JArr vs) = list_all wf_json vs"
| "wf_json (JObj m) = list_all (\<lambda>(k, v). ascii k \<and> wf_json v) m"

lemma skip_ws_Cons [simp]: "\<not> is_json_space c \<Longrightarrow> skip_ws (c # s) = c # s"
  by (simp add: skip_ws_def)

lemma not_json_space [simp]:
  "is_graph c \<Longrightarrow> \<not> is_json_space c"
  by (auto simp: is_json_space_def is_graph_def byte_def)

lemma is_graph_const [simp]:
  "is_graph CHR ''{''" "is_graph CHR ''}''" "is_graph CHR ''[''" "is_graph CHR '']''"
  "is_graph DQ" "is_graph CHR '',''" "is_graph CHR '':''" "is_graph CHR ''t''"
  "is_graph CHR ''f''" "is_graph CHR ''n''"
  by (simp_all add: is_graph_def byte_def)

lemma Itoa_hd:
  obtains c cs where "Itoa i = c # cs" "is_graph c" "c \<noteq> CHR ''{''" "c \<noteq> CHR ''[''" "c \<noteq> DQ"
    "c \<noteq> CHR ''t''" "c \<noteq> CHR ''f''" "c \<noteq> CHR ''n''" "c \<noteq> CHR '']''"
proof -
  obtain c cs where c: "Itoa i = c # cs" by (cases "Itoa i") auto
  have d: "c = CHR ''-'' \<or> is_digit c"
  proof (cases "i < 0")
    case False
    then show ?thesis using c itoa_nat_digits [of "nat i"] by (simp add: Itoa_def)
  qed (use c in \<open>simp add: Itoa_def\<close>)
  have "c \<noteq> k" if "byte k \<noteq> 45" "57 < byte k \<or> byte k < 48" for k
    using d that by (auto simp: is_digit_def byte_def)
  from this [of "CHR ''{''"] this [of "CHR ''[''"] this [of DQ] this [of "CHR ''t''"]
    this [of "CHR ''f''"] this [of "CHR ''n''"] this [of "CHR '']''"] c
  show ?thesis
    by (intro that [of c cs]) (simp_all add: byte_def Itoa_graph [of c i])
qed

lemma pval_number:
  assumes "ends_value r" shows "pval (Suc f) (Itoa i @ r) = Some (JNum (Itoa i), r)"
proof (rule Itoa_hd [of i])
  fix c cs
  assume "Itoa i = c # cs" "is_graph c" "c \<noteq> CHR ''{''" "c \<noteq> CHR ''[''" "c \<noteq> DQ"
    "c \<noteq> CHR ''t''" "c \<noteq> CHR ''f''" "c \<noteq> CHR ''n''"
  with pnum_Itoa [OF assms, of i] show ?thesis by simp
qed

lemma show_json_hd:
  assumes "wf_json v"
  obtains c cs where "show_json v = c # cs" "is_graph c" "c \<noteq> CHR '']''"
proof (cases v)
  case (JNum n)
  with assms obtain i where n: "n = Itoa i" by auto
  show ?thesis
  proof (rule Itoa_hd [of i])
    fix c cs
    assume "Itoa i = c # cs" "is_graph c" "c \<noteq> CHR '']''"
    with n JNum show ?thesis by (intro that [of c cs]) simp_all
  qed
next
  case (JBool b)
  then show ?thesis by (cases b) (auto intro: that)
qed (auto simp: quote_def intro: that)

lemma itoa_nat_Itoa: "itoa_nat n = Itoa (int n)"
  by (simp add: Itoa_def)


lemma unquote_quote: "ascii k \<Longrightarrow> unquote (esc k @ DQ # r) = Some (k, r)"
  by (rule unquote_esc)

lemma show_members_hd: "m \<noteq> [] \<Longrightarrow> \<exists>s. show_members m = DQ # s"
  by (cases m rule: show_members.cases) (auto simp: quote_def)

lemma pmembers_step:
  assumes "ascii k" and "pval f (s @ d # t) = Some (v, d # t)" and "\<not> is_json_space d"
  shows "pmembers (Suc f) (quote k @ CHR '':'' # s @ d # t) =
    (if d = CHR ''}'' then Some ([(k, v)], t)
     else if d = CHR '','' then map_option (\<lambda>(m, u). ((k, v) # m, u)) (pmembers f t)
     else None)"
  using assms by (simp add: quote_def unquote_quote)

lemma pval_string: "ascii s \<Longrightarrow> pval (Suc f) (quote s @ r) = Some (JStr s, r)"
  by (simp add: quote_def unquote_quote)

lemma parse_show:
  "wf_json v \<Longrightarrow> ends_value r \<Longrightarrow> length (show_json v) \<le> f \<Longrightarrow> pval f (show_json v @ r) = Some (v, r)"
  "vs \<noteq> [] \<Longrightarrow> list_all wf_json vs \<Longrightarrow> length (show_elems vs) \<le> f \<Longrightarrow>
     pelems f (show_elems vs @ r) = Some (vs, r)"
  "m \<noteq> [] \<Longrightarrow> list_all (\<lambda>(k, v). ascii k \<and> wf_json v) m \<Longrightarrow> length (show_members m) \<le> f \<Longrightarrow>
     pmembers f (show_members m @ r) = Some (m, r)"
proof (induction v and vs and m arbitrary: f r and f r and f r
    rule: show_json_show_elems_show_members.induct)
  case 1
  then show ?case by (cases f) (simp_all add: pword_def)
next
  case (2 b)
  then show ?case by (cases f; cases b) (simp_all add: pword_def)
next
  case (3 n)
  then obtain i where n: "n = Itoa i" by auto
  with 3 have "f \<noteq> 0" using Itoa_nonempty [of i] by (cases f) auto
  with 3 n show ?case by (cases f) (simp_all add: pval_number del: pval.simps)
next
  case (4 s)
  then have "f \<noteq> 0" by (auto simp: quote_def)
  with 4 show ?case by (cases f) (simp_all add: pval_string del: pval.simps)
next
  case (5 vs)
  then obtain g where f: "f = Suc g" by (cases f) auto
  show ?case
  proof (cases vs)
    case (Cons w ws)
    with "5.prems" obtain c cs where c: "show_json w = c # cs" "is_graph c" "c \<noteq> CHR '']''"
      by (auto elim: show_json_hd)
    then have "skip_ws (show_elems vs @ r) = show_elems vs @ r" and h: "hd (show_elems vs) = c"
      using Cons by (cases ws; simp)+
    moreover obtain t where t: "show_elems vs = c # t" using Cons c by (cases ws) auto
    moreover have "pelems g (show_elems vs @ r) = Some (vs, r)"
      using 5 f Cons by simp
    ultimately show ?thesis using f c by simp
  qed (simp add: f)
next
  case (6 m)
  then obtain g where f: "f = Suc g" by (cases f) auto
  show ?case
  proof (cases "m = []")
    case False
    then obtain t where t: "show_members m = DQ # t" using show_members_hd by blast
    moreover have "pmembers g (show_members m @ r) = Some (m, r)"
      using 6 f False by simp
    ultimately show ?thesis using f by simp
  qed (simp add: f)
next
  case 7
  then show ?case by simp
next
  case (8 v)
  then obtain g where f: "f = Suc g" by (cases f) auto
  then have "pval g (show_json v @ '']'' @ r) = Some (v, '']'' @ r)"
    using 8 by simp
  then show ?case using f by simp
next
  case (9 v w vs)
  then obtain g where f: "f = Suc g" by (cases f) auto
  then have "pval g (show_json v @ CHR '','' # show_elems (w # vs) @ r)
      = Some (v, CHR '','' # show_elems (w # vs) @ r)"
    using 9 by simp
  moreover have "pelems g (show_elems (w # vs) @ r) = Some (w # vs, r)"
    using 9 f by simp
  ultimately show ?case using f by simp
next
  case 10
  then show ?case by simp
next
  case (11 k v)
  then obtain g where f: "f = Suc g" by (cases f) auto
  then have "pval g (show_json v @ CHR ''}'' # r) = Some (v, CHR ''}'' # r)"
    using 11 by (simp add: quote_def)
  from pmembers_step [OF _ this] show ?case using f "11.prems" by simp
next
  case (12 k v m ms)
  then obtain g where f: "f = Suc g" by (cases f) auto
  then have v: "pval g (show_json v @ CHR '','' # show_members (m # ms) @ r)
      = Some (v, CHR '','' # show_members (m # ms) @ r)"
    using 12 by (simp add: quote_def)
  have "pmembers g (show_members (m # ms) @ r) = Some (m # ms, r)"
    using 12 f by (simp add: quote_def)
  with pmembers_step [OF _ v] show ?case using f "12.prems" by simp
qed

theorem decode_show_json: "wf_json v \<Longrightarrow> ends_value r \<Longrightarrow> decode_value (show_json v @ r) = Some (v, r)"
  unfolding decode_value_def by (rule parse_show(1)) auto

corollary unmarshal_show_json: "wf_json v \<Longrightarrow> unmarshal_value (show_json v) = Some v"
  using decode_show_json [of v "[]"] by (simp add: unmarshal_value_def skip_ws_def)


subsection \<open>The fuel of the decoder is enough\<close>

lemma length_skip_ws: "length (skip_ws s) \<le> length s"
  by (simp add: skip_ws_def length_dropWhile_le)

lemma skip_ws_ConsD: "skip_ws s = c # cs \<Longrightarrow> length cs < length s"
  using length_skip_ws [of s] by simp

lemma prepend_SomeD: "prepend p r = Some (x, t) \<Longrightarrow> \<exists>y. r = Some (y, t)"
  by (cases r) (auto simp: prepend_def)

lemma unquote_length: "unquote s = Some (x, r) \<Longrightarrow> length r < length s"
proof (induction s arbitrary: x rule: length_induct)
  case (1 s)
  have IH: "length r < length s"
    if "prepend p (unquote t) = Some (x, r)" "length t < length s" for p t x
    using 1 prepend_SomeD [OF that(1)] that(2) by (metis order_less_trans)
  show ?case
  proof (cases s)
    case Nil
    with "1.prems" show ?thesis by (simp add: unquote.simps)
  next
    case (Cons c cs)
    note h = "1.prems" [unfolded Cons, unfolded unquote.simps [of "c # cs"]]
    show ?thesis
      using h IH [of _ cs] IH [of _ "drop 6 s"] IH [of _ "drop 12 s"] IH [of _ "drop (utf8_len s) s"]
        IH [of _ "tl cs"]
      unfolding Cons
      by (simp only: list.case split: if_splits list.splits option.splits)
         (auto simp: Cons)
  qed
qed

lemma span_digits_length: "span_digits s = (d, r) \<Longrightarrow> length r \<le> length s"
  by (auto simp: span_digits_def length_dropWhile_le)

lemma pnum_int_length: "pnum_int s = Some (x, r) \<Longrightarrow> length r < length s"
proof (cases s)
  case (Cons c cs)
  moreover assume "pnum_int s = Some (x, r)"
  ultimately show ?thesis
    using length_dropWhile_le [of is_digit cs]
    by (auto simp: pnum_int_def span_digits_def split: if_splits)
qed (simp add: pnum_int_def)

lemma pnum_frac_length: "pnum_frac s = Some (x, r) \<Longrightarrow> length r \<le> length s"
  by (auto simp: pnum_frac_def split: list.splits if_splits prod.splits dest!: span_digits_length)

lemma pnum_exp_length: "pnum_exp s = Some (x, r) \<Longrightarrow> length r \<le> length s"
  by (auto simp: pnum_exp_def split: list.splits if_splits prod.splits dest!: span_digits_length)

lemma pnum_length: "pnum s = Some (x, r) \<Longrightarrow> length r < length s"
  by (auto simp: pnum_def split: list.splits if_splits prod.splits option.splits
      dest!: pnum_int_length pnum_frac_length pnum_exp_length)

lemma pword_length: "pword w v s = Some (x, r) \<Longrightarrow> w \<noteq> [] \<Longrightarrow> length r < length s"
  by (cases s) (auto simp: pword_def split: if_splits)

lemma parse_length:
  "pval f s = Some (v, r) \<Longrightarrow> length r < length s"
  "pelems f s = Some (vs, r) \<Longrightarrow> length r < length s"
  "pmembers f s = Some (m, r) \<Longrightarrow> length r < length s"
proof (induction f arbitrary: s v vs m r)
  case 0
  { case 1 then show ?case by simp next case 2 then show ?case by simp
    next case 3 then show ?case by simp }
next
  case (Suc f)
  { case 1
    obtain c cs where s: "skip_ws s = c # cs" using 1 by (cases "skip_ws s") auto
    have l: "length (c # cs) \<le> length s" using length_skip_ws [of s] s by simp
    show ?case
      using 1 s l Suc.IH(2) [of cs] Suc.IH(3) [of cs] unquote_length [of cs]
        pword_length [of _ _ "c # cs"] pnum_length [of "c # cs"]
      by (fastforce split: if_splits list.splits dest: skip_ws_ConsD)
  next
    case 2
    then show ?case
      by (fastforce split: option.splits prod.splits list.splits if_splits
          dest: skip_ws_ConsD dest!: Suc.IH(1) Suc.IH(2))
  next
    case 3
    then show ?case
      by (fastforce split: option.splits prod.splits list.splits if_splits
          dest: skip_ws_ConsD dest!: Suc.IH(1) Suc.IH(3) unquote_length) }
qed


lemmas case_congs = list.case_cong option.case_cong prod.case_cong if_cong arg_cong [of _ _ "map_option _"]

declare pval.simps(2) [simp del] pelems.simps(2) [simp del] pmembers.simps(2) [simp del]

lemma parse_fuel_step:
  "2 * length s < f \<Longrightarrow> pval (Suc f) s = pval f s"
  "2 * length s + 1 < f \<Longrightarrow> pelems (Suc f) s = pelems f s"
  "2 * length s + 1 < f \<Longrightarrow> pmembers (Suc f) s = pmembers f s"
proof (induction f arbitrary: s)
  case 0
  { case 1 then show ?case by simp next case 2 then show ?case by simp
    next case 3 then show ?case by simp }
next
  case (Suc f)
  { case 1
    have "pelems (Suc f) cs = pelems f cs" "pmembers (Suc f) cs = pmembers f cs"
      if "length cs < length s" for cs
      using 1 that by (auto intro: Suc.IH)
    then show ?case
      unfolding pval.simps(2) [of "Suc f"] pval.simps(2) [of f]
      by (intro case_congs refl) (auto dest!: skip_ws_ConsD)
  next
    case 2
    then have v: "pval (Suc f) s = pval f s" by (intro Suc.IH(1)) simp
    have "pelems (Suc f) cs = pelems f cs" if "length cs < length s" for cs
      using 2 that by (auto intro: Suc.IH)
    then show ?case
      unfolding pelems.simps(2) [of "Suc f"] pelems.simps(2) [of f] v
      by (intro case_congs refl) (auto dest!: skip_ws_ConsD parse_length(1))
  next
    case 3
    have "pval (Suc f) cs = pval f cs" "pmembers (Suc f) cs = pmembers f cs"
      if "length cs < length s" for cs
      using 3 that by (auto intro: Suc.IH)
    then show ?case
      unfolding pmembers.simps(2) [of "Suc f"] pmembers.simps(2) [of f]
      by (intro case_congs refl) (auto dest!: skip_ws_ConsD parse_length(1) unquote_length) }
qed

lemma pval_fuel_enough: "2 * length s < f \<Longrightarrow> pval f s = decode_value s"
proof (induction f)
  case (Suc f)
  show ?case
  proof (cases "2 * length s < f")
    case True
    then show ?thesis using Suc parse_fuel_step(1) by simp
  next
    case False
    then have "f = 2 * length s" using Suc.prems by simp
    then show ?thesis by (simp add: decode_value_def)
  qed
qed simp

end
