(* ===== verification/Counter.thy ===== *)
theory Counter
  imports Cache Json
begin

text \<open>
  \<open>store/counter.go\<close> and \<open>store/usage.go\<close>: the persisted traffic counter of a common name.

  A counter is a file \<open><usageDir>/<cn>\<close> holding a version-2 JSON document (total, epoch, one
  offset per session) or, on old nodes, a bare number. \<open>RecordSessionUsage\<close> books one observed
  byte total of a session, \<open>PruneReceipts\<close> drops the receipts of closed sessions, \<open>ResetUsage\<close>
  starts a new epoch, \<open>BankUsage\<close> adds a bare delta. Byte counts are 64-bit words and the code's
  overflow test is the wrap-around test of the source.

  Properties: the abstract ledger (\<open>accounting\<close> locale: every byte of a session is counted
  once, a closed session is frozen), interpreted on \<open>observe\<close>; the file round trip; what each
  operation leaves of the counter on success and on failure.
\<close>

subsection \<open>Data\<close>

record UsageSession =
  s_bytes :: u64
  s_closed :: bool
  s_marker :: string

record UsageState =
  u_version :: int
  u_epoch :: string
  u_total :: u64
  u_sessions :: "(string, UsageSession) fmap"

definition counterVersion :: int where
  "counterVersion = 2"

definition newEpoch :: "world \<Rightarrow> string \<times> world" where
  "newEpoch w =
     (let n = w_epochs w + 1
      in (Itoa (w_nanos w) @ ''-'' @ itoa_nat (unat n), w\<lparr>w_epochs := n\<rparr>))"

subsection \<open>Session identifiers\<close>

definition is_hex_char :: "char \<Rightarrow> bool" where
  "is_hex_char c \<longleftrightarrow> is_digit c \<or> 97 \<le> byte c \<and> byte c \<le> 102 \<or> 65 \<le> byte c \<and> byte c \<le> 70"

definition isHex :: "string \<Rightarrow> bool" where
  "isHex s \<longleftrightarrow> list_all is_hex_char s \<and> 0 < length s"

definition HasGeneration :: "string \<Rightarrow> bool" where
  "HasGeneration sid = (case CutLast (CHR ''.'') sid of
      Some (k, gen) \<Rightarrow> k \<noteq> [] \<and> length gen = 16 \<and> isHex gen
    | None \<Rightarrow> False)"

definition markerKeyOf :: "string \<Rightarrow> string" where
  "markerKeyOf sid = (case CutLast (CHR ''.'') sid of
      Some (k, gen) \<Rightarrow> if k \<noteq> [] \<and> HasGeneration sid then k else sid
    | None \<Rightarrow> sid)"

subsection \<open>The strict JSON reader\<close>

text \<open>Field names are matched without regard to case, as \<open>encoding/json\<close> does.\<close>

definition field_is :: "string \<Rightarrow> string \<Rightarrow> bool" where
  "field_is name k = EqualFold k name"

definition zero_session :: UsageSession where
  "zero_session = \<lparr>s_bytes = 0, s_closed = False, s_marker = []\<rparr>"

fun dec_session_fields :: "(string \<times> json) list \<Rightarrow> UsageSession \<Rightarrow> UsageSession option" where
  "dec_session_fields [] s = Some s"
| "dec_session_fields ((k, v) # m) s =
     (if field_is ''bytes'' k then
        (case v of
           JNull \<Rightarrow> dec_session_fields m s
         | JNum n \<Rightarrow> (case ParseUint n of
               None \<Rightarrow> None
             | Some b \<Rightarrow> dec_session_fields m (s\<lparr>s_bytes := b\<rparr>))
         | _ \<Rightarrow> None)
      else if field_is ''closed'' k then
        (case v of
           JNull \<Rightarrow> dec_session_fields m s
         | JBool b \<Rightarrow> dec_session_fields m (s\<lparr>s_closed := b\<rparr>)
         | _ \<Rightarrow> None)
      else if field_is ''marker_key'' k then
        (case v of
           JNull \<Rightarrow> dec_session_fields m s
         | JStr x \<Rightarrow> dec_session_fields m (s\<lparr>s_marker := x\<rparr>)
         | _ \<Rightarrow> None)
      else None)"

definition dec_session :: "json \<Rightarrow> UsageSession option" where
  "dec_session v = (case v of
      JNull \<Rightarrow> Some zero_session
    | JObj m \<Rightarrow> dec_session_fields m zero_session
    | _ \<Rightarrow> None)"

fun dec_sessions ::
  "(string \<times> json) list \<Rightarrow> (string, UsageSession) fmap \<Rightarrow> (string, UsageSession) fmap option" where
  "dec_sessions [] acc = Some acc"
| "dec_sessions ((k, v) # m) acc =
     (case dec_session v of None \<Rightarrow> None | Some s \<Rightarrow> dec_sessions m (fmupd k s acc))"

record raw_usage =
  r_version :: "int option"
  r_epoch :: "string option"
  r_total :: "u64 option"
  r_sessions :: "(string, UsageSession) fmap option"

fun dec_fields :: "(string \<times> json) list \<Rightarrow> raw_usage \<Rightarrow> raw_usage option" where
  "dec_fields [] r = Some r"
| "dec_fields ((k, v) # m) r =
     (if field_is ''version'' k then
        (case v of
           JNull \<Rightarrow> dec_fields m (r\<lparr>r_version := None\<rparr>)
         | JNum n \<Rightarrow> (case ParseInt n of None \<Rightarrow> None | Some i \<Rightarrow> dec_fields m (r\<lparr>r_version := Some i\<rparr>))
         | _ \<Rightarrow> None)
      else if field_is ''epoch'' k then
        (case v of
           JNull \<Rightarrow> dec_fields m (r\<lparr>r_epoch := None\<rparr>)
         | JStr s \<Rightarrow> dec_fields m (r\<lparr>r_epoch := Some s\<rparr>)
         | _ \<Rightarrow> None)
      else if field_is ''total'' k then
        (case v of
           JNull \<Rightarrow> dec_fields m (r\<lparr>r_total := None\<rparr>)
         | JNum n \<Rightarrow> (case ParseUint n of None \<Rightarrow> None | Some t \<Rightarrow> dec_fields m (r\<lparr>r_total := Some t\<rparr>))
         | _ \<Rightarrow> None)
      else if field_is ''sessions'' k then
        (case v of
           JNull \<Rightarrow> dec_fields m (r\<lparr>r_sessions := None\<rparr>)
         | JObj o' \<Rightarrow> (case dec_sessions o' (case r_sessions r of None \<Rightarrow> fmempty | Some x \<Rightarrow> x) of
               None \<Rightarrow> None
             | Some x \<Rightarrow> dec_fields m (r\<lparr>r_sessions := Some x\<rparr>))
         | _ \<Rightarrow> None)
      else None)"

definition empty_raw :: raw_usage where
  "empty_raw = \<lparr>r_version = None, r_epoch = None, r_total = None, r_sessions = None\<rparr>"

definition dec_usage :: "json \<Rightarrow> raw_usage option" where
  "dec_usage v = (case v of JNull \<Rightarrow> Some empty_raw | JObj m \<Rightarrow> dec_fields m empty_raw | _ \<Rightarrow> None)"

definition fill_marker :: "string \<Rightarrow> UsageSession \<Rightarrow> UsageSession" where
  "fill_marker sid s = (if s_marker s = [] then s\<lparr>s_marker := markerKeyOf sid\<rparr> else s)"

text \<open>The part of \<open>ReadUsageState\<close> that interprets the bytes of the file.\<close>

definition parse_counter :: "string \<Rightarrow> string \<Rightarrow> UsageState res" where
  "parse_counter cn data =
     (let trimmed = TrimSpace data in
      if trimmed = [] then Inl (Err (''empty counter file for '' @ go_quote cn))
      else if all_digits trimmed then
        (case ParseUint trimmed of
           None \<Rightarrow> Inl (Err ''value out of range'')
         | Some n \<Rightarrow> Inr \<lparr>u_version = 0, u_epoch = [], u_total = n, u_sessions = fmempty\<rparr>)
      else (case decode_value data of
          None \<Rightarrow> Inl (Err ''invalid JSON'')
        | Some (v, rest) \<Rightarrow> (case dec_usage v of
            None \<Rightarrow> Inl (Err ''invalid JSON'')
          | Some r \<Rightarrow>
              if dec_more rest then Inl (Err (''trailing data in counter file for '' @ go_quote cn))
              else if r_version r \<noteq> Some counterVersion
              then Inl (Err (''unknown counter version '' @ Itoa (case r_version r of None \<Rightarrow> 0 | Some v \<Rightarrow> v)))
              else (case (r_epoch r, r_total r, r_sessions r) of
                  (Some ep, Some t, Some ss) \<Rightarrow>
                    if ep = [] then Inl (Err (''incomplete v2 counter file for '' @ go_quote cn))
                    else Inr \<lparr>u_version = counterVersion, u_epoch = ep, u_total = t,
                              u_sessions = fmmap_keys fill_marker ss\<rparr>
                | _ \<Rightarrow> Inl (Err (''incomplete v2 counter file for '' @ go_quote cn))))))"

definition ReadUsageState :: "path \<Rightarrow> string \<Rightarrow> UsageState io" where
  "ReadUsageState usageDir cn w =
     (case SafeCN cn of
        Inl e \<Rightarrow> (Inl e, w)
      | Inr safe \<Rightarrow>
          (let w1 = snd (MkdirAllNoFollow usageDir perm_0770 w) in
           case os_ReadFile w1 (usageDir @ [safe]) of
             Inl e \<Rightarrow>
               if e = NotExist then
                 (let (ep, w2) = newEpoch w1
                  in (Inr \<lparr>u_version = counterVersion, u_epoch = ep, u_total = 0, u_sessions = fmempty\<rparr>, w2))
               else (Inl e, w1)
           | Inr data \<Rightarrow> (parse_counter cn data, w1)))"

subsection \<open>Writing\<close>

definition session_json :: "UsageSession \<Rightarrow> json" where
  "session_json s =
     JObj [(''bytes'', JNum (itoa_nat (unat (s_bytes s)))), (''closed'', JBool (s_closed s)),
           (''marker_key'', JStr (s_marker s))]"

definition usage_json :: "UsageState \<Rightarrow> json" where
  "usage_json st =
     JObj [(''version'', JNum (Itoa (u_version st))), (''epoch'', JStr (u_epoch st)),
           (''total'', JNum (itoa_nat (unat (u_total st)))),
           (''sessions'', JObj (map (\<lambda>k. (k, session_json (the (fmlookup (u_sessions st) k))))
                                  (sorted_list_of_fset (fmdom (u_sessions st)))))]"

definition writeUsageState :: "path \<Rightarrow> string \<Rightarrow> UsageState \<Rightarrow> unit io" where
  "writeUsageState usageDir safe st w =
     WriteFileAtomic (usageDir @ [safe]) (show_json (usage_json st)) perm_0660 w"

subsection \<open>Operations\<close>

text \<open>The bookkeeping of one observation, between the read and the write of the counter.\<close>

definition observe :: "string \<Rightarrow> string \<Rightarrow> u64 \<Rightarrow> bool \<Rightarrow> UsageState \<Rightarrow> UsageState res" where
  "observe cn sid bytes closed st =
     (let sess = (case fmlookup (u_sessions st) sid of
                    None \<Rightarrow> zero_session\<lparr>s_marker := markerKeyOf sid\<rparr>
                  | Some s \<Rightarrow> s);
          close = (\<lambda>s. if closed \<and> \<not> s_closed s then s\<lparr>s_closed := True\<rparr> else s)
      in if \<not> s_closed sess \<and> s_bytes sess < bytes then
           (let delta = bytes - s_bytes sess in
            if u_total st + delta < u_total st then Inl (Err (''counter overflow for '' @ go_quote cn))
            else Inr (st\<lparr>u_total := u_total st + delta,
                         u_sessions := fmupd sid (close (sess\<lparr>s_bytes := bytes\<rparr>)) (u_sessions st)\<rparr>))
         else Inr (st\<lparr>u_sessions := fmupd sid (close sess) (u_sessions st)\<rparr>))"

text \<open>A legacy counter becomes version 2; an empty epoch is replaced by a new one.\<close>

definition upgrade :: "UsageState \<Rightarrow> world \<Rightarrow> UsageState \<times> world" where
  "upgrade st w =
     (if u_version st \<noteq> counterVersion then
        (if u_epoch st = [] then (let (ep, w1) = newEpoch w in (st\<lparr>u_version := counterVersion, u_epoch := ep\<rparr>, w1))
         else (st\<lparr>u_version := counterVersion\<rparr>, w))
      else (st, w))"

text \<open>The functions run under the file lock (the closures passed to \<open>Lock\<close>) are \<open>..._locked\<close>.\<close>

definition record_locked :: "path \<Rightarrow> string \<Rightarrow> string \<Rightarrow> string \<Rightarrow> u64 \<Rightarrow> bool \<Rightarrow> UsageState io" where
  "record_locked usageDir safe cn sid bytes closed w =
     (case ReadUsageState usageDir safe w of
        (Inl e, w) \<Rightarrow> (Inl e, w)
      | (Inr st0, w) \<Rightarrow>
          (let (st1, w) = upgrade st0 w in
           case observe cn sid bytes closed st1 of
             Inl e \<Rightarrow> (Inl e, w)
           | Inr st2 \<Rightarrow>
               (let (st3, w) = (if u_epoch st2 = []
                                then (let (ep, w') = newEpoch w in (st2\<lparr>u_epoch := ep\<rparr>, w'))
                                else (st2, w)) in
                case writeUsageState usageDir safe st3 w of
                  (Inl e, w) \<Rightarrow> (Inl e, w)
                | (Inr _, w) \<Rightarrow> (Inr st3, InvalidateUsageCache w))))"

definition RecordSessionUsage :: "path \<Rightarrow> string \<Rightarrow> string \<Rightarrow> u64 \<Rightarrow> bool \<Rightarrow> UsageState io" where
  "RecordSessionUsage usageDir cn sid bytes closed w =
     (case SafeCN cn of
        Inl e \<Rightarrow> (Inl e, w)
      | Inr safe \<Rightarrow>
          if sid = [] then (Inl (Err ''empty session id''), w)
          else (case MkdirAllNoFollow usageDir perm_0770 w of
            (Inl e, w1) \<Rightarrow> (Inl e, w1)
          | (Inr _, w1) \<Rightarrow>
              Lock (usageDir @ [''.lock.'' @ safe]) perm_0660 (record_locked usageDir safe cn sid bytes closed) w1))"

definition prune :: "(string \<Rightarrow> bool) \<Rightarrow> UsageState \<Rightarrow> UsageState" where
  "prune present st =
     st\<lparr>u_sessions := fmfilter (\<lambda>sid. case fmlookup (u_sessions st) sid of
          Some s \<Rightarrow> \<not> (s_closed s \<and> \<not> present sid) | None \<Rightarrow> True) (u_sessions st)\<rparr>"

definition prune_locked :: "path \<Rightarrow> string \<Rightarrow> (string \<Rightarrow> bool) \<Rightarrow> unit io" where
  "prune_locked usageDir safe present w =
     (case ReadUsageState usageDir safe w of
        (Inl e, w) \<Rightarrow> (Inl e, w)
      | (Inr st, w) \<Rightarrow>
          (let st' = prune present st in
           if fmdom (u_sessions st') = fmdom (u_sessions st) then (Inr (), w)
           else (case writeUsageState usageDir safe st' w of
                  (Inl e, w) \<Rightarrow> (Inl e, w)
                | (Inr _, w) \<Rightarrow> (Inr (), InvalidateUsageCache w))))"

definition PruneReceipts :: "path \<Rightarrow> string \<Rightarrow> (string \<Rightarrow> bool) \<Rightarrow> unit io" where
  "PruneReceipts usageDir cn present w =
     (case SafeCN cn of
        Inl e \<Rightarrow> (Inl e, w)
      | Inr safe \<Rightarrow>
          (case MkdirAllNoFollow usageDir perm_0770 w of
            (Inl e, w1) \<Rightarrow> (Inl e, w1)
          | (Inr _, w1) \<Rightarrow>
              Lock (usageDir @ [''.lock.'' @ safe]) perm_0660 (prune_locked usageDir safe present) w1))"

definition reset_locked :: "path \<Rightarrow> string \<Rightarrow> unit io" where
  "reset_locked usageDir safe w =
     (case ReadUsageState usageDir safe w of
        (Inl e, w) \<Rightarrow> (Inl e, w)
      | (Inr st, w) \<Rightarrow>
          (let (ep, w) = newEpoch w;
               st' = (prune (\<lambda>_. False) st)\<lparr>u_version := counterVersion, u_total := 0, u_epoch := ep\<rparr> in
           case writeUsageState usageDir safe st' w of
             (Inl e, w) \<Rightarrow> (Inl e, w)
           | (Inr _, w) \<Rightarrow> (Inr (), InvalidateUsageCache w)))"

definition ResetUsage :: "path \<Rightarrow> string \<Rightarrow> unit io" where
  "ResetUsage usageDir cn w =
     (case SafeCN cn of
        Inl e \<Rightarrow> (Inl e, w)
      | Inr safe \<Rightarrow>
          (case MkdirAllNoFollow usageDir perm_0770 w of
            (Inl e, w1) \<Rightarrow> (Inl e, w1)
          | (Inr _, w1) \<Rightarrow>
              Lock (usageDir @ [''.lock.'' @ safe]) perm_0660 (reset_locked usageDir safe) w1))"

text \<open>\<open>BankUsage\<close> reports the new total, or that nothing was banked.\<close>

definition bank_locked :: "path \<Rightarrow> string \<Rightarrow> string \<Rightarrow> u64 \<Rightarrow> u64 io" where
  "bank_locked usageDir safe safeCN delta w =
     (case ReadUsageState usageDir safe w of
        (Inl e, w) \<Rightarrow> (Inl e, w)
      | (Inr st0, w) \<Rightarrow>
          if u_total st0 + delta < u_total st0
          then (Inl (Err (''counter overflow for '' @ go_quote safeCN)), w)
          else (let (st, w) = upgrade (st0\<lparr>u_total := u_total st0 + delta\<rparr>) w in
                case writeUsageState usageDir safe st w of
                  (Inl e, w) \<Rightarrow> (Inl e, w)
                | (Inr _, w) \<Rightarrow> (Inr (u_total st), InvalidateUsageCache w)))"

definition BankUsage :: "path \<Rightarrow> string \<Rightarrow> u64 \<Rightarrow> world \<Rightarrow> u64 option \<times> world" where
  "BankUsage usageDir safeCN delta w =
     (case SafeCN safeCN of
        Inl e \<Rightarrow> (None, w)
      | Inr safe \<Rightarrow>
          if delta = 0 then (None, w)
          else (case os_MkdirAll usageDir perm_0755 w of
            (Inl e, w1) \<Rightarrow> (None, w1)
          | (Inr _, w1) \<Rightarrow>
              (case Lock (usageDir @ [''.lock.'' @ safe]) perm_0660 (bank_locked usageDir safe safeCN delta) w1 of
                 (Inl e, w2) \<Rightarrow> (None, w2)
               | (Inr t, w2) \<Rightarrow> (Some t, w2))))"

text \<open>\<open>AccumulatedUsage\<close> (\<open>state.go\<close>): an unreadable counter counts as zero.\<close>

definition AccumulatedUsage :: "path \<Rightarrow> string \<Rightarrow> world \<Rightarrow> u64 \<times> world" where
  "AccumulatedUsage usageDir cn w =
     (case ReadUsageState usageDir cn w of (Inl e, w1) \<Rightarrow> (0, w1) | (Inr st, w1) \<Rightarrow> (u_total st, w1))"


subsection \<open>The file round trip\<close>

text \<open>
  A sound counter: ASCII text throughout and a marker key filled in for every session; a
  well-formed one is also of version 2 with a non-empty epoch, as every written counter is.
\<close>

definition sound_counter :: "UsageState \<Rightarrow> bool" where
  "sound_counter st \<longleftrightarrow> ascii (u_epoch st)
     \<and> fmpred (\<lambda>sid s. ascii sid \<and> ascii (s_marker s) \<and> fill_marker sid s = s) (u_sessions st)"

definition wf_counter :: "UsageState \<Rightarrow> bool" where
  "wf_counter st \<longleftrightarrow> u_version st = counterVersion \<and> u_epoch st \<noteq> [] \<and> sound_counter st"

lemma EqualFold_refl [simp]: "EqualFold s s"
  by (simp add: EqualFold_def)

lemma field_names [simp]:
  "field_is ''bytes'' ''bytes''" "field_is ''closed'' ''closed''" "\<not> field_is ''bytes'' ''closed''"
  "field_is ''marker_key'' ''marker_key''" "\<not> field_is ''bytes'' ''marker_key''"
  "\<not> field_is ''closed'' ''marker_key''" "field_is ''version'' ''version''"
  "field_is ''epoch'' ''epoch''" "\<not> field_is ''version'' ''epoch''" "field_is ''total'' ''total''"
  "\<not> field_is ''version'' ''total''" "\<not> field_is ''epoch'' ''total''"
  "field_is ''sessions'' ''sessions''" "\<not> field_is ''version'' ''sessions''"
  "\<not> field_is ''epoch'' ''sessions''" "\<not> field_is ''total'' ''sessions''"
  by (simp_all add: field_is_def EqualFold_def ToLower_def lower_byte_def byte_class_defs)

lemma dec_session_json [simp]: "dec_session (session_json s) = Some s"
  by (simp add: dec_session_def session_json_def zero_session_def)

lemma dec_sessions_map:
  "dec_sessions (map (\<lambda>k. (k, session_json (f k))) ks) acc = Some (fold (\<lambda>k. fmupd k (f k)) ks acc)"
  by (induction ks arbitrary: acc) auto

lemma fold_fmupd_lookup:
  "fmlookup (fold (\<lambda>k. fmupd k (f k)) ks acc) x = (if x \<in> set ks then Some (f x) else fmlookup acc x)"
  by (induction ks arbitrary: acc) auto

lemma rebuild_fmap:
  "fold (\<lambda>k. fmupd k (the (fmlookup m k))) (sorted_list_of_fset (fmdom m)) fmempty = m"
proof (rule fmap_ext)
  fix x
  show "fmlookup (fold (\<lambda>k. fmupd k (the (fmlookup m k))) (sorted_list_of_fset (fmdom m)) fmempty) x
    = fmlookup m x"
    by (cases "fmlookup m x") (simp_all add: fold_fmupd_lookup fmdomI fmdom_notI)
qed

lemma dec_usage_json:
  "- (2 ^ 63) \<le> u_version st \<Longrightarrow> u_version st < 2 ^ 63 \<Longrightarrow>
   dec_usage (usage_json st) = Some \<lparr>r_version = Some (u_version st), r_epoch = Some (u_epoch st),
     r_total = Some (u_total st), r_sessions = Some (u_sessions st)\<rparr>"
  by (simp add: dec_usage_def usage_json_def empty_raw_def ParseInt_Itoa dec_sessions_map rebuild_fmap)

lemma fill_marker_id: "fmpred (\<lambda>sid s. fill_marker sid s = s) m \<Longrightarrow> fmmap_keys fill_marker m = m"
proof (rule fmap_ext)
  fix x
  assume "fmpred (\<lambda>sid s. fill_marker sid s = s) m"
  then show "fmlookup (fmmap_keys fill_marker m) x = fmlookup m x"
    by (cases "fmlookup m x") (auto simp: fmpred_iff)
qed

lemma show_usage_ends:
  "\<exists>mid. show_json (usage_json st) = CHR ''{'' # mid @ ''}''"
  by (simp add: usage_json_def)

lemma wf_json_usage: "wf_counter st \<Longrightarrow> wf_json (usage_json st)"
  by (auto simp: usage_json_def session_json_def wf_counter_def sound_counter_def list_all_iff
      itoa_nat_Itoa fmpred_iff byte_def fmlookup_dom_iff)

lemma parse_counter_show:
  assumes "wf_counter st"
  shows "parse_counter cn (show_json (usage_json st)) = Inr st"
proof -
  obtain mid where t: "show_json (usage_json st) = CHR ''{'' # mid @ ''}''"
    using show_usage_ends by blast
  have "visible_ends (show_json (usage_json st))" unfolding t by (simp add: visible_ends_def)
  then have trim: "TrimSpace (show_json (usage_json st)) = show_json (usage_json st)" by simp
  have nd: "\<not> all_digits (show_json (usage_json st))"
    unfolding t by (simp add: all_digits_def is_digit_def byte_def)
  have dec: "decode_value (show_json (usage_json st)) = Some (usage_json st, [])"
    using decode_show_json [OF wf_json_usage [OF assms], of "[]"] by simp
  have "fmmap_keys fill_marker (u_sessions st) = u_sessions st"
    using assms by (intro fill_marker_id) (auto simp: wf_counter_def sound_counter_def fmpred_iff)
  then show ?thesis
    using assms trim nd dec t
    by (simp add: parse_counter_def Let_def dec_usage_json wf_counter_def counterVersion_def
        dec_more_def skip_ws_def)
qed


subsection \<open>The abstract ledger\<close>

text \<open>
  What the counter promises of one session: an offset that follows the largest observation, until
  a closing observation freezes it.
\<close>

fun ledger_step :: "nat \<times> bool \<Rightarrow> nat \<times> bool \<Rightarrow> nat \<times> bool" where
  "ledger_step (off, closed) (b, c) = (if closed then (off, True) else (max off b, c))"

type_synonym obs = "string \<times> u64 \<times> bool"

definition ledger_session :: "obs list \<Rightarrow> string \<Rightarrow> nat \<times> bool \<Rightarrow> nat \<times> bool" where
  "ledger_session os sid s =
     foldl (\<lambda>s (i, b, c). if i = sid then ledger_step s (unat b, c) else s) s os"

fun run_obs :: "(string \<Rightarrow> u64 \<Rightarrow> bool \<Rightarrow> 's \<Rightarrow> 's option) \<Rightarrow> obs list \<Rightarrow> 's \<Rightarrow> 's option" where
  "run_obs rec [] s = Some s"
| "run_obs rec ((i, b, c) # os) s = (case rec i b c s of None \<Rightarrow> None | Some s' \<Rightarrow> run_obs rec os s')"

lemma ledger_session_Nil [simp]: "ledger_session [] sid s = s"
  by (simp add: ledger_session_def)

lemma ledger_session_Cons [simp]:
  "ledger_session ((i, b, c) # os) sid s =
     ledger_session os sid (if i = sid then ledger_step s (unat b, c) else s)"
  by (simp add: ledger_session_def)

lemma ledger_step_mono: "fst s \<le> fst (ledger_step s x)"
  by (cases s; cases x) auto

lemma ledger_session_mono: "fst s \<le> fst (ledger_session os sid s)"
proof (induction os arbitrary: s)
  case (Cons x os)
  obtain i b c where x: "x = (i, b, c)" by (cases x)
  have "fst s \<le> fst (ledger_step s (unat b, c))" by (rule ledger_step_mono)
  also have "\<dots> \<le> fst (ledger_session os sid (ledger_step s (unat b, c)))" by (rule Cons.IH)
  finally show ?case using x Cons.IH [of s] by simp
qed simp

lemma ledger_session_closed: "snd s \<Longrightarrow> ledger_session os sid s = s"
  by (induction os) (auto simp: case_prod_beta, (cases s, simp)+)

text \<open>
  The interface a traffic counter offers its clients (the hooks and the usage poll): a total, one
  offset per session, and an operation that books an observation. The two laws are the ledger's
  step for the session itself and conservation: what the total gains is what the offset gains.
\<close>

locale accounting =
  fixes inv :: "'s \<Rightarrow> bool"
    and ok :: "string \<Rightarrow> bool"
    and total :: "'s \<Rightarrow> nat"
    and session :: "'s \<Rightarrow> string \<Rightarrow> nat \<times> bool"
    and rec :: "string \<Rightarrow> u64 \<Rightarrow> bool \<Rightarrow> 's \<Rightarrow> 's option"
  assumes rec_inv: "inv s \<Longrightarrow> ok i \<Longrightarrow> rec i b c s = Some s' \<Longrightarrow> inv s'"
    and rec_step: "inv s \<Longrightarrow> ok i \<Longrightarrow> rec i b c s = Some s' \<Longrightarrow>
      session s' j = (if j = i then ledger_step (session s i) (unat b, c) else session s j)"
    and rec_conserve: "inv s \<Longrightarrow> ok i \<Longrightarrow> rec i b c s = Some s' \<Longrightarrow>
      total s' + fst (session s i) = total s + fst (session s' i)"
begin

lemma run_inv:
  "inv s \<Longrightarrow> (\<And>i b c. (i, b, c) \<in> set os \<Longrightarrow> ok i) \<Longrightarrow> run_obs rec os s = Some s' \<Longrightarrow> inv s'"
proof (induction os arbitrary: s)
  case (Cons x os)
  obtain i b c where x: "x = (i, b, c)" by (cases x)
  then obtain s1 where r: "rec i b c s = Some s1" "run_obs rec os s1 = Some s'"
    using Cons.prems by (auto split: option.splits)
  have o: "ok i" using Cons.prems x by auto
  have "inv s1" using Cons.prems r o rec_inv by blast
  with r show ?case using Cons x by auto
qed simp

lemma run_session:
  "inv s \<Longrightarrow> (\<And>i b c. (i, b, c) \<in> set os \<Longrightarrow> ok i) \<Longrightarrow> run_obs rec os s = Some s' \<Longrightarrow>
   session s' j = ledger_session os j (session s j)"
proof (induction os arbitrary: s)
  case (Cons x os)
  obtain i b c where x: "x = (i, b, c)" by (cases x)
  then obtain s1 where r: "rec i b c s = Some s1" "run_obs rec os s1 = Some s'"
    using Cons.prems by (auto split: option.splits)
  have o: "ok i" using Cons.prems x by auto
  have "inv s1" using Cons.prems r o rec_inv by blast
  then have "session s' j = ledger_session os j (session s1 j)" using Cons x r by auto
  with x rec_step [OF Cons.prems(1) o r(1)] show ?case by auto
qed simp

text \<open>Every byte of every session is counted exactly once.\<close>

lemma run_total:
  "inv s \<Longrightarrow> (\<And>i b c. (i, b, c) \<in> set os \<Longrightarrow> ok i) \<Longrightarrow> run_obs rec os s = Some s' \<Longrightarrow>
   finite J \<Longrightarrow> fst ` set os \<subseteq> J \<Longrightarrow>
   total s' + (\<Sum>j\<in>J. fst (session s j)) = total s + (\<Sum>j\<in>J. fst (session s' j))"
proof (induction os arbitrary: s)
  case (Cons x os)
  obtain i b c where x: "x = (i, b, c)" by (cases x)
  then obtain s1 where r: "rec i b c s = Some s1" "run_obs rec os s1 = Some s'"
    using Cons.prems by (auto split: option.splits)
  have o: "ok i" using Cons.prems x by auto
  have i: "i \<in> J" using Cons.prems x by auto
  have "inv s1" using Cons.prems r o rec_inv by blast
  then have IH: "total s' + (\<Sum>j\<in>J. fst (session s1 j)) = total s1 + (\<Sum>j\<in>J. fst (session s' j))"
    using Cons x r by auto
  have "(\<Sum>j\<in>J - {i}. fst (session s1 j)) = (\<Sum>j\<in>J - {i}. fst (session s j))"
    using rec_step [OF Cons.prems(1) o r(1)] by (intro sum.cong) auto
  then have "(\<Sum>j\<in>J. fst (session s1 j)) + fst (session s i) = (\<Sum>j\<in>J. fst (session s j)) + fst (session s1 i)"
    using i Cons.prems(4) by (simp add: sum.remove [of J i])
  with IH rec_conserve [OF Cons.prems(1) o r(1)] show ?case by linarith
qed simp

lemma run_total_mono:
  assumes "inv s" "\<And>i b c. (i, b, c) \<in> set os \<Longrightarrow> ok i" "run_obs rec os s = Some s'"
  shows "total s \<le> total s'"
proof -
  let ?J = "fst ` set os"
  have "(\<Sum>j\<in>?J. fst (session s j)) \<le> (\<Sum>j\<in>?J. fst (session s' j))"
    using run_session [OF assms] by (intro sum_mono) (simp add: ledger_session_mono)
  moreover have "total s' + (\<Sum>j\<in>?J. fst (session s j)) = total s + (\<Sum>j\<in>?J. fst (session s' j))"
    using run_total [OF assms] by simp
  ultimately show ?thesis by linarith
qed

end

subsection \<open>Laws of the bookkeeping\<close>

definition session_of :: "UsageState \<Rightarrow> string \<Rightarrow> nat \<times> bool" where
  "session_of st sid = (case fmlookup (u_sessions st) sid of
      None \<Rightarrow> (0, False) | Some s \<Rightarrow> (unat (s_bytes s), s_closed s))"

definition start_session :: "UsageState \<Rightarrow> string \<Rightarrow> UsageSession" where
  "start_session st sid = (case fmlookup (u_sessions st) sid of
      None \<Rightarrow> zero_session\<lparr>s_marker := markerKeyOf sid\<rparr> | Some s \<Rightarrow> s)"

lemma session_of_start: "session_of st sid = (unat (s_bytes (start_session st sid)), s_closed (start_session st sid))"
  by (simp add: session_of_def start_session_def zero_session_def split: option.splits)

lemma observe_cases:
  assumes "observe cn sid b c st = Inr st'"
  obtains (idle) "s_closed (start_session st sid) \<or> b \<le> s_bytes (start_session st sid)"
      "st' = st\<lparr>u_sessions := fmupd sid ((start_session st sid)
        \<lparr>s_closed := s_closed (start_session st sid) \<or> c\<rparr>) (u_sessions st)\<rparr>"
    | (grow) "\<not> s_closed (start_session st sid)" "s_bytes (start_session st sid) < b"
      "unat (u_total st) + (unat b - unat (s_bytes (start_session st sid))) < 2 ^ 64"
      "st' = st\<lparr>u_total := u_total st + (b - s_bytes (start_session st sid)),
        u_sessions := fmupd sid ((start_session st sid)\<lparr>s_bytes := b, s_closed := c\<rparr>) (u_sessions st)\<rparr>"
proof -
  let ?s = "start_session st sid"
  have o: "observe cn sid b c st =
      (let close = (\<lambda>s. if c \<and> \<not> s_closed s then s\<lparr>s_closed := True\<rparr> else s) in
       if \<not> s_closed ?s \<and> s_bytes ?s < b then
         (if u_total st + (b - s_bytes ?s) < u_total st then Inl (Err (''counter overflow for '' @ go_quote cn))
          else Inr (st\<lparr>u_total := u_total st + (b - s_bytes ?s),
                       u_sessions := fmupd sid (close (?s\<lparr>s_bytes := b\<rparr>)) (u_sessions st)\<rparr>))
       else Inr (st\<lparr>u_sessions := fmupd sid (close ?s) (u_sessions st)\<rparr>))"
    by (simp add: observe_def start_session_def Let_def)
  have cl: "(if c \<and> \<not> s_closed ?s then ?s\<lparr>s_closed := True\<rparr> else ?s) = ?s\<lparr>s_closed := s_closed ?s \<or> c\<rparr>"
    by (cases ?s) auto
  show ?thesis
  proof (cases "\<not> s_closed ?s \<and> s_bytes ?s < b")
    case True
    then have d: "unat (b - s_bytes ?s) = unat b - unat (s_bytes ?s)"
      by (simp add: unat_sub word_less_def order_less_imp_le)
    have "\<not> u_total st + (b - s_bytes ?s) < u_total st"
      using assms True by (auto simp: o Let_def split: if_splits)
    then have "unat (u_total st) + (unat b - unat (s_bytes ?s)) < 2 ^ 64"
      by (simp add: word_overflow_iff d)
    moreover have nc: "?s\<lparr>s_bytes := b, s_closed := False\<rparr> = ?s\<lparr>s_bytes := b\<rparr>"
      using True by (cases ?s) auto
    moreover have "st' = st\<lparr>u_total := u_total st + (b - s_bytes ?s),
        u_sessions := fmupd sid (?s\<lparr>s_bytes := b, s_closed := c\<rparr>) (u_sessions st)\<rparr>"
      using assms True unfolding o Let_def by (cases c) (simp_all add: nc split: if_splits)
    ultimately show ?thesis using True by (intro grow) simp_all
  next
    case False
    then have "Inr st' = (Inr (st\<lparr>u_sessions := fmupd sid (?s\<lparr>s_closed := s_closed ?s \<or> c\<rparr>) (u_sessions st)\<rparr>) :: UsageState res)"
      using assms unfolding o Let_def cl by (simp only: if_False)
    then show ?thesis using False by (intro idle) auto
  qed
qed

lemma observe_fields:
  "observe cn sid b c st = Inr st' \<Longrightarrow> u_version st' = u_version st \<and> u_epoch st' = u_epoch st"
  by (erule observe_cases) simp_all

lemma observe_session:
  assumes "observe cn sid b c st = Inr st'"
  shows "session_of st' j = (if j = sid then ledger_step (session_of st sid) (unat b, c) else session_of st j)"
  using assms
  by (cases rule: observe_cases)
     (auto simp: session_of_start [of st sid] word_le_nat_alt word_less_nat_alt, auto simp: session_of_def)

lemma observe_total:
  assumes "observe cn sid b c st = Inr st'"
  shows "unat (u_total st') + fst (session_of st sid) = unat (u_total st) + fst (session_of st' sid)"
  using assms
proof (cases rule: observe_cases)
  case idle
  then show ?thesis by (simp add: session_of_start [of st]) (simp add: session_of_def)
next
  case grow
  have "unat (b - s_bytes (start_session st sid)) = unat b - unat (s_bytes (start_session st sid))"
    using grow(2) by (simp add: unat_sub order_less_imp_le)
  then have "unat (u_total st') = unat (u_total st) + (unat b - unat (s_bytes (start_session st sid)))"
    using grow by (simp add: unat_word_ariths)
  moreover have "unat (s_bytes (start_session st sid)) < unat b" using grow(2) by (simp add: word_less_nat_alt)
  moreover have "fst (session_of st' sid) = unat b" using grow by (simp add: session_of_def)
  ultimately show ?thesis by (simp add: session_of_start [of st])
qed

text \<open>The booking fails exactly when the new total does not fit in 64 bits.\<close>

lemma observe_overflow_iff:
  "(\<exists>e. observe cn sid b c st = Inl e) \<longleftrightarrow>
     2 ^ 64 \<le> unat (u_total st) + (fst (ledger_step (session_of st sid) (unat b, c)) - fst (session_of st sid))"
proof (cases "\<not> s_closed (start_session st sid) \<and> s_bytes (start_session st sid) < b")
  case True
  then have "unat (b - s_bytes (start_session st sid)) = unat b - unat (s_bytes (start_session st sid))"
    by (simp add: unat_sub order_less_imp_le)
  then have "u_total st + (b - s_bytes (start_session st sid)) < u_total st \<longleftrightarrow>
      2 ^ 64 \<le> unat (u_total st) + (unat b - unat (s_bytes (start_session st sid)))"
    by (simp add: word_overflow_iff)
  moreover have "(\<exists>e. observe cn sid b c st = Inl e) \<longleftrightarrow>
      u_total st + (b - s_bytes (start_session st sid)) < u_total st"
    using True by (simp add: observe_def start_session_def Let_def)
  moreover have "unat (s_bytes (start_session st sid)) < unat b" using True by (simp add: word_less_nat_alt)
  ultimately show ?thesis
    using True by (simp add: session_of_start max_def)
next
  case False
  have "unat (u_total st) < 2 ^ 64" using unsigned_less [of "u_total st"] by simp
  moreover have "fst (ledger_step (session_of st sid) (unat b, c)) = fst (session_of st sid)"
    using False by (auto simp: session_of_start word_less_nat_alt)
  moreover have "\<not> (\<exists>e. observe cn sid b c st = Inl e)"
    using False by (simp add: observe_def start_session_def Let_def)
  ultimately show ?thesis by simp
qed

definition observe_opt :: "string \<Rightarrow> string \<Rightarrow> u64 \<Rightarrow> bool \<Rightarrow> UsageState \<Rightarrow> UsageState option" where
  "observe_opt cn sid b c st = (case observe cn sid b c st of Inr st' \<Rightarrow> Some st' | Inl _ \<Rightarrow> None)"

interpretation ob: accounting "\<lambda>_. True" "\<lambda>_. True" "\<lambda>st. unat (u_total st)" session_of "observe_opt cn"
  by unfold_locales (auto simp: observe_opt_def observe_session observe_total split: sum.splits)

subsection \<open>What a counter file holds\<close>

definition stored :: "path \<Rightarrow> string \<Rightarrow> world \<Rightarrow> UsageState option res" where
  "stored d safe w = (case os_ReadFile w (d @ [safe]) of
      Inl e \<Rightarrow> if e = NotExist then Inr None else Inl e
    | Inr data \<Rightarrow> (case parse_counter safe data of Inl e \<Rightarrow> Inl e | Inr st \<Rightarrow> Inr (Some st)))"

definition fresh_counter :: "string \<Rightarrow> UsageState" where
  "fresh_counter ep = \<lparr>u_version = counterVersion, u_epoch = ep, u_total = 0, u_sessions = fmempty\<rparr>"

definition counter_scope :: "path \<Rightarrow> string \<Rightarrow> world \<Rightarrow> path \<Rightarrow> bool" where
  "counter_scope d safe w q \<longleftrightarrow> q = d @ [safe] \<or> q = d @ [''.lock.'' @ safe] \<or> tmp_path q
     \<or> prefix q d \<and> look w q = None"

lemma stored_frame:
  "frame P w w' \<Longrightarrow> \<not> P (d @ [safe]) \<Longrightarrow> plain w (d @ [safe]) \<Longrightarrow> stored d safe w' = stored d safe w"
  by (simp add: stored_def plain_ReadFile plain_frame frame_look frame_fault)

lemma stored_put:
  "\<not> fault w OpRead (d @ [safe]) \<Longrightarrow> wf_counter st \<Longrightarrow>
   stored d safe (put (d @ [safe]) (new_file v dir m (show_json (usage_json st))) w) = Inr (Some st)"
  by (simp add: stored_def plain_ReadFile plain_def new_file_def is_regular_def parse_counter_show)

lemma Itoa_ascii [simp]: "ascii (Itoa i)"
  by (auto simp: ascii_def list_all_iff dest!: Itoa_graph simp: is_graph_def)

lemma itoa_nat_ascii [simp]: "ascii (itoa_nat n)"
  by (simp add: itoa_nat_Itoa)

lemma newEpoch_ok:
  "newEpoch w = (ep, w') \<Longrightarrow> ep \<noteq> [] \<and> ascii ep \<and> w' = w\<lparr>w_epochs := w_epochs w + 1\<rparr>"
  by (auto simp: newEpoch_def Let_def byte_def)

lemma parse_counter_version:
  assumes "parse_counter cn data = Inr st"
  shows "u_version st = counterVersion \<and> u_epoch st \<noteq> []
    \<or> u_version st = 0 \<and> u_epoch st = [] \<and> u_sessions st = fmempty"
  using assms by (auto simp: parse_counter_def Let_def split: if_splits option.splits prod.splits)

lemma frame_epochs [simp]: "frame P w (w\<lparr>w_epochs := n\<rparr>)"
  by (simp add: frame_def same_env_def)

lemma plain_epochs [simp]: "plain (w\<lparr>w_epochs := n\<rparr>) p = plain w p"
  by (simp add: plain_def)

lemma ReadUsageState_plain:
  assumes "StoreKeyRe safe" "plain w (d @ [safe])" "ReadUsageState d safe w = (r, w')"
  shows "frame (\<lambda>q. prefix q d \<and> look w q = None) w w'"
    and "r = (case stored d safe w of Inl e \<Rightarrow> Inl e | Inr (Some st) \<Rightarrow> Inr st
           | Inr None \<Rightarrow> Inr (fresh_counter (fst (newEpoch w))))"
proof -
  obtain r1 w1 where m: "MkdirAllNoFollow d perm_0770 w = (r1, w1)" by fastforce
  then have f: "frame (\<lambda>q. prefix q d \<and> look w q = None) w w1" and e: "w_epochs w1 = w_epochs w"
    using MkdirAllNoFollow_frame by (auto simp: same_mem_def)
  have np: "\<not> prefix (d @ [safe]) d" by (auto dest: prefix_length_le)
  have rd: "os_ReadFile w1 (d @ [safe]) = os_ReadFile w (d @ [safe])"
    using f np assms(2) by (simp add: plain_ReadFile plain_frame frame_look frame_fault)
  have ne: "fst (newEpoch w1) = fst (newEpoch w)" and nw: "snd (newEpoch w1) = w1\<lparr>w_epochs := w_epochs w1 + 1\<rparr>"
    using e f by (simp_all add: newEpoch_def Let_def frame_def same_env_def)
  have R: "ReadUsageState d safe w = (case os_ReadFile w (d @ [safe]) of
      Inl e \<Rightarrow> if e = NotExist then (Inr (fresh_counter (fst (newEpoch w1))), snd (newEpoch w1)) else (Inl e, w1)
    | Inr data \<Rightarrow> (parse_counter safe data, w1))"
    using assms(1) m by (cases "os_ReadFile w (d @ [safe])") (simp_all add: ReadUsageState_def rd fresh_counter_def case_prod_beta Let_def)
  show "frame (\<lambda>q. prefix q d \<and> look w q = None) w w'"
    using assms(3) f unfolding R nw
    by (auto split: sum.splits if_splits intro: frame_trans frame_epochs)
  show "r = (case stored d safe w of Inl e \<Rightarrow> Inl e | Inr (Some st) \<Rightarrow> Inr st
           | Inr None \<Rightarrow> Inr (fresh_counter (fst (newEpoch w))))"
    using assms(3) unfolding R ne stored_def
    by (auto split: sum.splits if_splits)
qed

subsection \<open>RecordSessionUsage\<close>

text \<open>The state a counter operation starts from.\<close>

definition before :: "path \<Rightarrow> string \<Rightarrow> world \<Rightarrow> UsageState" where
  "before d safe w = (case stored d safe w of Inr (Some st) \<Rightarrow> st
     | _ \<Rightarrow> fresh_counter (fst (newEpoch w)))"

lemma ReadUsageState_before:
  assumes "StoreKeyRe safe" "plain w (d @ [safe])" "ReadUsageState d safe w = (Inr st, w')"
  shows "st = before d safe w" "\<exists>s. stored d safe w = Inr s"
  using ReadUsageState_plain(2) [OF assms]
  by (auto simp: before_def split: sum.splits option.splits)

lemma before_epoch: "u_version (before d safe w) = counterVersion \<Longrightarrow> u_epoch (before d safe w) \<noteq> []"
proof -
  assume v: "u_version (before d safe w) = counterVersion"
  have "fst (newEpoch w) \<noteq> []" by (simp add: newEpoch_def Let_def)
  with v show ?thesis
    by (auto simp: before_def stored_def fresh_counter_def counterVersion_def
        split: sum.splits option.splits if_splits dest!: parse_counter_version)
qed

lemma upgrade_before:
  assumes "upgrade (before d safe w) v = (st, v')"
  shows "u_version st = counterVersion" "u_epoch st \<noteq> []" "u_total st = u_total (before d safe w)"
    "u_sessions st = u_sessions (before d safe w)" "frame P v v'" "ascii (u_epoch (before d safe w)) \<Longrightarrow> ascii (u_epoch st)"
proof -
  obtain ep w1 where n: "newEpoch v = (ep, w1)" by fastforce
  note ok = newEpoch_ok [OF n]
  have "u_version st = counterVersion \<and> u_epoch st \<noteq> [] \<and> u_total st = u_total (before d safe w)
    \<and> u_sessions st = u_sessions (before d safe w) \<and> frame P v v' \<and> (ascii (u_epoch (before d safe w)) \<longrightarrow> ascii (u_epoch st))"
    using assms ok before_epoch [of d safe w] n by (auto simp: upgrade_def split: if_splits)
  then show "u_version st = counterVersion" "u_epoch st \<noteq> []" "u_total st = u_total (before d safe w)"
    "u_sessions st = u_sessions (before d safe w)" "frame P v v'" "ascii (u_epoch (before d safe w)) \<Longrightarrow> ascii (u_epoch st)"
    by simp_all
qed

lemma observe_cong:
  assumes "u_total st' = u_total st" "u_sessions st' = u_sessions st" "observe cn sid b c st' = Inr x"
  shows "\<exists>y. observe cn sid b c st = Inr y \<and> u_total y = u_total x \<and> u_sessions y = u_sessions x"
  using assms by (auto simp: observe_def Let_def split: if_splits option.splits)

lemma record_locked_ok:
  assumes "StoreKeyRe safe" "plain w (d @ [safe])" "record_locked d safe cn sid b c w = (Inr st, w')"
  obtains y v where "observe cn sid b c (before d safe w) = Inr y" "\<exists>s. stored d safe w = Inr s"
    "u_total st = u_total y" "u_sessions st = u_sessions y" "u_version st = counterVersion" "u_epoch st \<noteq> []"
    "ascii (u_epoch (before d safe w)) \<Longrightarrow> ascii (u_epoch st)"
    "frame (\<lambda>q. prefix q d \<and> look w q = None) w v"
    "w' = InvalidateUsageCache (put (d @ [safe]) (new_file v d perm_0660 (show_json (usage_json st))) v)"
proof -
  obtain st0 w1 where rd: "ReadUsageState d safe w = (Inr st0, w1)"
    using assms(3) by (auto simp: record_locked_def split: prod.splits sum.splits)
  obtain st1 w2 where up: "upgrade st0 w1 = (st1, w2)" by fastforce
  note st0 = ReadUsageState_before [OF assms(1,2) rd]
  note u = upgrade_before [OF up [unfolded st0(1)]]
  obtain st2 where ob: "observe cn sid b c st1 = Inr st2"
    using assms(3) rd up by (auto simp: record_locked_def split: sum.splits)
  have e2: "u_epoch st2 \<noteq> []" "u_epoch st2 = u_epoch st1" "u_version st2 = counterVersion"
    using observe_fields [OF ob] u by simp_all
  obtain w3 where wr: "writeUsageState d safe st2 w2 = (Inr (), w3)" and st: "st = st2" "w' = InvalidateUsageCache w3"
    using assms(3) rd up ob e2 by (auto simp: record_locked_def split: prod.splits sum.splits)
  have w3: "w3 = put (d @ [safe]) (new_file w2 d perm_0660 (show_json (usage_json st))) w2"
    using WriteFileAtomic_ok [OF wr [unfolded writeUsageState_def]] st by simp
  obtain y where y: "observe cn sid b c (before d safe w) = Inr y" "u_total y = u_total st" "u_sessions y = u_sessions st"
    using observe_cong [OF u(3,4) ob] st by auto
  have "frame (\<lambda>q. prefix q d \<and> look w q = None) w w2"
    using ReadUsageState_plain(1) [OF assms(1,2) rd] u(5) by (rule frame_trans)
  then show ?thesis using that y st0 e2 st w3 u(6) by simp
qed

lemma StoreKeyRe_not_tmp: "StoreKeyRe safe \<Longrightarrow> \<not> tmp_path (d @ [safe])"
  using StoreKeyRe_hd [of safe] StoreKeyRe_nonempty [of safe] by (cases safe) (auto simp: tmp_path_def)

lemma before_frame:
  assumes "frame P w w'" "\<not> P (d @ [safe])" "plain w (d @ [safe])" "w_epochs w' = w_epochs w"
  shows "before d safe w' = before d safe w"
proof -
  have "w_nanos w' = w_nanos w" using assms(1) by (simp add: frame_def same_env_def)
  then have "fst (newEpoch w') = fst (newEpoch w)" using assms(4) by (simp add: newEpoch_def Let_def)
  with assms show ?thesis by (simp add: before_def stored_frame split: sum.splits option.splits)
qed

text \<open>
  Every operation on a counter is a critical section under the counter's lock. Either the
  section is not entered and the counter is untouched, or it runs from a world in which the
  counter is still what it was.
\<close>

definition lock_scope :: "path \<Rightarrow> string \<Rightarrow> world \<Rightarrow> path \<Rightarrow> bool" where
  "lock_scope d safe w q \<longleftrightarrow> q = d @ [''.lock.'' @ safe] \<or> prefix q d \<and> look w q = None"

lemma not_lock_scope [simp]: "\<not> lock_scope d safe w (d @ [safe])"
  by (auto simp: lock_scope_def dest: prefix_length_le)

lemma lock_scope_frame:
  assumes "frame (lock_scope d safe w) w v" shows "lock_scope d safe v q \<Longrightarrow> lock_scope d safe w q"
  using assms by (cases "look w q") (auto simp: lock_scope_def frame_def)

lemma missing_scope:
  "frame (lock_scope d safe w) w v \<Longrightarrow> prefix q d \<Longrightarrow> look v q = None \<Longrightarrow> lock_scope d safe w q"
  by (erule lock_scope_frame) (simp add: lock_scope_def)

lemma counter_lock:
  assumes "MkdirAllNoFollow d m w = (Inr u, w1)" "Lock (d @ [''.lock.'' @ safe]) pm fn w1 = (r, w')"
    and "plain w (d @ [safe])"
  obtains (refused) e where "r = Inl e" "frame (lock_scope d safe w) w w'"
    | (held) v where "fn v = (r, w')" "frame (lock_scope d safe w) w v" "plain v (d @ [safe])"
      "stored d safe v = stored d safe w" "before d safe v = before d safe w"
proof -
  note m = MkdirAllNoFollow_frame [OF assms(1)]
  then have f1: "frame (lock_scope d safe w) w w1"
    by (auto simp: lock_scope_def elim: frame_mono)
  have grow: "frame (lock_scope d safe w) w v" if "frame (\<lambda>q. q = d @ [''.lock.'' @ safe]) w1 v" for v
    using f1 that by (rule frame_trans [OF _ frame_mono]) (simp add: lock_scope_def)
  show ?thesis
  proof (cases rule: Lock_cases [OF assms(2)])
    case (1 e)
    then show ?thesis using grow by (intro refused)
  next
    case (2 v)
    then have f: "frame (lock_scope d safe w) w v" using grow by blast
    have "w_epochs v = w_epochs w" using 2 m by (simp add: same_mem_def)
    with f show ?thesis
      using 2 assms(3) by (intro held [of v]) (simp_all add: plain_frame stored_frame before_frame)
  qed
qed

lemma prefix_scope:
  assumes "frame (lock_scope d safe w) w v" "frame (\<lambda>q. prefix q d \<and> look v q = None) v w'"
  shows "frame (lock_scope d safe w) w w'"
  using assms(1) assms(2)
  by (rule frame_trans [OF _ frame_mono]) (use assms(1) in \<open>auto intro: missing_scope\<close>)

subsection \<open>RecordSessionUsage at file level\<close>

lemma record_locked_err:
  assumes "StoreKeyRe safe" "plain w (d @ [safe])" "record_locked d safe cn sid b c w = (Inl e, w')"
  shows "frame (\<lambda>q. tmp_path q \<or> prefix q d \<and> look w q = None) w w'"
proof -
  obtain r w1 where rd: "ReadUsageState d safe w = (r, w1)" by fastforce
  have f: "frame (\<lambda>q. tmp_path q \<or> prefix q d \<and> look w q = None) w w1"
    using ReadUsageState_plain(1) [OF assms(1,2) rd] by (auto elim: frame_mono)
  show ?thesis
  proof (cases r)
    case (Inl e)
    with assms(3) rd f show ?thesis by (simp add: record_locked_def)
  next
    case (Inr st0)
    obtain st1 w2 where up: "upgrade st0 w1 = (st1, w2)" by fastforce
    have u: "st0 = before d safe w" using ReadUsageState_before(1) assms(1,2) rd Inr by blast
    note ub = upgrade_before [OF up [unfolded u]]
    have f2: "frame (\<lambda>q. tmp_path q \<or> prefix q d \<and> look w q = None) w w2"
      using f ub(5) by (rule frame_trans)
    show ?thesis
    proof (cases "observe cn sid b c st1")
      case (Inl e)
      with assms(3) rd up \<open>r = Inr st0\<close> f2 show ?thesis by (simp add: record_locked_def)
    next
      case (Inr st2)
      then have "u_epoch st2 \<noteq> []" using observe_fields ub(2) by metis
      then have "writeUsageState d safe st2 w2 = (Inl e, w')"
        using assms(3) rd up \<open>r = Inr st0\<close> Inr by (auto simp: record_locked_def split: prod.splits sum.splits)
      then have "frame tmp_path w2 w'" unfolding writeUsageState_def by (simp add: WriteFileAtomic_err)
      then have "frame (\<lambda>q. tmp_path q \<or> prefix q d \<and> look w q = None) w2 w'" by (rule frame_mono) simp
      with f2 show ?thesis by (rule frame_trans)
    qed
  qed
qed

lemma RecordSessionUsage_inv:
  assumes "SafeCN cn = Inr safe" "RecordSessionUsage d cn sid b c w = (r, w')"
  obtains (early) e where "r = Inl e" "frame (lock_scope d safe w) w w'"
    | (locked) w1 where "MkdirAllNoFollow d perm_0770 w = (Inr (), w1)"
        "Lock (d @ [''.lock.'' @ safe]) perm_0660 (record_locked d safe cn sid b c) w1 = (r, w')" "sid \<noteq> []"
proof (cases "sid = []")
  case True
  with assms show ?thesis by (intro early) (auto simp: RecordSessionUsage_def)
next
  case False
  obtain a w1 where m: "MkdirAllNoFollow d perm_0770 w = (a, w1)" by fastforce
  show ?thesis
  proof (cases a)
    case (Inl e)
    with assms m False have "r = Inl e" "w' = w1" by (auto simp: RecordSessionUsage_def)
    with MkdirAllNoFollow_frame [OF m] show ?thesis
      by (intro early) (auto simp: lock_scope_def elim: frame_mono)
  next
    case (Inr u)
    with assms m False show ?thesis by (intro locked) (auto simp: RecordSessionUsage_def)
  qed
qed

lemma RecordSessionUsage_err:
  assumes "SafeCN cn = Inr safe" "plain w (d @ [safe])" "RecordSessionUsage d cn sid b c w = (Inl e, w')"
  shows "frame (\<lambda>q. tmp_path q \<or> lock_scope d safe w q) w w'" "stored d safe w' = stored d safe w"
proof -
  have key: "StoreKeyRe safe" using assms(1) by (rule SafeCN_key)
  show f: "frame (\<lambda>q. tmp_path q \<or> lock_scope d safe w q) w w'"
    using assms(1,3)
  proof (cases rule: RecordSessionUsage_inv)
    case (early e')
    then show ?thesis by (auto elim: frame_mono)
  next
    case (locked w1)
    from locked(1,2) assms(2) show ?thesis
    proof (cases rule: counter_lock)
      case (refused e')
      then show ?thesis by (auto elim: frame_mono)
    next
      case (held v)
      have "frame (\<lambda>q. tmp_path q \<or> prefix q d \<and> look v q = None) v w'"
        using record_locked_err [OF key held(3) held(1)] .
      then have "frame (\<lambda>q. tmp_path q \<or> lock_scope d safe w q) v w'"
        by (rule frame_mono) (use held(2) in \<open>auto intro: missing_scope\<close>)
      moreover have "frame (\<lambda>q. tmp_path q \<or> lock_scope d safe w q) w v"
        using held(2) by (rule frame_mono) simp
      ultimately show ?thesis by (rule frame_trans [rotated])
    qed
  qed
  show "stored d safe w' = stored d safe w"
    by (rule stored_frame [OF f _ assms(2)]) (simp add: StoreKeyRe_not_tmp key)
qed


lemma RecordSessionUsage_ok:
  assumes "SafeCN cn = Inr safe" "plain w (d @ [safe])" "RecordSessionUsage d cn sid b c w = (Inr st, w')"
  obtains y v where "observe cn sid b c (before d safe w) = Inr y" "\<exists>s. stored d safe w = Inr s" "sid \<noteq> []"
    "u_total st = u_total y" "u_sessions st = u_sessions y" "u_version st = counterVersion" "u_epoch st \<noteq> []"
    "ascii (u_epoch (before d safe w)) \<Longrightarrow> ascii (u_epoch st)" "frame (lock_scope d safe w) w v"
    "w' = InvalidateUsageCache (put (d @ [safe]) (new_file v d perm_0660 (show_json (usage_json st))) v)"
  using assms(1,3)
proof (cases rule: RecordSessionUsage_inv)
  case (early e)
  then show ?thesis by simp
next
  case (locked w1)
  have key: "StoreKeyRe safe" using assms(1) by (rule SafeCN_key)
  from locked(1,2) assms(2) show ?thesis
  proof (cases rule: counter_lock)
    case (refused e)
    then show ?thesis by simp
  next
    case (held v)
    from key held(3,1) show ?thesis
    proof (cases rule: record_locked_ok)
      case (1 y x)
      then show ?thesis
        using that [of y x] held locked(3) prefix_scope [OF held(2) 1(8)] by simp
    qed
  qed
qed

lemma markerKeyOf_nonempty: "sid \<noteq> [] \<Longrightarrow> markerKeyOf sid \<noteq> []"
  by (auto simp: markerKeyOf_def split: option.splits)

lemma markerKeyOf_ascii: "ascii sid \<Longrightarrow> ascii (markerKeyOf sid)"
  by (auto simp: markerKeyOf_def dest!: CutLast_Some split: option.splits)

lemma start_session_sound:
  assumes "sound_counter st" "ascii sid" "sid \<noteq> []"
  shows "ascii (s_marker (start_session st sid))" "fill_marker sid (start_session st sid) = start_session st sid"
proof -
  have *: "ascii (s_marker (start_session st sid)) \<and> fill_marker sid (start_session st sid) = start_session st sid"
  proof (cases "fmlookup (u_sessions st) sid")
    case None
    then show ?thesis using assms
      by (simp add: start_session_def zero_session_def markerKeyOf_ascii fill_marker_def markerKeyOf_nonempty)
  next
    case (Some s)
    then show ?thesis using assms(1) by (simp add: start_session_def sound_counter_def fmpred_iff)
  qed
  then show "ascii (s_marker (start_session st sid))" "fill_marker sid (start_session st sid) = start_session st sid"
    by simp_all
qed

lemma fill_marker_upd [simp]:
  "fill_marker sid (s\<lparr>s_bytes := b\<rparr>) = (fill_marker sid s)\<lparr>s_bytes := b\<rparr>"
  "fill_marker sid (s\<lparr>s_closed := c\<rparr>) = (fill_marker sid s)\<lparr>s_closed := c\<rparr>"
  by (simp_all add: fill_marker_def)

lemma observe_sound:
  assumes "observe cn sid b c st = Inr st'" "sound_counter st" "ascii sid" "sid \<noteq> []"
  shows "sound_counter st'"
  using assms(1)
proof (cases rule: observe_cases)
  case idle
  then show ?thesis using assms(2-) start_session_sound [OF assms(2-)]
    by (auto simp: sound_counter_def intro!: fmpred_upd)
next
  case grow
  then show ?thesis using assms(2-) start_session_sound [OF assms(2-)]
    by (auto simp: sound_counter_def intro!: fmpred_upd)
qed

definition counter_inv :: "path \<Rightarrow> string \<Rightarrow> world \<Rightarrow> bool" where
  "counter_inv d safe w \<longleftrightarrow> StoreKeyRe safe \<and> plain w (d @ [safe]) \<and> sound_counter (before d safe w)"

definition record_opt :: "path \<Rightarrow> string \<Rightarrow> string \<Rightarrow> u64 \<Rightarrow> bool \<Rightarrow> world \<Rightarrow> world option" where
  "record_opt d cn sid b c w =
     (case RecordSessionUsage d cn sid b c w of (Inr _, w') \<Rightarrow> Some w' | (Inl _, _) \<Rightarrow> None)"

lemma stored_no_fault: "stored d safe w = Inr s \<Longrightarrow> \<not> fault w OpRead (d @ [safe])"
  by (auto simp: stored_def os_ReadFile_def)

lemma before_stored: "stored d safe w = Inr (Some st) \<Longrightarrow> before d safe w = st"
  by (simp add: before_def)

lemma plain_put_file [simp]: "plain (put p (new_file v d m c) w) p"
  by (simp add: plain_def new_file_def is_regular_def)

lemma stored_InvalidateUsageCache [simp]:
  "stored d safe (InvalidateUsageCache w) = stored d safe w" "plain (InvalidateUsageCache w) p = plain w p"
  by (simp_all add: stored_def os_ReadFile_def plain_def)

lemma RecordSessionUsage_stored:
  assumes "SafeCN cn = Inr safe" "counter_inv d safe w" "ascii sid"
    and "RecordSessionUsage d cn sid b c w = (Inr st, w')"
  shows "wf_counter st" "stored d safe w' = Inr (Some st)" "counter_inv d safe w'"
    "\<exists>y. observe cn sid b c (before d safe w) = Inr y \<and> u_total st = u_total y \<and> u_sessions st = u_sessions y"
    "sid \<noteq> []"
proof -
  have inv: "StoreKeyRe safe" "plain w (d @ [safe])" "sound_counter (before d safe w)"
    using assms(2) by (simp_all add: counter_inv_def)
  obtain y v where o: "observe cn sid b c (before d safe w) = Inr y" "\<exists>s. stored d safe w = Inr s" "sid \<noteq> []"
    "u_total st = u_total y" "u_sessions st = u_sessions y" "u_version st = counterVersion" "u_epoch st \<noteq> []"
    "ascii (u_epoch (before d safe w)) \<Longrightarrow> ascii (u_epoch st)" "frame (lock_scope d safe w) w v"
    "w' = InvalidateUsageCache (put (d @ [safe]) (new_file v d perm_0660 (show_json (usage_json st))) v)"
    using RecordSessionUsage_ok [OF assms(1) inv(2) assms(4)] by blast
  have "sound_counter y" using o(1) inv(3) assms(3) o(3) by (rule observe_sound)
  then show wf: "wf_counter st"
    using o inv(3) by (simp add: wf_counter_def sound_counter_def)
  have "\<not> fault v OpRead (d @ [safe])"
    using o(2,9) stored_no_fault by (auto simp: frame_fault)
  then show s: "stored d safe w' = Inr (Some st)" using o(10) wf by (simp add: stored_put)
  have "plain w' (d @ [safe])" using o(10) by simp
  then show "counter_inv d safe w'"
    using wf inv(1) by (simp add: counter_inv_def before_stored [OF s] wf_counter_def)
  show "\<exists>y. observe cn sid b c (before d safe w) = Inr y \<and> u_total st = u_total y \<and> u_sessions st = u_sessions y"
    using o by blast
  show "sid \<noteq> []" by (rule o(3))
qed

lemma session_of_cong: "u_sessions a = u_sessions b \<Longrightarrow> session_of a = session_of b"
  by (simp add: session_of_def fun_eq_iff)

lemma record_opt_step:
  assumes "SafeCN cn = Inr safe" "counter_inv d safe w" "ascii sid" "record_opt d cn sid b c w = Some w'"
  shows "counter_inv d safe w'"
    and "session_of (before d safe w') j = (if j = sid then ledger_step (session_of (before d safe w) sid) (unat b, c)
           else session_of (before d safe w) j)"
    and "unat (u_total (before d safe w')) + fst (session_of (before d safe w) sid) =
           unat (u_total (before d safe w)) + fst (session_of (before d safe w') sid)"
proof -
  obtain st where r: "RecordSessionUsage d cn sid b c w = (Inr st, w')"
    using assms(4) by (auto simp: record_opt_def split: prod.splits sum.splits)
  note s = RecordSessionUsage_stored [OF assms(1-3) r]
  show "counter_inv d safe w'" by (rule s(3))
  from s(4) obtain y where y: "observe cn sid b c (before d safe w) = Inr y"
    "u_total st = u_total y" "u_sessions st = u_sessions y" by blast
  have e: "session_of (before d safe w') = session_of y" "u_total (before d safe w') = u_total y"
    unfolding before_stored [OF s(2)] using y(2,3) session_of_cong [OF y(3)] by simp_all
  show "session_of (before d safe w') j = (if j = sid then ledger_step (session_of (before d safe w) sid) (unat b, c)
           else session_of (before d safe w) j)"
    and "unat (u_total (before d safe w')) + fst (session_of (before d safe w) sid) =
           unat (u_total (before d safe w)) + fst (session_of (before d safe w') sid)"
    unfolding e by (rule observe_session [OF y(1)], rule observe_total [OF y(1)])
qed

text \<open>The counter file, driven through \<open>RecordSessionUsage\<close>, is an accounting.\<close>

interpretation fc: accounting "counter_inv d safe" ascii "\<lambda>w. unat (u_total (before d safe w))"
    "\<lambda>w. session_of (before d safe w)" "record_opt d safe"
proof unfold_locales
  fix s s' :: world and i b c j
  assume a: "counter_inv d safe s" "ascii i" "record_opt d safe i b c s = Some s'"
  then have "SafeCN safe = Inr safe" by (simp add: counter_inv_def)
  note st = record_opt_step [OF this a]
  show "counter_inv d safe s'" by (rule st)
  show "session_of (before d safe s') j =
    (if j = i then ledger_step (session_of (before d safe s) i) (unat b, c) else session_of (before d safe s) j)"
    by (rule st)
  show "unat (u_total (before d safe s')) + fst (session_of (before d safe s) i) =
    unat (u_total (before d safe s)) + fst (session_of (before d safe s') i)" by (rule st)
qed

subsection \<open>PruneReceipts and ResetUsage\<close>

lemma prune_lookup:
  "fmlookup (u_sessions (prune present st)) sid =
     (case fmlookup (u_sessions st) sid of
        Some s \<Rightarrow> if s_closed s \<and> \<not> present sid then None else Some s
      | None \<Rightarrow> None)"
  by (cases "fmlookup (u_sessions st) sid") (simp_all add: prune_def)

lemma prune_simps [simp]:
  "u_total (prune present st) = u_total st" "u_epoch (prune present st) = u_epoch st"
  "u_version (prune present st) = u_version st"
  by (simp_all add: prune_def)

lemma prune_sound: "sound_counter st \<Longrightarrow> sound_counter (prune present st)"
  by (auto simp: sound_counter_def prune_def)

lemma prune_same:
  assumes "fmdom (u_sessions (prune present st)) = fmdom (u_sessions st)"
  shows "u_sessions (prune present st) = u_sessions st"
proof (rule fmap_ext)
  fix x
  have "x |\<in>| fmdom (u_sessions (prune present st)) \<longleftrightarrow> x |\<in>| fmdom (u_sessions st)" using assms by simp
  then show "fmlookup (u_sessions (prune present st)) x = fmlookup (u_sessions st) x"
    by (auto simp: prune_lookup fmlookup_dom_iff split: option.splits if_splits)
qed

lemma prune_legacy: "u_sessions st = fmempty \<Longrightarrow> u_sessions (prune present st) = fmempty"
  by (simp add: prune_def)

lemma prune_version:
  assumes "fmdom (u_sessions (prune present (before d safe w))) \<noteq> fmdom (u_sessions (before d safe w))"
  shows "u_version (before d safe w) = counterVersion"
proof -
  have "u_sessions (before d safe w) \<noteq> fmempty" using assms by (auto simp: prune_legacy)
  then show ?thesis
    by (auto simp: before_def stored_def fresh_counter_def split: sum.splits option.splits if_splits
        dest!: parse_counter_version)
qed

lemma before_fresh:
  "stored d safe w = stored d safe v \<Longrightarrow> u_total (before d safe w) = u_total (before d safe v)"
  "stored d safe w = stored d safe v \<Longrightarrow> u_sessions (before d safe w) = u_sessions (before d safe v)"
  "stored d safe w = stored d safe v \<Longrightarrow> sound_counter (before d safe w) = sound_counter (before d safe v)"
proof -
  have "sound_counter (fresh_counter (fst (newEpoch x)))" for x
    using newEpoch_ok [of x] by (cases "newEpoch x") (simp add: sound_counter_def fresh_counter_def)
  then show "stored d safe w = stored d safe v \<Longrightarrow> u_total (before d safe w) = u_total (before d safe v)"
    "stored d safe w = stored d safe v \<Longrightarrow> u_sessions (before d safe w) = u_sessions (before d safe v)"
    "stored d safe w = stored d safe v \<Longrightarrow> sound_counter (before d safe w) = sound_counter (before d safe v)"
    by (auto simp: before_def fresh_counter_def split: sum.splits option.splits)
qed

lemma prune_locked_ok:
  assumes "counter_inv d safe w" "prune_locked d safe present w = (Inr (), w')"
  shows "counter_inv d safe w'" "u_total (before d safe w') = u_total (before d safe w)"
    "u_sessions (before d safe w') = u_sessions (prune present (before d safe w))"
proof -
  let ?b = "before d safe w"
  have inv: "StoreKeyRe safe" "plain w (d @ [safe])" "sound_counter ?b"
    using assms(1) by (simp_all add: counter_inv_def)
  obtain st w1 where rd: "ReadUsageState d safe w = (Inr st, w1)"
    using assms(2) by (auto simp: prune_locked_def split: prod.splits sum.splits)
  note b = ReadUsageState_before [OF inv(1,2) rd]
  have f: "frame (\<lambda>q. prefix q d \<and> look w q = None) w w1" by (rule ReadUsageState_plain(1) [OF inv(1,2) rd])
  have np: "\<not> (prefix (d @ [safe]) d \<and> look w (d @ [safe]) = None)" by (auto dest: prefix_length_le)
  note keep = stored_frame [OF f np inv(2)] plain_frame [OF f np]
  have "counter_inv d safe w' \<and> u_total (before d safe w') = u_total ?b
      \<and> u_sessions (before d safe w') = u_sessions (prune present ?b)"
  proof (cases "fmdom (u_sessions (prune present ?b)) = fmdom (u_sessions ?b)")
    case True
    then have "w' = w1" using assms(2) rd b by (simp add: prune_locked_def)
    then show ?thesis
      using keep inv before_fresh [OF keep(1)] prune_same [OF True] by (simp add: counter_inv_def)
  next
    case False
    note v = prune_version [OF False]
    have wf: "wf_counter (prune present ?b)"
      using v before_epoch [OF v] prune_sound [OF inv(3)] by (simp add: wf_counter_def)
    obtain w2 where wr: "writeUsageState d safe (prune present ?b) w1 = (Inr (), w2)" "w' = InvalidateUsageCache w2"
      using assms(2) rd b False by (auto simp: prune_locked_def Let_def split: prod.splits sum.splits)
    have "w2 = put (d @ [safe]) (new_file w1 d perm_0660 (show_json (usage_json (prune present ?b)))) w1"
      using WriteFileAtomic_ok [OF wr(1) [unfolded writeUsageState_def]] by simp
    moreover have "\<not> fault w1 OpRead (d @ [safe])" using b(2) f stored_no_fault by (auto simp: frame_fault)
    ultimately have s: "stored d safe w' = Inr (Some (prune present ?b))" and "plain w' (d @ [safe])"
      using wr(2) wf by (simp_all add: stored_put)
    then show ?thesis
      using wf inv(1) by (simp add: before_stored [OF s] counter_inv_def wf_counter_def)
  qed
  then show "counter_inv d safe w'" "u_total (before d safe w') = u_total ?b"
    "u_sessions (before d safe w') = u_sessions (prune present ?b)" by simp_all
qed

lemma counter_inv_held:
  assumes "counter_inv d safe w" "plain v (d @ [safe])" "before d safe v = before d safe w"
  shows "counter_inv d safe v"
  using assms by (simp add: counter_inv_def)

lemma PruneReceipts_ok:
  assumes "SafeCN cn = Inr safe" "counter_inv d safe w" "PruneReceipts d cn present w = (Inr (), w')"
  shows "counter_inv d safe w'" "u_total (before d safe w') = u_total (before d safe w)"
    "u_sessions (before d safe w') = u_sessions (prune present (before d safe w))"
proof -
  have p: "plain w (d @ [safe])" using assms(2) by (simp add: counter_inv_def)
  obtain w1 where m: "MkdirAllNoFollow d perm_0770 w = (Inr (), w1)"
    and l: "Lock (d @ [''.lock.'' @ safe]) perm_0660 (prune_locked d safe present) w1 = (Inr (), w')"
    using assms(1,3) by (auto simp: PruneReceipts_def split: prod.splits sum.splits)
  from m l p obtain v where v: "prune_locked d safe present v = (Inr (), w')" "plain v (d @ [safe])"
    "before d safe v = before d safe w"
    by (cases rule: counter_lock) auto
  note k = prune_locked_ok [OF counter_inv_held [OF assms(2) v(2,3)] v(1)]
  show "counter_inv d safe w'" "u_total (before d safe w') = u_total (before d safe w)"
    "u_sessions (before d safe w') = u_sessions (prune present (before d safe w))"
    using k v(3) by simp_all
qed

lemma reset_locked_ok:
  assumes "counter_inv d safe w" "reset_locked d safe w = (Inr (), w')"
  shows "\<exists>ep. ep \<noteq> [] \<and> stored d safe w' = Inr (Some ((prune (\<lambda>_. False) (before d safe w))
      \<lparr>u_version := counterVersion, u_total := 0, u_epoch := ep\<rparr>))"
    and "counter_inv d safe w'"
proof -
  let ?b = "before d safe w"
  have inv: "StoreKeyRe safe" "plain w (d @ [safe])" "sound_counter ?b"
    using assms(1) by (simp_all add: counter_inv_def)
  obtain st w1 where rd: "ReadUsageState d safe w = (Inr st, w1)"
    using assms(2) by (auto simp: reset_locked_def split: prod.splits sum.splits)
  note b = ReadUsageState_before [OF inv(1,2) rd]
  obtain ep w2 where ep: "newEpoch w1 = (ep, w2)" by fastforce
  note e = newEpoch_ok [OF ep]
  let ?st = "(prune (\<lambda>_. False) ?b)\<lparr>u_version := counterVersion, u_total := 0, u_epoch := ep\<rparr>"
  have wf: "wf_counter ?st" using e prune_sound [OF inv(3)] by (simp add: wf_counter_def sound_counter_def)
  obtain w3 where wr: "writeUsageState d safe ?st w2 = (Inr (), w3)" "w' = InvalidateUsageCache w3"
    using assms(2) rd b ep by (auto simp: reset_locked_def Let_def split: prod.splits sum.splits)
  have "w3 = put (d @ [safe]) (new_file w2 d perm_0660 (show_json (usage_json ?st))) w2"
    using WriteFileAtomic_ok [OF wr(1) [unfolded writeUsageState_def]] by simp
  moreover have "\<not> fault w2 OpRead (d @ [safe])"
    using b(2) ReadUsageState_plain(1) [OF inv(1,2) rd] stored_no_fault e by (auto simp: frame_fault)
  ultimately have s: "stored d safe w' = Inr (Some ?st)" and p: "plain w' (d @ [safe])"
    using wr(2) wf by (simp_all add: stored_put)
  show "\<exists>ep. ep \<noteq> [] \<and> stored d safe w' = Inr (Some ((prune (\<lambda>_. False) (before d safe w))
      \<lparr>u_version := counterVersion, u_total := 0, u_epoch := ep\<rparr>))"
    using s e by blast
  show "counter_inv d safe w'"
    using p wf inv(1) unfolding counter_inv_def before_stored [OF s] wf_counter_def by simp
qed

lemma ResetUsage_ok:
  assumes "SafeCN cn = Inr safe" "counter_inv d safe w" "ResetUsage d cn w = (Inr (), w')"
  shows "\<exists>ep. ep \<noteq> [] \<and> stored d safe w' = Inr (Some ((prune (\<lambda>_. False) (before d safe w))
      \<lparr>u_version := counterVersion, u_total := 0, u_epoch := ep\<rparr>))"
    and "counter_inv d safe w'"
proof -
  have p: "plain w (d @ [safe])" using assms(2) by (simp add: counter_inv_def)
  obtain w1 where m: "MkdirAllNoFollow d perm_0770 w = (Inr (), w1)"
    and l: "Lock (d @ [''.lock.'' @ safe]) perm_0660 (reset_locked d safe) w1 = (Inr (), w')"
    using assms(1,3) by (auto simp: ResetUsage_def split: prod.splits sum.splits)
  from m l p obtain v where v: "reset_locked d safe v = (Inr (), w')" "plain v (d @ [safe])"
    "before d safe v = before d safe w"
    by (cases rule: counter_lock) auto
  note k = reset_locked_ok [OF counter_inv_held [OF assms(2) v(2,3)] v(1)]
  show "\<exists>ep. ep \<noteq> [] \<and> stored d safe w' = Inr (Some ((prune (\<lambda>_. False) (before d safe w))
      \<lparr>u_version := counterVersion, u_total := 0, u_epoch := ep\<rparr>))"
    and "counter_inv d safe w'"
    using k v(3) by simp_all
qed

subsection \<open>Healthy runs\<close>

lemma healthy_epochs [simp]: "healthy (w\<lparr>w_epochs := n\<rparr>) = healthy w"
  by (simp add: healthy_def)

lemma healthy_upgrade: "upgrade st w = (st', w') \<Longrightarrow> healthy w' = healthy w \<and> w_fs w' = w_fs w"
  by (auto simp: upgrade_def newEpoch_def Let_def split: if_splits)

definition counter_ready :: "path \<Rightarrow> string \<Rightarrow> world \<Rightarrow> bool" where
  "counter_ready d safe w \<longleftrightarrow> d \<noteq> [] \<and> dir_ready w d \<and> file_ready w (d @ [safe])
     \<and> file_ready w (d @ [''.lock.'' @ safe])"

lemma file_ready_plain: "file_ready w p \<Longrightarrow> plain w p"
  by (auto simp: file_ready_def plain_def split: option.splits)

text \<open>
  In a healthy run a readable counter is updated, unless the identifier is empty or the total
  would overflow.
\<close>

lemma record_locked_live:
  assumes "healthy w" "StoreKeyRe safe" "counter_ready d safe w"
    and st: "stored d safe w = Inr s" and o: "observe cn sid b c (before d safe w) = Inr y"
  shows "\<exists>st w'. record_locked d safe cn sid b c w = (Inr st, w')"
proof -
  have r: "dir_ready w d" "d \<noteq> []" and p: "plain w (d @ [safe])"
    using assms(3) by (auto simp: counter_ready_def file_ready_plain)
  obtain st0 w1 where rd: "ReadUsageState d safe w = (Inr st0, w1)"
    using ReadUsageState_plain(2) [OF assms(2) p, of "fst (ReadUsageState d safe w)"] st
    by (cases "ReadUsageState d safe w") (auto split: option.splits)
  have st0: "st0 = before d safe w" by (rule ReadUsageState_before(1) [OF assms(2) p rd])
  obtain st1 w2 where up: "upgrade st0 w1 = (st1, w2)" by fastforce
  note ub = upgrade_before [OF up [unfolded st0]]
  have "MkdirAllNoFollow d perm_0770 w = (Inr (), w)" using r by (simp add: MkdirAllNoFollow_ready)
  then have fs1: "w_fs w1 = w_fs w" and h1: "healthy w1"
    using rd assms(1,2) by (auto simp: ReadUsageState_def Let_def newEpoch_def split: sum.splits if_splits)
  have fs2: "w_fs w2 = w_fs w" and h2: "healthy w2" using healthy_upgrade [OF up] fs1 h1 by simp_all
  obtain st2 where ob: "observe cn sid b c st1 = Inr st2"
    using observe_cong [OF ub(3,4) [symmetric] o] by blast
  have e2: "u_epoch st2 \<noteq> []" using observe_fields [OF ob] ub(2) by simp
  obtain dn where dn: "look w d = Some dn" "is_dir dn" using dir_ready_look [OF r] by blast
  have nd: "\<not> is_dir nd" if "look w2 (d @ [safe]) = Some nd" for nd
    using that fs2 assms(3) by (auto simp: counter_ready_def file_ready_def is_regular_def is_dir_def)
  have "\<exists>w3. writeUsageState d safe st2 w2 = (Inr (), w3)"
    unfolding writeUsageState_def using WriteFileAtomic_ready [OF h2, of "d @ [safe]"] dn fs2 nd by simp
  then show ?thesis using rd up ob e2 by (auto simp: record_locked_def)
qed

lemma RecordSessionUsage_live:
  assumes "healthy w" "SafeCN cn = Inr safe" "counter_ready d safe w" "sid \<noteq> []"
    and "stored d safe w = Inr s" "observe cn sid b c (before d safe w) = Inr y"
  shows "\<exists>st w'. RecordSessionUsage d cn sid b c w = (Inr st, w')"
proof -
  have key: "StoreKeyRe safe" using assms(2) by (rule SafeCN_key)
  have r: "dir_ready w d" "file_ready w (d @ [''.lock.'' @ safe])" and p: "plain w (d @ [safe])"
    using assms(3) by (auto simp: counter_ready_def file_ready_plain)
  have m: "MkdirAllNoFollow d perm_0770 w = (Inr (), w)" using r by (simp add: MkdirAllNoFollow_ready)
  obtain v where v: "Lock (d @ [''.lock.'' @ safe]) perm_0660 (record_locked d safe cn sid b c) w
      = record_locked d safe cn sid b c v"
    "frame (\<lambda>q. q = d @ [''.lock.'' @ safe]) w v" "same_mem w v" "healthy v"
    "file_ready v (d @ [''.lock.'' @ safe])"
    using Lock_ready [OF assms(1), of "d @ [''.lock.'' @ safe]"] r by auto
  have n: "d @ [safe] \<noteq> d @ [''.lock.'' @ safe]" by simp
  have "stored d safe v = stored d safe w" "before d safe v = before d safe w"
    using stored_frame [OF v(2) n p] before_frame [OF v(2) n p] v(3) by (simp_all add: same_mem_def)
  moreover have "dir_ready v d = dir_ready w d"
    by (rule dir_ready_frame [OF v(2)]) (auto dest: prefix_length_le)
  moreover have "file_ready v (d @ [safe]) = file_ready w (d @ [safe])"
    using frame_look [OF v(2) n] by (simp add: file_ready_def)
  ultimately have "\<exists>st w'. record_locked d safe cn sid b c v = (Inr st, w')"
    using record_locked_live [OF v(4) key] assms(3,5,6) v(5) by (simp add: counter_ready_def)
  then show ?thesis using assms(2,4) m v(1) by (auto simp: RecordSessionUsage_def)
qed

subsection \<open>Properties\<close>

definition sample_usage :: world where
  "sample_usage = sample_world [root_dir [''u'']]"

definition sample_run :: "obs list" where
  "sample_run = [(''s1'', 10, False), (''s1'', 30, True)]"

lemma StoreKeyRe_sample: "StoreKeyRe ''alice''"
  by code_simp

lemma counter_inv_missing:
  assumes "StoreKeyRe safe" "look w (d @ [safe]) = None"
  shows "counter_inv d safe w"
proof -
  have "stored d safe w = Inr None \<or> (\<exists>e. stored d safe w = Inl e)"
    using assms(2) by (simp add: stored_def plain_ReadFile plain_def)
  then have "before d safe w = fresh_counter (fst (newEpoch w))" by (auto simp: before_def)
  moreover have "sound_counter (fresh_counter (fst (newEpoch w)))"
    using newEpoch_ok [of w] by (cases "newEpoch w") (simp add: sound_counter_def fresh_counter_def)
  ultimately show ?thesis using assms by (simp add: counter_inv_def plain_def)
qed

lemma counter_inv_sample: "counter_inv [''u''] ''alice'' sample_usage"
  by (rule counter_inv_missing [OF StoreKeyRe_sample]) code_simp

text \<open>
  C20. Traffic is counted once. Start from a counter file that is missing or sound, let the hooks
  and the poll record any sequence of observations through \<open>RecordSessionUsage\<close>, each of them
  succeeding. Then every session's offset is the maximum of its observations up to its closing one,
  and the total has grown by exactly what the offsets of all sessions have grown.
\<close>

theorem usage_counted_once:
  assumes "counter_inv d cn w" and "list_all (\<lambda>(sid, _, _). ascii sid) os"
    and "run_obs (record_opt d cn) os w = Some w'"
  shows "session_of (before d cn w') sid = ledger_session os sid (session_of (before d cn w) sid)
    \<and> unat (u_total (before d cn w')) + (\<Sum>j \<in> fst ` set os. fst (session_of (before d cn w) j))
      = unat (u_total (before d cn w)) + (\<Sum>j \<in> fst ` set os. fst (session_of (before d cn w') j))
    \<and> counter_inv d cn w'"
proof -
  have ok: "\<And>i b c. (i, b, c) \<in> set os \<Longrightarrow> ascii i" using assms(2) by (auto simp: list_all_iff)
  show ?thesis
    using fc.run_session [OF assms(1) ok assms(3)] fc.run_total [OF assms(1) ok assms(3)]
      fc.run_inv [OF assms(1) ok assms(3)] by simp
qed

theorem usage_counted_once_witness:
  "let w' = the (run_obs (record_opt [''u''] ''alice'') sample_run sample_usage) in
   session_of (before [''u''] ''alice'' w') ''s1''
     = ledger_session sample_run ''s1'' (session_of (before [''u''] ''alice'' sample_usage) ''s1'')"
proof -
  have "is_some (run_obs (record_opt [''u''] ''alice'') sample_run sample_usage)" by code_simp
  from usage_counted_once [OF counter_inv_sample _ is_some_the [OF this], of "''s1''"]
  show ?thesis by (simp add: Let_def sample_run_def byte_def)
qed

text \<open>
  C21. A recorded observation is committed as a whole. When \<open>RecordSessionUsage\<close> succeeds, reading
  the counter file back gives exactly the state it returned, and that state is the old one with the
  observation booked: same other sessions, total increased by the session's increase.
\<close>

theorem record_commits:
  assumes "SafeCN cn = Inr safe" "counter_inv d safe w" "ascii sid"
    and "RecordSessionUsage d cn sid b c w = (Inr st, w')"
  shows "ReadUsageState d safe w' = (Inr st, snd (ReadUsageState d safe w'))
    \<and> (\<forall>j. session_of st j = (if j = sid then ledger_step (session_of (before d safe w) sid) (unat b, c)
             else session_of (before d safe w) j))
    \<and> unat (u_total st) + fst (session_of (before d safe w) sid)
        = unat (u_total (before d safe w)) + fst (session_of st sid)"
proof -
  note s = RecordSessionUsage_stored [OF assms]
  obtain r v where rd: "ReadUsageState d safe w' = (r, v)" by fastforce
  have i: "StoreKeyRe safe" "plain w' (d @ [safe])" using s(3) by (simp_all add: counter_inv_def)
  have "r = Inr st" using ReadUsageState_plain(2) [OF i rd] s(2) by simp
  moreover obtain y where y: "observe cn sid b c (before d safe w) = Inr y"
    "u_total st = u_total y" "u_sessions st = u_sessions y" using s(4) by blast
  moreover have "session_of st = session_of y" using y(3) by (rule session_of_cong)
  ultimately show ?thesis
    using rd observe_session [OF y(1)] observe_total [OF y(1)] by simp
qed

theorem record_commits_witness:
  "let r = RecordSessionUsage [''u''] '' alice'' ''s1'' 10 False sample_usage in
   ReadUsageState [''u''] ''alice'' (snd r) = (fst r, snd (ReadUsageState [''u''] ''alice'' (snd r)))"
proof -
  have s: "SafeCN '' alice'' = Inr ''alice''" by code_simp
  have a: "ascii ''s1''" by (simp add: byte_def)
  have "is_ok (RecordSessionUsage [''u''] '' alice'' ''s1'' 10 False sample_usage)" by code_simp
  note r = is_okD [OF this]
  from record_commits [OF s counter_inv_sample a r]
  have "ReadUsageState [''u''] ''alice'' (snd (RecordSessionUsage [''u''] '' alice'' ''s1'' 10 False sample_usage))
    = (Inr (projr (fst (RecordSessionUsage [''u''] '' alice'' ''s1'' 10 False sample_usage))),
       snd (ReadUsageState [''u''] ''alice'' (snd (RecordSessionUsage [''u''] '' alice'' ''s1'' 10 False sample_usage))))"
    by (rule conjunct1)
  also have "Inr (projr (fst (RecordSessionUsage [''u''] '' alice'' ''s1'' 10 False sample_usage)))
    = fst (RecordSessionUsage [''u''] '' alice'' ''s1'' 10 False sample_usage)"
    using r by (metis fst_conv)
  finally show ?thesis unfolding Let_def .
qed

text \<open>
  C22. A failed \<open>RecordSessionUsage\<close> leaves the counter file alone. Whatever fails - the directory,
  the lock, the read, the overflow test, any step of the atomic write - only the lock file,
  temporary files and missing parent directories may differ afterwards.
\<close>

theorem record_failure_keeps_counter:
  assumes "SafeCN cn = Inr safe" "plain w (d @ [safe])" "RecordSessionUsage d cn sid b c w = (Inl e, w')"
  shows "look w' (d @ [safe]) = look w (d @ [safe]) \<and> stored d safe w' = stored d safe w
    \<and> frame (\<lambda>q. tmp_path q \<or> lock_scope d safe w q) w w'"
proof -
  note e = RecordSessionUsage_err [OF assms]
  have "look w' (d @ [safe]) = look w (d @ [safe])"
    using frame_look [OF e(1)] StoreKeyRe_not_tmp [OF SafeCN_key [OF assms(1)]] by simp
  with e show ?thesis by simp
qed

definition sample_full :: world where
  "sample_full = sample_world [root_dir [''u''], root_file [''u'', ''bob''] ''18446744073709551610'']"

theorem record_failure_keeps_counter_witness:
  "let r = RecordSessionUsage [''u''] ''bob'' ''s'' 9 False sample_full in
   stored [''u''] ''bob'' (snd r) = stored [''u''] ''bob'' sample_full"
proof -
  let ?r = "RecordSessionUsage [''u''] ''bob'' ''s'' 9 False sample_full"
  have "is_err ?r" by code_simp
  note r = is_errD [OF this]
  have s: "SafeCN ''bob'' = Inr ''bob''" by code_simp
  have p: "plain sample_full ([''u''] @ [''bob''])" by code_simp
  show ?thesis using record_failure_keeps_counter [OF s p r] by (simp add: Let_def)
qed

text \<open>
  C23. In a healthy run, with the counter directory and the lock file in place and the counter
  readable, \<open>RecordSessionUsage\<close> succeeds exactly when the session identifier is not empty and the
  new total fits in 64 bits. The counter never wraps around.
\<close>

theorem record_succeeds_iff_fits:
  assumes "healthy w" "SafeCN cn = Inr safe" "counter_ready d safe w" "stored d safe w = Inr s"
  shows "is_ok (RecordSessionUsage d cn sid b c w) \<longleftrightarrow> sid \<noteq> [] \<and>
    unat (u_total (before d safe w)) + (fst (ledger_step (session_of (before d safe w) sid) (unat b, c))
      - fst (session_of (before d safe w) sid)) < 2 ^ 64"
proof
  assume "is_ok (RecordSessionUsage d cn sid b c w)"
  moreover have "plain w (d @ [safe])" using assms(3) by (simp add: counter_ready_def file_ready_plain)
  ultimately obtain y where "observe cn sid b c (before d safe w) = Inr y" "sid \<noteq> []"
    using RecordSessionUsage_ok [OF assms(2) _ is_okD] by metis
  then show "sid \<noteq> [] \<and> unat (u_total (before d safe w)) + (fst (ledger_step (session_of (before d safe w) sid) (unat b, c))
      - fst (session_of (before d safe w) sid)) < 2 ^ 64"
    using observe_overflow_iff [of cn sid b c "before d safe w"] by auto
next
  assume a: "sid \<noteq> [] \<and> unat (u_total (before d safe w)) + (fst (ledger_step (session_of (before d safe w) sid) (unat b, c))
      - fst (session_of (before d safe w) sid)) < 2 ^ 64"
  then obtain y where "observe cn sid b c (before d safe w) = Inr y"
    using observe_overflow_iff [of cn sid b c "before d safe w"] by (cases "observe cn sid b c (before d safe w)") auto
  then obtain st w' where "RecordSessionUsage d cn sid b c w = (Inr st, w')"
    using RecordSessionUsage_live [OF assms(1-3) _ assms(4)] a by blast
  then show "is_ok (RecordSessionUsage d cn sid b c w)" by (simp add: is_ok_def)
qed

theorem record_succeeds_iff_fits_witness:
  "is_ok (RecordSessionUsage [''u''] ''bob'' ''s'' 5 False sample_full) \<and>
   \<not> is_ok (RecordSessionUsage [''u''] ''bob'' ''s'' 6 False sample_full)"
proof -
  have s: "SafeCN ''bob'' = Inr ''bob''" by code_simp
  have r: "counter_ready [''u''] ''bob'' sample_full" by code_simp
  have st: "stored [''u''] ''bob'' sample_full
      = Inr (Some \<lparr>u_version = 0, u_epoch = [], u_total = 18446744073709551610, u_sessions = fmempty\<rparr>)"
    by code_simp
  have h: "healthy sample_full" by (simp add: sample_full_def)
  note p = record_succeeds_iff_fits [OF h s r st, of "''s''" _ False, unfolded before_stored [OF st]]
  show ?thesis using p [of 5] p [of 6] by (simp add: session_of_def)
qed

text \<open>
  C24. \<open>PruneReceipts\<close> only drops receipts of closed sessions that are no longer present: the total,
  every open session and every present session keep their value.
\<close>

theorem prune_keeps_total_and_open:
  assumes "SafeCN cn = Inr safe" "counter_inv d safe w" "PruneReceipts d cn present w = (Inr (), w')"
  shows "u_total (before d safe w') = u_total (before d safe w)
    \<and> fmlookup (u_sessions (before d safe w')) sid =
        (case fmlookup (u_sessions (before d safe w)) sid of
           Some s \<Rightarrow> if s_closed s \<and> \<not> present sid then None else Some s
         | None \<Rightarrow> None)"
  using PruneReceipts_ok [OF assms] by (simp add: prune_lookup)

definition sample_counter :: UsageState where
  "sample_counter = \<lparr>u_version = 2, u_epoch = ''e'', u_total = 9, u_sessions = fmap_of_list
     [(''a'', \<lparr>s_bytes = 4, s_closed = True, s_marker = ''a''\<rparr>),
      (''b'', \<lparr>s_bytes = 5, s_closed = False, s_marker = ''b''\<rparr>)]\<rparr>"

definition sample_booked :: world where
  "sample_booked = sample_world [root_dir [''u''], root_file [''u'', ''bob''] (show_json (usage_json sample_counter))]"

lemma wf_sample_counter: "wf_counter sample_counter"
  by code_simp

lemma stored_sample: "stored [''u''] ''bob'' sample_booked = Inr (Some sample_counter)"
proof -
  have l: "look sample_booked [''u'', ''bob''] = Some (snd (root_file [''u'', ''bob''] (show_json (usage_json sample_counter))))"
    by (simp add: sample_booked_def sample_world_def root_dir_def root_file_def)
  then have "plain sample_booked ([''u''] @ [''bob''])" by (simp add: plain_def root_file_def is_regular_def)
  with l show ?thesis
    by (simp add: stored_def plain_ReadFile root_file_def parse_counter_show wf_sample_counter)
       (simp add: sample_booked_def sample_world_def)
qed

lemma counter_inv_booked: "counter_inv [''u''] ''bob'' sample_booked"
proof -
  have "StoreKeyRe ''bob''" by code_simp
  moreover have "plain sample_booked ([''u''] @ [''bob''])"
    by (simp add: plain_def sample_booked_def sample_world_def root_dir_def root_file_def is_regular_def)
  ultimately show ?thesis
    using wf_sample_counter by (simp add: counter_inv_def before_stored [OF stored_sample] wf_counter_def)
qed

theorem prune_keeps_total_and_open_witness:
  "let w' = snd (PruneReceipts [''u''] ''bob'' (\<lambda>_. False) sample_booked) in
   u_total (before [''u''] ''bob'' w') = 9 \<and> fmlookup (u_sessions (before [''u''] ''bob'' w')) ''a'' = None"
proof -
  have s: "SafeCN ''bob'' = Inr ''bob''" by code_simp
  have "is_ok (PruneReceipts [''u''] ''bob'' (\<lambda>_. False) sample_booked)" by code_simp
  note r = is_okD [OF this]
  from prune_keeps_total_and_open [OF s counter_inv_booked, of "\<lambda>_. False" _ "''a''"] r
  show ?thesis unfolding before_stored [OF stored_sample] Let_def
    by (cases "PruneReceipts [''u''] ''bob'' (\<lambda>_. False) sample_booked")
       (simp add: sample_counter_def)
qed

text \<open>
  \<open>ResetUsage\<close> zeroes the total and drops closed receipts, but keeps the offset of every open
  session, so that bytes already counted in the old epoch are not counted again in the new one.
\<close>

theorem reset_keeps_open_offsets:
  assumes "SafeCN cn = Inr safe" "counter_inv d safe w" "ResetUsage d cn w = (Inr (), w')"
  shows "u_total (before d safe w') = 0 \<and> counter_inv d safe w'
    \<and> session_of (before d safe w') sid =
        (if snd (session_of (before d safe w) sid) then (0, False) else session_of (before d safe w) sid)"
proof -
  obtain ep where s: "stored d safe w' = Inr (Some ((prune (\<lambda>_. False) (before d safe w))
      \<lparr>u_version := counterVersion, u_total := 0, u_epoch := ep\<rparr>))"
    using ResetUsage_ok(1) [OF assms] by blast
  show ?thesis
    using ResetUsage_ok(2) [OF assms] unfolding before_stored [OF s]
    by (simp add: session_of_def prune_lookup split: option.splits)
qed

theorem reset_keeps_open_offsets_witness:
  "let w' = snd (ResetUsage [''u''] ''bob'' sample_booked) in
   u_total (before [''u''] ''bob'' w') = 0 \<and> session_of (before [''u''] ''bob'' w') ''b'' = (5, False)"
proof -
  have s: "SafeCN ''bob'' = Inr ''bob''" by code_simp
  have "is_ok (ResetUsage [''u''] ''bob'' sample_booked)" by code_simp
  note r = is_okD [OF this]
  from reset_keeps_open_offsets [OF s counter_inv_booked, of _ "''b''"] r
  show ?thesis unfolding before_stored [OF stored_sample] Let_def
    by (cases "ResetUsage [''u''] ''bob'' sample_booked") (simp add: sample_counter_def session_of_def)
qed

text \<open>
  Counter files round-trip: what \<open>writeUsageState\<close> prints for a well-formed counter, the strict
  reader of \<open>ReadUsageState\<close> parses back to the same counter, byte for byte of JSON.
\<close>

theorem counter_file_roundtrip:
  assumes "wf_counter st"
  shows "parse_counter cn (show_json (usage_json st)) = Inr st"
  using assms by (rule parse_counter_show)

theorem counter_file_roundtrip_witness:
  "parse_counter ''bob'' (show_json (usage_json sample_counter)) = Inr sample_counter"
  by (rule counter_file_roundtrip [OF wf_sample_counter])

end
