(* ===== verification/Paths.thy ===== *)
theory Paths
  imports Fsx
begin

text \<open>
  \<open>fsx/paths.go\<close> and the runtime account of \<open>fsx/permissions.go\<close>: where things live on disk.

  A setting is looked up in the \<open>.env\<close> file first, then in the process environment, then in its
  default. The \<open>.env\<close> map is loaded once per process (\<open>loadEnvFile\<close>) and kept in the world's
  \<open>w_envfile\<close>; \<open>start_process\<close> is that first load. Path texts become component lists by
  \<open>to_path\<close> (\<open>filepath.Clean\<close> of an absolute path).
\<close>

subsection \<open>Path texts\<close>

fun clean_parts :: "string list \<Rightarrow> path \<Rightarrow> path" where
  "clean_parts [] acc = rev acc"
| "clean_parts (p # ps) acc =
     (if p = [] \<or> p = ''.'' then clean_parts ps acc
      else if p = ''..'' then clean_parts ps (tl acc)
      else clean_parts ps (p # acc))"

definition to_path :: "string \<Rightarrow> path" where
  "to_path s = clean_parts (Split (CHR ''/'') s) []"

definition path_text :: "path \<Rightarrow> string" where
  "path_text p = concat (map (\<lambda>c. CHR ''/'' # c) p)"

subsection \<open>Settings\<close>

definition env_line :: "string \<Rightarrow> (string, string) fmap \<Rightarrow> (string, string) fmap" where
  "env_line line0 out =
     (let line = TrimSpace line0 in
      if line = [] \<or> HasPrefix line ''#'' \<or> \<not> Contains line ''='' then out
      else (let (k0, v0, _) = Cut (CHR ''='') line;
                k = TrimSpace k0;
                v = TrimSet [DQ, SQ] (TrimSpace v0)
            in if k \<noteq> [] then fmupd k v out else out))"

fun first_env_file :: "world \<Rightarrow> path list \<Rightarrow> (path \<times> string) option" where
  "first_env_file w [] = None"
| "first_env_file w (p # ps) = (case os_ReadFile w p of
      Inl _ \<Rightarrow> first_env_file w ps
    | Inr data \<Rightarrow> Some (p, data))"

definition env_file_paths :: "world \<Rightarrow> path list" where
  "env_file_paths w =
     (case w_env w ''OVN_APP_DIR'' of
        Some d \<Rightarrow> if d \<noteq> [] then [to_path d @ [''.env'']] else []
      | None \<Rightarrow> [])
     @ [to_path ''/opt/ovnode/.env'', to_path ''/etc/openvpn/ovnode/.env'']"

definition loadEnvFile :: "world \<Rightarrow> (string, string) fmap" where
  "loadEnvFile w = (case first_env_file w (env_file_paths w) of
      None \<Rightarrow> fmempty
    | Some (_, data) \<Rightarrow> fold env_line (Split NL data) fmempty)"

definition EnvFileSource :: "world \<Rightarrow> path option" where
  "EnvFileSource w = map_option fst (first_env_file w (env_file_paths w))"

definition start_process :: "world \<Rightarrow> world" where
  "start_process w = w\<lparr>w_envfile := loadEnvFile w\<rparr>"

definition envOr :: "world \<Rightarrow> string \<Rightarrow> string \<Rightarrow> string" where
  "envOr w name fallback =
     (case fmlookup (w_envfile w) name of
        Some v \<Rightarrow> if v \<noteq> [] then v
          else (case w_env w name of Some v \<Rightarrow> if v \<noteq> [] then v else fallback | None \<Rightarrow> fallback)
      | None \<Rightarrow> (case w_env w name of Some v \<Rightarrow> if v \<noteq> [] then v else fallback | None \<Rightarrow> fallback))"

definition EnvOr :: "world \<Rightarrow> string \<Rightarrow> string \<Rightarrow> string" where
  "EnvOr w name fallback = envOr w name fallback"

definition Env :: "world \<Rightarrow> string \<Rightarrow> string \<Rightarrow> string" where
  "Env w name defaultVal = envOr w (''OVNODE_'' @ ToUpper name) defaultVal"

subsection \<open>Locations\<close>

definition DefaultOpenVPNRoot :: string where
  "DefaultOpenVPNRoot = ''/etc/openvpn''"

definition OpenVPNRoot :: "world \<Rightarrow> path" where
  "OpenVPNRoot w = to_path (envOr w ''OVNODE_OPENVPN_ROOT'' DefaultOpenVPNRoot)"

definition IsInstalledTree :: "world \<Rightarrow> bool" where
  "IsInstalledTree w \<longleftrightarrow> OpenVPNRoot w = to_path DefaultOpenVPNRoot"

definition joinRoot :: "world \<Rightarrow> string list \<Rightarrow> path" where
  "joinRoot w parts = OpenVPNRoot w @ parts"

definition PKIDir :: "world \<Rightarrow> path" where
  "PKIDir w = joinRoot w [''server'', ''pki'']"

definition ServerConf :: "world \<Rightarrow> path" where
  "ServerConf w = joinRoot w [''server'', ''server.conf'']"

definition CRLFile :: "world \<Rightarrow> path" where
  "CRLFile w = PKIDir w @ [''crl.pem'']"

definition envPath :: "world \<Rightarrow> string \<Rightarrow> path \<Rightarrow> path" where
  "envPath w name dflt = (let v = envOr w name [] in if v = [] then dflt else to_path v)"

definition MgmtPassFile :: "world \<Rightarrow> path" where
  "MgmtPassFile w = envPath w ''OVNODE_MGMT_PASS_FILE'' (joinRoot w [''server'', ''mgmt-pass''])"

definition StatusFile :: "world \<Rightarrow> path" where
  "StatusFile w = envPath w ''OVNODE_STATUS_FILE'' (joinRoot w [''server'', ''status.log''])"

definition LogDir :: "world \<Rightarrow> path" where
  "LogDir w = envPath w ''OVNODE_LOG_DIR'' (to_path ''/var/log/ovnode'')"

definition LogFile :: "world \<Rightarrow> path" where
  "LogFile w = envPath w ''OVNODE_LOG_FILE'' (LogDir w @ [''hook-events.log''])"

definition OVNodeDir :: "world \<Rightarrow> path" where
  "OVNodeDir w =
     (if envOr w ''OVNODE_DATA_DIR'' [] \<noteq> [] then to_path (envOr w ''OVNODE_DATA_DIR'' [])
      else if envOr w ''DATA_DIR'' [] \<noteq> [] then to_path (envOr w ''DATA_DIR'' [])
      else to_path ''/var/lib/ovnode'')"

definition UsersDir :: "world \<Rightarrow> path" where
  "UsersDir w = envPath w ''OVNODE_USERS_DIR'' (OVNodeDir w @ [''users''])"

definition SessionsDir :: "world \<Rightarrow> path" where
  "SessionsDir w = envPath w ''OVNODE_SESSIONS_DIR'' (OVNodeDir w @ [''sessions''])"

definition UsageDir :: "world \<Rightarrow> path" where
  "UsageDir w = envPath w ''OVNODE_USAGE_DIR'' (OVNodeDir w @ [''usage''])"

definition RequiredDirs :: "world \<Rightarrow> path list" where
  "RequiredDirs w = [joinRoot w [''server''], joinRoot w [''ccd'']]"

lemma envOr_same: "same_env w v \<Longrightarrow> envOr v n f = envOr w n f"
proof -
  assume "same_env w v"
  then have e: "w_env v = w_env w" "w_envfile v = w_envfile w" by (simp_all add: same_env_def)
  show ?thesis unfolding envOr_def e ..
qed

lemma OVNodeDir_env: "same_env w v \<Longrightarrow> OVNodeDir v = OVNodeDir w"
  by (simp add: OVNodeDir_def envOr_same)

subsection \<open>The runtime account\<close>

fun directive_value :: "string \<Rightarrow> string list \<Rightarrow> string option" where
  "directive_value name [] = None"
| "directive_value name (line # rest) =
     (case Fields line of
        f0 # f1 # _ \<Rightarrow> if f0 = name then Some (TrimSet [DQ, SQ] f1) else directive_value name rest
      | _ \<Rightarrow> directive_value name rest)"

text \<open>Reading an opened regular file.\<close>

definition read_open :: "path \<Rightarrow> string io" where
  "read_open p w = (case OpenFileNoFollow p False 0 w of
      (Inl e, w1) \<Rightarrow> (Inl e, w1)
    | (Inr nd, w1) \<Rightarrow> if fault w1 OpRead p then (Inl (Fault OpRead), w1)
        else (case n_kind nd of Reg c \<Rightarrow> (Inr c, w1) | _ \<Rightarrow> (Inl (Err ''is a directory''), w1)))"

definition runtimeDirective :: "world \<Rightarrow> string \<Rightarrow> string \<Rightarrow> string" where
  "runtimeDirective w name fallback =
     (case fst (read_open (ServerConf w) w) of
        Inl _ \<Rightarrow> fallback
      | Inr data \<Rightarrow> (case directive_value name (Split NL data) of Some v \<Rightarrow> v | None \<Rightarrow> fallback))"

definition RuntimeUser :: "world \<Rightarrow> string" where
  "RuntimeUser w = (let v = Env w ''RUNTIME_USER'' [] in
     if v \<noteq> [] then v else runtimeDirective w ''user'' ''nobody'')"

definition RuntimeGroup :: "world \<Rightarrow> string" where
  "RuntimeGroup w = (let v = Env w ''RUNTIME_GROUP'' [] in
     if v \<noteq> [] then v else runtimeDirective w ''group'' ''nogroup'')"

text \<open>\<open>user.LookupGroup\<close> is the group database of the host, \<open>w_groups\<close>.\<close>

definition RuntimeGroupID :: "world \<Rightarrow> int res" where
  "RuntimeGroupID w =
     (let name = RuntimeGroup w;
          lookup = (case w_groups w name of
              None \<Rightarrow> Inl (Err (''runtime group '' @ go_quote name))
            | Some g \<Rightarrow> (case Atoi g of Some i \<Rightarrow> Inr i | None \<Rightarrow> Inl (Err ''invalid syntax''))) in
      case ParseUint name of
        Some n \<Rightarrow> if uint n < 2 ^ 32 then Inr (uint n) else lookup
      | None \<Rightarrow> lookup)"

subsection \<open>Lemmas\<close>

text \<open>The \<open>.env\<close> file wins over the process environment; an empty value counts as unset.\<close>

lemma envOr_file: "fmlookup (w_envfile w) name = Some v \<Longrightarrow> v \<noteq> [] \<Longrightarrow> envOr w name d = v"
  by (simp add: envOr_def)

lemma envOr_env:
  "(\<And>v. fmlookup (w_envfile w) name = Some v \<Longrightarrow> v = []) \<Longrightarrow> w_env w name = Some v \<Longrightarrow> v \<noteq> [] \<Longrightarrow> envOr w name d = v"
  by (auto simp: envOr_def split: option.splits)

lemma read_open_world [simp]: "snd (read_open p w) = w"
  using OpenFileNoFollow_noop [of p 0 w]
  by (cases "OpenFileNoFollow p False 0 w") (auto simp: read_open_def split: sum.splits kind.splits)

definition proper_part :: "string \<Rightarrow> bool" where
  "proper_part c \<longleftrightarrow> c \<noteq> [] \<and> c \<noteq> ''.'' \<and> c \<noteq> ''..''"

lemma clean_parts_ok: "list_all proper_part acc \<Longrightarrow> list_all proper_part (clean_parts ps acc)"
proof (induction ps arbitrary: acc)
  case (Cons p ps)
  have "list_all proper_part (tl acc)" using Cons.prems by (cases acc) simp_all
  moreover have "p \<noteq> [] \<Longrightarrow> p \<noteq> ''.'' \<Longrightarrow> p \<noteq> ''..'' \<Longrightarrow> proper_part p" by (simp add: proper_part_def)
  ultimately show ?case using Cons by simp
qed (simp add: list_all_rev)

lemma to_path_clean: "list_all proper_part (to_path s)"
  by (simp add: to_path_def clean_parts_ok)

end
