(* ===== verification/UserStore.thy ===== *)
theory UserStore
  imports Counter Paths
begin

text \<open>
  \<open>store/store.go\<close>, \<open>store/state.go\<close> and \<open>store/users.go\<close>: the policy of a user.

  A user is a directory \<open><usersDir>/<cn>\<close>. Its merged \<open>state\<close> file holds lines
  \<open>limit=N\<close>, \<open>disabled=0|1\<close> and \<open>name=...\<close>; older nodes kept the same facts in the separate files
  \<open>limit\<close>, \<open>disabled\<close> and \<open>name\<close>, which are honoured field by field. \<open>WriteUserPolicy\<close> reads,
  merges the fields it was given and writes the merged file under the user's lock.
\<close>

subsection \<open>Users\<close>

record UserState =
  us_limit :: int
  us_limit_set :: bool
  us_disabled :: bool
  us_name :: string
  us_name_set :: bool

definition no_state :: UserState where
  "no_state = \<lparr>us_limit = 0, us_limit_set = False, us_disabled = False, us_name = [], us_name_set = False\<rparr>"

definition UserDir :: "path \<Rightarrow> string \<Rightarrow> path res" where
  "UserDir usersDir cn = (case SafeCN cn of Inl e \<Rightarrow> Inl e | Inr safe \<Rightarrow> Inr (usersDir @ [safe]))"

definition UserExists :: "world \<Rightarrow> path \<Rightarrow> string \<Rightarrow> bool" where
  "UserExists w usersDir cn = (case UserDir usersDir cn of
      Inl _ \<Rightarrow> False
    | Inr dir \<Rightarrow> (case os_Stat w dir of Inl _ \<Rightarrow> False | Inr info \<Rightarrow> is_dir info))"

definition ListUsers :: "world \<Rightarrow> path \<Rightarrow> string list" where
  "ListUsers w usersDir = (case os_ReadDir w usersDir of
      Inl _ \<Rightarrow> []
    | Inr entries \<Rightarrow> sort (map fst (filter (\<lambda>(n, nd). is_dir nd \<and> StoreKeyRe n) entries)))"

definition CreateUser :: "path \<Rightarrow> string \<Rightarrow> unit io" where
  "CreateUser usersDir cn w =
     (case UserDir usersDir cn of
        Inl e \<Rightarrow> (Inl e, w)
      | Inr dir \<Rightarrow>
          (case (if w_euid w = 0 then RuntimeGroupID w else Inr (w_egid w)) of
             Inl e \<Rightarrow> (Inl e, w)
           | Inr gid \<Rightarrow>
               (case MkdirAllNoFollow usersDir perm_0750 w of
                  (Inl e, w) \<Rightarrow> (Inl e, w)
                | (Inr _, w) \<Rightarrow>
                    (case SetPermissions usersDir perm_2750 (w_euid w) gid w of
                       (Inl e, w) \<Rightarrow> (Inl e, w)
                     | (Inr _, w) \<Rightarrow>
                         (case MkdirAllNoFollow dir perm_0750 w of
                            (Inl e, w) \<Rightarrow> (Inl e, w)
                          | (Inr _, w) \<Rightarrow> SetPermissions dir perm_2750 (w_euid w) gid w)))))"

definition remove_if_there :: "path \<Rightarrow> unit io" where
  "remove_if_there p w = (case os_Remove p w of
      (Inl e, w1) \<Rightarrow> if e = NotExist then (Inr (), w1) else (Inl e, w1)
    | (Inr _, w1) \<Rightarrow> (Inr (), w1))"

definition DeleteUser :: "path \<Rightarrow> path option \<Rightarrow> path option \<Rightarrow> string \<Rightarrow> unit io" where
  "DeleteUser usersDir sessionsDir usageDir cn w =
     (case UserDir usersDir cn of
        Inl e \<Rightarrow> (Inl e, w)
      | Inr dir \<Rightarrow>
          (case os_RemoveAll dir w of
             (Inl e, w) \<Rightarrow> (Inl e, w)
           | (Inr _, w) \<Rightarrow>
               (case (case sessionsDir of None \<Rightarrow> (Inr (), w)
                      | Some d \<Rightarrow> remove_if_there (d @ [''.lock.'' @ cn]) w) of
                  (Inl e, w) \<Rightarrow> (Inl e, w)
                | (Inr _, w) \<Rightarrow>
                    (case (case usageDir of None \<Rightarrow> (Inr (), w)
                           | Some d \<Rightarrow> remove_if_there (d @ [''.lock.'' @ cn]) w) of
                       (Inl e, w) \<Rightarrow> (Inl e, w)
                     | (Inr _, w) \<Rightarrow> (Inr (), InvalidateNameCache w)))))"

text \<open>No control characters; bytes from 128 on belong to other runes.\<close>

definition validateName :: "string \<Rightarrow> unit res" where
  "validateName name =
     (if list_ex (\<lambda>c. byte c < 32 \<or> byte c = 127) name
      then Inl (Err ''name contains control characters'') else Inr ())"

definition OVPNPath :: "path \<Rightarrow> string \<Rightarrow> path res" where
  "OVPNPath usersDir cn = (case UserDir usersDir cn of Inl e \<Rightarrow> Inl e | Inr dir \<Rightarrow> Inr (dir @ [''client.ovpn'']))"

subsection \<open>Reading the policy\<close>

definition readPolicyFile :: "world \<Rightarrow> path \<Rightarrow> string res" where
  "readPolicyFile w p = fst (read_open p w)"

record policy_acc =
  pa_seen :: "string list"
  pa_disabled_set :: bool
  pa_state :: UserState

fun policy_lines :: "path \<Rightarrow> string list \<Rightarrow> policy_acc \<Rightarrow> policy_acc res" where
  "policy_lines p [] a = Inr a"
| "policy_lines p (line # rest) a =
     (if line = [] then policy_lines p rest a
      else (let (k, v, found) = Cut (CHR ''='') line in
        if \<not> found \<or> k \<in> set (pa_seen a) then Inl (Err (''corrupt policy '' @ path_text p))
        else (let a = a\<lparr>pa_seen := k # pa_seen a\<rparr> in
          if k = ''limit'' then
            (case Atoi v of
               None \<Rightarrow> Inl (Err (''corrupt policy limit in '' @ path_text p))
             | Some n \<Rightarrow>
                 if \<not> all_digits v then Inl (Err (''corrupt policy limit in '' @ path_text p))
                 else policy_lines p rest (a\<lparr>pa_state := (pa_state a)\<lparr>us_limit := n, us_limit_set := True\<rparr>\<rparr>))
          else if k = ''disabled'' then
            (if v \<noteq> ''0'' \<and> v \<noteq> ''1'' then Inl (Err (''corrupt policy disabled flag in '' @ path_text p))
             else policy_lines p rest
                    (a\<lparr>pa_disabled_set := True, pa_state := (pa_state a)\<lparr>us_disabled := (v = ''1'')\<rparr>\<rparr>))
          else if k = ''name'' then
            (case validateName v of
               Inl e \<Rightarrow> Inl (Err (''corrupt policy name in '' @ path_text p @ '': '' @ err_text e))
             | Inr _ \<Rightarrow> policy_lines p rest
                          (a\<lparr>pa_state := (pa_state a)\<lparr>us_name := v, us_name_set := True\<rparr>\<rparr>))
          else Inl (Err (''unknown policy field in '' @ path_text p)))))"

text \<open>The merged file: its fields, or the empty state when it is missing.\<close>

definition parse_policy :: "path \<Rightarrow> string \<Rightarrow> policy_acc res" where
  "parse_policy p data =
     (case policy_lines p (Split NL data) \<lparr>pa_seen = [], pa_disabled_set = False, pa_state = no_state\<rparr> of
        Inl e \<Rightarrow> Inl e
      | Inr a \<Rightarrow> if pa_seen a = [] then Inl (Err (''empty policy '' @ path_text p)) else Inr a)"

text \<open>The three stages of \<open>ReadUserState\<close>: the merged file, then each legacy file it did not settle.\<close>

definition read_merged :: "world \<Rightarrow> path \<Rightarrow> policy_acc res" where
  "read_merged w dir =
     (case readPolicyFile w (dir @ [''state'']) of
        Inl e \<Rightarrow> if e = NotExist
                  then Inr \<lparr>pa_seen = [], pa_disabled_set = False, pa_state = no_state\<rparr> else Inl e
      | Inr data \<Rightarrow> parse_policy (dir @ [''state'']) data)"

definition read_disabled :: "world \<Rightarrow> path \<Rightarrow> policy_acc \<Rightarrow> UserState res" where
  "read_disabled w dir a =
     (if pa_disabled_set a then Inr (pa_state a)
      else (case readPolicyFile w (dir @ [''disabled'']) of
              Inr _ \<Rightarrow> Inr ((pa_state a)\<lparr>us_disabled := True\<rparr>)
            | Inl e \<Rightarrow> if e = NotExist then Inr (pa_state a) else Inl e))"

definition read_limit :: "world \<Rightarrow> path \<Rightarrow> UserState \<Rightarrow> UserState res" where
  "read_limit w dir st =
     (if us_limit_set st then Inr st
      else (case readPolicyFile w (dir @ [''limit'']) of
              Inr raw \<Rightarrow>
                (let line = TrimSuffix [CR] (TrimSuffix [NL] raw) in
                 case Atoi line of
                   None \<Rightarrow> Inl (Err (''corrupt legacy limit in '' @ path_text dir))
                 | Some n \<Rightarrow>
                     if \<not> all_digits line then Inl (Err (''corrupt legacy limit in '' @ path_text dir))
                     else Inr (st\<lparr>us_limit := n, us_limit_set := True\<rparr>))
            | Inl e \<Rightarrow> if e = NotExist then Inr st else Inl e))"

definition ReadUserState :: "world \<Rightarrow> path \<Rightarrow> string \<Rightarrow> UserState res" where
  "ReadUserState w usersDir cn =
     (case UserDir usersDir cn of
        Inl e \<Rightarrow> Inl e
      | Inr dir \<Rightarrow>
        (case os_ReadDir w dir of
           Inl e \<Rightarrow> if e = NotExist then Inr no_state else Inl e
         | Inr _ \<Rightarrow>
           (case read_merged w dir of
              Inl e \<Rightarrow> Inl e
            | Inr a \<Rightarrow> (case read_disabled w dir a of Inl e \<Rightarrow> Inl e | Inr st \<Rightarrow> read_limit w dir st))))"

definition ReadName :: "world \<Rightarrow> path \<Rightarrow> string \<Rightarrow> string" where
  "ReadName w usersDir cn =
     (case ReadUserState w usersDir cn of
        Inl _ \<Rightarrow> []
      | Inr st \<Rightarrow>
          if us_name_set st then TrimSpace (us_name st)
          else (case UserDir usersDir cn of
             Inl _ \<Rightarrow> []
           | Inr dir \<Rightarrow> (case readPolicyFile w (dir @ [''name'']) of
               Inl _ \<Rightarrow> []
             | Inr data \<Rightarrow> TrimSpace data)))"

subsection \<open>Writing the policy\<close>

definition boolInt :: "bool \<Rightarrow> int" where
  "boolInt b = (if b then 1 else 0)"

text \<open>The merge of the current state with the fields given, and its text.\<close>

definition merge_policy :: "UserState \<Rightarrow> string option \<Rightarrow> int option \<Rightarrow> bool option \<Rightarrow> UserState" where
  "merge_policy current name limit disabled =
     (let current = (case name of Some n \<Rightarrow> current\<lparr>us_name := n, us_name_set := True\<rparr> | None \<Rightarrow> current);
          effective = (if us_limit_set current then us_limit current else 1);
          effective = (case limit of Some l \<Rightarrow> if l < 0 then 0 else l | None \<Rightarrow> effective);
          off = (case disabled of Some b \<Rightarrow> b | None \<Rightarrow> us_disabled current)
      in current\<lparr>us_limit := effective, us_disabled := off,
           us_limit_set := us_limit_set current \<or> limit \<noteq> None \<or> disabled \<noteq> None \<or> name = None\<rparr>)"

definition policy_body :: "UserState \<Rightarrow> string" where
  "policy_body st =
     (if us_limit_set st then ''limit='' @ Itoa (us_limit st) @ [NL] else [])
     @ ''disabled='' @ Itoa (boolInt (us_disabled st)) @ [NL]
     @ (if us_name_set st then ''name='' @ us_name st @ [NL] else [])"

definition sync_dir :: "path \<Rightarrow> world \<Rightarrow> unit res" where
  "sync_dir dir w =
     (if fault w OpOpen dir then Inl (Fault OpOpen)
      else case look w dir of
        None \<Rightarrow> Inl NotExist
      | Some _ \<Rightarrow> if fault w OpSync dir then Inl (Fault OpSync) else Inr ())"

fun remove_legacy :: "path \<Rightarrow> string list \<Rightarrow> unit io" where
  "remove_legacy dir [] w = (Inr (), w)"
| "remove_legacy dir (n # ns) w = (case remove_if_there (dir @ [n]) w of
      (Inl e, w) \<Rightarrow> (Inl e, w)
    | (Inr _, w) \<Rightarrow> remove_legacy dir ns w)"

text \<open>The name a user still has in its legacy \<open>name\<close> file.\<close>

definition legacy_name :: "world \<Rightarrow> path \<Rightarrow> UserState \<Rightarrow> UserState res" where
  "legacy_name w dir current =
     (if us_name_set current then Inr current
      else (case readPolicyFile w (dir @ [''name'']) of
         Inr data \<Rightarrow> (let n = TrimSpace data in
           case validateName n of Inl e \<Rightarrow> Inl e | Inr _ \<Rightarrow> Inr (current\<lparr>us_name := n, us_name_set := True\<rparr>))
       | Inl e \<Rightarrow> if e = NotExist then Inr current else Inl e))"

definition policy_locked ::
  "path \<Rightarrow> path \<Rightarrow> string \<Rightarrow> string option \<Rightarrow> int option \<Rightarrow> bool option \<Rightarrow> unit io" where
  "policy_locked usersDir dir cn name limit disabled w =
     (case ReadUserState w usersDir cn of
        Inl e \<Rightarrow> (Inl e, w)
      | Inr current \<Rightarrow>
        (case legacy_name w dir current of
           Inl e \<Rightarrow> (Inl e, w)
         | Inr current \<Rightarrow>
           (let body = policy_body (merge_policy current name limit disabled) in
            case WriteFileAtomic (dir @ [''state'']) body perm_0640 w of
              (Inl e, w) \<Rightarrow> (Inl e, w)
            | (Inr _, w) \<Rightarrow>
                (case sync_dir dir w of
                   Inl e \<Rightarrow> (Inl e, w)
                 | Inr _ \<Rightarrow> remove_legacy dir [''limit'', ''disabled'', ''name''] (InvalidateNameCache w)))))"

definition WriteUserPolicy ::
  "path \<Rightarrow> string \<Rightarrow> string option \<Rightarrow> int option \<Rightarrow> bool option \<Rightarrow> unit io" where
  "WriteUserPolicy usersDir cn name limit disabled w =
     (case (case name of Some n \<Rightarrow> validateName n | None \<Rightarrow> Inr ()) of
        Inl e \<Rightarrow> (Inl e, w)
      | Inr _ \<Rightarrow>
        (case UserDir usersDir cn of
           Inl e \<Rightarrow> (Inl e, w)
         | Inr dir \<Rightarrow>
           (case CreateUser usersDir cn w of
              (Inl e, w) \<Rightarrow> (Inl e, w)
            | (Inr _, w) \<Rightarrow>
                Lock (dir @ [''.state.lock'']) perm_0600 (policy_locked usersDir dir cn name limit disabled) w)))"

definition WriteUserState :: "path \<Rightarrow> string \<Rightarrow> int option \<Rightarrow> bool option \<Rightarrow> unit io" where
  "WriteUserState usersDir cn limit disabled = WriteUserPolicy usersDir cn None limit disabled"

definition SetLimit :: "path \<Rightarrow> string \<Rightarrow> int \<Rightarrow> unit io" where
  "SetLimit usersDir cn maxLogins = WriteUserState usersDir cn (Some maxLogins) None"

definition SetDisabled :: "path \<Rightarrow> string \<Rightarrow> bool \<Rightarrow> unit io" where
  "SetDisabled usersDir cn disabled = WriteUserState usersDir cn None (Some disabled)"

definition WriteName :: "path \<Rightarrow> string \<Rightarrow> string \<Rightarrow> unit io" where
  "WriteName usersDir cn name = WriteUserPolicy usersDir cn (Some name) None None"

subsection \<open>Names and totals of all users\<close>

definition NameMap :: "path \<Rightarrow> world \<Rightarrow> (string, string) fmap \<times> world" where
  "NameMap usersDir w =
     (case NameCacheGet w usersDir of
        Some m \<Rightarrow> (m, w)
      | None \<Rightarrow>
          (let m = fold (\<lambda>cn m. let name = ReadName w usersDir cn in
                     if name \<noteq> [] then fmupd cn name m else m) (ListUsers w usersDir) fmempty
           in (m, NameCacheSet usersDir m w)))"

text \<open>Go visits a map in any order: \<open>order\<close> is the one of this run.\<close>

definition CNForName :: "string list \<Rightarrow> path \<Rightarrow> string \<Rightarrow> world \<Rightarrow> string \<times> world" where
  "CNForName order usersDir name w =
     (let (m, w1) = NameMap usersDir w in
      (case find (\<lambda>cn. fmlookup m cn = Some name) order of Some cn \<Rightarrow> cn | None \<Rightarrow> [], w1))"

fun all_usage :: "path \<Rightarrow> (string \<times> node) list \<Rightarrow> (string, u64) fmap \<Rightarrow> world \<Rightarrow> (string, u64) fmap \<times> world" where
  "all_usage d [] out w = (out, w)"
| "all_usage d ((n, nd) # es) out w =
     (if is_dir nd \<or> HasPrefix n ''.lock.'' then all_usage d es out w
      else if \<not> StoreKeyRe n then all_usage d es out w
      else (case ReadUsageState d n w of
          (Inr st, w) \<Rightarrow> all_usage d es (fmupd n (u_total st) out) w
        | (Inl e, w) \<Rightarrow> all_usage d es out w))"

definition AllAccumulatedUsage :: "path \<Rightarrow> world \<Rightarrow> (string, u64) fmap \<times> world" where
  "AllAccumulatedUsage usageDir w = (case os_ReadDir w usageDir of
      Inl _ \<Rightarrow> (fmempty, w)
    | Inr entries \<Rightarrow> all_usage usageDir entries fmempty w)"

subsection \<open>The text of a policy\<close>

definition policy_ok :: "UserState \<Rightarrow> bool" where
  "policy_ok st \<longleftrightarrow> 0 \<le> us_limit st \<and> us_limit st < 2 ^ 63 \<and> validateName (us_name st) = Inr ()
     \<and> (us_limit_set st \<or> us_limit st = 0) \<and> (us_name_set st \<or> us_name st = [])"

lemma no_state_ok [simp]: "policy_ok no_state"
  by (simp add: policy_ok_def no_state_def validateName_def)

lemma Atoi_all_digits: "Atoi v = Some n \<Longrightarrow> all_digits v \<Longrightarrow> 0 \<le> n \<and> n < 2 ^ 63"
  by (auto simp: Atoi_def ParseInt_digits split: if_splits)

lemma policy_lines_ok:
  "policy_lines p ls a = Inr a' \<Longrightarrow> policy_ok (pa_state a) \<Longrightarrow> policy_ok (pa_state a')"
proof (induction ls arbitrary: a)
  case (Cons line ls)
  obtain k v f where c: "Cut (CHR ''='') line = (k, v, f)" by (cases "Cut (CHR ''='') line")
  show ?case
  proof (cases "line = []")
    case True
    with Cons show ?thesis by simp
  next
    case False
    consider "k = ''limit''" | "k = ''disabled''" | "k = ''name''"
      using Cons.prems c False by (auto simp: Let_def split: if_splits)
    then show ?thesis
    proof cases
      case 1
      then obtain n where n: "Atoi v = Some n" "all_digits v"
        using Cons.prems c False by (auto simp: Let_def split: if_splits option.splits)
      note r = Atoi_all_digits [OF n]
      from 1 n Cons.prems c False have
        "policy_lines p ls (a\<lparr>pa_seen := k # pa_seen a, pa_state := (pa_state a)\<lparr>us_limit := n, us_limit_set := True\<rparr>\<rparr>) = Inr a'"
        by (simp add: Let_def split: if_splits)
      from Cons.IH [OF this] r Cons.prems(2) show ?thesis by (simp add: policy_ok_def)
    next
      case 2
      with Cons.prems c False have
        "policy_lines p ls (a\<lparr>pa_seen := k # pa_seen a, pa_disabled_set := True, pa_state := (pa_state a)\<lparr>us_disabled := (v = ''1'')\<rparr>\<rparr>) = Inr a'"
        by (simp add: Let_def split: if_splits)
      from Cons.IH [OF this] Cons.prems(2) show ?thesis by (simp add: policy_ok_def)
    next
      case 3
      then obtain u where u: "validateName v = Inr u"
        using Cons.prems c False by (auto simp: Let_def split: if_splits sum.splits)
      with 3 Cons.prems c False have
        "policy_lines p ls (a\<lparr>pa_seen := k # pa_seen a, pa_state := (pa_state a)\<lparr>us_name := v, us_name_set := True\<rparr>\<rparr>) = Inr a'"
        by (simp add: Let_def split: if_splits)
      from Cons.IH [OF this] u Cons.prems(2) show ?thesis by (simp add: policy_ok_def)
    qed
  qed
qed simp

lemma parse_policy_ok: "parse_policy p data = Inr a \<Longrightarrow> policy_ok (pa_state a)"
  by (auto simp: parse_policy_def split: sum.splits if_splits dest: policy_lines_ok)

lemma read_merged_ok: "read_merged w dir = Inr a \<Longrightarrow> policy_ok (pa_state a)"
  by (auto simp: read_merged_def split: sum.splits if_splits dest: parse_policy_ok)

lemma read_disabled_ok: "read_disabled w dir a = Inr st \<Longrightarrow> policy_ok (pa_state a) \<Longrightarrow> policy_ok st"
  by (auto simp: read_disabled_def policy_ok_def split: sum.splits if_splits)

lemma read_limit_ok:
  assumes "read_limit w dir st = Inr st'" "policy_ok st" shows "policy_ok st'"
proof -
  have "policy_ok (st\<lparr>us_limit := n, us_limit_set := True\<rparr>)" if "Atoi l = Some n" "all_digits l" for l n
    using that Atoi_all_digits assms(2) by (simp add: policy_ok_def)
  with assms show ?thesis
    by (auto simp: read_limit_def Let_def split: sum.splits if_splits option.splits)
qed

lemma ReadUserState_cases:
  assumes "ReadUserState w ud cn = Inr st"
  obtains (missing) dir where "UserDir ud cn = Inr dir" "os_ReadDir w dir = Inl NotExist" "st = no_state"
    | (present) dir es a st1 where "UserDir ud cn = Inr dir" "os_ReadDir w dir = Inr es" "read_merged w dir = Inr a"
      "read_disabled w dir a = Inr st1" "read_limit w dir st1 = Inr st"
  using assms by (auto simp: ReadUserState_def split: sum.splits if_splits)

lemma ReadUserState_ok: "ReadUserState w ud cn = Inr st \<Longrightarrow> policy_ok st"
  by (erule ReadUserState_cases) (auto dest: read_merged_ok read_disabled_ok read_limit_ok)

lemma NL_not_Itoa [simp]: "NL \<notin> set (Itoa i)"
  by (auto dest!: Itoa_graph simp: is_graph_def byte_def)

lemma validateName_NL: "validateName n = Inr () \<Longrightarrow> NL \<notin> set n"
  by (auto simp: validateName_def list_ex_iff byte_def split: if_splits)

lemma policy_lines_end: "policy_lines p [[]] a = Inr a"
  by simp

declare policy_lines.simps(2) [simp del]

lemma line_limit:
  assumes "0 \<le> n" "n < 2 ^ 63" "''limit'' \<notin> set (pa_seen a)"
  shows "policy_lines p ((''limit='' @ Itoa n) # ls) a =
    policy_lines p ls (a\<lparr>pa_seen := ''limit'' # pa_seen a, pa_state := (pa_state a)\<lparr>us_limit := n, us_limit_set := True\<rparr>\<rparr>)"
proof -
  have "''limit='' @ Itoa n = ''limit'' @ CHR ''='' # Itoa n" by simp
  then have c: "Cut (CHR ''='') (''limit='' @ Itoa n) = (''limit'', Itoa n, True)"
    by (simp only:) (rule Cut_append, simp)
  have "all_digits (Itoa n)" using assms by (simp add: Itoa_def)
  moreover have "Atoi (Itoa n) = Some n" using assms by (simp add: Atoi_def ParseInt_Itoa)
  ultimately show ?thesis using assms(3) c by (simp add: policy_lines.simps(2) Let_def)
qed

lemma line_disabled:
  assumes "''disabled'' \<notin> set (pa_seen a)"
  shows "policy_lines p ((''disabled='' @ Itoa (boolInt b)) # ls) a =
    policy_lines p ls (a\<lparr>pa_seen := ''disabled'' # pa_seen a, pa_disabled_set := True,
      pa_state := (pa_state a)\<lparr>us_disabled := b\<rparr>\<rparr>)"
proof -
  have "''disabled='' @ Itoa (boolInt b) = ''disabled'' @ CHR ''='' # Itoa (boolInt b)" by simp
  then have c: "Cut (CHR ''='') (''disabled='' @ Itoa (boolInt b)) = (''disabled'', Itoa (boolInt b), True)"
    by (simp only:) (rule Cut_append, simp)
  have "Itoa 1 = ''1''" "Itoa 0 = ''0''" by code_simp+
  then have "Itoa (boolInt b) = (if b then ''1'' else ''0'')" by (simp add: boolInt_def)
  with assms c show ?thesis by (simp add: policy_lines.simps(2) Let_def)
qed

lemma line_name:
  assumes "validateName n = Inr ()" "''name'' \<notin> set (pa_seen a)"
  shows "policy_lines p ((''name='' @ n) # ls) a =
    policy_lines p ls (a\<lparr>pa_seen := ''name'' # pa_seen a, pa_state := (pa_state a)\<lparr>us_name := n, us_name_set := True\<rparr>\<rparr>)"
proof -
  have "''name='' @ n = ''name'' @ CHR ''='' # n" by simp
  then have c: "Cut (CHR ''='') (''name='' @ n) = (''name'', n, True)"
    by (simp only:) (rule Cut_append, simp)
  with assms show ?thesis by (simp add: policy_lines.simps(2) Let_def)
qed

definition body_lines :: "UserState \<Rightarrow> string list" where
  "body_lines st =
    (if us_limit_set st then [''limit='' @ Itoa (us_limit st)] else [])
    @ [''disabled='' @ Itoa (boolInt (us_disabled st))]
    @ (if us_name_set st then [''name='' @ us_name st] else [])"

lemma Split_policy_body:
  assumes "validateName (us_name st) = Inr ()"
  shows "Split NL (policy_body st) = body_lines st @ [[]]"
proof -
  have "policy_body st = concat (map (\<lambda>l. l @ [NL]) (body_lines st))"
    by (simp add: policy_body_def body_lines_def)
  moreover have "NL \<notin> set l" if "l \<in> set (body_lines st)" for l
    using that validateName_NL [OF assms] by (auto simp: body_lines_def split: if_splits)
  ultimately show ?thesis by (simp add: Split_lines)
qed

text \<open>What a policy reads back as: a limit that was not set is zero.\<close>

definition stored_policy :: "UserState \<Rightarrow> UserState" where
  "stored_policy st = st\<lparr>us_limit := (if us_limit_set st then us_limit st else 0),
     us_name := (if us_name_set st then us_name st else [])\<rparr>"

lemma parse_policy_body:
  assumes "0 \<le> us_limit st" "us_limit st < 2 ^ 63" "validateName (us_name st) = Inr ()"
  obtains a where "parse_policy p (policy_body st) = Inr a" "pa_disabled_set a" "pa_state a = stored_policy st"
proof -
  let ?a0 = "\<lparr>pa_seen = [], pa_disabled_set = False, pa_state = no_state\<rparr>"
  have sp: "us_limit_set st = l \<Longrightarrow> us_name_set st = n \<Longrightarrow> stored_policy st = \<lparr>us_limit = (if l then us_limit st else 0),
      us_limit_set = l, us_disabled = us_disabled st, us_name = (if n then us_name st else []), us_name_set = n\<rparr>" for l n
    by (cases st) (simp add: stored_policy_def)
  have "\<exists>a. policy_lines p (Split NL (policy_body st)) ?a0 = Inr a \<and> pa_seen a \<noteq> [] \<and> pa_disabled_set a
      \<and> pa_state a = stored_policy st"
    unfolding Split_policy_body [OF assms(3)] body_lines_def
    by (cases "us_limit_set st"; cases "us_name_set st")
       (simp_all add: line_limit [simplified] line_disabled [simplified] line_name [simplified] assms [simplified] sp no_state_def policy_lines_end)
  then show ?thesis using that by (auto simp: parse_policy_def)
qed

subsection \<open>What reading sees of a directory\<close>

text \<open>\<open>shape\<close> is what reading depends on: the kind and the link count, not the mode or the owner.\<close>

definition shape :: "world \<Rightarrow> path \<Rightarrow> (kind \<times> nat) option" where
  "shape w p = map_option (\<lambda>nd. (n_kind nd, n_nlink nd)) (look w p)"

definition file_view :: "world \<Rightarrow> path \<Rightarrow> string res" where
  "file_view w p =
     (if fault w OpOpen p then Inl (Fault OpOpen)
      else case shape w p of
        None \<Rightarrow> Inl NotExist
      | Some (k, n) \<Rightarrow> (case k of
          Link _ \<Rightarrow> Inl (Err ''too many levels of symbolic links'')
        | Dir \<Rightarrow> Inl (if fault w OpStat p then Fault OpStat else Err ''is not a single-link regular file'')
        | Reg c \<Rightarrow> if fault w OpStat p then Inl (Fault OpStat)
            else if n \<noteq> 1 then Inl (Err ''is not a single-link regular file'')
            else if fault w OpRead p then Inl (Fault OpRead) else Inr c))"

lemma read_open_view: "dir_ready w (butlast p) \<Longrightarrow> fst (read_open p w) = file_view w p"
  by (cases "look w p"; cases "n_kind (the (look w p))")
     (simp_all add: read_open_def file_view_def OpenFileNoFollow_def openPathNoFollow_def openDirectory_ready
        shape_def is_regular_def)

lemma readPolicyFile_view: "dir_ready w dir \<Longrightarrow> readPolicyFile w (dir @ [n]) = file_view w (dir @ [n])"
  by (simp add: readPolicyFile_def read_open_view)

lemma file_view_cong:
  assumes "w_fault w' = w_fault w" "shape w' p = shape w p" shows "file_view w' p = file_view w p"
  unfolding file_view_def assms by (rule refl)

lemma frame_shape: "frame P w w' \<Longrightarrow> \<not> P q \<Longrightarrow> shape w' q = shape w q"
  by (simp add: shape_def frame_look)

text \<open>A change of modes and owners only.\<close>

definition mode_change :: "world \<Rightarrow> world \<Rightarrow> bool" where
  "mode_change w w' \<longleftrightarrow> same_env w w' \<and> same_mem w w' \<and> (\<forall>q. shape w' q = shape w q)"

lemma mode_change_refl [simp]: "mode_change w w"
  by (simp add: mode_change_def)

lemma mode_change_trans: "mode_change u v \<Longrightarrow> mode_change v w \<Longrightarrow> mode_change u w"
  by (auto simp: mode_change_def intro: same_env_trans same_mem_trans)

lemma mode_change_put:
  "look w p = Some nd \<Longrightarrow> n_kind nd' = n_kind nd \<Longrightarrow> n_nlink nd' = n_nlink nd \<Longrightarrow> mode_change w (put p nd' w)"
  by (auto simp: mode_change_def shape_def same_env_def)

lemma mode_change_fault: "mode_change w w' \<Longrightarrow> w_fault w' = w_fault w"
  by (simp add: mode_change_def same_env_def)

lemma SetPermissions_modes:
  assumes "SetPermissions p m u g w = (r, w')"
  shows "mode_change w w'"
proof (cases "openPathNoFollow p False 0 w")
  case (Pair a w1)
  have w1: "w1 = w" using Pair by (rule openPathNoFollow_noop)
  show ?thesis
  proof (cases a)
    case (Inl e)
    with Pair assms w1 show ?thesis by (simp add: SetPermissions_def)
  next
    case (Inr nd)
    have l: "look w p = Some nd" using openPathNoFollow_ok [OF Pair [unfolded Inr]] by simp
    have pp: "mode_change w (put p nd' w)" if "n_kind nd' = n_kind nd" "n_nlink nd' = n_nlink nd" for nd'
      using l that by (rule mode_change_put)
    show ?thesis
      using assms Pair Inr w1 unfolding SetPermissions_def
      by (auto simp: Let_def intro!: pp split: if_splits sum.splits)
  qed
qed

lemma shape_dir: "shape w p = Some (Dir, n) \<longleftrightarrow> (\<exists>nd. look w p = Some nd \<and> is_dir nd \<and> n_nlink nd = n)"
  by (auto simp: shape_def is_dir_def)

lemma openat_dir_shape:
  "w_fault w' = w_fault w \<Longrightarrow> shape w' p = shape w p \<Longrightarrow>
   (\<exists>nd. openat_dir w' p = Inr nd) = (\<exists>nd. openat_dir w p = Inr nd)"
  by (cases "look w p"; cases "look w' p") (auto simp: openat_dir_def shape_def is_dir_def)

lemma dirs_ok_shape:
  "w_fault w' = w_fault w \<Longrightarrow> (\<And>q. prefix q (cur @ ps) \<Longrightarrow> shape w' q = shape w q) \<Longrightarrow>
   dirs_ok w' cur ps = dirs_ok w cur ps"
proof (induction ps arbitrary: cur)
  case (Cons p ps)
  have "(\<exists>nd. openat_dir w' (cur @ [p]) = Inr nd) = (\<exists>nd. openat_dir w (cur @ [p]) = Inr nd)"
    by (rule openat_dir_shape) (use Cons.prems in auto)
  moreover have "dirs_ok w' (cur @ [p]) ps = dirs_ok w (cur @ [p]) ps"
    by (rule Cons.IH) (use Cons.prems in auto)
  ultimately show ?case by (auto split: sum.splits)
qed simp

lemma mode_change_dir_ready: "mode_change w w' \<Longrightarrow> dir_ready w' d = dir_ready w d"
  unfolding dir_ready_def by (rule dirs_ok_shape) (auto simp: mode_change_def same_env_def)

lemma ReadUserState_view:
  assumes "SafeCN cn = Inr safe" "dir_ready w (ud @ [safe])"
  shows "ReadUserState w ud cn =
    (if fault w OpReadDir (ud @ [safe]) then Inl (Fault OpReadDir)
     else case read_merged w (ud @ [safe]) of
       Inl e \<Rightarrow> Inl e
     | Inr a \<Rightarrow> (case read_disabled w (ud @ [safe]) a of Inl e \<Rightarrow> Inl e | Inr st \<Rightarrow> read_limit w (ud @ [safe]) st))"
proof -
  obtain nd where "look w (ud @ [safe]) = Some nd" "is_dir nd" using dir_ready_look [OF assms(2)] by blast
  then show ?thesis using assms(1)
    by (simp add: ReadUserState_def UserDir_def os_ReadDir_def follow_max is_dir_def)
qed

lemma ReadUserState_cong:
  assumes "SafeCN cn = Inr safe" "dir_ready w (ud @ [safe])" "dir_ready w' (ud @ [safe])" "w_fault w' = w_fault w"
    and "\<And>n. n \<in> {''state'', ''disabled'', ''limit''} \<Longrightarrow> shape w' (ud @ [safe, n]) = shape w (ud @ [safe, n])"
  shows "ReadUserState w' ud cn = ReadUserState w ud cn"
proof -
  have v: "readPolicyFile w' (ud @ [safe, n]) = readPolicyFile w (ud @ [safe, n])"
    if "n \<in> {''state'', ''disabled'', ''limit''}" for n
    using readPolicyFile_view [OF assms(2)] readPolicyFile_view [OF assms(3)] file_view_cong [OF assms(4) assms(5)] that
    by simp
  have m: "read_merged w' (ud @ [safe]) = read_merged w (ud @ [safe])"
    "read_disabled w' (ud @ [safe]) = read_disabled w (ud @ [safe])"
    "read_limit w' (ud @ [safe]) = read_limit w (ud @ [safe])"
    by (simp_all add: read_merged_def read_disabled_def read_limit_def fun_eq_iff v)
  then show ?thesis
    unfolding ReadUserState_view [OF assms(1,2)] ReadUserState_view [OF assms(1,3)] m assms(4) by simp
qed

lemma CreateUser_ready:
  assumes "SafeCN cn = Inr safe" "dir_ready w (ud @ [safe])" "CreateUser ud cn w = (Inr u, w')"
  shows "mode_change w w'"
proof -
  have r: "dir_ready w ud" using assms(2) dirs_ok_append [of w "[]" ud "[safe]"] by (simp add: dir_ready_def)
  obtain gid where g: "(if w_euid w = 0 then RuntimeGroupID w else Inr (w_egid w)) = Inr gid"
    using assms(1,3) by (auto simp: CreateUser_def UserDir_def split: sum.splits)
  obtain w1 where s1: "SetPermissions ud perm_2750 (w_euid w) gid w = (Inr (), w1)"
    and k: "(case MkdirAllNoFollow (ud @ [safe]) perm_0750 w1 of (Inl e, w) \<Rightarrow> (Inl e, w)
       | (Inr _, w) \<Rightarrow> SetPermissions (ud @ [safe]) perm_2750 (w_euid w) gid w) = (Inr u, w')"
    using assms(1,3) g r by (auto simp: CreateUser_def UserDir_def MkdirAllNoFollow_ready split: prod.splits sum.splits)
  note m1 = SetPermissions_modes [OF s1]
  have "MkdirAllNoFollow (ud @ [safe]) perm_0750 w1 = (Inr (), w1)"
    using mode_change_dir_ready [OF m1] assms(2) by (simp add: MkdirAllNoFollow_ready)
  with k have "mode_change w1 w'" by (auto intro: SetPermissions_modes)
  with m1 show ?thesis by (rule mode_change_trans)
qed

subsection \<open>Writing and reading back\<close>

lemma remove_if_there_ok:
  "remove_if_there p w = (Inr u, w') \<Longrightarrow> frame (\<lambda>q. q = p) w w' \<and> look w' p = None"
  by (auto simp: remove_if_there_def os_Remove_def split: if_splits option.splits intro: frame_del)

lemma remove_legacy_ok:
  "remove_legacy d ns w = (Inr u, w') \<Longrightarrow> frame (\<lambda>q. q \<in> (\<lambda>n. d @ [n]) ` set ns) w w'
     \<and> (\<forall>n \<in> set ns. look w' (d @ [n]) = None)"
proof (induction ns arbitrary: w)
  case (Cons n ns)
  then obtain w1 where r: "remove_if_there (d @ [n]) w = (Inr (), w1)" "remove_legacy d ns w1 = (Inr u, w')"
    by (auto split: prod.splits sum.splits)
  note a = remove_if_there_ok [OF r(1)] and b = Cons.IH [OF r(2)]
  have "frame (\<lambda>q. q \<in> (\<lambda>n. d @ [n]) ` set (n # ns)) w w1"
    "frame (\<lambda>q. q \<in> (\<lambda>n. d @ [n]) ` set (n # ns)) w1 w'"
    using a b by (auto elim: frame_mono)
  then have "frame (\<lambda>q. q \<in> (\<lambda>n. d @ [n]) ` set (n # ns)) w w'" by (rule frame_trans)
  moreover have "look w' (d @ [n]) = None"
    using a b frame_look [of _ w1 w' "d @ [n]"] by (cases "n \<in> set ns") auto
  ultimately show ?case using b by auto
qed simp

lemma read_limit_unset:
  "read_limit w dir st = Inr st' \<Longrightarrow> \<not> us_limit_set st' \<Longrightarrow> readPolicyFile w (dir @ [''limit'']) = Inl NotExist"
  by (auto simp: read_limit_def Let_def split: if_splits sum.splits option.splits)

lemma file_view_NotExist: "file_view w p = Inl NotExist \<Longrightarrow> \<not> fault w OpOpen p"
  by (auto simp: file_view_def)

definition readable_file :: "world \<Rightarrow> path \<Rightarrow> bool" where
  "readable_file w p \<longleftrightarrow> \<not> fault w OpOpen p \<and> \<not> fault w OpStat p \<and> \<not> fault w OpRead p"

lemma legacy_name_ok:
  assumes "legacy_name w dir cur = Inr cur2" "policy_ok cur"
  shows "validateName (us_name cur2) = Inr ()" "us_limit_set cur2 = us_limit_set cur" "us_limit cur2 = us_limit cur"
    "us_disabled cur2 = us_disabled cur" "us_name_set cur \<Longrightarrow> cur2 = cur"
  using assms by (auto simp: legacy_name_def policy_ok_def Let_def split: if_splits sum.splits)

lemma policy_locked_ok:
  assumes "SafeCN cn = Inr safe" "dir_ready v (ud @ [safe])" "ReadUserState v ud cn = Inr cur"
    and lock: "policy_locked ud (ud @ [safe]) cn name limit disabled v = (Inr (), w')"
    and "\<And>n. name = Some n \<Longrightarrow> validateName n = Inr ()" "\<And>l. limit = Some l \<Longrightarrow> l < 2 ^ 63"
    and rdf: "readable_file v (ud @ [safe, ''state''])"
  obtains cur2 where "legacy_name v (ud @ [safe]) cur = Inr cur2"
    "ReadUserState w' ud cn = Inr (stored_policy (merge_policy cur2 name limit disabled))"
proof -
  let ?d = "ud @ [safe]"
  obtain cur2 where c2: "legacy_name v ?d cur = Inr cur2"
    using lock assms(3) by (auto simp: policy_locked_def split: sum.splits)
  have pok: "policy_ok cur" using assms(3) by (rule ReadUserState_ok)
  note leg = legacy_name_ok [OF c2 pok]
  let ?m = "merge_policy cur2 name limit disabled"
  obtain w1 where wr: "WriteFileAtomic (?d @ [''state'']) (policy_body ?m) perm_0640 v = (Inr (), w1)"
    and rm: "remove_legacy ?d [''limit'', ''disabled'', ''name''] (InvalidateNameCache w1) = (Inr (), w')"
    using lock assms(3) c2 by (auto simp: policy_locked_def Let_def split: prod.splits sum.splits)
  have w1: "w1 = put (?d @ [''state'']) (new_file v ?d perm_0640 (policy_body ?m)) v"
    using WriteFileAtomic_ok [OF wr] by (simp only: butlast_snoc)
  note r = remove_legacy_ok [OF rm]
  let ?P = "\<lambda>q. \<exists>n. q = ?d @ [n]"
  have "frame ?P (InvalidateNameCache w1) w'"
    using conjunct1 [OF r] by (rule frame_mono) blast
  moreover have "frame ?P v w1" unfolding w1 by (rule frame_put) blast
  ultimately have f: "frame ?P v w'"
    using frame_trans [OF frame_trans [OF _ frame_InvalidateNameCache]] by blast
  have dr: "dir_ready w' ?d"
    using dir_ready_children [OF f, of ?d] assms(2) by blast
  have flt: "w_fault w' = w_fault v" using f by (rule frame_fault)
  have "look w' (?d @ [''state'']) = Some (new_file v ?d perm_0640 (policy_body ?m))"
    using frame_look [OF conjunct1 [OF r], of "?d @ [''state'']"] by (auto simp: w1)
  then have "shape w' (?d @ [''state'']) = Some (Reg (policy_body ?m), 1)"
    by (simp add: shape_def new_file_def)
  then have st: "readPolicyFile w' (?d @ [''state'']) = Inr (policy_body ?m)"
    using rdf flt by (simp add: readPolicyFile_view [OF dr, simplified] file_view_def readable_file_def)
  have m: "0 \<le> us_limit ?m" "us_limit ?m < 2 ^ 63" "validateName (us_name ?m) = Inr ()"
    using pok leg assms(5,6) by (auto simp: merge_policy_def policy_ok_def Let_def split: option.splits)
  obtain a where a: "parse_policy (?d @ [''state'']) (policy_body ?m) = Inr a" "pa_disabled_set a"
    "pa_state a = stored_policy ?m"
    using parse_policy_body [OF m] by blast
  have mg: "read_merged w' ?d = Inr a" using st a by (simp add: read_merged_def)
  have rdis: "read_disabled w' ?d a = Inr (stored_policy ?m)" using a by (simp add: read_disabled_def)
  have lim: "read_limit w' ?d (stored_policy ?m) = Inr (stored_policy ?m)"
  proof (cases "us_limit_set ?m")
    case True
    then show ?thesis by (simp add: read_limit_def stored_policy_def)
  next
    case False
    then have "\<not> us_limit_set cur" using leg by (auto simp: merge_policy_def Let_def split: option.splits)
    then have "readPolicyFile v (?d @ [''limit'']) = Inl NotExist"
      using assms(3) unfolding ReadUserState_view [OF assms(1,2)]
      by (auto split: if_splits sum.splits dest: read_limit_unset)
    then have "\<not> fault v OpOpen (?d @ [''limit''])"
      using readPolicyFile_view [OF assms(2)] file_view_NotExist by simp
    moreover have "look w' (?d @ [''limit'']) = None" using r by auto
    ultimately have "readPolicyFile w' (?d @ [''limit'']) = Inl NotExist"
      using flt by (simp add: readPolicyFile_view [OF dr, simplified] file_view_def shape_def)
    then show ?thesis by (simp add: read_limit_def)
  qed
  have "\<not> fault w' OpReadDir ?d"
    using assms(3) flt unfolding ReadUserState_view [OF assms(1,2)] by (auto split: if_splits)
  then have "ReadUserState w' ud cn = Inr (stored_policy ?m)"
    unfolding ReadUserState_view [OF assms(1) dr] by (simp add: mg rdis lim)
  with c2 show ?thesis by (rule that)
qed

lemma WriteUserPolicy_ok:
  assumes "SafeCN cn = Inr safe" "dir_ready w (ud @ [safe])" "ReadUserState w ud cn = Inr cur"
    and wr: "WriteUserPolicy ud cn name limit disabled w = (Inr (), w')"
    and "\<And>l. limit = Some l \<Longrightarrow> l < 2 ^ 63" "readable_file w (ud @ [safe, ''state''])"
  obtains cur2 where "validateName (us_name cur2) = Inr ()" "us_limit_set cur2 = us_limit_set cur"
    "us_limit cur2 = us_limit cur" "us_disabled cur2 = us_disabled cur" "us_name_set cur \<Longrightarrow> cur2 = cur"
    "ReadUserState w' ud cn = Inr (stored_policy (merge_policy cur2 name limit disabled))"
proof -
  let ?d = "ud @ [safe]"
  have vn: "validateName n = Inr ()" if "name = Some n" for n
    using wr that by (auto simp: WriteUserPolicy_def split: sum.splits)
  then have vn': "(case name of Some n \<Rightarrow> validateName n | None \<Rightarrow> Inr ()) = Inr ()"
    by (cases name) simp_all
  obtain w1 where c: "CreateUser ud cn w = (Inr (), w1)"
    and l: "Lock (?d @ [''.state.lock'']) perm_0600 (policy_locked ud ?d cn name limit disabled) w1 = (Inr (), w')"
    using wr assms(1) vn' by (auto simp: WriteUserPolicy_def UserDir_def split: prod.splits sum.splits)
  have m: "mode_change w w1" by (rule CreateUser_ready [OF assms(1,2) c])
  have dr1: "dir_ready w1 ?d" using mode_change_dir_ready [OF m] assms(2) by simp
  from l obtain v where v: "policy_locked ud ?d cn name limit disabled v = (Inr (), w')"
    and f: "frame (\<lambda>q. q = ?d @ [''.state.lock'']) w1 v"
    by (cases rule: Lock_cases) auto
  have drv: "dir_ready v ?d" using dir_ready_children [OF f, of ?d] dr1 by simp
  have flt: "w_fault v = w_fault w" using frame_fault [OF f] mode_change_fault [OF m] by simp
  have "shape v (ud @ [safe, n]) = shape w (ud @ [safe, n])" if "n \<in> {''state'', ''disabled'', ''limit''}" for n
    using frame_shape [OF f, of "ud @ [safe, n]"] m that by (auto simp: mode_change_def)
  then have rd: "ReadUserState v ud cn = Inr cur"
    using ReadUserState_cong [OF assms(1,2) drv flt] assms(3) by simp
  have rdf: "readable_file v (ud @ [safe, ''state''])" using assms(6) flt by (simp add: readable_file_def)
  from policy_locked_ok [OF assms(1) drv rd v vn assms(5) rdf] obtain cur2
    where "legacy_name v ?d cur = Inr cur2"
      "ReadUserState w' ud cn = Inr (stored_policy (merge_policy cur2 name limit disabled))" by blast
  then show ?thesis
    using that [of cur2] legacy_name_ok [OF _ ReadUserState_ok [OF rd]] by simp
qed

subsection \<open>Properties\<close>

definition effective_limit :: "UserState \<Rightarrow> int" where
  "effective_limit st = (if us_limit_set st then us_limit st else 1)"


definition sample_users :: world where
  "sample_users = sample_world [root_dir [''v''], root_dir [''v'', ''bob''],
     root_file [''v'', ''bob'', ''disabled''] []]\<lparr>w_env := [''OVNODE_RUNTIME_GROUP'' \<mapsto> ''7'']\<rparr>"


end
