(* ===== verification/Logging.thy ===== *)
theory Logging
  imports Paths
begin

text \<open>
  \<open>logging/logging.go\<close> and \<open>config/config.go\<close>: the hook event file, the system log and the
  configuration of the hooks.

  \<open>Event\<close> appends one line to the event file, with every failure ignored. The world also keeps
  the trace \<open>w_events\<close> of the messages handed to \<open>Event\<close>, whether or not the file could be
  written; nothing in the model reads it, the properties do. \<open>Syslog\<close> appends to \<open>w_syslog\<close>.
\<close>

definition Tag :: string where
  "Tag = ''ovnode-mlogin''"

definition strip_newlines :: "string \<Rightarrow> string" where
  "strip_newlines s = filter (\<lambda>c. c \<noteq> CR \<and> c \<noteq> NL) s"

definition event_line :: "int \<Rightarrow> string \<Rightarrow> string" where
  "event_line now msg = Itoa now @ '' ['' @ Tag @ ''] '' @ msg @ [NL]"

definition append_file :: "path \<Rightarrow> string \<Rightarrow> world \<Rightarrow> world" where
  "append_file p line w =
     (if fault w OpWrite p then w
      else case look w p of
        Some nd \<Rightarrow> (case n_kind nd of Reg c \<Rightarrow> put p (nd\<lparr>n_kind := Reg (c @ line)\<rparr>) w | _ \<Rightarrow> w)
      | None \<Rightarrow> w)"

text \<open>The part of \<open>Event\<close> after the file is open: mode, owner, one write.\<close>

definition event_write :: "path \<Rightarrow> string \<Rightarrow> node \<Rightarrow> world \<Rightarrow> world" where
  "event_write p line nd w =
     (if fault w OpStat p then w
      else if n_mode nd AND 0x1FF \<noteq> perm_0660 \<and> fault w OpChmod p then w
      else
        (let nd1 = (if n_mode nd AND 0x1FF \<noteq> perm_0660 then nd\<lparr>n_mode := perm_0660\<rparr> else nd);
             w1 = (if n_mode nd AND 0x1FF \<noteq> perm_0660 then put p nd1 w else w)
         in if w_euid w = 0 then
              (case RuntimeGroupID w of
                 Inl _ \<Rightarrow> w1
               | Inr gid \<Rightarrow>
                   if n_gid nd1 \<noteq> gid then
                     (if fault w OpChown p then w1
                      else append_file p line (put p (nd1\<lparr>n_uid := 0, n_gid := gid\<rparr>) w1))
                   else append_file p line w1)
            else append_file p line w1))"

definition event_file :: "path \<Rightarrow> string \<Rightarrow> world \<Rightarrow> world" where
  "event_file p msg w =
     (if p = [] then w
      else case MkdirAllNoFollow (butlast p) perm_0755 w of
        (Inl _, w1) \<Rightarrow> w1
      | (Inr _, w1) \<Rightarrow>
          (case OpenFileNoFollow p True perm_0660 w1 of
             (Inl _, w2) \<Rightarrow> w2
           | (Inr nd, w2) \<Rightarrow> event_write p (event_line (w_now w) (strip_newlines msg)) nd w2))"

definition Event :: "path \<Rightarrow> string \<Rightarrow> world \<Rightarrow> world" where
  "Event p msg w = (let w1 = event_file p msg w in w1\<lparr>w_events := w_events w1 @ [strip_newlines msg]\<rparr>)"

definition Syslog :: "string \<Rightarrow> world \<Rightarrow> world" where
  "Syslog msg w = w\<lparr>w_syslog := w_syslog w @ [TrimSpace msg]\<rparr>"

subsection \<open>config.go\<close>

record Hook =
  h_users :: path
  h_sessions :: path
  h_usage :: path
  h_status :: path
  h_logdir :: path
  h_log :: path
  h_mgmt_host :: string
  h_mgmt_port :: int
  h_mgmt_pass :: path
  h_root :: path
  h_ttl :: int

definition DefaultMgmtPort :: int where "DefaultMgmtPort = 7505"
definition DefaultSessionTTL :: int where "DefaultSessionTTL = 86400"
definition DefaultLimit :: int where "DefaultLimit = 1"

definition HookFromEnv :: "world \<Rightarrow> Hook \<times> world" where
  "HookFromEnv w =
     (let h = \<lparr>h_users = UsersDir w, h_sessions = SessionsDir w, h_usage = UsageDir w,
               h_status = StatusFile w, h_logdir = LogDir w, h_log = LogFile w,
               h_mgmt_host = EnvOr w ''OVNODE_MANAGEMENT_HOST'' (EnvOr w ''OVNODE_MGMT_HOST'' ''127.0.0.1''),
               h_mgmt_port = DefaultMgmtPort, h_mgmt_pass = MgmtPassFile w, h_root = OpenVPNRoot w,
               h_ttl = DefaultSessionTTL\<rparr>;
          v = EnvOr w ''OVNODE_MANAGEMENT_PORT'' [];
          t = EnvOr w ''OVNODE_SESSION_TTL'' [];
          (h, w) = (if v \<noteq> [] then
             (case Atoi v of
                Some p \<Rightarrow> if 1 \<le> p \<and> p \<le> 65535 then (h\<lparr>h_mgmt_port := p\<rparr>, w)
                  else (h, Event (h_log h) (''OVNODE_MANAGEMENT_PORT invalid ('' @ v @ ''); falling back to ''
                                            @ Itoa DefaultMgmtPort) w)
              | None \<Rightarrow> (h, Event (h_log h) (''OVNODE_MANAGEMENT_PORT invalid ('' @ v @ ''); falling back to ''
                                            @ Itoa DefaultMgmtPort) w))
             else (h, w))
      in if t \<noteq> [] then
           (case Atoi t of
              Some n \<Rightarrow> if 0 < n then (h\<lparr>h_ttl := n\<rparr>, w)
                else (h, Event (h_log h) (''OVNODE_SESSION_TTL invalid ('' @ t @ ''); falling back to ''
                                          @ Itoa DefaultSessionTTL) w)
            | None \<Rightarrow> (h, Event (h_log h) (''OVNODE_SESSION_TTL invalid ('' @ t @ ''); falling back to ''
                                          @ Itoa DefaultSessionTTL) w))
         else (h, w))"

subsection \<open>Lemmas\<close>

definition log_scope :: "path \<Rightarrow> world \<Rightarrow> path \<Rightarrow> bool" where
  "log_scope p w q \<longleftrightarrow> q = p \<or> prefix q p \<and> look w q = None"

lemma append_file_frame: "P p \<Longrightarrow> frame P w (append_file p line w) \<and> same_mem w (append_file p line w)"
  by (auto simp: append_file_def frame_put split: option.splits kind.splits)

lemma event_write_frame: "P p \<Longrightarrow> frame P w (event_write p line nd w) \<and> same_mem w (event_write p line nd w)"
proof -
  assume p: "P p"
  have a: "frame P w (append_file p line (put p x w)) \<and> same_mem w (append_file p line (put p x w))" for x
    using append_file_frame [of P p "put p x w" line] frame_put [of P p w x] p
    by (auto intro: frame_trans same_mem_trans [OF same_mem_put])
  show ?thesis
    using append_file_frame [of P p w line] p a
    by (auto simp: event_write_def Let_def frame_put split: sum.splits)
qed

lemma event_file_frame:
  "frame (log_scope p w) w (event_file p msg w) \<and> same_mem w (event_file p msg w)"
proof (cases "p = []")
  case True
  then show ?thesis by (simp add: event_file_def)
next
  case False
  obtain a w1 where m: "MkdirAllNoFollow (butlast p) perm_0755 w = (a, w1)" by fastforce
  have f1: "frame (log_scope p w) w w1" "same_mem w w1"
    using MkdirAllNoFollow_frame [OF m] prefixeq_butlast [of p]
    by (auto simp: log_scope_def elim!: frame_mono intro: prefix_order.trans)
  show ?thesis
  proof (cases a)
    case (Inl e)
    with False m f1 show ?thesis by (simp add: event_file_def)
  next
    case (Inr u)
    obtain b w2 where o: "OpenFileNoFollow p True perm_0660 w1 = (b, w2)" by fastforce
    have f2: "frame (log_scope p w) w1 w2" "same_mem w1 w2"
      using OpenFileNoFollow_world [OF o] by (auto simp: log_scope_def intro: frame_put)
    have f12: "frame (log_scope p w) w w2" "same_mem w w2"
      using f1 f2 by (auto intro: frame_trans same_mem_trans)
    show ?thesis
    proof (cases b)
      case (Inl e)
      with False m Inr o f12 show ?thesis by (simp add: event_file_def)
    next
      case (Inr nd)
      let ?w3 = "event_write p (event_line (w_now w) (strip_newlines msg)) nd w2"
      have "frame (log_scope p w) w2 ?w3 \<and> same_mem w2 ?w3"
        by (rule event_write_frame) (simp add: log_scope_def)
      then have "frame (log_scope p w) w ?w3 \<and> same_mem w ?w3"
        using f12 by (auto intro: frame_trans same_mem_trans)
      then show ?thesis using False m \<open>a = Inr u\<close> o Inr by (simp add: event_file_def)
    qed
  qed
qed

lemma frame_events [simp]: "frame P w (w\<lparr>w_events := e\<rparr>)" "frame P w (w\<lparr>w_syslog := e\<rparr>)"
  by (simp_all add: frame_def same_env_def)

lemma Event_frame: "frame (log_scope p w) w (Event p msg w)"
  using event_file_frame [of p w msg] by (auto simp: Event_def Let_def intro: frame_trans)

lemma w_events_Event [simp]: "w_events (Event p msg w) = w_events w @ [strip_newlines msg]"
  using event_file_frame [of p w msg] by (simp add: Event_def Let_def same_mem_def)

lemma w_syslog_Event [simp]: "w_syslog (Event p msg w) = w_syslog w"
  using event_file_frame [of p w msg] by (simp add: Event_def Let_def same_mem_def)

lemma w_epochs_Event [simp]: "w_epochs (Event p msg w) = w_epochs w"
  using event_file_frame [of p w msg] by (simp add: Event_def Let_def same_mem_def)

lemma w_env_Event [simp]: "w_env (Event p msg w) = w_env w"
  using Event_frame [of p w msg] by (simp add: frame_def same_env_def)

lemma Syslog_simps [simp]:
  "w_fs (Syslog m w) = w_fs w" "w_events (Syslog m w) = w_events w" "w_syslog (Syslog m w) = w_syslog w @ [TrimSpace m]"
  "frame P w (Syslog m w)"
  by (simp_all add: Syslog_def)

lemma HookFromEnv_ranges:
  "HookFromEnv w = (h, w') \<Longrightarrow> 1 \<le> h_mgmt_port h \<and> h_mgmt_port h \<le> 65535 \<and> 0 < h_ttl h"
  by (auto simp: HookFromEnv_def Let_def DefaultMgmtPort_def DefaultSessionTTL_def
      split: if_splits option.splits prod.splits)

end
