(* ===== verification/Status.thy ===== *)
theory Status
  imports Fsx
begin

text \<open>
  \<open>ovpn/status.go\<close>: the OpenVPN status file.

  The columns of a \<open>CLIENT_LIST\<close> row are resolved from the \<open>HEADER\<close> line when there is one. The
  result of reading is an option: \<open>None\<close> is the run-time panic of \<open>headerParts[2:]\<close> on a header line
  with a single field. A snapshot is an error unless its \<open>END\<close> line was seen.
\<close>

record Session =
  ss_cn :: string
  ss_real :: string
  ss_ip :: string
  ss_port :: string
  ss_virtual :: string
  ss_rx :: u64
  ss_tx :: u64
  ss_cid :: string
  ss_connected :: int

type_synonym columns = "(string, nat) fmap"

definition defaultColumns :: columns where
  "defaultColumns = fmap_of_list
     [(''Common Name'', 1), (''Real Address'', 2), (''Virtual Address'', 3), (''Bytes Received'', 5),
      (''Bytes Sent'', 6), (''Client ID'', 10), (''Connected Since (time_t)'', 8)]"

fun column_names :: "nat \<Rightarrow> string list \<Rightarrow> columns \<Rightarrow> columns" where
  "column_names idx [] cols = cols"
| "column_names idx (name # rest) cols =
     column_names (Suc idx) rest (if name |\<in>| fmdom cols then fmupd name (idx + 1) cols else cols)"

text \<open>\<open>None\<close>: \<open>headerParts[2:]\<close> is out of range.\<close>

definition columnMap :: "string list \<Rightarrow> columns option" where
  "columnMap headerParts =
     (if length headerParts < 2 then None else Some (column_names 0 (drop 2 headerParts) defaultColumns))"

definition column :: "columns \<Rightarrow> string \<Rightarrow> nat" where
  "column cols name = (case fmlookup cols name of Some i \<Rightarrow> i | None \<Rightarrow> 0)"

definition field :: "string list \<Rightarrow> nat \<Rightarrow> string" where
  "field parts idx = (if length parts \<le> idx then [] else TrimSpace (parts ! idx))"

definition splitRealAddress :: "string \<Rightarrow> string \<times> string" where
  "splitRealAddress real =
     (if real = [] then ([], [])
      else case CutLast (CHR '':'') real of
        Some (a, b) \<Rightarrow> (TrimSet [CHR ''['', CHR '']''] a, b)
      | None \<Rightarrow> (real, []))"

definition number :: "string \<Rightarrow> u64" where
  "number value = (case ParseUint value of Some n \<Rightarrow> n | None \<Rightarrow> 0)"

subsection \<open>Scanning\<close>

text \<open>
  \<open>bufio.Scanner\<close> with a buffer of one megabyte: the lines without their newline and one trailing
  carriage return, up to the first line that does not fit; the flag says that one did not.
\<close>

definition long_line :: "string \<Rightarrow> bool" where
  "long_line l \<longleftrightarrow> 1048575 < int (length l)"

definition drop_last_empty :: "string list \<Rightarrow> string list" where
  "drop_last_empty ls = (if last ls = [] then butlast ls else ls)"

definition scan_lines :: "string \<Rightarrow> string list \<times> bool" where
  "scan_lines data =
     (let ls = drop_last_empty (Split NL data)
      in (map (TrimSuffix [CR]) (takeWhile (\<lambda>l. \<not> long_line l) ls), list_ex long_line ls))"

definition line_delim :: "string \<Rightarrow> char" where
  "line_delim line = (if TAB \<in> set line then TAB else CHR '','')"

definition is_header :: "string \<Rightarrow> bool" where
  "is_header line \<longleftrightarrow> HasPrefix line ''HEADER'' \<and> Contains line ''CLIENT_LIST''"

text \<open>The session of a \<open>CLIENT_LIST\<close> row, if it names one.\<close>

definition row_session :: "columns \<Rightarrow> string list \<Rightarrow> Session option" where
  "row_session cols parts =
     (let cn = field parts (column cols ''Common Name'') in
      if cn = [] \<or> cn = ''Common Name'' then None
      else (let real = field parts (column cols ''Real Address''); (ip, port) = splitRealAddress real in
        Some \<lparr>ss_cn = cn, ss_real = real, ss_ip = ip, ss_port = port,
              ss_virtual = field parts (column cols ''Virtual Address''),
              ss_rx = number (field parts (column cols ''Bytes Received'')),
              ss_tx = number (field parts (column cols ''Bytes Sent'')),
              ss_cid = field parts (column cols ''Client ID''),
              ss_connected = sint (number (field parts (column cols ''Connected Since (time_t)'')))\<rparr>))"

fun parse_rows :: "string list \<Rightarrow> columns \<Rightarrow> Session list option" where
  "parse_rows [] cols = Some []"
| "parse_rows (line0 # rest) cols =
     (let line = TrimRightSet [CR] line0 in
      if is_header line then
        (case columnMap (Split (line_delim line) line) of None \<Rightarrow> None | Some cols' \<Rightarrow> parse_rows rest cols')
      else if \<not> HasPrefix line ''CLIENT_LIST'' then parse_rows rest cols
      else (case row_session cols (Split (line_delim line) line) of
          None \<Rightarrow> parse_rows rest cols
        | Some s \<Rightarrow> (case parse_rows rest cols of None \<Rightarrow> None | Some ss \<Rightarrow> Some (s # ss))))"

definition ParseSessions :: "world \<Rightarrow> path \<Rightarrow> Session list option" where
  "ParseSessions w p = (case os_ReadFile w p of
      Inl _ \<Rightarrow> Some []
    | Inr data \<Rightarrow> parse_rows (fst (scan_lines data)) defaultColumns)"

definition SessionsForCN :: "world \<Rightarrow> path \<Rightarrow> string \<Rightarrow> Session list option" where
  "SessionsForCN w p cn = map_option (filter (\<lambda>s. ss_cn s = cn)) (ParseSessions w p)"

definition LivePools :: "world \<Rightarrow> path \<Rightarrow> string fset option" where
  "LivePools w p = map_option (\<lambda>ss. fset_of_list (filter (\<lambda>v. v \<noteq> []) (map ss_virtual ss))) (ParseSessions w p)"

subsection \<open>Snapshots\<close>

record StatusSnapshot =
  sn_sessions :: "Session list"
  sn_updated :: int
  sn_complete :: bool

definition snapshot_time :: "string list \<Rightarrow> int \<Rightarrow> int" where
  "snapshot_time parts t =
     (if 3 \<le> length parts then (case ParseInt (TrimSpace (last parts)) of Some n \<Rightarrow> n | None \<Rightarrow> t) else t)"

fun snapshot_rows :: "string list \<Rightarrow> columns \<Rightarrow> StatusSnapshot \<Rightarrow> StatusSnapshot option" where
  "snapshot_rows [] cols snap = Some snap"
| "snapshot_rows (line0 # rest) cols snap =
     (let line = TrimRightSet [CR] line0; parts = Split (line_delim line) line in
      if is_header line then
        (case columnMap parts of None \<Rightarrow> None | Some cols' \<Rightarrow> snapshot_rows rest cols' snap)
      else if HasPrefix line ''TIME'' then
        snapshot_rows rest cols (snap\<lparr>sn_updated := snapshot_time parts (sn_updated snap)\<rparr>)
      else if HasPrefix line ''CLIENT_LIST'' then
        snapshot_rows rest cols
          (case row_session cols parts of
             None \<Rightarrow> snap | Some s \<Rightarrow> snap\<lparr>sn_sessions := sn_sessions snap @ [s]\<rparr>)
      else if TrimSpace line = ''END'' then snapshot_rows rest cols (snap\<lparr>sn_complete := True\<rparr>)
      else snapshot_rows rest cols snap)"

definition empty_snapshot :: StatusSnapshot where
  "empty_snapshot = \<lparr>sn_sessions = [], sn_updated = 0, sn_complete = False\<rparr>"

definition ReadStatusSnapshot :: "world \<Rightarrow> path \<Rightarrow> (StatusSnapshot res) option" where
  "ReadStatusSnapshot w p = (case os_ReadFile w p of
      Inl e \<Rightarrow> Some (Inl e)
    | Inr data \<Rightarrow>
        (let (ls, long) = scan_lines data in
         case snapshot_rows ls defaultColumns empty_snapshot of
           None \<Rightarrow> None
         | Some snap \<Rightarrow>
             if long then Some (Inl (Err ''token too long''))
             else if \<not> sn_complete snap then Some (Inl (Err ''incomplete status snapshot''))
             else Some (Inr snap)))"

subsection \<open>Lemmas\<close>

lemma SessionsForCN_cn: "SessionsForCN w p cn = Some ss \<Longrightarrow> s \<in> set ss \<Longrightarrow> ss_cn s = cn"
  by (auto simp: SessionsForCN_def)

lemma snapshot_rows_mono:
  "snapshot_rows ls cols snap = Some snap' \<Longrightarrow> sn_complete snap \<Longrightarrow> sn_complete snap'"
  by (induction ls arbitrary: cols snap) (auto simp: Let_def split: if_splits option.splits)

text \<open>A snapshot that is accepted has its end marker.\<close>

lemma snapshot_rows_end:
  "snapshot_rows ls cols snap = Some snap' \<Longrightarrow> sn_complete snap' \<Longrightarrow> \<not> sn_complete snap \<Longrightarrow>
   \<exists>l \<in> set ls. TrimSpace (TrimRightSet [CR] l) = ''END''"
proof (induction ls arbitrary: cols snap)
  case (Cons l ls)
  show ?case
  proof (cases "TrimSpace (TrimRightSet [CR] l) = ''END''")
    case True
    then show ?thesis by simp
  next
    case False
    then obtain cols' snap1 where "snapshot_rows ls cols' snap1 = Some snap'" "\<not> sn_complete snap1"
      using Cons.prems by (simp add: Let_def split: if_splits option.splits)
    from Cons.IH [OF this(1) Cons.prems(2) this(2)] show ?thesis by auto
  qed
qed simp

text \<open>Both readers see the same sessions.\<close>

lemma TIME_not_CLIENT_LIST: "HasPrefix l ''TIME'' \<Longrightarrow> \<not> HasPrefix l ''CLIENT_LIST''"
  by (cases l) (auto simp: HasPrefix_def)

lemma snapshot_rows_sessions:
  "map_option sn_sessions (snapshot_rows ls cols snap) = map_option (\<lambda>ss. sn_sessions snap @ ss) (parse_rows ls cols)"
proof (induction ls arbitrary: cols snap)
  case (Cons l ls)
  have none: "parse_rows ls c = None \<Longrightarrow> snapshot_rows ls c s = None" for c s
    using Cons [of c s] by simp
  have some: "\<exists>z. snapshot_rows ls c s = Some z \<and> sn_sessions z = sn_sessions s @ a"
    if "parse_rows ls c = Some a" for c s a
    using Cons [of c s] that by simp
  let ?l = "TrimRightSet [CR] l"
  note tc = TIME_not_CLIENT_LIST [unfolded HasPrefix_def]
  show ?case
  proof (cases "is_header ?l")
    case True
    then show ?thesis using Cons by (simp add: Let_def split: option.splits)
  next
    case False
    show ?thesis
    proof (cases "parse_rows ls cols")
      case None
      then show ?thesis using False tc
        by (cases "row_session cols (Split (line_delim ?l) ?l)") (simp_all add: Let_def none)
    next
      case (Some a)
      obtain g where g: "snapshot_rows ls cols s = Some (g s)" "sn_sessions (g s) = sn_sessions s @ a" for s
        using some [OF Some] by metis
      show ?thesis
        using False Some tc
        by (cases "HasPrefix ?l ''CLIENT_LIST''"; cases "row_session cols (Split (line_delim ?l) ?l)")
           (auto simp: Let_def g)
    qed
  qed
qed simp

text \<open>An accepted snapshot holds the sessions the plain reader returns.\<close>

lemma ReadStatusSnapshot_ok:
  assumes "ReadStatusSnapshot w p = Some (Inr snap)"
  shows "ParseSessions w p = Some (sn_sessions snap)" "sn_complete snap"
proof -
  obtain data where d: "os_ReadFile w p = Inr data"
    and r: "snapshot_rows (fst (scan_lines data)) defaultColumns empty_snapshot = Some snap" and c: "sn_complete snap"
    using assms by (auto simp: ReadStatusSnapshot_def case_prod_beta Let_def split: sum.splits option.splits if_splits)
  show "sn_complete snap" by (rule c)
  have "map_option sn_sessions (snapshot_rows (fst (scan_lines data)) defaultColumns empty_snapshot)
     = map_option (\<lambda>ss. sn_sessions empty_snapshot @ ss) (parse_rows (fst (scan_lines data)) defaultColumns)"
    by (rule snapshot_rows_sessions)
  then show "ParseSessions w p = Some (sn_sessions snap)"
    using d r by (simp add: ParseSessions_def empty_snapshot_def option.map_ident)
qed

subsection \<open>Properties\<close>

text \<open>
  A status snapshot is never torn. \<open>ReadStatusSnapshot\<close> succeeds only if every line fitted the
  scanner and an \<open>END\<close> line was read, and then it holds exactly the sessions \<open>ParseSessions\<close> reads.
\<close>

theorem snapshot_has_end:
  assumes "ReadStatusSnapshot w p = Some (Inr snap)"
  shows "ParseSessions w p = Some (sn_sessions snap)
    \<and> (\<exists>data. os_ReadFile w p = Inr data \<and> \<not> snd (scan_lines data)
         \<and> (\<exists>l \<in> set (fst (scan_lines data)). TrimSpace (TrimRightSet [CR] l) = ''END''))"
proof -
  obtain data where d: "os_ReadFile w p = Inr data" "\<not> snd (scan_lines data)"
    and r: "snapshot_rows (fst (scan_lines data)) defaultColumns empty_snapshot = Some snap" "sn_complete snap"
    using assms by (auto simp: ReadStatusSnapshot_def case_prod_beta Let_def split: sum.splits option.splits if_splits)
  have "\<exists>l \<in> set (fst (scan_lines data)). TrimSpace (TrimRightSet [CR] l) = ''END''"
    by (rule snapshot_rows_end [OF r]) (simp add: empty_snapshot_def)
  with d ReadStatusSnapshot_ok(1) [OF assms] show ?thesis by blast
qed

definition sample_status :: string where
  "sample_status = ''TIME,now,77'' @ [NL] @ ''CLIENT_LIST,bob,1.2.3.4:55,10.8.0.2,,100,20,then,7,UNDEF,3'' @ [NL] @ ''END'' @ [NL]"

definition sample_status_world :: world where
  "sample_status_world = sample_world [root_dir [''s''], root_file [''s'', ''st''] sample_status]"

definition sample_session :: Session where
  "sample_session = \<lparr>ss_cn = ''bob'', ss_real = ''1.2.3.4:55'', ss_ip = ''1.2.3.4'', ss_port = ''55'',
     ss_virtual = ''10.8.0.2'', ss_rx = 100, ss_tx = 20, ss_cid = ''3'', ss_connected = 7\<rparr>"

theorem snapshot_has_end_witness:
  "ParseSessions sample_status_world [''s'', ''st''] = Some [sample_session]"
proof -
  have "ReadStatusSnapshot sample_status_world [''s'', ''st'']
      = Some (Inr \<lparr>sn_sessions = [sample_session], sn_updated = 77, sn_complete = True\<rparr>)" by code_simp
  from snapshot_has_end [OF this] show ?thesis by simp
qed

end
