(* ===== verification/Markers.thy ===== *)
theory Markers
  imports Counter
begin

text \<open>
  \<open>store/sessions.go\<close>: session markers. A connected session leaves a marker file
  \<open><sessionsDir>/<key>\<close> that names the user, its addresses, its session identifier and the start of
  the connection; a later hook or the usage poll reads it back.
\<close>

record Marker =
  m_cn :: string
  m_ip :: string
  m_port :: string
  m_pool :: string
  m_created :: int
  m_sid :: string
  m_connected :: int
  m_gen :: string
  m_started :: int
  m_since :: int

definition no_marker :: Marker where
  "no_marker = \<lparr>m_cn = [], m_ip = [], m_port = [], m_pool = [], m_created = 0, m_sid = [],
     m_connected = 0, m_gen = [], m_started = 0, m_since = 0\<rparr>"

definition SessionKey :: "string \<Rightarrow> string \<Rightarrow> string \<Rightarrow> string \<Rightarrow> string" where
  "SessionKey safeCN poolIP trustedIP trustedPort =
     (if poolIP \<noteq> [] then safeCN @ ''.'' @ poolIP
      else safeCN @ ''.noip.'' @ trustedIP @ ''.'' @ trustedPort)"

fun firstNonEmpty :: "string list \<Rightarrow> string" where
  "firstNonEmpty [] = []"
| "firstNonEmpty (v # vs) = (if v \<noteq> [] then v else firstNonEmpty vs)"

fun firstNonZero :: "int list \<Rightarrow> int" where
  "firstNonZero [] = 0"
| "firstNonZero (v # vs) = (if v \<noteq> 0 then v else firstNonZero vs)"

definition marker_lines :: "Marker \<Rightarrow> string list" where
  "marker_lines m =
     [''common_name='' @ m_cn m, ''trusted_ip='' @ m_ip m, ''trusted_port='' @ m_port m,
      ''ifconfig_pool_remote_ip='' @ m_pool m, ''created='' @ Itoa (m_created m),
      ''session_id='' @ firstNonEmpty [m_sid m, m_gen m],
      ''connection_started='' @ Itoa (firstNonZero [m_connected m, m_started m, m_since m, m_created m])]"

definition marker_body :: "Marker \<Rightarrow> string" where
  "marker_body m = concat (map (\<lambda>l. l @ [NL]) (marker_lines m))"

definition WriteMarker :: "path \<Rightarrow> Marker \<Rightarrow> unit io" where
  "WriteMarker p m w = WriteFileAtomic p (marker_body m) perm_0660 w"

definition marker_field :: "string \<Rightarrow> string \<Rightarrow> Marker \<Rightarrow> Marker" where
  "marker_field k v m =
     (if k = ''common_name'' then m\<lparr>m_cn := v\<rparr>
      else if k = ''trusted_ip'' then m\<lparr>m_ip := v\<rparr>
      else if k = ''trusted_port'' then m\<lparr>m_port := v\<rparr>
      else if k = ''ifconfig_pool_remote_ip'' then m\<lparr>m_pool := v\<rparr>
      else if k = ''created'' then (case ParseInt v of Some n \<Rightarrow> m\<lparr>m_created := n\<rparr> | None \<Rightarrow> m)
      else if k = ''session_id'' then
        (let m = m\<lparr>m_sid := v\<rparr> in if m_gen m = [] then m\<lparr>m_gen := v\<rparr> else m)
      else if k = ''generation'' then
        (let m = m\<lparr>m_gen := v\<rparr> in if m_sid m = [] then m\<lparr>m_sid := v\<rparr> else m)
      else if k = ''connection_started'' \<or> k = ''connected_at'' \<or> k = ''connected_since'' then
        (case ParseInt v of
           Some n \<Rightarrow> (let m = m\<lparr>m_connected := n, m_started := n, m_since := n\<rparr>
                      in if m_created m = 0 then m\<lparr>m_created := n\<rparr> else m)
         | None \<Rightarrow> m)
      else m)"

definition marker_line :: "Marker \<Rightarrow> string \<Rightarrow> Marker" where
  "marker_line m line =
     (let (k, v, ok) = Cut (CHR ''='') (TrimSpace line) in if ok then marker_field k v m else m)"

definition parse_marker :: "string \<Rightarrow> Marker" where
  "parse_marker data = foldl marker_line no_marker (Split NL data)"

definition ReadMarker :: "world \<Rightarrow> path \<Rightarrow> Marker option" where
  "ReadMarker w p = (case os_ReadFile w p of Inl _ \<Rightarrow> None | Inr data \<Rightarrow> Some (parse_marker data))"

fun remove_entries :: "path \<Rightarrow> (string \<Rightarrow> bool) \<Rightarrow> (string \<times> node) list \<Rightarrow> world \<Rightarrow> world" where
  "remove_entries d sel [] w = w"
| "remove_entries d sel ((n, nd) # es) w =
     remove_entries d sel es (if sel n \<and> \<not> is_dir nd then snd (os_Remove (d @ [n]) w) else w)"

definition RemoveMarkers :: "path \<Rightarrow> string \<Rightarrow> world \<Rightarrow> world" where
  "RemoveMarkers sessionsDir safeCN w = (case os_ReadDir w sessionsDir of
      Inl _ \<Rightarrow> w
    | Inr entries \<Rightarrow> remove_entries sessionsDir (\<lambda>n. HasPrefix n (safeCN @ ''.'')) entries w)"

definition legacy_marker :: "string \<Rightarrow> string \<Rightarrow> string \<Rightarrow> string \<Rightarrow> string \<Rightarrow> bool" where
  "legacy_marker safeCN poolIP trustedIP trustedPort name \<longleftrightarrow>
     HasPrefix name (safeCN @ ''.'' @ trustedIP @ ''.'' @ trustedPort @ ''.'')
     \<or> (poolIP \<noteq> [] \<and> HasPrefix name (safeCN @ ''.'') \<and> HasSuffix name (''.'' @ poolIP))"

definition RemoveLegacyMarkers :: "path \<Rightarrow> string \<Rightarrow> string \<Rightarrow> string \<Rightarrow> string \<Rightarrow> world \<Rightarrow> world" where
  "RemoveLegacyMarkers sessionsDir safeCN poolIP trustedIP trustedPort w =
     (case os_ReadDir w sessionsDir of
        Inl _ \<Rightarrow> w
      | Inr entries \<Rightarrow> remove_entries sessionsDir (legacy_marker safeCN poolIP trustedIP trustedPort) entries w)"

subsection \<open>Lemmas\<close>

text \<open>A value that survives its line: no white space around or inside it.\<close>

definition marker_text :: "string \<Rightarrow> bool" where
  "marker_text v \<longleftrightarrow> list_all is_graph v"

definition wf_marker :: "Marker \<Rightarrow> bool" where
  "wf_marker m \<longleftrightarrow> marker_text (m_cn m) \<and> marker_text (m_ip m) \<and> marker_text (m_port m)
     \<and> marker_text (m_pool m) \<and> marker_text (m_sid m) \<and> marker_text (m_gen m)
     \<and> (\<forall>n \<in> {m_created m, m_connected m, m_started m, m_since m}. - (2 ^ 63) \<le> n \<and> n < 2 ^ 63)"

text \<open>What a marker reads back as: one session identifier and one start in all their places.\<close>

definition stored_marker :: "Marker \<Rightarrow> Marker" where
  "stored_marker m =
     (let sid = firstNonEmpty [m_sid m, m_gen m];
          t = firstNonZero [m_connected m, m_started m, m_since m, m_created m]
      in m\<lparr>m_created := (if m_created m = 0 then t else m_created m), m_sid := sid, m_gen := sid,
           m_connected := t, m_started := t, m_since := t\<rparr>)"

lemma marker_text_Itoa [simp]: "marker_text (Itoa i)"
  by (auto simp: marker_text_def list_all_iff dest: Itoa_graph)

lemma marker_text_Nil [simp]: "marker_text []"
  by (simp add: marker_text_def)

lemma marker_line_field:
  assumes "k \<noteq> []" "list_all is_graph k" "CHR ''='' \<notin> set k" "marker_text v"
  shows "marker_line m (k @ CHR ''='' # v) = marker_field k v m"
proof -
  have "is_graph (CHR ''='')" by (simp add: is_graph_def byte_def)
  then have "visible_ends (k @ CHR ''='' # v)"
    using assms by (intro visible_ends_graph) (auto simp: marker_text_def list_all_iff)
  then show ?thesis using assms by (simp add: marker_line_def Cut_append)
qed

lemma marker_lines_graph: "wf_marker m \<Longrightarrow> l \<in> set (marker_lines m) \<Longrightarrow> list_all is_graph l"
proof -
  assume w: "wf_marker m" and l: "l \<in> set (marker_lines m)"
  have lit: "list_all is_graph (k @ v)" if "list_all is_graph k" "marker_text v" for k v
    using that by (simp add: marker_text_def)
  have texts: "marker_text (m_cn m)" "marker_text (m_ip m)" "marker_text (m_port m)" "marker_text (m_pool m)"
    "marker_text (firstNonEmpty [m_sid m, m_gen m])"
    using w by (simp_all add: wf_marker_def)
  have keys: "list_all is_graph ''common_name=''" "list_all is_graph ''trusted_ip=''" "list_all is_graph ''trusted_port=''"
    "list_all is_graph ''ifconfig_pool_remote_ip=''" "list_all is_graph ''created=''" "list_all is_graph ''session_id=''"
    "list_all is_graph ''connection_started=''" by code_simp+
  note lines = lit [OF keys(1) texts(1)] lit [OF keys(2) texts(2)] lit [OF keys(3) texts(3)] lit [OF keys(4) texts(4)]
    lit [OF keys(5) marker_text_Itoa] lit [OF keys(6) texts(5)] lit [OF keys(7) marker_text_Itoa]
  from l show ?thesis unfolding marker_lines_def list.set
    by (elim insertE emptyE; hypsubst) (rule lines)+
qed

lemma parse_marker_body:
  assumes "wf_marker m" shows "parse_marker (marker_body m) = stored_marker m"
proof -
  have nl: "NL \<notin> set l" if "l \<in> set (marker_lines m)" for l
    using marker_lines_graph [OF assms that] by (auto simp: list_all_iff is_graph_def byte_def)
  have sid: "marker_text (firstNonEmpty [m_sid m, m_gen m])" using assms by (simp add: wf_marker_def)
  let ?t = "firstNonZero [m_connected m, m_started m, m_since m, m_created m]"
  have t: "ParseInt (Itoa ?t) = Some ?t" "ParseInt (Itoa (m_created m)) = Some (m_created m)"
    using assms by (auto simp: wf_marker_def intro!: ParseInt_Itoa)
  have f: "marker_line a (''common_name='' @ v) = marker_field ''common_name'' v a"
    "marker_line a (''trusted_ip='' @ v) = marker_field ''trusted_ip'' v a"
    "marker_line a (''trusted_port='' @ v) = marker_field ''trusted_port'' v a"
    "marker_line a (''ifconfig_pool_remote_ip='' @ v) = marker_field ''ifconfig_pool_remote_ip'' v a"
    "marker_line a (''created='' @ v) = marker_field ''created'' v a"
    "marker_line a (''session_id='' @ v) = marker_field ''session_id'' v a"
    "marker_line a (''connection_started='' @ v) = marker_field ''connection_started'' v a"
    if "marker_text v" for a v
    using marker_line_field [of "''common_name''" v a] marker_line_field [of "''trusted_ip''" v a]
      marker_line_field [of "''trusted_port''" v a] marker_line_field [of "''ifconfig_pool_remote_ip''" v a]
      marker_line_field [of "''created''" v a] marker_line_field [of "''session_id''" v a]
      marker_line_field [of "''connection_started''" v a] that
    by (simp_all add: is_graph_def byte_def)
  have e: "marker_line a [] = a" for a by (simp add: marker_line_def Cut_def)
  note wfm = assms [unfolded wf_marker_def]
  have gen: "marker_field ''connection_started'' a
      (marker_field ''session_id'' sid (marker_field ''created'' b
      (marker_field ''ifconfig_pool_remote_ip'' (m_pool m) (marker_field ''trusted_port'' (m_port m)
      (marker_field ''trusted_ip'' (m_ip m) (marker_field ''common_name'' (m_cn m) no_marker))))))
    = m\<lparr>m_created := (if m_created m = 0 then u else m_created m), m_sid := sid, m_gen := sid,
        m_connected := u, m_started := u, m_since := u\<rparr>"
    if "ParseInt a = Some u" "ParseInt b = Some (m_created m)" for a b sid u
    using that by (cases m) (simp add: marker_field_def no_marker_def Let_def)
  have "parse_marker (marker_body m) = foldl marker_line no_marker (marker_lines m @ [[]])"
    unfolding parse_marker_def marker_body_def by (simp only: Split_lines [OF nl])
  also have "\<dots> = marker_field ''connection_started'' (Itoa ?t)
      (marker_field ''session_id'' (firstNonEmpty [m_sid m, m_gen m])
      (marker_field ''created'' (Itoa (m_created m))
      (marker_field ''ifconfig_pool_remote_ip'' (m_pool m)
      (marker_field ''trusted_port'' (m_port m)
      (marker_field ''trusted_ip'' (m_ip m)
      (marker_field ''common_name'' (m_cn m) no_marker))))))"
    unfolding marker_lines_def foldl_append foldl_Cons foldl_Nil
    using wfm sid by (simp only: f e marker_text_Itoa)
  also have "\<dots> = stored_marker m"
    unfolding gen [OF t] stored_marker_def Let_def ..
  finally show ?thesis .
qed

subsection \<open>Properties\<close>

text \<open>
  Session markers round-trip. The file \<open>WriteMarker\<close> leaves for a marker without white space in
  its values is read back by \<open>ReadMarker\<close> as the same user, addresses and session identifier, with
  the connection start in all of its three places.
\<close>

theorem marker_roundtrip:
  assumes "wf_marker m" "WriteMarker p m w = (Inr (), w')" "\<not> fault w OpRead p"
  shows "ReadMarker w' p = Some (stored_marker m)"
proof -
  have "w' = put p (new_file w (butlast p) perm_0660 (marker_body m)) w"
    using assms(2) unfolding WriteMarker_def by (rule WriteFileAtomic_ok)
  moreover have "plain w' p" unfolding calculation by simp
  ultimately show ?thesis
    using assms(1,3) by (simp add: ReadMarker_def plain_ReadFile new_file_def parse_marker_body)
qed

definition sample_marker :: Marker where
  "sample_marker = \<lparr>m_cn = ''bob'', m_ip = ''1.2.3.4'', m_port = ''55'', m_pool = ''10.8.0.2'', m_created = 9,
     m_sid = ''bob.10.8.0.2.0123456789abcdef'', m_connected = 7, m_gen = [], m_started = 0, m_since = 0\<rparr>"

theorem marker_roundtrip_witness:
  "ReadMarker (snd (WriteMarker [''s'', ''m''] sample_marker (sample_world [root_dir [''s'']]))) [''s'', ''m'']
    = Some (sample_marker\<lparr>m_gen := m_sid sample_marker, m_started := 7, m_since := 7\<rparr>)"
proof -
  have w: "wf_marker sample_marker" by code_simp
  have "is_ok (WriteMarker [''s'', ''m''] sample_marker (sample_world [root_dir [''s'']]))" by code_simp
  note r = is_okD [OF this]
  have f: "\<not> fault (sample_world [root_dir [''s'']]) OpRead [''s'', ''m'']" by (simp add: sample_world_def)
  from marker_roundtrip [OF w _ f] r show ?thesis
    by (simp add: stored_marker_def sample_marker_def Let_def)
qed

end
