(* ===== verification/Mgmt.thy ===== *)
theory Mgmt
  imports Paths Status
begin

text \<open>
  \<open>ovpn/mgmt.go\<close>: the client of the OpenVPN management socket, used by the take-over of the connect
  hook and by the node's disconnect command.

  The OpenVPN process on the other end is not under \<open>src/\<close>: it is the parameter \<open>P\<close> of type \<open>peer\<close>.
  \<open>p_write\<close> says whether a write after a given history fails, \<open>p_chunks\<close> which chunks arrive before
  the next read deadline after a given history of writes, and \<open>p_rounds\<close> how many status rounds fit
  the verification budget. \<open>readUntil\<close> consumes the chunks that arrive one by one; what it leaves is
  still in the socket for the next read.
\<close>

record peer =
  p_dial :: "string \<Rightarrow> int \<Rightarrow> string option"
  p_write :: "string list \<Rightarrow> string \<Rightarrow> string option"
  p_chunks :: "string list \<Rightarrow> string list"
  p_rounds :: nat

record conn =
  k_sent :: "string list"
  k_pending :: "string list"

datatype TakeoverResult = TakeoverVerified | TakeoverTimeout | TakeoverDown

definition open_conn :: "peer \<Rightarrow> conn" where
  "open_conn P = \<lparr>k_sent = [], k_pending = p_chunks P []\<rparr>"

text \<open>\<open>conn.Write\<close>: a failing write sends nothing.\<close>

definition send :: "peer \<Rightarrow> string \<Rightarrow> conn \<Rightarrow> string option \<times> conn" where
  "send P s c = (case p_write P (k_sent c) s of
      Some e \<Rightarrow> (Some e, c)
    | None \<Rightarrow> (None, c\<lparr>k_sent := k_sent c @ [s], k_pending := k_pending c @ p_chunks P (k_sent c @ [s])\<rparr>))"

fun banner_loop :: "string \<Rightarrow> string list \<Rightarrow> string \<times> string list" where
  "banner_loop buf [] = (buf, [])"
| "banner_loop buf (ch # chs) =
     (if Contains (ToUpper buf) ''PASSWORD'' then (buf, ch # chs) else banner_loop (buf @ ch) chs)"

definition readBanner :: "conn \<Rightarrow> string \<times> conn" where
  "readBanner c = (let (out, rest) = banner_loop [] (k_pending c) in (out, c\<lparr>k_pending := rest\<rparr>))"

definition has_marker :: "string list \<Rightarrow> string \<Rightarrow> bool" where
  "has_marker markers buf \<longleftrightarrow>
     list_ex (\<lambda>line. list_ex (\<lambda>mk. HasPrefix (ToUpper (TrimRightSet [CR] line)) (ToUpper mk)) markers)
       (Split NL buf)"

fun until_loop :: "string list \<Rightarrow> string \<Rightarrow> string list \<Rightarrow> string \<times> string list" where
  "until_loop markers buf [] = (buf, [])"
| "until_loop markers buf (ch # chs) =
     (if has_marker markers buf then (buf, ch # chs) else until_loop markers (buf @ ch) chs)"

definition readUntil :: "string list \<Rightarrow> conn \<Rightarrow> string \<times> conn" where
  "readUntil markers c = (let (out, rest) = until_loop markers [] (k_pending c) in (out, c\<lparr>k_pending := rest\<rparr>))"

definition readPassword :: "world \<Rightarrow> path \<Rightarrow> string option" where
  "readPassword w p =
     (if p = [] then None
      else case os_ReadFile w p of
        Inl _ \<Rightarrow> None
      | Inr data \<Rightarrow> Some (TrimSpace (takeWhile (\<lambda>c. c \<noteq> CR \<and> c \<noteq> NL) data)))"

definition mgmtHasCN :: "string \<Rightarrow> string \<Rightarrow> bool" where
  "mgmtHasCN reply cn \<longleftrightarrow>
     list_ex (\<lambda>line. let line = TrimRightSet [CR] line; parts = Split (CHR '','') line in
       HasPrefix line ''CLIENT_LIST,'' \<and> 1 < length parts \<and> parts ! 1 = cn) (Split NL reply)"

definition shorten :: "string \<Rightarrow> nat \<Rightarrow> string" where
  "shorten s n = (let flat = Join (Fields s) '' '' in if n < length flat then take n flat else flat)"

text \<open>\<open>net.ParseIP(...).IsLoopback()\<close> for the textual forms of the loopback addresses.\<close>

definition dec_octet :: "string \<Rightarrow> bool" where
  "dec_octet s \<longleftrightarrow> all_digits s \<and> digits_int s \<le> 255 \<and> (1 < length s \<longrightarrow> hd s \<noteq> CHR ''0'') \<and> length s \<le> 3"

definition is_loopback :: "string \<Rightarrow> bool" where
  "is_loopback host \<longleftrightarrow>
     (let o4 = Split (CHR ''.'') host in length o4 = 4 \<and> hd o4 = ''127'' \<and> list_all dec_octet o4)
     \<or> host = ''::1''"

definition validateMgmtHost :: "world \<Rightarrow> string \<Rightarrow> unit res" where
  "validateMgmtHost w host0 =
     (let host = TrimSpace host0 in
      if host = [] \<or> host = ''localhost'' \<or> is_loopback host
         \<or> EqualFold (TrimSpace (Env w ''ALLOW_REMOTE_MGMT'' [])) ''1''
      then Inr ()
      else Inl (Err (''management host '' @ go_quote host @ '' is not loopback; set OVNODE_ALLOW_REMOTE_MGMT=1'')))"

text \<open>The password dialogue: what went wrong, if anything.\<close>

definition login :: "peer \<Rightarrow> world \<Rightarrow> path \<Rightarrow> conn \<Rightarrow> string option \<times> conn" where
  "login P w passFile c =
     (let (banner, c) = readBanner c in
      if Contains (ToUpper banner) ''PASSWORD'' then
        (case readPassword w passFile of
           None \<Rightarrow> (Some ''management password unreadable'', c)
         | Some pw \<Rightarrow>
             (case send P (pw @ [NL]) c of
                (Some e, c) \<Rightarrow> (Some (''password write failed: '' @ e), c)
              | (None, c) \<Rightarrow>
                  (let (reply, c) = readUntil [''SUCCESS'', ''ERROR''] c; upper = ToUpper reply in
                   if Contains upper ''BAD PASSWORD'' \<or> Contains upper ''ERROR'' \<and> Contains upper ''PASSWORD''
                   then (Some ''bad management password'', c) else (None, c))))
      else (None, c))"

fun kill_loop :: "peer \<Rightarrow> string list \<Rightarrow> conn \<Rightarrow> string list \<times> conn" where
  "kill_loop P [] c = ([], c)"
| "kill_loop P (cid # cids) c =
     (let cmd = ''client-kill '' @ cid @ '' max-login-takeover'' in
      case send P (cmd @ [NL]) c of
        (Some e, c) \<Rightarrow> (let (ls, c) = kill_loop P cids c in ((''KILL FAIL '' @ cmd @ '' ('' @ e @ '')'') # ls, c))
      | (None, c) \<Rightarrow>
          (let (reply, c) = readUntil [''SUCCESS'', ''ERROR''] c;
               verdict = (if Contains (ToUpper reply) ''SUCCESS'' then ''OK'' else ''FAIL'');
               (ls, c) = kill_loop P cids c
           in ((''KILL '' @ verdict @ '' '' @ cmd @ '' ('' @ shorten reply 120 @ '')'') # ls, c)))"

text \<open>The verification rounds; the number left is the budget.\<close>

fun verify_loop :: "nat \<Rightarrow> peer \<Rightarrow> string \<Rightarrow> conn \<Rightarrow> bool \<times> conn" where
  "verify_loop 0 P cn c = (False, c)"
| "verify_loop (Suc n) P cn c =
     (case send P (''status 2'' @ [NL]) c of
        (Some e, c) \<Rightarrow> (False, c)
      | (None, c) \<Rightarrow>
          (let (reply, c) = readUntil [''END''] c in
           if \<not> mgmtHasCN reply cn then (True, c) else verify_loop n P cn c))"

definition Takeover ::
  "peer \<Rightarrow> world \<Rightarrow> string \<Rightarrow> int \<Rightarrow> path \<Rightarrow> string \<Rightarrow> string list \<Rightarrow> TakeoverResult \<times> string list \<times> conn" where
  "Takeover P w host port passFile cn cids =
     (let down = (\<lambda>e c. (TakeoverDown, [''RESULT DOWN ('' @ e @ '')''], c)) in
      case validateMgmtHost w host of
        Inl e \<Rightarrow> down (err_text e) (open_conn P)
      | Inr _ \<Rightarrow>
          (case p_dial P host port of
             Some e \<Rightarrow> down e (open_conn P)
           | None \<Rightarrow>
               (case login P w passFile (open_conn P) of
                  (Some e, c) \<Rightarrow> down e c
                | (None, c) \<Rightarrow>
                    (let (ls, c) = kill_loop P cids c;
                         (verified, c) = verify_loop (p_rounds P) P cn c;
                         c = snd (send P (''quit'' @ [NL]) c)
                     in if verified then (TakeoverVerified, ls @ [''RESULT VERIFIED''], c)
                        else (TakeoverTimeout, ls @ [''RESULT TIMEOUT''], c)))))"

subsection \<open>Command batches\<close>

definition mgmtHost :: "world \<Rightarrow> string" where
  "mgmtHost w =
     (if EnvOr w ''OVNODE_MANAGEMENT_HOST'' [] \<noteq> [] then EnvOr w ''OVNODE_MANAGEMENT_HOST'' []
      else if EnvOr w ''OVNODE_MGMT_HOST'' [] \<noteq> [] then EnvOr w ''OVNODE_MGMT_HOST'' []
      else ''127.0.0.1'')"

definition dialManagement :: "peer \<Rightarrow> world \<Rightarrow> int \<Rightarrow> conn res" where
  "dialManagement P w port =
     (case validateMgmtHost w (mgmtHost w) of
        Inl e \<Rightarrow> Inl e
      | Inr _ \<Rightarrow> (case p_dial P (mgmtHost w) port of Some e \<Rightarrow> Inl (Err e) | None \<Rightarrow> Inr (open_conn P)))"

fun command_loop :: "peer \<Rightarrow> string list \<Rightarrow> conn \<Rightarrow> string list \<times> conn" where
  "command_loop P [] c = ([], c)"
| "command_loop P (cmd # cmds) c =
     (case send P (cmd @ [NL]) c of
        (Some e, c) \<Rightarrow> (let (rs, c) = command_loop P cmds c in ((''ERROR: '' @ e) # rs, c))
      | (None, c) \<Rightarrow>
          (let (reply, c) = readUntil [''SUCCESS'', ''ERROR''] c; (rs, c) = command_loop P cmds c
           in (reply # rs, c)))"

definition SendCommands :: "peer \<Rightarrow> world \<Rightarrow> int \<Rightarrow> string list \<Rightarrow> string list res" where
  "SendCommands P w port cmds =
     (if cmds = [] then Inr []
      else case dialManagement P w port of
        Inl e \<Rightarrow> Inl e
      | Inr c \<Rightarrow>
          (case login P w (MgmtPassFile w) c of
             (Some e, c) \<Rightarrow> Inl (Err e)
           | (None, c) \<Rightarrow> Inr (fst (command_loop P cmds c))))"

subsection \<open>ovpn/disconnect.go\<close>

definition replyOK :: "string list \<Rightarrow> bool" where
  "replyOK replies \<longleftrightarrow> list_all (\<lambda>r. Contains (ToUpper r) ''SUCCESS'') replies \<and> 0 < length replies"

definition killSessions :: "peer \<Rightarrow> world \<Rightarrow> int \<Rightarrow> string \<Rightarrow> Session list \<Rightarrow> nat \<times> bool" where
  "killSessions P w port cn sessions =
     (let cids = map ss_cid (filter (\<lambda>s. ss_cn s = cn \<and> all_digits (ss_cid s)) sessions) in
      if cids = [] then
        (case SendCommands P w port [''kill '' @ cn] of
           Inl _ \<Rightarrow> (0, False) | Inr replies \<Rightarrow> (0, replyOK replies))
      else
        (case SendCommands P w port (map (\<lambda>cid. ''client-kill '' @ cid) cids) of
           Inl _ \<Rightarrow> (0, False)
         | Inr replies \<Rightarrow>
             (let killed = length (filter (\<lambda>r. replyOK [r]) replies) in (killed, killed = length cids))))"

subsection \<open>Lemmas\<close>

lemma send_sent: "send P s c = (None, c') \<Longrightarrow> k_sent c' = k_sent c @ [s]"
  by (auto simp: send_def split: option.splits)

lemma readUntil_sent [simp]: "k_sent (snd (readUntil ms c)) = k_sent c"
  by (simp add: readUntil_def case_prod_beta Let_def)

lemma readBanner_sent [simp]: "k_sent (snd (readBanner c)) = k_sent c"
  by (simp add: readBanner_def case_prod_beta Let_def)

lemma command_loop_length: "length (fst (command_loop P cmds c)) = length cmds"
  by (induction cmds arbitrary: c)
     (auto simp: Let_def case_prod_beta split: option.splits)

text \<open>A verified take-over read a status reply that names the user in no row.\<close>

lemma verify_loop_true:
  "verify_loop n P cn c = (True, c') \<Longrightarrow>
   \<exists>c1 c2 reply. send P (''status 2'' @ [NL]) c1 = (None, c2) \<and> reply = fst (readUntil [''END''] c2) \<and> \<not> mgmtHasCN reply cn"
proof (induction n arbitrary: c)
  case (Suc n)
  then obtain c2 where s: "send P (''status 2'' @ [NL]) c = (None, c2)"
    by (auto split: prod.splits option.splits)
  show ?case
  proof (cases "mgmtHasCN (fst (readUntil [''END''] c2)) cn")
    case True
    then have "verify_loop n P cn (snd (readUntil [''END''] c2)) = (True, c')"
      using Suc.prems s by (simp add: Let_def case_prod_beta)
    then show ?thesis by (rule Suc.IH)
  next
    case False
    with s show ?thesis by blast
  qed
qed simp

text \<open>What a take-over may send.\<close>

definition kill_cmd :: "string \<Rightarrow> string" where
  "kill_cmd cid = ''client-kill '' @ cid @ '' max-login-takeover'' @ [NL]"

lemma send_grows: "send P s c = (r, c') \<Longrightarrow> set (k_sent c') \<subseteq> insert s (set (k_sent c))"
  by (auto simp: send_def split: option.splits)

lemma kill_loop_sent: "set (k_sent (snd (kill_loop P cids c))) \<subseteq> set (k_sent c) \<union> kill_cmd ` set cids"
proof (induction cids arbitrary: c)
  case (Cons cid cids)
  let ?cmd = "''client-kill '' @ cid @ '' max-login-takeover''"
  obtain r c1 where s: "send P (?cmd @ [NL]) c = (r, c1)" by fastforce
  have g: "set (k_sent c1) \<subseteq> insert (kill_cmd cid) (set (k_sent c))"
    using send_grows [OF s] by (simp add: kill_cmd_def)
  have "k_sent (snd (kill_loop P (cid # cids) c)) = k_sent (snd (kill_loop P cids c1))
      \<or> k_sent (snd (kill_loop P (cid # cids) c))
          = k_sent (snd (kill_loop P cids (snd (readUntil [''SUCCESS'', ''ERROR''] c1))))"
    using s by (cases r) (simp_all add: Let_def case_prod_beta)
  then show ?case
    using g Cons.IH [of c1] Cons.IH [of "snd (readUntil [''SUCCESS'', ''ERROR''] c1)"] by auto
qed simp

lemma verify_loop_sent: "set (k_sent (snd (verify_loop n P cn c))) \<subseteq> set (k_sent c) \<union> {''status 2'' @ [NL]}"
proof (induction n arbitrary: c)
  case (Suc n)
  obtain r c1 where s: "send P (''status 2'' @ [NL]) c = (r, c1)" by fastforce
  note g = send_grows [OF s]
  show ?case
  proof (cases r)
    case (Some e)
    with s g show ?thesis by simp
  next
    case None
    with s g Suc.IH [of "snd (readUntil [''END''] c1)"] show ?thesis
      by (auto simp: Let_def case_prod_beta)
  qed
qed auto

lemma login_sent:
  assumes "login P w pf c = (r, c')"
  shows "set (k_sent c') \<subseteq> set (k_sent c) \<union>
    (if Contains (ToUpper (fst (readBanner c))) ''PASSWORD''
     then {pw @ [NL] | pw. readPassword w pf = Some pw} else {})"
proof (cases "Contains (ToUpper (fst (readBanner c))) ''PASSWORD''")
  case False
  with assms have "c' = snd (readBanner c)" by (auto simp: login_def case_prod_beta Let_def)
  then show ?thesis by simp
next
  case True
  show ?thesis
  proof (cases "readPassword w pf")
    case None
    with assms True have "c' = snd (readBanner c)" by (auto simp: login_def case_prod_beta Let_def)
    then show ?thesis by simp
  next
    case (Some pw)
    obtain e c1 where s: "send P (pw @ [NL]) (snd (readBanner c)) = (e, c1)" by fastforce
    have "k_sent c' = k_sent c1"
      using assms True Some s by (cases e) (auto simp: login_def case_prod_beta Let_def split: if_splits)
    with send_grows [OF s] True Some show ?thesis by auto
  qed
qed

subsection \<open>Properties\<close>

text \<open>
  A take-over says nothing else. Whatever the management peer answers, \<open>Takeover\<close> sends it only
  kill commands for the client ids it was given, status queries, the final \<open>quit\<close> and - after a
  password prompt in the banner, never before - the first line of the password file.
\<close>

theorem takeover_sends_only:
  "case Takeover P w host port passFile cn cids of (_, _, c) \<Rightarrow>
     set (k_sent c) \<subseteq> kill_cmd ` set cids \<union> {''status 2'' @ [NL], ''quit'' @ [NL]} \<union>
       (if Contains (ToUpper (fst (readBanner (open_conn P)))) ''PASSWORD''
        then {pw @ [NL] | pw. readPassword w passFile = Some pw} else {})"
proof -
  let ?pws = "if Contains (ToUpper (fst (readBanner (open_conn P)))) ''PASSWORD''
        then {pw @ [NL] | pw. readPassword w passFile = Some pw} else {}"
  have o: "k_sent (open_conn P) = []" by (simp add: open_conn_def)
  obtain e c1 where l: "login P w passFile (open_conn P) = (e, c1)" by fastforce
  have s1: "set (k_sent c1) \<subseteq> ?pws" using login_sent [OF l] o by simp
  define c2 where "c2 = snd (kill_loop P cids c1)"
  define c3 where "c3 = snd (verify_loop (p_rounds P) P cn c2)"
  define c4 where "c4 = snd (send P (''quit'' @ [NL]) c3)"
  have s2: "set (k_sent c2) \<subseteq> set (k_sent c1) \<union> kill_cmd ` set cids"
    unfolding c2_def by (rule kill_loop_sent)
  define st where "st = ''status 2'' @ [NL]"
  define qt where "qt = ''quit'' @ [NL]"
  have s3: "set (k_sent c3) \<subseteq> set (k_sent c2) \<union> {st}"
    unfolding c3_def st_def by (rule verify_loop_sent)
  have s4: "set (k_sent c4) \<subseteq> insert qt (set (k_sent c3))"
    unfolding c4_def qt_def using send_grows [of P "''quit'' @ [NL]" c3] by (metis prod.collapse)
  have "snd (snd (Takeover P w host port passFile cn cids)) \<in> {open_conn P, c1, c4}"
    unfolding Takeover_def c4_def c3_def c2_def
    by (auto simp: Let_def case_prod_beta l split: sum.splits option.splits)
  then consider "snd (snd (Takeover P w host port passFile cn cids)) = open_conn P"
    | "snd (snd (Takeover P w host port passFile cn cids)) = c1"
    | "snd (snd (Takeover P w host port passFile cn cids)) = c4" by blast
  then have "set (k_sent (snd (snd (Takeover P w host port passFile cn cids)))) \<subseteq>
      kill_cmd ` set cids \<union> {st, qt} \<union> ?pws"
  proof cases
    case 1
    show ?thesis unfolding 1 o by simp
  next
    case 2
    show ?thesis unfolding 2 using s1 by blast
  next
    case 3
    show ?thesis unfolding 3 using s1 s2 s3 s4 by blast
  qed
  then show ?thesis by (simp add: case_prod_beta st_def qt_def)
qed

text \<open>
  Silence verifies a take-over. The verification round takes any status reply without a row for
  the user as proof that the old session is gone, and a reply that never arrives has no such row:
  against a peer that accepts the connection and every write but never answers, \<open>Takeover\<close>
  reports the session as terminated in its first round.
\<close>

theorem takeover_verified_by_silence:
  assumes "validateMgmtHost w host = Inr ()" "p_dial P host port = None" "\<And>h s. p_write P h s = None"
    and "\<And>h. p_chunks P h = []" "0 < p_rounds P"
  shows "fst (Takeover P w host port passFile cn cids) = TakeoverVerified"
proof -
  have snd0: "send P s c = (None, c\<lparr>k_sent := k_sent c @ [s]\<rparr>)" for s c
    by (simp add: send_def assms)
  have ban: "readBanner (open_conn P) = ([], open_conn P)"
    by (simp add: readBanner_def open_conn_def assms)
  have lg: "login P w passFile (open_conn P) = (None, open_conn P)"
    by (simp add: login_def ban ToUpper_def)
  have ru: "k_pending c = [] \<Longrightarrow> readUntil ms c = ([], c)" for ms c
    by (simp add: readUntil_def)
  have kl: "k_pending c = [] \<Longrightarrow> k_pending (snd (kill_loop P cids c)) = []" for c
    by (induction cids arbitrary: c) (simp_all add: snd0 ru Let_def case_prod_beta)
  have "\<not> mgmtHasCN [] cn" by (simp add: mgmtHasCN_def Let_def TrimRightSet_def)
  then have vl: "k_pending c = [] \<Longrightarrow> fst (verify_loop (p_rounds P) P cn c) = True" for c
    using assms(5) by (cases "p_rounds P") (simp_all add: snd0 ru)
  have "k_pending (open_conn P) = []" by (simp add: open_conn_def assms)
  then show ?thesis
    using vl [OF kl] by (simp add: Takeover_def Let_def case_prod_beta assms lg)
qed

definition silent_peer :: peer where
  "silent_peer = \<lparr>p_dial = (\<lambda>_ _. None), p_write = (\<lambda>_ _. None), p_chunks = (\<lambda>_. []), p_rounds = 14\<rparr>"

theorem takeover_verified_by_silence_witness:
  "fst (Takeover silent_peer (sample_world []) ''127.0.0.1'' 7505 [''p''] ''bob'' [''3'']) = TakeoverVerified"
proof -
  have "case validateMgmtHost (sample_world []) ''127.0.0.1'' of Inr _ \<Rightarrow> True | Inl _ \<Rightarrow> False" by code_simp
  then have "validateMgmtHost (sample_world []) ''127.0.0.1'' = Inr ()" by (simp split: sum.splits)
  then show ?thesis
    by (rule takeover_verified_by_silence) (simp_all add: silent_peer_def)
qed

end
