(* ===== verification/Hooks.thy ===== *)
theory Hooks
  imports UserStore Logging Status Markers Mgmt
begin

text \<open>
  Package \<open>hooks\<close>: the client-connect hook (admission), the client-disconnect hook (final
  accounting) and the purge of stale markers.

  A hook is a function of the management peer \<open>P\<close>, its configuration, its argument and the world;
  it returns the exit code of the process and the new world. Exit code 2 is a Go panic, which
  OpenVPN treats as a refusal like any other non-zero code.
\<close>

subsection \<open>connect.go: helpers\<close>

definition Getenv :: "world \<Rightarrow> string \<Rightarrow> string" where
  "Getenv w name = (case w_env w name of Some v \<Rightarrow> v | None \<Rightarrow> [])"

definition orUnknown :: "string \<Rightarrow> string" where
  "orUnknown v = (if v = [] then ''?'' else v)"

definition orNone :: "string \<Rightarrow> string" where
  "orNone v = (if v = [] then ''none'' else v)"

definition liveRows :: "Session list \<Rightarrow> Session list" where
  "liveRows = filter (\<lambda>s. \<not> (ss_virtual s = [] \<and> ss_cid s = [] \<and> ss_real s = []))"

definition hookTimeUnix :: "world \<Rightarrow> int" where
  "hookTimeUnix w =
     (let v = TrimSpace (Getenv w ''time_unix'') in
      case (if v \<noteq> [] then ParseInt v else None) of
        Some n \<Rightarrow> if 0 < n then n else w_now w
      | None \<Rightarrow> w_now w)"

definition newGeneration :: "world \<Rightarrow> string" where
  "newGeneration w = (case w_rand w of
      Some b \<Rightarrow> hex_encode (take 8 b)
    | None \<Rightarrow> hex_encode (take 8 (Itoa (w_nanos w) @ ''-'' @ Itoa (w_pid w) @ ''-'' @ ''x'')))"

definition lastKillBody :: "string \<Rightarrow> int \<Rightarrow> string" where
  "lastKillBody safeCN at =
     [CHR ''{'', DQ] @ ''reason'' @ [DQ, CHR '':'', DQ] @ ''replaced by newer session (limit=1)'' @ [DQ, CHR '','', DQ]
     @ ''at'' @ [DQ, CHR '':''] @ Itoa at @ [CHR '','', DQ] @ ''cn'' @ [DQ, CHR '':'', DQ] @ safeCN @ [DQ, CHR '','', DQ]
     @ ''reason_code'' @ [DQ, CHR '':'', DQ] @ ''max_login_takeover'' @ [DQ, CHR ''}'', NL]"

definition writeLastKill :: "path \<Rightarrow> string \<Rightarrow> int \<Rightarrow> world \<Rightarrow> path \<times> world" where
  "writeLastKill usersDir safeCN at w =
     (let dir = usersDir @ [safeCN]; p = dir @ [''last_kill.json''];
          w = snd (os_MkdirAll dir perm_0755 w);
          w = snd (WriteFileAtomic p (lastKillBody safeCN at) perm_0644 w)
      in (p, w))"

definition bankDisplacedGeneration ::
  "Hook \<Rightarrow> string \<Rightarrow> string \<Rightarrow> string \<Rightarrow> Session list \<Rightarrow> unit io" where
  "bankDisplacedGeneration cfg safeCN key poolIP sessions w =
     (case ReadMarker w (h_sessions cfg @ [key]) of
        None \<Rightarrow> (Inr (), w)
      | Some old \<Rightarrow>
          if m_sid old = [] then (Inr (), w)
          else (case find (\<lambda>s. poolIP \<noteq> [] \<and> ss_virtual s = poolIP) sessions of
              None \<Rightarrow> (Inr (), w)
            | Some s \<Rightarrow>
                (case RecordSessionUsage (h_usage cfg) safeCN (m_sid old) (ss_rx s + ss_tx s) True w of
                   (Inl e, w) \<Rightarrow> (Inl e, w)
                 | (Inr _, w) \<Rightarrow> (Inr (), w))))"

fun log_lines :: "path \<Rightarrow> string \<Rightarrow> string list \<Rightarrow> world \<Rightarrow> world" where
  "log_lines p pre [] w = w"
| "log_lines p pre (l # ls) w = log_lines p pre ls (Event p (pre @ l) w)"

definition address :: "string \<Rightarrow> string \<Rightarrow> string" where
  "address ip port = '' ip='' @ ip @ '':'' @ port"

text \<open>The messages of the connect hook; the panel classifies them by their words.\<close>

definition msg_failed :: "string \<Rightarrow> string \<Rightarrow> err \<Rightarrow> string" where
  "msg_failed safeCN what e = ''CN='' @ safeCN @ what @ err_text e @ ''; REJECT''"

definition msg_malformed :: "string \<Rightarrow> string" where
  "msg_malformed safeCN = ''CN='' @ safeCN @ '' (sanitized='' @ safeCN @ '') rejected: malformed; REJECT''"

definition msg_users_dir :: "string \<Rightarrow> string \<Rightarrow> string \<Rightarrow> string" where
  "msg_users_dir safeCN safeIP safePort =
     ''CN='' @ safeCN @ address safeIP safePort @ ''; USERS_DIR missing or not a directory ''
     @ [CHR 0xE2, CHR 0x80, CHR 0x94] @ '' fail-closed; REJECT''"

definition msg_disabled :: "string \<Rightarrow> string \<Rightarrow> string \<Rightarrow> string" where
  "msg_disabled safeCN safeIP safePort = ''CN='' @ safeCN @ address safeIP safePort @ '' is disabled; REJECT''"

definition msg_unlimited :: "string \<Rightarrow> string" where
  "msg_unlimited safeCN = ''CN='' @ safeCN @ '' limit=unlimited; LOCAL_ALLOW''"

definition msg_status :: "string \<Rightarrow> string \<Rightarrow> string \<Rightarrow> string \<Rightarrow> int \<Rightarrow> nat \<Rightarrow> string" where
  "msg_status safeCN safeIP safePort poolIP limit count =
     ''CN='' @ safeCN @ address safeIP safePort @ '' pool='' @ orNone poolIP @ '' limit='' @ Itoa limit
     @ '' status='' @ itoa_nat count"

definition msg_over_limit :: "string \<Rightarrow> string \<Rightarrow> string \<Rightarrow> string \<Rightarrow> int \<Rightarrow> nat \<Rightarrow> string" where
  "msg_over_limit safeCN safeIP safePort poolIP limit count =
     msg_status safeCN safeIP safePort poolIP limit count @ ''; REJECT''"

definition msg_allow :: "string \<Rightarrow> string \<Rightarrow> string \<Rightarrow> string \<Rightarrow> int \<Rightarrow> nat \<Rightarrow> string \<Rightarrow> string" where
  "msg_allow safeCN safeIP safePort poolIP limit count key =
     msg_status safeCN safeIP safePort poolIP limit count @ ''; ALLOW session='' @ key"

text \<open>The messages of a take-over.\<close>

definition msg_takeover :: "string \<Rightarrow> string \<Rightarrow> string \<Rightarrow> string \<Rightarrow> nat \<Rightarrow> nat \<Rightarrow> string" where
  "msg_takeover safeCN safeIP safePort poolIP count n =
     ''CN='' @ safeCN @ address safeIP safePort @ '' pool='' @ orNone poolIP @ '' limit=1 status='' @ itoa_nat count
     @ ''; TAKEOVER ('' @ itoa_nat n @ '' mgmt cmds, one session)''"

definition msg_sidecar :: "string \<Rightarrow> path \<Rightarrow> string" where
  "msg_sidecar safeCN sidecar = ''CN='' @ safeCN @ '' wrote kill sidecar='' @ path_text sidecar"

definition msg_unverified :: "string \<Rightarrow> string \<Rightarrow> string \<Rightarrow> string \<Rightarrow> string" where
  "msg_unverified cn ip port poolIP =
     ''CN='' @ cn @ address (orUnknown ip) (orUnknown port) @ '' pool='' @ orNone poolIP
     @ '' takeover could not verify old session termination; REJECT''"

definition msg_degrade :: "string \<Rightarrow> string \<Rightarrow> string \<Rightarrow> string \<Rightarrow> nat \<Rightarrow> string" where
  "msg_degrade cn ip port poolIP count =
     ''CN='' @ cn @ address (orUnknown ip) (orUnknown port) @ '' pool='' @ orNone poolIP
     @ '' limit=1 status='' @ itoa_nat count
     @ ''; management unavailable; DEGRADE (markers replaced, corpse reaped by ping-restart)''"

definition takeover ::
  "peer \<Rightarrow> Hook \<Rightarrow> string \<Rightarrow> string \<Rightarrow> string \<Rightarrow> string \<Rightarrow> string \<Rightarrow> Session list \<Rightarrow> nat \<Rightarrow> world \<Rightarrow> bool \<times> world" where
  "takeover P cfg cn safeCN trustedIP trustedPort poolIP sessions count w =
     (let cids = filter all_digits (map ss_cid sessions);
          w = Event (h_log cfg) (msg_takeover safeCN (Sanitize (orUnknown trustedIP))
                (Sanitize (orUnknown trustedPort)) poolIP count (length cids)) w;
          (sidecar, w) = writeLastKill (h_users cfg) safeCN (w_now w) w;
          w = Event (h_log cfg) (msg_sidecar safeCN sidecar) w;
          (result, ls, _) = Takeover P w (h_mgmt_host cfg) (h_mgmt_port cfg) (h_mgmt_pass cfg) cn cids;
          w = log_lines (h_log cfg) (''CN='' @ safeCN @ '' mgmt: '') ls w
      in case result of
           TakeoverVerified \<Rightarrow> (True, w)
         | TakeoverTimeout \<Rightarrow> (False, Event (h_log cfg) (msg_unverified cn trustedIP trustedPort poolIP) w)
         | TakeoverDown \<Rightarrow> (True, Event (h_log cfg) (msg_degrade cn trustedIP trustedPort poolIP count) w))"

subsection \<open>connect.go: admission\<close>

definition new_marker ::
  "string \<Rightarrow> string \<Rightarrow> string \<Rightarrow> string \<Rightarrow> string \<Rightarrow> int \<Rightarrow> world \<Rightarrow> Marker" where
  "new_marker safeCN trustedIP trustedPort poolIP key connStart w =
     no_marker\<lparr>m_cn := safeCN, m_ip := trustedIP, m_port := trustedPort, m_pool := poolIP,
       m_created := w_now w, m_sid := key @ ''.'' @ newGeneration w, m_connected := connStart\<rparr>"

text \<open>The tail of \<open>connectLocked\<close>: bank, write the marker, admit.\<close>

definition admit ::
  "Hook \<Rightarrow> string \<Rightarrow> string \<Rightarrow> string \<Rightarrow> string \<Rightarrow> string \<Rightarrow> int \<Rightarrow> int \<Rightarrow> Session list \<Rightarrow> world \<Rightarrow> int \<times> world" where
  "admit cfg safeCN trustedIP trustedPort poolIP key limit connStart sessions w =
     (let marker = new_marker safeCN trustedIP trustedPort poolIP key connStart w in
      case bankDisplacedGeneration cfg safeCN key poolIP sessions w of
        (Inl e, w) \<Rightarrow> (1, Event (h_log cfg) (msg_failed safeCN '' takeover banking failed: '' e) w)
      | (Inr _, w) \<Rightarrow>
          (case WriteMarker (h_sessions cfg @ [key]) marker w of
             (Inl e, w) \<Rightarrow>
               (1, Event (h_log cfg) (msg_failed safeCN '' could not write the session marker: '' e) w)
           | (Inr _, w) \<Rightarrow>
               (0, Event (h_log cfg) (msg_allow safeCN (Sanitize (orUnknown trustedIP)) (Sanitize (orUnknown trustedPort))
                     poolIP limit (length sessions) key) w)))"

definition connectLocked ::
  "peer \<Rightarrow> Hook \<Rightarrow> string \<Rightarrow> string \<Rightarrow> string \<Rightarrow> string \<Rightarrow> string \<Rightarrow> string \<Rightarrow> int \<Rightarrow> int \<Rightarrow> world \<Rightarrow> int \<times> world" where
  "connectLocked P cfg cn safeCN trustedIP trustedPort poolIP key limit connStart w =
     (case SessionsForCN w (h_status cfg) safeCN of
        None \<Rightarrow> (2, w)
      | Some rows \<Rightarrow>
          (let sessions = liveRows rows; count = length sessions in
           if limit \<le> int count then
             (if limit \<noteq> 1 then
                (1, Event (h_log cfg) (msg_over_limit safeCN (Sanitize (orUnknown trustedIP)) (Sanitize (orUnknown trustedPort))
                      poolIP limit count) w)
              else (case takeover P cfg cn safeCN trustedIP trustedPort poolIP sessions count w of
                  (False, w) \<Rightarrow> (1, w)
                | (True, w) \<Rightarrow> admit cfg safeCN trustedIP trustedPort poolIP key limit connStart sessions w))
           else admit cfg safeCN trustedIP trustedPort poolIP key limit connStart sessions w))"

text \<open>The critical section of an unlimited user; \<open>None\<close> is a panic.\<close>

definition unlimitedLocked ::
  "Hook \<Rightarrow> string \<Rightarrow> string \<Rightarrow> string \<Rightarrow> Marker \<Rightarrow> (unit option) io" where
  "unlimitedLocked cfg safeCN key poolIP marker w =
     (case SessionsForCN w (h_status cfg) safeCN of
        None \<Rightarrow> (Inr None, w)
      | Some rows \<Rightarrow>
          (case bankDisplacedGeneration cfg safeCN key poolIP (liveRows rows) w of
             (Inl e, w) \<Rightarrow> (Inl e, w)
           | (Inr _, w) \<Rightarrow>
               (case WriteMarker (h_sessions cfg @ [key]) marker w of
                  (Inl e, w) \<Rightarrow> (Inl e, w)
                | (Inr _, w) \<Rightarrow> (Inr (Some ()), w))))"

text \<open>\<open>Connect\<close> after the policy has been read.\<close>

definition connect_policy ::
  "peer \<Rightarrow> Hook \<Rightarrow> string \<Rightarrow> string \<Rightarrow> string \<Rightarrow> string \<Rightarrow> UserState \<Rightarrow> world \<Rightarrow> int \<times> world" where
  "connect_policy P cfg cn trustedIP trustedPort poolIP state w =
     (let safeCN = Sanitize cn;
          limit = (if us_limit_set state then us_limit state else DefaultLimit);
          poolKey = (if poolIP \<noteq> [] then Sanitize poolIP else []);
          key = SessionKey safeCN poolKey (Sanitize (orUnknown trustedIP)) (Sanitize (orUnknown trustedPort));
          connStart = hookTimeUnix w;
          lockPath = h_sessions cfg @ [''.lock.'' @ safeCN]
      in if us_disabled state then
           (1, Event (h_log cfg) (msg_disabled safeCN (Sanitize (orUnknown trustedIP)) (Sanitize (orUnknown trustedPort))) w)
         else if limit = 0 then
           (case Lock lockPath perm_0660
                   (unlimitedLocked cfg safeCN key poolIP
                      (new_marker safeCN trustedIP trustedPort poolIP key connStart w)) w of
              (Inl e, w) \<Rightarrow>
                (1, Event (h_log cfg) (msg_failed safeCN '' could not write the session marker: '' e) w)
            | (Inr None, w) \<Rightarrow> (2, w)
            | (Inr (Some _), w) \<Rightarrow> (0, Event (h_log cfg) (msg_unlimited safeCN) w))
         else
           (case Lock lockPath perm_0660
                   (\<lambda>w. case connectLocked P cfg cn safeCN trustedIP trustedPort poolIP key limit connStart w of
                          (code, w) \<Rightarrow> (Inr code, w)) w of
              (Inl e, w) \<Rightarrow>
                (1, Event (h_log cfg) (msg_failed safeCN '' could not take the session lock: '' e) w)
            | (Inr code, w) \<Rightarrow> (code, w)))"

definition hook_cn :: "world \<Rightarrow> string \<Rightarrow> string" where
  "hook_cn w arg = (if Getenv w ''common_name'' = [] then arg else Getenv w ''common_name'')"

definition Connect :: "peer \<Rightarrow> Hook \<Rightarrow> string \<Rightarrow> world \<Rightarrow> int \<times> world" where
  "Connect P cfg arg w =
     (let cn = hook_cn w arg;
          trustedIP = Getenv w ''trusted_ip'';
          trustedPort = Getenv w ''trusted_port'';
          poolIP = Getenv w ''ifconfig_pool_remote_ip'';
          safeCN = Sanitize cn;
          safeIP = Sanitize (orUnknown trustedIP);
          safePort = Sanitize (orUnknown trustedPort);
          log = h_log cfg
      in if safeCN \<noteq> cn \<or> \<not> HookCNValid safeCN then
           (1, Event log (msg_malformed safeCN) w)
         else if \<not> (case os_Stat w (h_users cfg) of Inr info \<Rightarrow> is_dir info | Inl _ \<Rightarrow> False) then
           (1, Event log (msg_users_dir safeCN safeIP safePort) w)
         else (case MkdirAllNoFollow (h_sessions cfg) perm_0770 w of
             (Inl e, w) \<Rightarrow>
               (1, Event log (msg_failed safeCN '' could not prepare session directory: '' e) w)
           | (Inr _, w) \<Rightarrow>
               (case ReadUserState w (h_users cfg) safeCN of
                  Inl e \<Rightarrow> (1, Event log (msg_failed safeCN '' could not read user state: '' e) w)
                | Inr state \<Rightarrow> connect_policy P cfg cn trustedIP trustedPort poolIP state w)))"

subsection \<open>disconnect.go\<close>

definition disconnectMatches :: "Marker \<Rightarrow> string \<Rightarrow> string \<Rightarrow> string \<Rightarrow> int \<Rightarrow> bool" where
  "disconnectMatches m key trustedIP trustedPort startUnix =
     (let sessionID = (if m_sid m \<noteq> [] then m_sid m else key);
          mStart = (if m_started m = 0 then m_connected m else m_started m)
      in if \<not> HasGeneration sessionID then True
         else if 0 < startUnix \<and> 0 < mStart \<and> startUnix \<noteq> mStart then False
         else if m_ip m \<noteq> [] \<and> trustedIP \<noteq> [] \<and> m_ip m \<noteq> trustedIP then False
         else if m_port m \<noteq> [] \<and> trustedPort \<noteq> [] \<and> m_port m \<noteq> trustedPort then False
         else True)"

definition hookTimeUnixEnv :: "world \<Rightarrow> int" where
  "hookTimeUnixEnv w =
     (let v = TrimSpace (Getenv w ''time_unix'') in
      if v = [] then 0 else case ParseInt v of Some n \<Rightarrow> if n < 0 then 0 else n | None \<Rightarrow> 0)"

definition counter :: "world \<Rightarrow> string \<Rightarrow> u64" where
  "counter w name =
     (let v = TrimSpace (Getenv w name) in
      if v = [] then 0 else case ParseUint v of Some n \<Rightarrow> n | None \<Rightarrow> 0)"

text \<open>The critical section of \<open>Disconnect\<close>; it never fails.\<close>

definition disconnectLocked ::
  "Hook \<Rightarrow> string \<Rightarrow> string \<Rightarrow> string \<Rightarrow> string \<Rightarrow> string \<Rightarrow> string \<Rightarrow> string \<Rightarrow> u64 \<Rightarrow> u64 \<Rightarrow> unit io" where
  "disconnectLocked cfg safeCN key poolKey ipKey portKey trustedIP trustedPort rx tx w =
     (let sessionFile = h_sessions cfg @ [key] in
      if \<not> (case os_Stat w sessionFile of Inr info \<Rightarrow> \<not> is_dir info | Inl _ \<Rightarrow> False) then
        (Inr (), Syslog (''CN='' @ safeCN @ '' disconnect fallback cleanup session='' @ key)
                   (RemoveLegacyMarkers (h_sessions cfg) safeCN poolKey ipKey portKey w))
      else (case ReadMarker w sessionFile of
          None \<Rightarrow> (Inr (), w)
        | Some m \<Rightarrow>
            if \<not> disconnectMatches m key trustedIP trustedPort (hookTimeUnixEnv w) then
              (Inr (), Syslog (''CN='' @ safeCN @ '' delayed disconnect for a previous generation; ignored session='' @ key) w)
            else
              (let sessionID = (if m_sid m \<noteq> [] then m_sid m else key) in
               case RecordSessionUsage (h_usage cfg) safeCN sessionID (rx + tx) True w of
                 (Inl e, w) \<Rightarrow> (Inr (), Syslog (''CN='' @ safeCN @ '' usage accounting failed: '' @ err_text e) w)
               | (Inr _, w) \<Rightarrow>
                   (let w = (if 0 < rx + tx
                             then Syslog (''CN='' @ safeCN @ '' session ended rx='' @ itoa_nat (unat rx) @ '' tx='' @ itoa_nat (unat tx)) w
                             else w) in
                    case os_Remove sessionFile w of
                      (Inl e, w) \<Rightarrow>
                        if e = NotExist then (Inr (), Syslog (''CN='' @ safeCN @ '' disconnect removed session='' @ key) w)
                        else (Inr (), Syslog (''CN='' @ safeCN @ '' marker removal failed: '' @ err_text e) w)
                    | (Inr _, w) \<Rightarrow> (Inr (), Syslog (''CN='' @ safeCN @ '' disconnect removed session='' @ key) w)))))"

definition Disconnect :: "Hook \<Rightarrow> string \<Rightarrow> world \<Rightarrow> int \<times> world" where
  "Disconnect cfg arg w =
     (let cn = hook_cn w arg in
      if cn = [] then (0, Syslog ''disconnect without common_name'' w)
      else
        (let trustedIP = Getenv w ''trusted_ip'';
             trustedPort = Getenv w ''trusted_port'';
             poolIP = Getenv w ''ifconfig_pool_remote_ip'';
             safeCN = Sanitize cn;
             poolKey = (if poolIP \<noteq> [] then Sanitize poolIP else []);
             ipKey = Sanitize (orUnknown trustedIP);
             portKey = Sanitize (orUnknown trustedPort);
             key = SessionKey safeCN poolKey ipKey portKey
         in if safeCN \<noteq> cn \<or> \<not> HookCNValid safeCN
            then (0, Syslog (''disconnect rejected malformed CN='' @ safeCN) w)
            else (case MkdirAllNoFollow (h_sessions cfg) perm_0770 w of
                (Inl e, w) \<Rightarrow> (0, Syslog (''CN='' @ safeCN @ '' could not prepare session directory: '' @ err_text e) w)
              | (Inr _, w) \<Rightarrow>
                  (case Lock (h_sessions cfg @ [''.lock.'' @ safeCN]) perm_0660
                          (disconnectLocked cfg safeCN key poolKey ipKey portKey trustedIP trustedPort
                             (counter w ''bytes_received'') (counter w ''bytes_sent'')) w of
                     (Inl e, w) \<Rightarrow> (0, Syslog (''CN='' @ safeCN @ '' could not take the session lock: '' @ err_text e) w)
                   | (Inr _, w) \<Rightarrow> (0, w)))))"

subsection \<open>purge.go\<close>

record purge_count =
  pc_removed :: nat
  pc_kept :: nat
  pc_scanned :: nat

definition stale :: "int \<Rightarrow> int \<Rightarrow> string set \<Rightarrow> Marker \<Rightarrow> bool" where
  "stale now ttl live m \<longleftrightarrow> 0 < m_created m \<and> ttl < now - m_created m \<and> m_pool m \<notin> live"

text \<open>The sweep over the directory; \<open>affected\<close> collects the common names whose marker was removed.\<close>

fun purge_entries ::
  "Hook \<Rightarrow> string set \<Rightarrow> (string \<times> node) list \<Rightarrow> purge_count \<Rightarrow> string list \<Rightarrow> world \<Rightarrow>
   purge_count \<times> string list \<times> world" where
  "purge_entries cfg live [] pc affected w = (pc, affected, w)"
| "purge_entries cfg live ((n, nd) # es) pc affected w =
     (if HasPrefix n ''.'' \<or> is_dir nd then purge_entries cfg live es pc affected w
      else
        (let pc = pc\<lparr>pc_scanned := Suc (pc_scanned pc)\<rparr>; p = h_sessions cfg @ [n] in
         case ReadMarker w p of
           None \<Rightarrow> purge_entries cfg live es (pc\<lparr>pc_kept := Suc (pc_kept pc)\<rparr>) affected w
         | Some m \<Rightarrow>
             if stale (w_now w) (h_ttl cfg) live m then
               (case os_Remove p w of
                  (Inl e, w) \<Rightarrow> purge_entries cfg live es (pc\<lparr>pc_kept := Suc (pc_kept pc)\<rparr>) affected w
                | (Inr _, w) \<Rightarrow>
                    purge_entries cfg live es (pc\<lparr>pc_removed := Suc (pc_removed pc)\<rparr>)
                      (List.insert (m_cn m) affected) w)
             else purge_entries cfg live es (pc\<lparr>pc_kept := Suc (pc_kept pc)\<rparr>) affected w))"

text \<open>The session identifiers and marker names of one user that are still on disk.\<close>

definition present_ids :: "Hook \<Rightarrow> world \<Rightarrow> (string \<times> node) list \<Rightarrow> string \<Rightarrow> string \<Rightarrow> bool" where
  "present_ids cfg w entries cn sid \<longleftrightarrow>
     list_ex (\<lambda>(n, nd). \<not> HasPrefix n ''.'' \<and> \<not> is_dir nd \<and>
       (case ReadMarker w (h_sessions cfg @ [n]) of
          None \<Rightarrow> False
        | Some m \<Rightarrow> m_cn m = cn \<and> (sid = m_sid m \<or> sid = n))) entries"

fun prune_affected :: "path \<Rightarrow> (string \<Rightarrow> string \<Rightarrow> bool) \<Rightarrow> string list \<Rightarrow> world \<Rightarrow> world" where
  "prune_affected usageDir present [] w = w"
| "prune_affected usageDir present (cn # cns) w =
     prune_affected usageDir present cns (snd (PruneReceipts usageDir cn (present cn) w))"

text \<open>
  \<open>PurgeStale\<close> returns the counts it prints, or \<open>None\<close> for a panic. Go visits the affected users in
  any order; here they come in the order of discovery.
\<close>

definition PurgeStale :: "Hook \<Rightarrow> world \<Rightarrow> purge_count option \<times> world" where
  "PurgeStale cfg w =
     (let zero = \<lparr>pc_removed = 0, pc_kept = 0, pc_scanned = 0\<rparr> in
      case ReadStatusSnapshot w (h_status cfg) of
        None \<Rightarrow> (None, w)
      | Some (Inl e) \<Rightarrow> (Some zero, w)
      | Some (Inr snap) \<Rightarrow>
          (let entries = (case os_ReadDir w (h_sessions cfg) of Inl _ \<Rightarrow> [] | Inr es \<Rightarrow> es);
               (pc, affected, w) = purge_entries cfg (set (map ss_virtual (sn_sessions snap))) entries zero [] w
           in if affected = [] then (Some pc, w)
              else (case os_ReadDir w (h_sessions cfg) of
                  Inl _ \<Rightarrow> (Some pc, w)
                | Inr remaining \<Rightarrow>
                    (Some pc, prune_affected (h_usage cfg) (present_ids cfg w remaining) affected w))))"

subsection \<open>Frames\<close>

text \<open>
  Coarse frames: what an operation on the files of directory \<open>d\<close> may touch, and what a connect hook
  may touch besides the session marker.
\<close>

definition dir_scope :: "path \<Rightarrow> path \<Rightarrow> bool" where
  "dir_scope d q \<longleftrightarrow> tmp_path q \<or> prefix q d \<or> (\<exists>n. q = d @ [n])"

lemma Lock_frame:
  assumes "Lock p perm fn w = (r, w')" "P p" "\<And>v r' v'. fn v = (r', v') \<Longrightarrow> frame P v v'"
  shows "frame P w w'"
proof (cases rule: Lock_cases [OF assms(1)])
  case (1 e)
  then show ?thesis using assms(2) by (auto elim: frame_mono)
next
  case (2 v)
  have "frame P w v" using 2(2) assms(2) by (auto elim: frame_mono)
  then show ?thesis using assms(3) [OF 2(1)] by (rule frame_trans)
qed

lemma Mkdir_dir_scope: "MkdirAllNoFollow d m w = (r, w') \<Longrightarrow> frame (dir_scope d) w w'"
  by (drule MkdirAllNoFollow_frame) (auto simp: dir_scope_def elim: frame_mono)

lemma newEpoch_frame: "newEpoch w = (ep, w') \<Longrightarrow> frame P w w'"
  by (drule newEpoch_ok) simp

lemma upgrade_frame: "upgrade st w = (st', w') \<Longrightarrow> frame P w w'"
  by (auto simp: upgrade_def split: if_splits prod.splits dest: newEpoch_frame)

lemma ReadUsageState_frame:
  assumes "ReadUsageState d cn w = (r, w')" shows "frame (dir_scope d) w w'"
proof -
  obtain a w1 where m: "MkdirAllNoFollow d perm_0770 w = (a, w1)" by fastforce
  note f = Mkdir_dir_scope [OF m]
  have "w' = w \<or> w' = w1 \<or> (\<exists>ep. newEpoch w1 = (ep, w'))"
    using assms m by (auto simp: ReadUsageState_def Let_def split: sum.splits if_splits prod.splits)
  with f show ?thesis by (auto dest: newEpoch_frame intro: frame_trans)
qed

lemma writeUsageState_frame: "writeUsageState d safe st w = (r, w') \<Longrightarrow> frame (dir_scope d) w w'"
  unfolding writeUsageState_def by (drule WriteFileAtomic_frame) (auto simp: dir_scope_def elim: frame_mono)

lemma record_locked_frame:
  assumes "record_locked d safe cn sid b c w = (r, w')" shows "frame (dir_scope d) w w'"
proof -
  obtain a w1 where rd: "ReadUsageState d safe w = (a, w1)" by fastforce
  note f1 = ReadUsageState_frame [OF rd]
  show ?thesis
  proof (cases a)
    case (Inl e)
    with assms rd f1 show ?thesis by (simp add: record_locked_def)
  next
    case (Inr st0)
    obtain st1 w2 where up: "upgrade st0 w1 = (st1, w2)" by fastforce
    have f2: "frame (dir_scope d) w w2" using f1 upgrade_frame [OF up] by (rule frame_trans)
    show ?thesis
    proof (cases "observe cn sid b c st1")
      case (Inl e)
      with assms rd up \<open>a = Inr st0\<close> f2 show ?thesis by (simp add: record_locked_def)
    next
      case (Inr st2)
      obtain st3 w3 where e: "(if u_epoch st2 = [] then (let (ep, w') = newEpoch w2 in (st2\<lparr>u_epoch := ep\<rparr>, w'))
          else (st2, w2)) = (st3, w3)" by fastforce
      have f3: "frame (dir_scope d) w w3"
        using e f2 by (auto split: if_splits prod.splits dest: newEpoch_frame intro: frame_trans)
      obtain x w4 where wr: "writeUsageState d safe st3 w3 = (x, w4)" by fastforce
      have f4: "frame (dir_scope d) w w4" using f3 writeUsageState_frame [OF wr] by (rule frame_trans)
      have "w' = w4 \<or> w' = InvalidateUsageCache w4"
        using assms rd up \<open>a = Inr st0\<close> Inr e wr by (auto simp: record_locked_def split: sum.splits)
      with f4 show ?thesis by (auto intro: frame_trans)
    qed
  qed
qed

lemma RecordSessionUsage_frame:
  assumes "RecordSessionUsage d cn sid b c w = (r, w')" shows "frame (dir_scope d) w w'"
proof (cases "SafeCN cn")
  case (Inl e)
  with assms show ?thesis by (simp add: RecordSessionUsage_def)
next
  case (Inr safe)
  obtain a w1 where m: "MkdirAllNoFollow d perm_0770 w = (a, w1)" by fastforce
  note f = Mkdir_dir_scope [OF m]
  show ?thesis
  proof (cases "sid = [] \<or> (\<exists>e. a = Inl e)")
    case True
    with assms Inr m f show ?thesis by (auto simp: RecordSessionUsage_def split: if_splits)
  next
    case False
    then have "Lock (d @ [''.lock.'' @ safe]) perm_0660 (record_locked d safe cn sid b c) w1 = (r, w')"
      using assms Inr m by (cases a) (auto simp: RecordSessionUsage_def)
    then have "frame (dir_scope d) w1 w'"
      by (rule Lock_frame) (auto simp: dir_scope_def [of d "d @ _"] intro: record_locked_frame)
    with f show ?thesis by (rule frame_trans)
  qed
qed

lemma prune_locked_frame:
  assumes "prune_locked d safe present w = (r, w')" shows "frame (dir_scope d) w w'"
proof -
  obtain a w1 where rd: "ReadUsageState d safe w = (a, w1)" by fastforce
  note f1 = ReadUsageState_frame [OF rd]
  show ?thesis
  proof (cases a)
    case (Inl e)
    with assms rd f1 show ?thesis by (simp add: prune_locked_def)
  next
    case (Inr st)
    obtain x w2 where wr: "writeUsageState d safe (prune present st) w1 = (x, w2)" by fastforce
    have "frame (dir_scope d) w w2" using f1 writeUsageState_frame [OF wr] by (rule frame_trans)
    moreover have "w' = w1 \<or> w' = w2 \<or> w' = InvalidateUsageCache w2"
      using assms rd Inr wr by (auto simp: prune_locked_def Let_def split: sum.splits if_splits)
    ultimately show ?thesis using f1 by (auto intro: frame_trans)
  qed
qed

lemma PruneReceipts_frame:
  assumes "PruneReceipts d cn present w = (r, w')" shows "frame (dir_scope d) w w'"
proof (cases "SafeCN cn")
  case (Inl e)
  with assms show ?thesis by (simp add: PruneReceipts_def)
next
  case (Inr safe)
  obtain a w1 where m: "MkdirAllNoFollow d perm_0770 w = (a, w1)" by fastforce
  note f = Mkdir_dir_scope [OF m]
  show ?thesis
  proof (cases a)
    case (Inl e)
    with assms Inr m f show ?thesis by (simp add: PruneReceipts_def)
  next
    case (Inr u)
    then have "Lock (d @ [''.lock.'' @ safe]) perm_0660 (prune_locked d safe present) w1 = (r, w')"
      using assms \<open>SafeCN cn = Inr safe\<close> m by (simp add: PruneReceipts_def)
    then have "frame (dir_scope d) w1 w'"
      by (rule Lock_frame) (auto simp: dir_scope_def [of d "d @ _"] intro: prune_locked_frame)
    with f show ?thesis by (rule frame_trans)
  qed
qed

end
