(* ===== verification/Admission.thy ===== *)
theory Admission
  imports Hooks
begin

text \<open>
  What the hooks promise: who is admitted, what a refusal leaves alone, when traffic is booked and
  which markers the purge removes.
\<close>

subsection \<open>What a connect touches\<close>

definition hook_scope :: "Hook \<Rightarrow> string \<Rightarrow> path \<Rightarrow> bool" where
  "hook_scope cfg cn q \<longleftrightarrow> tmp_path q \<or> prefix q (h_sessions cfg) \<or> q = h_sessions cfg @ [''.lock.'' @ cn]
     \<or> dir_scope (h_usage cfg) q \<or> prefix q (h_log cfg) \<or> prefix q (h_users cfg @ [cn, ''last_kill.json''])"

lemma Event_hook_scope: "frame (hook_scope cfg cn) w (Event (h_log cfg) m w)"
  using Event_frame [of "h_log cfg" w m] by (rule frame_mono) (auto simp: hook_scope_def log_scope_def)

lemma frame_Event: "frame (hook_scope cfg cn) w v \<Longrightarrow> frame (hook_scope cfg cn) w (Event (h_log cfg) m v)"
  using Event_hook_scope frame_trans by blast

lemma log_lines_frame: "frame (hook_scope cfg cn) w v \<Longrightarrow> frame (hook_scope cfg cn) w (log_lines (h_log cfg) pre ls v)"
  by (induction ls arbitrary: v) (auto intro: frame_Event)

lemma writeLastKill_frame:
  assumes "writeLastKill (h_users cfg) cn at w = (p, w')" shows "frame (hook_scope cfg cn) w w'"
proof -
  let ?d = "h_users cfg @ [cn]"
  obtain a w1 where m: "os_MkdirAll ?d perm_0755 w = (a, w1)" by fastforce
  obtain b w2 where wr: "WriteFileAtomic (?d @ [''last_kill.json'']) (lastKillBody cn at) perm_0644 w1 = (b, w2)"
    by fastforce
  have w': "w' = w2" using assms wr m unfolding writeLastKill_def Let_def by (metis append_assoc append_Cons append_Nil prod.inject snd_conv)
  have "frame (hook_scope cfg cn) w w1"
    using os_MkdirAll_frame [OF m] by (rule frame_mono) (auto simp: hook_scope_def)
  moreover have "frame (hook_scope cfg cn) w1 w2"
    using WriteFileAtomic_frame [OF wr] by (rule frame_mono) (auto simp: hook_scope_def)
  ultimately show ?thesis unfolding w' by (rule frame_trans)
qed

lemma bank_frame:
  assumes "bankDisplacedGeneration cfg cn key pool ss w = (r, w')" shows "frame (hook_scope cfg cn') w w'"
proof -
  have "w' = w \<or> (\<exists>cn sid b c r. RecordSessionUsage (h_usage cfg) cn sid b c w = (r, w'))"
    using assms by (auto simp: bankDisplacedGeneration_def split: option.splits if_splits prod.splits sum.splits)
  then show ?thesis
  proof
    assume "\<exists>cn sid b c r. RecordSessionUsage (h_usage cfg) cn sid b c w = (r, w')"
    then have "frame (dir_scope (h_usage cfg)) w w'" by (auto dest: RecordSessionUsage_frame)
    then show ?thesis by (rule frame_mono) (simp add: hook_scope_def)
  qed simp
qed

lemma takeover_frame:
  assumes "takeover P cfg cn safe ip port pool ss n w = (b, w')" shows "frame (hook_scope cfg safe) w w'"
proof -
  let ?cids = "filter all_digits (map ss_cid ss)"
  define w1 where "w1 = Event (h_log cfg) (msg_takeover safe (Sanitize (orUnknown ip)) (Sanitize (orUnknown port))
      pool n (length ?cids)) w"
  obtain sc w2 where k: "writeLastKill (h_users cfg) safe (w_now w1) w1 = (sc, w2)" by fastforce
  define w3 where "w3 = Event (h_log cfg) (msg_sidecar safe sc) w2"
  obtain res ls c where t: "Takeover P w3 (h_mgmt_host cfg) (h_mgmt_port cfg) (h_mgmt_pass cfg) cn ?cids = (res, ls, c)"
    by (metis prod_cases3)
  define w4 where "w4 = log_lines (h_log cfg) (''CN='' @ safe @ '' mgmt: '') ls w3"
  have "frame (hook_scope cfg safe) w w1" unfolding w1_def by (rule frame_Event) simp
  then have "frame (hook_scope cfg safe) w w2" using writeLastKill_frame [OF k] frame_trans by blast
  then have f: "frame (hook_scope cfg safe) w w4" unfolding w4_def w3_def by (intro log_lines_frame frame_Event)
  have "takeover P cfg cn safe ip port pool ss n w = (case res of
      TakeoverVerified \<Rightarrow> (True, w4)
    | TakeoverTimeout \<Rightarrow> (False, Event (h_log cfg) (msg_unverified cn ip port pool) w4)
    | TakeoverDown \<Rightarrow> (True, Event (h_log cfg) (msg_degrade cn ip port pool n) w4))"
    unfolding takeover_def Let_def w1_def [symmetric] k prod.case w3_def [symmetric] t w4_def [symmetric] ..
  with assms f show ?thesis by (cases res) (auto intro: frame_Event)
qed

text \<open>Either the marker was written last and the client admitted, or the marker path was left alone.\<close>

definition marked :: "Hook \<Rightarrow> string \<Rightarrow> string \<Rightarrow> int \<Rightarrow> world \<Rightarrow> world \<Rightarrow> bool" where
  "marked cfg cn key code w w' \<longleftrightarrow>
     (if code = 0
      then (\<exists>v m msg. frame (hook_scope cfg cn) w v \<and> m_cn m = cn \<and> (\<exists>gen. m_sid m = key @ ''.'' @ gen) \<and>
              w' = Event (h_log cfg) msg (put (h_sessions cfg @ [key])
                     (new_file v (h_sessions cfg) perm_0660 (marker_body m)) v))
      else frame (hook_scope cfg cn) w w')"

lemma marked_refused: "frame (hook_scope cfg cn) u v \<Longrightarrow> marked cfg cn key 1 u (Event (h_log cfg) m v)"
  unfolding marked_def by (simp add: frame_Event)

lemma marked_error: "frame (hook_scope cfg cn) u v \<Longrightarrow> code \<noteq> 0 \<Longrightarrow> marked cfg cn key code u v"
  unfolding marked_def by simp

lemma marked_admitted:
  assumes "frame (hook_scope cfg cn) u v" "m_cn m = cn" "\<exists>gen. m_sid m = key @ ''.'' @ gen"
  shows "marked cfg cn key 0 u (Event (h_log cfg) msg (put (h_sessions cfg @ [key])
    (new_file v (h_sessions cfg) perm_0660 (marker_body m)) v))"
  unfolding marked_def if_P [OF refl] by (intro exI [of _ v] exI [of _ m] exI [of _ msg] conjI assms refl)

lemma WriteMarker_world:
  assumes "WriteMarker (d @ [key]) m w = (r, w')"
  shows "case r of Inr _ \<Rightarrow> w' = put (d @ [key]) (new_file w d perm_0660 (marker_body m)) w
    | Inl _ \<Rightarrow> frame tmp_path w w'"
proof (cases r)
  case (Inl e)
  with assms WriteFileAtomic_err show ?thesis unfolding WriteMarker_def by (auto split: sum.splits)
next
  case (Inr u)
  with assms show ?thesis unfolding WriteMarker_def
    using WriteFileAtomic_ok [of "d @ [key]" "marker_body m" perm_0660 w w'] by (simp only: butlast_snoc sum.case) simp
qed

lemma tmp_hook_scope: "frame tmp_path v w \<Longrightarrow> frame (hook_scope cfg cn) v w"
  by (erule frame_mono) (simp add: hook_scope_def)

lemma new_marker_ids: "m_cn (new_marker cn ip port pool key start w) = cn"
  "\<exists>gen. m_sid (new_marker cn ip port pool key start w) = key @ ''.'' @ gen"
  by (simp_all add: new_marker_def no_marker_def)

lemma admit_marked:
  assumes "admit cfg cn ip port pool key lim start ss w = (code, w')" "frame (hook_scope cfg cn) u w"
  shows "marked cfg cn key code u w'"
proof -
  let ?m = "new_marker cn ip port pool key start w"
  obtain a w1 where b: "bankDisplacedGeneration cfg cn key pool ss w = (a, w1)" by fastforce
  have f1: "frame (hook_scope cfg cn) u w1" using assms(2) bank_frame [OF b] by (rule frame_trans)
  obtain r w2 where wr: "WriteMarker (h_sessions cfg @ [key]) ?m w1 = (r, w2)" by fastforce
  note wm = WriteMarker_world [OF wr]
  note e = assms(1) [unfolded admit_def Let_def b prod.case wr]
  show ?thesis
  proof (cases a)
    case (Inl er)
    show ?thesis
      using e unfolding Inl sum.case prod.inject by (elim conjE, hypsubst) (rule marked_refused [OF f1])
  next
    case (Inr x)
    note e' = e [unfolded Inr sum.case]
    show ?thesis
    proof (cases r)
      case (Inl er)
      then have "frame (hook_scope cfg cn) u w2"
        using wm frame_trans [OF f1 tmp_hook_scope] by simp
      then show ?thesis using e' unfolding Inl sum.case prod.inject by (elim conjE, hypsubst) (rule marked_refused)
    next
      case (Inr y)
      have w2: "w2 = put (h_sessions cfg @ [key]) (new_file w1 (h_sessions cfg) perm_0660 (marker_body ?m)) w1"
        using wm Inr by simp
      show ?thesis using e' unfolding Inr sum.case prod.inject w2
        by (elim conjE, hypsubst) (rule marked_admitted [OF f1 new_marker_ids])
    qed
  qed
qed

lemma connectLocked_marked:
  assumes "connectLocked P cfg cn safe ip port pool key lim start w = (code, w')" "frame (hook_scope cfg safe) u w"
  shows "marked cfg safe key code u w'"
proof (cases "SessionsForCN w (h_status cfg) safe")
  case None
  with assms show ?thesis by (simp add: connectLocked_def marked_def)
next
  case (Some rows)
  let ?ss = "liveRows rows"
  obtain b w1 where t: "takeover P cfg cn safe ip port pool ?ss (length ?ss) w = (b, w1)" by fastforce
  have f1: "frame (hook_scope cfg safe) u w1" using assms(2) takeover_frame [OF t] by (rule frame_trans)
  have e: "connectLocked P cfg cn safe ip port pool key lim start w =
      (if lim \<le> int (length ?ss) then
         (if lim \<noteq> 1 then (1, Event (h_log cfg) (msg_over_limit safe (Sanitize (orUnknown ip)) (Sanitize (orUnknown port))
              pool lim (length ?ss)) w)
          else if b then admit cfg safe ip port pool key lim start ?ss w1 else (1, w1))
       else admit cfg safe ip port pool key lim start ?ss w)"
    unfolding connectLocked_def Some option.case Let_def t prod.case by (cases b) simp_all
  consider "code = 1" "\<exists>m. w' = Event (h_log cfg) m w" | "code = 1" "w' = w1"
    | "admit cfg safe ip port pool key lim start ?ss w1 = (code, w')"
    | "admit cfg safe ip port pool key lim start ?ss w = (code, w')"
    using assms(1) unfolding e by (cases "lim \<le> int (length ?ss)"; cases "lim = 1"; cases b) auto
  then show ?thesis
  proof cases
    case 1
    with assms(2) show ?thesis by (auto simp: marked_def intro: frame_Event)
  next
    case 2
    with f1 show ?thesis by (simp add: marked_def)
  next
    case 3
    then show ?thesis using f1 by (rule admit_marked)
  next
    case 4
    then show ?thesis using assms(2) by (rule admit_marked)
  qed
qed


lemma unlimitedLocked_marked:
  assumes "unlimitedLocked cfg cn key pool m w = (r, w')"
  shows "case r of
      Inr (Some _) \<Rightarrow> (\<exists>v. frame (hook_scope cfg cn) w v \<and> w' = put (h_sessions cfg @ [key])
          (new_file v (h_sessions cfg) perm_0660 (marker_body m)) v)
    | _ \<Rightarrow> frame (hook_scope cfg cn) w w'"
proof (cases "SessionsForCN w (h_status cfg) cn")
  case None
  with assms show ?thesis by (auto simp: unlimitedLocked_def)
next
  case (Some rows)
  obtain a w1 where b: "bankDisplacedGeneration cfg cn key pool (liveRows rows) w = (a, w1)" by fastforce
  note f1 = bank_frame [OF b, of cn]
  show ?thesis
  proof (cases a)
    case (Inl e)
    with assms Some b f1 show ?thesis by (auto simp: unlimitedLocked_def)
  next
    case (Inr x)
    obtain q w2 where wr: "WriteMarker (h_sessions cfg @ [key]) m w1 = (q, w2)" by fastforce
    note wm = WriteMarker_world [OF wr]
    show ?thesis
    proof (cases q)
      case (Inl e)
      then have "frame (hook_scope cfg cn) w w2" using wm frame_trans [OF f1 tmp_hook_scope] by simp
      with assms Some b Inr wr Inl show ?thesis by (auto simp: unlimitedLocked_def)
    next
      case (Inr y)
      then have "r = Inr (Some ())" "w' = w2" using assms Some b \<open>a = Inr x\<close> wr by (simp_all add: unlimitedLocked_def)
      with wm Inr f1 show ?thesis by auto
    qed
  qed
qed

lemma lock_hook_scope: "hook_scope cfg cn (h_sessions cfg @ [''.lock.'' @ cn])"
  by (simp add: hook_scope_def)

lemma connect_policy_marked:
  assumes "connect_policy P cfg cn ip port pool state w = (code, w')" "Sanitize cn = cn"
  shows "marked cfg cn (SessionKey cn (if pool \<noteq> [] then Sanitize pool else [])
      (Sanitize (orUnknown ip)) (Sanitize (orUnknown port))) code w w'"
proof -
  let ?key = "SessionKey cn (if pool \<noteq> [] then Sanitize pool else []) (Sanitize (orUnknown ip)) (Sanitize (orUnknown port))"
  let ?lock = "h_sessions cfg @ [''.lock.'' @ cn]"
  let ?lim = "if us_limit_set state then us_limit state else DefaultLimit"
  let ?m = "new_marker cn ip port pool ?key (hookTimeUnix w) w"
  have lk: "frame (hook_scope cfg cn) u v" if "frame (\<lambda>q. q = ?lock) u v" for u v
    using that by (rule frame_mono) (use lock_hook_scope in blast)
  note e = connect_policy_def [of P cfg cn ip port pool state w, unfolded assms(2) Let_def]
  consider (dis) "us_disabled state" | (unl) "\<not> us_disabled state" "?lim = 0"
    | (lim) "\<not> us_disabled state" "?lim \<noteq> 0" by blast
  then show ?thesis
  proof cases
    case dis
    then show ?thesis using assms(1) unfolding e if_P [OF dis] prod.inject
      by (elim conjE, hypsubst) (rule marked_refused, simp)
  next
    case unl
    obtain r w1 where l: "Lock ?lock perm_0660 (unlimitedLocked cfg cn ?key pool ?m) w = (r, w1)" by fastforce
    have c: "(code, w') = (case r of
        Inl e \<Rightarrow> (1, Event (h_log cfg) (msg_failed cn '' could not write the session marker: '' e) w1)
      | Inr None \<Rightarrow> (2, w1)
      | Inr (Some _) \<Rightarrow> (0, Event (h_log cfg) (msg_unlimited cn) w1))"
      using assms(1) unl unfolding e l by (cases r) (auto split: option.splits)
    show ?thesis
    proof (cases rule: Lock_cases [OF l])
      case (1 er)
      with c have "code = 1" "\<exists>m. w' = Event (h_log cfg) m w1" by auto
      with lk [OF 1(2)] show ?thesis by (auto simp: marked_def intro: frame_Event)
    next
      case (2 v)
      note u = unlimitedLocked_marked [OF 2(1)] and fv = lk [OF 2(2)]
      consider "r = Inr (Some ())" | "\<exists>e. r = Inl e" | "r = Inr None"
      proof (cases r)
        case (Inr x)
        with that show thesis by (cases x) simp_all
      qed (use that in blast)
      then show ?thesis
      proof cases
        case 1
        with u obtain x where x: "frame (hook_scope cfg cn) v x"
          "w1 = put (h_sessions cfg @ [?key]) (new_file x (h_sessions cfg) perm_0660 (marker_body ?m)) x" by auto
        have cc: "code = 0" "w' = Event (h_log cfg) (msg_unlimited cn) w1" using c 1 by simp_all
        have fx: "frame (hook_scope cfg cn) w x" using fv x(1) by (rule frame_trans)
        have cn: "m_cn ?m = cn" and sid: "\<exists>gen. m_sid ?m = ?key @ ''.'' @ gen" by (simp_all add: new_marker_def no_marker_def)
        show ?thesis unfolding marked_def cc x(2) if_P [OF refl]
          by (intro exI [of _ x] exI [of _ ?m] exI [of _ "msg_unlimited cn"] conjI fx cn sid refl)
      next
        case 2
        then have "frame (hook_scope cfg cn) v w1" using u by auto
        with fv have "frame (hook_scope cfg cn) w w1" by (rule frame_trans)
        with c 2 show ?thesis by (auto simp: marked_def intro: frame_Event)
      next
        case 3
        then have "frame (hook_scope cfg cn) v w1" using u by auto
        with fv have "frame (hook_scope cfg cn) w w1" by (rule frame_trans)
        with c 3 show ?thesis by (simp add: marked_def)
      qed
    qed
  next
    case lim
    let ?fn = "\<lambda>w'. case connectLocked P cfg cn cn ip port pool ?key ?lim (hookTimeUnix w) w' of (code, w) \<Rightarrow> (Inr code, w)"
    obtain r w1 where l: "Lock ?lock perm_0660 ?fn w = (r, w1)" by fastforce
    have c: "(code, w') = (case r of
        Inl e \<Rightarrow> (1, Event (h_log cfg) (msg_failed cn '' could not take the session lock: '' e) w1)
      | Inr code \<Rightarrow> (code, w1))"
      using assms(1) lim unfolding e l by (cases r) auto
    show ?thesis
    proof (cases rule: Lock_cases [OF l])
      case (1 er)
      with c have "code = 1" "\<exists>m. w' = Event (h_log cfg) m w1" by auto
      with lk [OF 1(2)] show ?thesis by (auto simp: marked_def intro: frame_Event)
    next
      case (2 v)
      obtain cd v' where cl: "connectLocked P cfg cn cn ip port pool ?key ?lim (hookTimeUnix w) v = (cd, v')" by fastforce
      with 2(1) c have "code = cd" "w' = v'" by auto
      with connectLocked_marked [OF cl lk [OF 2(2)]] show ?thesis by simp
    qed
  qed
qed

subsection \<open>Layout\<close>

text \<open>The users, usage and log paths of a hook do not lead into its session directory, which is not under the users directory either.\<close>

definition separate :: "Hook \<Rightarrow> bool" where
  "separate cfg \<longleftrightarrow> \<not> prefix (h_users cfg) (h_sessions cfg)
     \<and> \<not> prefix (h_sessions cfg) (h_users cfg) \<and> \<not> prefix (h_sessions cfg) (h_usage cfg)
     \<and> \<not> prefix (h_sessions cfg) (h_log cfg)"

definition hook_key :: "world \<Rightarrow> string \<Rightarrow> string" where
  "hook_key w cn = (let pool = Getenv w ''ifconfig_pool_remote_ip'' in
     SessionKey cn (if pool \<noteq> [] then Sanitize pool else [])
       (Sanitize (orUnknown (Getenv w ''trusted_ip''))) (Sanitize (orUnknown (Getenv w ''trusted_port''))))"

definition marker_path :: "Hook \<Rightarrow> world \<Rightarrow> string \<Rightarrow> path" where
  "marker_path cfg w cn = h_sessions cfg @ [hook_key w cn]"

lemma hook_key_cn: "\<exists>rest. hook_key w cn = cn @ CHR ''.'' # rest"
  by (simp add: hook_key_def SessionKey_def Let_def)

lemma visible_key:
  assumes "StoreKeyRe cn"
  shows "\<not> tmp_path (d @ [hook_key w cn])" "hook_key w cn \<noteq> ''.lock.'' @ x" "\<not> HasPrefix (hook_key w cn) ''.''"
proof -
  obtain rest where k: "hook_key w cn = cn @ CHR ''.'' # rest" using hook_key_cn by blast
  obtain c cs where cn: "cn = c # cs" using StoreKeyRe_nonempty [OF assms] by (cases cn) auto
  have c: "c \<noteq> CHR ''.''" using StoreKeyRe_hd [OF assms] cn by simp
  show "\<not> tmp_path (d @ [hook_key w cn])" "hook_key w cn \<noteq> ''.lock.'' @ x" "\<not> HasPrefix (hook_key w cn) ''.''"
    using c unfolding k unfolding cn by (simp_all add: tmp_path_def HasPrefix_def)
qed

lemma child_not_prefix: "\<not> prefix d e \<Longrightarrow> \<not> prefix (d @ [n]) e"
  by (auto simp: prefix_def)

lemma marker_path_free:
  assumes "StoreKeyRe cn" "separate cfg" shows "\<not> hook_scope cfg cn (marker_path cfg w cn)"
proof -
  let ?p = "h_sessions cfg @ [hook_key w cn]"
  note v = visible_key [OF assms(1)]
  have sub: "\<not> prefix ?p (h_usage cfg)" "\<not> prefix ?p (h_log cfg)" "\<not> prefix ?p (h_users cfg)"
    using assms(2) by (auto simp: separate_def child_not_prefix)
  moreover have "\<not> prefix ?p (h_sessions cfg)" by (auto dest: prefix_length_le)
  moreover have "?p \<noteq> h_usage cfg @ [n]" for n using assms(2) by (auto simp: separate_def)
  moreover have "\<not> prefix ?p (h_users cfg @ [cn, ''last_kill.json''])"
  proof
    assume "prefix ?p (h_users cfg @ [cn, ''last_kill.json''])"
    then have "prefix ?p ((h_users cfg @ [cn]) @ [''last_kill.json''])" by simp
    then have "h_sessions cfg = h_users cfg @ [cn] \<or> prefix ?p (h_users cfg @ [cn])"
      by (metis prefix_snoc append1_eq_conv)
    then have "h_sessions cfg = h_users cfg @ [cn] \<or> h_sessions cfg = h_users cfg \<or> prefix ?p (h_users cfg)"
      by (metis prefix_snoc append1_eq_conv)
    then show False using assms(2) sub by (auto simp: separate_def)
  qed
  ultimately show ?thesis
    using v unfolding marker_path_def hook_scope_def dir_scope_def by auto
qed

subsection \<open>Connect\<close>

definition user_limit :: "UserState \<Rightarrow> int" where
  "user_limit st = (if us_limit_set st then us_limit st else DefaultLimit)"

lemma HookCNValid_sanitized: "HookCNValid s \<Longrightarrow> Sanitize s = s"
  by (simp add: HookCNValid_iff Sanitize_id_iff StoreKeyRe_name_ok)

text \<open>A connect either refuses before the policy is read, or is decided by it.\<close>

lemma Connect_cases:
  assumes "Connect P cfg arg w = (code, w')"
  obtains (refused) v m where "code = 1" "w' = Event (h_log cfg) m v" "frame (hook_scope cfg (hook_cn w arg)) w v"
  | (policy) st v where "Sanitize (hook_cn w arg) = hook_cn w arg" "HookCNValid (hook_cn w arg)"
      "MkdirAllNoFollow (h_sessions cfg) perm_0770 w = (Inr (), v)"
      "ReadUserState v (h_users cfg) (hook_cn w arg) = Inr st"
      "connect_policy P cfg (hook_cn w arg) (Getenv w ''trusted_ip'') (Getenv w ''trusted_port'')
         (Getenv w ''ifconfig_pool_remote_ip'') st v = (code, w')"
proof -
  let ?cn = "hook_cn w arg"
  note e = assms [unfolded Connect_def Let_def]
  show ?thesis
  proof (cases "Sanitize ?cn = ?cn \<and> HookCNValid ?cn \<and> (case os_Stat w (h_users cfg) of Inr info \<Rightarrow> is_dir info | Inl _ \<Rightarrow> False)")
    case False
    then have "code = 1 \<and> (\<exists>m. w' = Event (h_log cfg) m w)" using e by (auto split: if_splits)
    then show ?thesis using refused [of _ w] by auto
  next
    case True
    obtain a v where m: "MkdirAllNoFollow (h_sessions cfg) perm_0770 w = (a, v)" by fastforce
    have f: "frame (hook_scope cfg ?cn) w v"
      using MkdirAllNoFollow_frame [OF m] by (auto simp: hook_scope_def elim: frame_mono)
    show ?thesis
    proof (cases a)
      case (Inl er)
      then have "code = 1 \<and> (\<exists>m. w' = Event (h_log cfg) m v)" using e True m by auto
      then show ?thesis using f refused by auto
    next
      case (Inr u)
      show ?thesis
      proof (cases "ReadUserState v (h_users cfg) ?cn")
        case (Inl er)
        then have "code = 1 \<and> (\<exists>m. w' = Event (h_log cfg) m v)" using e True m Inr by auto
        then show ?thesis using f refused by auto
      next
        case (Inr st)
        show ?thesis by (rule policy [of v st]) (use e True m \<open>a = Inr u\<close> Inr in auto)
      qed
    qed
  qed
qed

lemma connectLocked_admits:
  assumes "connectLocked P cfg cn safe ip port pool key lim start w = (0, w')"
  obtains rows where "SessionsForCN w (h_status cfg) safe = Some rows"
    "int (length (liveRows rows)) < lim
     \<or> lim = 1 \<and> fst (takeover P cfg cn safe ip port pool (liveRows rows) (length (liveRows rows)) w)"
proof (cases "SessionsForCN w (h_status cfg) safe")
  case None
  with assms show ?thesis by (simp add: connectLocked_def)
next
  case (Some rows)
  let ?ss = "liveRows rows"
  obtain b w1 where t: "takeover P cfg cn safe ip port pool ?ss (length ?ss) w = (b, w1)" by fastforce
  have "int (length ?ss) < lim \<or> lim = 1 \<and> b"
    using assms unfolding connectLocked_def Some option.case Let_def t prod.case
    by (cases b) (auto split: if_splits)
  then show ?thesis using that [OF Some] t by auto
qed

lemma connect_policy_admits:
  assumes "connect_policy P cfg cn ip port pool st w = (0, w')" "Sanitize cn = cn"
  obtains v rows where "\<not> us_disabled st" "frame (\<lambda>q. q = h_sessions cfg @ [''.lock.'' @ cn]) w v"
    "SessionsForCN v (h_status cfg) cn = Some rows"
    "user_limit st = 0 \<or> int (length (liveRows rows)) < user_limit st
     \<or> user_limit st = 1 \<and> fst (takeover P cfg cn cn ip port pool (liveRows rows) (length (liveRows rows)) v)"
proof -
  let ?lock = "h_sessions cfg @ [''.lock.'' @ cn]"
  let ?key = "SessionKey cn (if pool \<noteq> [] then Sanitize pool else []) (Sanitize (orUnknown ip)) (Sanitize (orUnknown port))"
  note e = assms(1) [unfolded connect_policy_def Let_def assms(2), folded user_limit_def]
  have d: "\<not> us_disabled st" using e by (auto split: if_splits)
  show ?thesis
  proof (cases "user_limit st = 0")
    case True
    let ?fn = "unlimitedLocked cfg cn ?key pool (new_marker cn ip port pool ?key (hookTimeUnix w) w)"
    obtain r w1 where l: "Lock ?lock perm_0660 ?fn w = (r, w1)" by fastforce
    from e d True l obtain u where r: "r = Inr (Some u)" by (cases r) (auto split: option.splits)
    show ?thesis
    proof (cases rule: Lock_cases [OF l])
      case (1 er)
      with r show ?thesis by simp
    next
      case (2 v)
      then obtain rows where "SessionsForCN v (h_status cfg) cn = Some rows"
        using r by (auto simp: unlimitedLocked_def split: option.splits)
      then show ?thesis using that [OF d 2(2)] True by blast
    qed
  next
    case False
    let ?fn = "\<lambda>w'. case connectLocked P cfg cn cn ip port pool ?key (user_limit st) (hookTimeUnix w) w' of (code, w) \<Rightarrow> (Inr code, w)"
    obtain r w1 where l: "Lock ?lock perm_0660 ?fn w = (r, w1)" by fastforce
    from e d False l have r: "r = Inr 0" by (cases r) auto
    show ?thesis
    proof (cases rule: Lock_cases [OF l])
      case (1 er)
      with r show ?thesis by simp
    next
      case (2 v)
      obtain c x where c: "connectLocked P cfg cn cn ip port pool ?key (user_limit st) (hookTimeUnix w) v = (c, x)" by fastforce
      with 2(1) r have "c = 0" by simp
      with c obtain rows where "SessionsForCN v (h_status cfg) cn = Some rows"
        "int (length (liveRows rows)) < user_limit st \<or> user_limit st = 1 \<and>
          fst (takeover P cfg cn cn ip port pool (liveRows rows) (length (liveRows rows)) v)"
        by (auto elim: connectLocked_admits)
      then show ?thesis using that [OF d 2(2)] by blast
    qed
  qed
qed


definition sample_hook :: Hook where
  "sample_hook = \<lparr>h_users = [''u''], h_sessions = [''s''], h_usage = [''g''], h_status = [''st''], h_logdir = [''l''],
     h_log = [''l'', ''log''], h_mgmt_host = ''127.0.0.1'', h_mgmt_port = 7505, h_mgmt_pass = [''p''], h_root = [],
     h_ttl = 60\<rparr>"

definition sample_node :: "string \<Rightarrow> string \<Rightarrow> (string \<times> string) list \<Rightarrow> world" where
  "sample_node state status env = sample_world [root_dir [''u''], root_dir [''u'', ''bob''],
     root_file [''u'', ''bob'', ''state''] state, root_dir [''s''], root_dir [''g''], root_dir [''l''],
     root_file [''st''] status]\<lparr>w_env := map_of env\<rparr>"

definition sample_env :: "(string \<times> string) list" where
  "sample_env = [(''common_name'', ''bob''), (''ifconfig_pool_remote_ip'', ''10.8.0.2''), (''time_unix'', ''90'')]"

definition sample_limit2 :: world where
  "sample_limit2 = sample_node (''limit=2'' @ [NL] @ ''disabled=0'' @ [NL]) sample_status sample_env"

lemma sample_connect: "fst (Connect silent_peer sample_hook [] sample_limit2) = 0"
  by code_simp


text \<open>
  C2. A marker is written exactly for the admitted. When the connect hook of a valid name exits with
  0, the session marker of the connection is a regular file that names the user and has a session
  identifier of the form \<open><key>.<generation>\<close>; with any other exit code, a panic included, the marker
  path is what it was.
\<close>

theorem marker_iff_admitted:
  assumes "Connect P cfg arg w = (code, w')" "HookCNValid (hook_cn w arg)" "separate cfg"
  defines "p \<equiv> marker_path cfg w (hook_cn w arg)"
  shows "if code = 0
    then \<exists>m nd. look w' p = Some nd \<and> n_kind nd = Reg (marker_body m) \<and> m_cn m = hook_cn w arg \<and>
           (\<exists>gen. m_sid m = hook_key w (hook_cn w arg) @ ''.'' @ gen)
    else look w' p = look w p"
proof -
  let ?cn = "hook_cn w arg"
  have free: "\<not> hook_scope cfg ?cn p"
    unfolding p_def using assms(2,3) by (intro marker_path_free) (simp add: HookCNValid_iff)
  have ev: "look (Event (h_log cfg) m v) p = look v p" for m v
    using Event_hook_scope free by (rule frame_look)
  from assms(1) show ?thesis
  proof (cases rule: Connect_cases)
    case (refused v m)
    with free show ?thesis by (simp add: ev frame_look)
  next
    case (policy st v)
    have f: "look v p = look w p"
      using MkdirAllNoFollow_frame [OF policy(3)] free by (auto simp: frame_def hook_scope_def)
    have "marked cfg ?cn (hook_key w ?cn) code v w'"
      using connect_policy_marked [OF policy(5,1)] by (simp add: hook_key_def Let_def)
    note mk = this [unfolded marked_def, folded marker_path_def p_def]
    show ?thesis
    proof (cases "code = 0")
      case True
      with mk obtain x m msg gen where "m_cn m = ?cn" "m_sid m = hook_key w ?cn @ ''.'' @ gen"
        "w' = Event (h_log cfg) msg (put p (new_file x (h_sessions cfg) perm_0660 (marker_body m)) x)" by auto
      then show ?thesis unfolding True if_P [OF refl]
        by (intro exI [of _ m] exI [of _ "new_file x (h_sessions cfg) perm_0660 (marker_body m)"])
           (auto simp: ev new_file_def)
    next
      case False
      with mk free f show ?thesis by (simp add: frame_look)
    qed
  qed
qed

theorem marker_iff_admitted_witness:
  "\<exists>m nd. look (snd (Connect silent_peer sample_hook [] sample_limit2)) [''s'', ''bob.10.8.0.2''] = Some nd
     \<and> n_kind nd = Reg (marker_body m) \<and> m_cn m = ''bob''"
proof -
  let ?w = sample_limit2
  have r: "Connect silent_peer sample_hook [] ?w = (0, snd (Connect silent_peer sample_hook [] ?w))"
    using sample_connect by (simp add: prod_eq_iff)
  have v: "HookCNValid (hook_cn ?w [])" "separate sample_hook" by code_simp+
  have k: "hook_cn ?w [] = ''bob''" "marker_path sample_hook ?w ''bob'' = [''s'', ''bob.10.8.0.2'']"
    by code_simp+
  from marker_iff_admitted [OF r v] show ?thesis unfolding k if_P [OF refl] by blast
qed

subsection \<open>Disconnect\<close>

lemma Syslog_look [simp]: "look (Syslog m w) q = look w q"
  by (simp add: Syslog_def)

lemma Syslog_frame: "frame P u (Syslog m w) \<longleftrightarrow> frame P u w"
  by (simp add: frame_def same_env_def Syslog_def)

text \<open>What a disconnect may touch before it looks at the marker.\<close>

definition lock_area :: "Hook \<Rightarrow> string \<Rightarrow> path \<Rightarrow> bool" where
  "lock_area cfg cn q \<longleftrightarrow> prefix q (h_sessions cfg) \<or> q = h_sessions cfg @ [''.lock.'' @ cn]"

definition session_id :: "Marker \<Rightarrow> string \<Rightarrow> string" where
  "session_id m key = (if m_sid m \<noteq> [] then m_sid m else key)"

lemma Disconnect_cases:
  assumes "Disconnect cfg arg w = (code, w')" "HookCNValid (hook_cn w arg)"
  defines "cn \<equiv> hook_cn w arg"
  obtains (early) "frame (lock_area cfg cn) w w'" "code = 0"
  | (locked) v where "code = 0" "frame (lock_area cfg cn) w v"
      "disconnectLocked cfg cn (hook_key w cn) (let pool = Getenv w ''ifconfig_pool_remote_ip'' in if pool \<noteq> [] then Sanitize pool else [])
         (Sanitize (orUnknown (Getenv w ''trusted_ip''))) (Sanitize (orUnknown (Getenv w ''trusted_port'')))
         (Getenv w ''trusted_ip'') (Getenv w ''trusted_port'') (counter w ''bytes_received'') (counter w ''bytes_sent'') v
       = (Inr (), w')"
proof -
  have cn: "cn \<noteq> []" "Sanitize cn = cn" "HookCNValid cn"
    using assms(2) HookCNValid_sanitized StoreKeyRe_nonempty by (auto simp: cn_def HookCNValid_iff)
  let ?pk = "let pool = Getenv w ''ifconfig_pool_remote_ip'' in if pool \<noteq> [] then Sanitize pool else []"
  let ?fn = "\<lambda>u. disconnectLocked cfg cn (hook_key w cn) ?pk
      (Sanitize (orUnknown (Getenv w ''trusted_ip''))) (Sanitize (orUnknown (Getenv w ''trusted_port'')))
      (Getenv w ''trusted_ip'') (Getenv w ''trusted_port'') (counter u ''bytes_received'') (counter u ''bytes_sent'')"
  obtain a u where m: "MkdirAllNoFollow (h_sessions cfg) perm_0770 w = (a, u)" by fastforce
  have fu: "frame (lock_area cfg cn) w u"
    using MkdirAllNoFollow_frame [OF m] by (auto simp: lock_area_def elim: frame_mono)
  have cnt: "counter u n = counter w n" for n
    using fu by (simp add: counter_def Getenv_def frame_def same_env_def)
  obtain r x where l: "Lock (h_sessions cfg @ [''.lock.'' @ cn]) perm_0660 (?fn u) u = (r, x)" by fastforce
  have e: "(code, w') = (case a of Inl er \<Rightarrow> (0, Syslog (''CN='' @ cn @ '' could not prepare session directory: '' @ err_text er) u)
     | Inr _ \<Rightarrow> (case r of Inl er \<Rightarrow> (0, Syslog (''CN='' @ cn @ '' could not take the session lock: '' @ err_text er) x) | Inr _ \<Rightarrow> (0, x)))"
    using assms(1) cn m l unfolding Disconnect_def cn_def [symmetric] hook_key_def Let_def
    by (cases a; cases r) simp_all
  have up: "frame (lock_area cfg cn) w v" if "frame (\<lambda>q. q = h_sessions cfg @ [''.lock.'' @ cn]) u v" for v
  proof -
    have "frame (lock_area cfg cn) u v" using that by (rule frame_mono) (simp add: lock_area_def)
    with fu show ?thesis by (rule frame_trans)
  qed
  show ?thesis
  proof (cases a)
    case (Inl er)
    with e fu show ?thesis by (intro early) (simp_all add: Syslog_frame)
  next
    case (Inr z)
    show ?thesis
    proof (cases rule: Lock_cases [OF l])
      case (1 er)
      with e Inr up [OF 1(2)] show ?thesis by (intro early) (simp_all add: Syslog_frame)
    next
      case (2 v)
      have "r = Inr ()"
        using 2(1) unfolding disconnectLocked_def Let_def
        by (auto split: if_splits option.splits prod.splits sum.splits)
      with e Inr have c: "code = 0" "w' = x" by simp_all
      show ?thesis by (rule locked [OF c(1) up [OF 2(2)]]) (use 2(1) c \<open>r = Inr ()\<close> cnt in simp)
    qed
  qed
qed

text \<open>The marker file of this connection: present, not a symbolic link, and examined without a fault.\<close>

definition marker_there :: "Hook \<Rightarrow> world \<Rightarrow> string \<Rightarrow> bool" where
  "marker_there cfg w cn \<longleftrightarrow> (let p = marker_path cfg w cn in
     (case look w p of Some nd \<Rightarrow> is_regular nd | None \<Rightarrow> False) \<and> \<not> fault w OpStat p)"

lemma marker_there_frame:
  assumes "frame P w v" "\<not> P (marker_path cfg w cn)" "marker_there cfg w cn"
  shows "os_Stat v (marker_path cfg w cn) = Inr (the (look w (marker_path cfg w cn)))"
    "\<not> is_dir (the (look w (marker_path cfg w cn)))"
    "ReadMarker v (marker_path cfg w cn) = ReadMarker w (marker_path cfg w cn)"
proof -
  let ?p = "marker_path cfg w cn"
  obtain nd where nd: "look w ?p = Some nd" "is_regular nd" "\<not> fault w OpStat ?p"
    using assms(3) by (auto simp: marker_there_def Let_def split: option.splits)
  have v: "look v ?p = Some nd" using nd assms(1,2) by (simp add: frame_look)
  have k: "n_kind nd \<noteq> Link t" "n_kind nd \<noteq> Dir" for t using nd(2) by (auto simp: is_regular_def)
  show "os_Stat v ?p = Inr (the (look w ?p))"
    using v nd k frame_fault [OF assms(1)] by (simp add: os_Stat_def follow_max split: kind.splits)
  show "\<not> is_dir (the (look w ?p))" using nd k by (simp add: is_dir_def)
  have "plain w ?p" "plain v ?p" using nd v by (simp_all add: plain_def)
  then show "ReadMarker v ?p = ReadMarker w ?p"
    using v nd frame_fault [OF assms(1)] by (simp add: ReadMarker_def plain_ReadFile)
qed

lemma marker_path_lock_area:
  "StoreKeyRe cn \<Longrightarrow> \<not> lock_area cfg cn (marker_path cfg w cn)"
  using visible_key(2) [of cn w cn] by (auto simp: lock_area_def marker_path_def dest: prefix_length_le)

lemma env_frame: "frame P w v \<Longrightarrow> hookTimeUnixEnv v = hookTimeUnixEnv w"
  by (simp add: hookTimeUnixEnv_def Getenv_def frame_def same_env_def)

lemma disconnectLocked_marker:
  assumes "disconnectLocked cfg cn key pk ik qk ip port rx tx v = (Inr (), w')"
    and "os_Stat v (h_sessions cfg @ [key]) = Inr nd" "\<not> is_dir nd"
  obtains (unread) "ReadMarker v (h_sessions cfg @ [key]) = None" "w' = v"
  | (delayed) m msg where "ReadMarker v (h_sessions cfg @ [key]) = Some m"
      "\<not> disconnectMatches m key ip port (hookTimeUnixEnv v)" "w' = Syslog msg v"
  | (unbooked) m e x msg where "ReadMarker v (h_sessions cfg @ [key]) = Some m"
      "disconnectMatches m key ip port (hookTimeUnixEnv v)"
      "RecordSessionUsage (h_usage cfg) cn (session_id m key) (rx + tx) True v = (Inl e, x)" "w' = Syslog msg x"
  | (booked) m st x y where "ReadMarker v (h_sessions cfg @ [key]) = Some m"
      "disconnectMatches m key ip port (hookTimeUnixEnv v)"
      "RecordSessionUsage (h_usage cfg) cn (session_id m key) (rx + tx) True v = (Inr st, x)"
      "y = snd (os_Remove (h_sessions cfg @ [key]) x)" "\<And>q. look w' q = look y q"
proof (cases "ReadMarker v (h_sessions cfg @ [key])")
  case None
  with assms show ?thesis by (intro unread) (simp_all add: disconnectLocked_def)
next
  case (Some m)
  note e = assms(1) [unfolded disconnectLocked_def Let_def Some option.case assms(2) sum.case]
  show ?thesis
  proof (cases "disconnectMatches m key ip port (hookTimeUnixEnv v)")
    case False
    then show ?thesis using e assms(3) by (intro delayed [OF Some False]) auto
  next
    case True
    obtain r x where rec: "RecordSessionUsage (h_usage cfg) cn (session_id m key) (rx + tx) True v = (r, x)" by fastforce
    show ?thesis
    proof (cases r)
      case (Inl er)
      then show ?thesis using e assms(3) True rec unfolding session_id_def
        by (intro unbooked [OF Some True, of er x]) (auto simp: session_id_def)
    next
      case (Inr st)
      define x' where "x' = (if 0 < rx + tx
          then Syslog (''CN='' @ cn @ '' session ended rx='' @ itoa_nat (unat rx) @ '' tx='' @ itoa_nat (unat tx)) x else x)"
      obtain a y where rm: "os_Remove (h_sessions cfg @ [key]) x' = (a, y)" by fastforce
      have w': "\<exists>msg. w' = Syslog msg y"
        using e assms(3) True rec Inr rm unfolding session_id_def x'_def
        by (cases a) (auto split: if_splits)
      have x'_look: "look x' q = look x q" for q by (simp add: x'_def)
      have "look y q = look (snd (os_Remove (h_sessions cfg @ [key]) x)) q" for q
        using rm by (auto simp: os_Remove_def x'_def Syslog_def del_def split: if_splits option.splits)
      then show ?thesis
        using w' by (intro booked [OF Some True rec [unfolded Inr] refl]) auto
    qed
  qed
qed

text \<open>
  C3. Traffic is booked before the marker goes. If a disconnect changes the marker of its connection,
  then the marker was read and belongs to this connection, the received plus sent bytes were recorded
  as the closing count of its session, and the only later change to the file system is the removal
  of the marker.
\<close>

theorem disconnect_books_before_removal:
  assumes "Disconnect cfg arg w = (code, w')" "HookCNValid (hook_cn w arg)" "separate cfg"
    "marker_there cfg w (hook_cn w arg)"
  defines "cn \<equiv> hook_cn w arg" and "p \<equiv> marker_path cfg w (hook_cn w arg)"
  assumes changed: "look w' p \<noteq> look w p"
  shows "\<exists>m v st v'. ReadMarker w p = Some m
    \<and> disconnectMatches m (hook_key w cn) (Getenv w ''trusted_ip'') (Getenv w ''trusted_port'') (hookTimeUnixEnv w)
    \<and> frame (lock_area cfg cn) w v
    \<and> RecordSessionUsage (h_usage cfg) cn (session_id m (hook_key w cn))
        (counter w ''bytes_received'' + counter w ''bytes_sent'') True v = (Inr st, v')
    \<and> look w' p = None \<and> (\<forall>q. q \<noteq> p \<longrightarrow> look w' q = look v' q)"
proof -
  have key: "StoreKeyRe cn" using assms(2) by (simp add: cn_def HookCNValid_iff)
  note free = marker_path_lock_area [OF key, of cfg w, folded p_def cn_def]
  from assms(1,2) show ?thesis
  proof (cases rule: Disconnect_cases)
    case early
    with changed free show ?thesis by (simp add: frame_look cn_def p_def)
  next
    case (locked v)
    note f = locked(2) [folded cn_def] and there = assms(4) [folded cn_def]
    have same: "look v p = look w p" using f free by (simp add: frame_look cn_def p_def)
    note mt = marker_there_frame [OF f _ there, folded p_def cn_def]
    have p: "p = h_sessions cfg @ [hook_key w cn]" by (simp add: p_def cn_def marker_path_def)
    have st: "os_Stat v (h_sessions cfg @ [hook_key w cn]) = Inr (the (look w p))" "\<not> is_dir (the (look w p))"
      and rd: "ReadMarker v p = ReadMarker w p"
      using mt free p by (simp_all add: cn_def p_def)
    note u = RecordSessionUsage_frame
    have usage: "\<not> dir_scope (h_usage cfg) p"
      using marker_path_free [OF key assms(3), of w] by (simp add: hook_scope_def cn_def p_def)
    from locked(3) [folded cn_def] st show ?thesis
    proof (cases rule: disconnectLocked_marker)
      case (unbooked m e x msg)
      with u [OF unbooked(3)] usage same changed show ?thesis by (simp add: frame_look)
    next
      case (booked m s x y)
      have "look x p = look w p" using u [OF booked(3)] usage same by (simp add: frame_look)
      moreover have "look w' q = look (snd (os_Remove p x)) q" for q using booked(4,5) p by simp
      ultimately have "look w' p = None \<and> (\<forall>q. q \<noteq> p \<longrightarrow> look w' q = look x q)"
        using changed by (auto simp: os_Remove_def split: if_splits option.splits)
      moreover have "ReadMarker w p = Some m" using booked(1) rd p by simp
      moreover have "disconnectMatches m (hook_key w cn) (Getenv w ''trusted_ip'') (Getenv w ''trusted_port'') (hookTimeUnixEnv w)"
        using booked(2) env_frame [OF f] by simp
      ultimately show ?thesis using booked(3) f by blast
    qed (use same changed in simp_all)
  qed
qed

definition sample_limit2_env :: "(string \<times> string) list" where
  "sample_limit2_env = (''bytes_received'', ''5'') # (''bytes_sent'', ''6'') # sample_env"

definition sample_connected :: "(string \<times> string) list \<Rightarrow> world" where
  "sample_connected env = sample_world [root_dir [''s''], root_dir [''g''],
     root_file [''s'', ''bob.10.8.0.2''] (marker_body \<lparr>m_cn = ''bob'', m_ip = [], m_port = [], m_pool = ''10.8.0.2'',
       m_created = 95, m_sid = ''bob.10.8.0.2.3031323334353637'', m_connected = 90, m_gen = [], m_started = 0,
       m_since = 0\<rparr>)]\<lparr>w_env := map_of env\<rparr>"

theorem disconnect_books_before_removal_witness:
  "\<exists>v st v'. RecordSessionUsage [''g''] ''bob'' ''bob.10.8.0.2.3031323334353637'' 11 True v = (Inr st, v')
     \<and> look (snd (Disconnect sample_hook [] (sample_connected sample_limit2_env))) [''s'', ''bob.10.8.0.2''] = None"
proof -
  let ?w = "sample_connected sample_limit2_env"
  let ?r = "Disconnect sample_hook [] ?w"
  have r: "?r = (fst ?r, snd ?r)" by simp
  have v: "HookCNValid (hook_cn ?w [])" "separate sample_hook" "marker_there sample_hook ?w (hook_cn ?w [])" by code_simp+
  have k: "hook_cn ?w [] = ''bob''" "marker_path sample_hook ?w ''bob'' = [''s'', ''bob.10.8.0.2'']"
    "hook_key ?w ''bob'' = ''bob.10.8.0.2''" "h_usage sample_hook = [''g'']"
    "counter ?w ''bytes_received'' + counter ?w ''bytes_sent'' = 11"
    by code_simp+
  have "\<not> is_some (look (snd ?r) [''s'', ''bob.10.8.0.2'']) \<and> is_some (look ?w [''s'', ''bob.10.8.0.2''])" by code_simp
  then have c: "look (snd ?r) (marker_path sample_hook ?w (hook_cn ?w [])) \<noteq> look ?w (marker_path sample_hook ?w (hook_cn ?w []))"
    unfolding k by auto
  have m: "map_option (\<lambda>m. session_id m ''bob.10.8.0.2'') (ReadMarker ?w [''s'', ''bob.10.8.0.2''])
      = Some ''bob.10.8.0.2.3031323334353637''" by code_simp
  from disconnect_books_before_removal [OF r v c, unfolded k] obtain mk x st y where
    "ReadMarker ?w [''s'', ''bob.10.8.0.2''] = Some mk"
    and rec: "RecordSessionUsage [''g''] ''bob'' (session_id mk ''bob.10.8.0.2'') 11 True x = (Inr st, y)"
    and gone: "look (snd ?r) [''s'', ''bob.10.8.0.2''] = None" by blast
  with m have "session_id mk ''bob.10.8.0.2'' = ''bob.10.8.0.2.3031323334353637''" by (simp only: option.map option.inject)
  with rec gone show ?thesis by (simp only:) blast
qed

text \<open>
  C4. A delayed disconnect is ignored. When the marker on disk belongs to another generation of the
  connection, the disconnect changes no file but its lock file and missing session directories: the
  new marker and the traffic counter stay.
\<close>

theorem delayed_disconnect_ignored:
  assumes "Disconnect cfg arg w = (code, w')" "HookCNValid (hook_cn w arg)"
    "marker_there cfg w (hook_cn w arg)"
  defines "cn \<equiv> hook_cn w arg"
  assumes "ReadMarker w (marker_path cfg w cn) = Some m"
    "\<not> disconnectMatches m (hook_key w cn) (Getenv w ''trusted_ip'') (Getenv w ''trusted_port'') (hookTimeUnixEnv w)"
  shows "code = 0 \<and> frame (lock_area cfg cn) w w'"
proof -
  have key: "StoreKeyRe cn" using assms(2) by (simp add: cn_def HookCNValid_iff)
  note free = marker_path_lock_area [OF key, of cfg w]
  from assms(1,2) show ?thesis
  proof (cases rule: Disconnect_cases)
    case early
    then show ?thesis by (simp add: cn_def)
  next
    case (locked v)
    note f = locked(2) [folded cn_def]
    note mt = marker_there_frame [OF f free assms(3) [folded cn_def], unfolded marker_path_def]
    note d = assms(5,6) [unfolded marker_path_def]
    from locked(3) [folded cn_def] mt(1,2) have "frame (lock_area cfg cn) w w'"
    proof (cases rule: disconnectLocked_marker)
      case (unbooked m' e x msg)
      with mt d env_frame [OF f] show ?thesis by simp
    next
      case (booked m' s x y)
      with mt d env_frame [OF f] show ?thesis by simp
    qed (use f in \<open>simp_all add: Syslog_frame\<close>)
    with locked(1) show ?thesis by simp
  qed
qed

theorem delayed_disconnect_ignored_witness:
  "frame (lock_area sample_hook ''bob'') (sample_connected ((''time_unix'', ''91'') # sample_env))
     (snd (Disconnect sample_hook [] (sample_connected ((''time_unix'', ''91'') # sample_env))))"
proof -
  let ?w = "sample_connected ((''time_unix'', ''91'') # sample_env)"
  let ?r = "Disconnect sample_hook [] ?w"
  have r: "?r = (fst ?r, snd ?r)" by simp
  have v: "HookCNValid (hook_cn ?w [])" "marker_there sample_hook ?w (hook_cn ?w [])" by code_simp+
  let ?m = "the (ReadMarker ?w (marker_path sample_hook ?w (hook_cn ?w [])))"
  have "is_some (ReadMarker ?w (marker_path sample_hook ?w (hook_cn ?w [])))" by code_simp
  note m = is_some_the [OF this]
  have n: "\<not> disconnectMatches ?m (hook_key ?w (hook_cn ?w [])) (Getenv ?w ''trusted_ip'') (Getenv ?w ''trusted_port'')
     (hookTimeUnixEnv ?w)" by code_simp
  have k: "hook_cn ?w [] = ''bob''" by code_simp
  from delayed_disconnect_ignored [OF r v m n] show ?thesis unfolding k by blast
qed

subsection \<open>Purge\<close>

lemma ReadMarker_plain:
  assumes "frame P w v" "plain w p" "look v p = look w p" shows "ReadMarker v p = ReadMarker w p"
proof -
  have "plain v p" using assms(2,3) by (simp add: plain_def)
  then show ?thesis using assms frame_fault [OF assms(1)] by (simp add: ReadMarker_def plain_ReadFile)
qed

text \<open>The removals of a sweep that turns the world \<open>w\<close> into \<open>w'\<close>.\<close>

definition swept :: "Hook \<Rightarrow> string set \<Rightarrow> world \<Rightarrow> world \<Rightarrow> bool" where
  "swept cfg live w w' \<longleftrightarrow> frame (\<lambda>q. \<exists>n. q = h_sessions cfg @ [n]) w w' \<and>
     (\<forall>n. let p = h_sessions cfg @ [n] in plain w p \<longrightarrow> look w' p \<noteq> look w p \<longrightarrow>
        look w' p = None \<and> \<not> HasPrefix n ''.'' \<and> (\<exists>m. ReadMarker w p = Some m \<and> stale (w_now w) (h_ttl cfg) live m))"

lemma swept_refl [simp]: "swept cfg live w w"
  by (simp add: swept_def)

lemma swept_trans:
  assumes "swept cfg live u v" "swept cfg live v w" shows "swept cfg live u w"
proof -
  have f: "frame (\<lambda>q. \<exists>n. q = h_sessions cfg @ [n]) u v" "frame (\<lambda>q. \<exists>n. q = h_sessions cfg @ [n]) v w"
    using assms by (simp_all add: swept_def)
  have "look w p = None \<and> \<not> HasPrefix n ''.'' \<and> (\<exists>m. ReadMarker u p = Some m \<and> stale (w_now u) (h_ttl cfg) live m)"
    if p: "p = h_sessions cfg @ [n]" "plain u p" "look w p \<noteq> look u p" for n p
  proof (cases "look v p = look u p")
    case True
    then have v: "plain v p" "ReadMarker v p = ReadMarker u p" "look w p \<noteq> look v p"
      using p ReadMarker_plain [OF f(1)] by (simp_all add: plain_def)
    then have "look w p = None \<and> \<not> HasPrefix n ''.'' \<and> (\<exists>m. ReadMarker v p = Some m \<and> stale (w_now v) (h_ttl cfg) live m)"
      using assms(2) unfolding swept_def Let_def p(1) by blast
    then show ?thesis unfolding v(2) frame_now [OF f(1)] .
  next
    case False
    then have u: "look v p = None" "\<not> HasPrefix n ''.''" "\<exists>m. ReadMarker u p = Some m \<and> stale (w_now u) (h_ttl cfg) live m"
      using assms(1) p by (auto simp: swept_def Let_def)
    then have "plain v p" by (simp add: plain_def)
    then have "look w p = None" using u(1) assms(2) p(1) by (cases "look w p = look v p") (auto simp: swept_def Let_def)
    with u show ?thesis by blast
  qed
  with frame_trans [OF f] show ?thesis by (simp add: swept_def Let_def)
qed

lemma os_Remove_frame: "os_Remove p w = (r, w') \<Longrightarrow> frame (\<lambda>q. q = p) w w'"
  by (auto simp: os_Remove_def frame_del split: if_splits option.splits)

lemma swept_Remove:
  assumes "os_Remove (h_sessions cfg @ [n]) w = (r, w')" "ReadMarker w (h_sessions cfg @ [n]) = Some m"
    "stale (w_now w) (h_ttl cfg) live m" "\<not> HasPrefix n ''.''"
  shows "swept cfg live w w'"
  using assms os_Remove_frame [OF assms(1)]
  by (auto simp: swept_def Let_def os_Remove_def frame_def split: if_splits option.splits)

lemma purge_entries_swept:
  "purge_entries cfg live es pc aff w = (pc', aff', w') \<Longrightarrow>
   swept cfg live w w' \<and> (pc_removed pc + pc_kept pc = pc_scanned pc \<longrightarrow> pc_removed pc' + pc_kept pc' = pc_scanned pc')"
proof (induction es arbitrary: pc aff w)
  case (Cons e es)
  obtain n nd where e: "e = (n, nd)" by fastforce
  let ?p = "h_sessions cfg @ [n]"
  define pc1 where "pc1 = pc\<lparr>pc_scanned := Suc (pc_scanned pc)\<rparr>"
  define keep where "keep = pc1\<lparr>pc_kept := Suc (pc_kept pc1)\<rparr>"
  define gone where "gone = pc1\<lparr>pc_removed := Suc (pc_removed pc1)\<rparr>"
  note s = Cons.prems [unfolded e purge_entries.simps Let_def, folded pc1_def keep_def gone_def]
  have k: "pc_removed pc + pc_kept pc = pc_scanned pc \<longrightarrow> pc_removed c + pc_kept c = pc_scanned c"
    if "c \<in> {keep, gone}" for c using that by (auto simp: keep_def gone_def pc1_def)
  consider (skip) "purge_entries cfg live es pc aff w = (pc', aff', w')"
    | (keep) "purge_entries cfg live es keep aff w = (pc', aff', w')"
    | (drop) m r v c a where "ReadMarker w ?p = Some m" "stale (w_now w) (h_ttl cfg) live m" "\<not> HasPrefix n ''.''"
        "os_Remove ?p w = (r, v)" "purge_entries cfg live es c a v = (pc', aff', w')" "c \<in> {keep, gone}"
    using s by (auto split: if_splits option.splits prod.splits sum.splits)
  then show ?case
  proof cases
    case skip
    then show ?thesis by (rule Cons.IH)
  next
    case keep
    from Cons.IH [OF this] k show ?thesis by auto
  next
    case (drop m r v c a)
    from Cons.IH [OF drop(5)] k [OF drop(6)] swept_trans [OF swept_Remove [OF drop(4,1,2,3)]] show ?thesis by auto
  qed
qed auto

lemma prune_affected_frame: "frame (dir_scope d) w (prune_affected d present cns w)"
proof (induction cns arbitrary: w)
  case (Cons cn cns)
  obtain r v where p: "PruneReceipts d cn (present cn) w = (r, v)" by fastforce
  have "frame (dir_scope d) w v" using p by (rule PruneReceipts_frame)
  from frame_trans [OF this Cons.IH] p show ?case by simp
qed simp

text \<open>
  C5. The purge removes only stale markers. If \<open>PurgeStale\<close> changes a file of the session directory
  that is not a symbolic link, the status file was read completely, the file is not hidden, held a
  marker older than the limit whose pool address belongs to no live session, and is gone now. What it
  counts as scanned is what it removed and kept.
\<close>

theorem purge_removes_only_stale:
  assumes "PurgeStale cfg w = (r, w')" "\<not> prefix (h_sessions cfg) (h_usage cfg)"
  shows "(case r of Some pc \<Rightarrow> pc_removed pc + pc_kept pc = pc_scanned pc | None \<Rightarrow> w' = w) \<and>
    (\<forall>n. let p = h_sessions cfg @ [n] in
       plain w p \<longrightarrow> \<not> tmp_path p \<longrightarrow> look w' p \<noteq> look w p \<longrightarrow>
       look w' p = None \<and> \<not> HasPrefix n ''.'' \<and>
       (\<exists>snap m. ReadStatusSnapshot w (h_status cfg) = Some (Inr snap) \<and> ReadMarker w p = Some m \<and>
          stale (w_now w) (h_ttl cfg) (ss_virtual ` set (sn_sessions snap)) m))"
proof (cases "ReadStatusSnapshot w (h_status cfg)")
  case None
  with assms(1) show ?thesis by (auto simp: PurgeStale_def)
next
  case (Some a)
  show ?thesis
  proof (cases a)
    case (Inl e)
    with Some assms(1) show ?thesis by (auto simp: PurgeStale_def)
  next
    case (Inr snap)
    let ?live = "ss_virtual ` set (sn_sessions snap)"
    let ?es = "case os_ReadDir w (h_sessions cfg) of Inl _ \<Rightarrow> [] | Inr es \<Rightarrow> es"
    let ?zero = "\<lparr>pc_removed = 0, pc_kept = 0, pc_scanned = 0\<rparr>"
    obtain pc aff v where pe: "purge_entries cfg ?live ?es ?zero [] w = (pc, aff, v)"
      by (metis prod_cases3)
    from purge_entries_swept [OF pe] have sw: "swept cfg ?live w v" and c: "pc_removed pc + pc_kept pc = pc_scanned pc"
      by simp_all
    have r: "r = Some pc" and w': "w' = v \<or> (\<exists>cns pr. w' = prune_affected (h_usage cfg) pr cns v)"
      using assms(1) pe unfolding PurgeStale_def Some Inr option.case sum.case Let_def set_map
      by (auto split: if_splits sum.splits)
    have "look w' p = look v p" if "p = h_sessions cfg @ [n]" "\<not> tmp_path p" for p n
    proof -
      have "\<not> dir_scope (h_usage cfg) p" using that assms(2) by (auto simp: dir_scope_def dest: child_not_prefix)
      with w' show ?thesis using frame_look [OF prune_affected_frame] by auto
    qed
    with sw c r Some Inr show ?thesis by (auto simp: swept_def Let_def)
  qed
qed

definition sample_stale :: world where
  "sample_stale = sample_world [root_dir [''s''], root_dir [''g''], root_file [''st''] (''END'' @ [NL]),
     root_file [''s'', ''bob.10.8.0.2''] (''common_name=bob'' @ [NL] @ ''created=1'' @ [NL])]"

theorem purge_removes_only_stale_witness:
  "look (snd (PurgeStale sample_hook sample_stale)) [''s'', ''bob.10.8.0.2''] = None \<and>
   (\<exists>m. ReadMarker sample_stale [''s'', ''bob.10.8.0.2''] = Some m \<and> 60 < 100 - m_created m)"
proof -
  let ?r = "PurgeStale sample_hook sample_stale"
  let ?p = "h_sessions sample_hook @ [''bob.10.8.0.2'']"
  have r: "?r = (fst ?r, snd ?r)" and u: "\<not> prefix (h_sessions sample_hook) (h_usage sample_hook)"
    by (simp, code_simp)
  have k: "?p = [''s'', ''bob.10.8.0.2'']" "w_now sample_stale = 100" "h_ttl sample_hook = 60" by code_simp+
  have p: "plain sample_stale ?p" "\<not> tmp_path ?p" by code_simp+
  have "\<not> is_some (look (snd ?r) ?p) \<and> is_some (look sample_stale ?p)" by code_simp
  then have c: "look (snd ?r) ?p \<noteq> look sample_stale ?p" by auto
  from purge_removes_only_stale [OF r u, THEN conjunct2, rule_format, of "''bob.10.8.0.2''", unfolded Let_def] p c
  show ?thesis unfolding k stale_def by blast
qed

end
