(* ===== verification/Ratelimit.thy ===== *)
theory Ratelimit
  imports Prelude "HOL-Library.Finite_Map"
begin

text \<open>
  \<open>ratelimit/ratelimit.go\<close>: sliding-window request limits per client, for heavy requests, for all
  requests together and for failed authentications. Times are nanoseconds as unbounded integers (Go's
  \<open>time.Duration\<close> saturates after 292 years). The hash of the client name is the parameter \<open>H\<close>, for
  which nothing is assumed: colliding clients share a bucket.

  The second half refines the limiter to its histories: as long as fewer than \<open>maxBuckets\<close> keys
  occur, it answers exactly as a limiter that remembers every admitted request.
\<close>

subsection \<open>State\<close>

definition second :: int where "second = 1000000000"
definition window :: int where "window = 60 * second"
definition failedWindow :: int where "failedWindow = 300 * second"
definition maxRequests :: int where "maxRequests = 120"
definition globalMax :: int where "globalMax = 600"
definition heavyMax :: int where "heavyMax = 60"
definition failedMax :: int where "failedMax = 10"
definition maxBuckets :: int where "maxBuckets = 10000"

record bucket =
  b_ts :: "int list"
  b_last :: int

type_synonym buckets = "(string, bucket) fmap"

record Limiter =
  l_last :: "int option"
  l_buckets :: buckets
  l_global :: bucket
  l_heavy :: buckets
  l_failed :: buckets

definition no_bucket :: bucket where
  "no_bucket = \<lparr>b_ts = [], b_last = 0\<rparr>"

definition New :: Limiter where
  "New = \<lparr>l_last = None, l_buckets = fmempty, l_global = no_bucket, l_heavy = fmempty, l_failed = fmempty\<rparr>"

text \<open>\<open>hex.EncodeToString(h[:])[:32]\<close> for the digest \<open>H client\<close>.\<close>

definition keyFor :: "(string \<Rightarrow> string) \<Rightarrow> string \<Rightarrow> string" where
  "keyFor H client = take 32 (hex_encode (H client))"

subsection \<open>Operations\<close>

definition trimExpired :: "bucket \<Rightarrow> int \<Rightarrow> int \<Rightarrow> bucket" where
  "trimExpired b now w = b\<lparr>b_ts := dropWhile (\<lambda>t. w \<le> now - t) (b_ts b)\<rparr>"

text \<open>
  The eviction order: by the time of last use. Go leaves the order of equal times open (an unstable
  sort of a map in random order); the model takes the order of the keys there.
\<close>

definition oldest_keys :: "buckets \<Rightarrow> string list" where
  "oldest_keys m = sort_key (\<lambda>k. case fmlookup m k of Some b \<Rightarrow> b_last b | None \<Rightarrow> 0) (sorted_list_of_fset (fmdom m))"

definition map_size :: "buckets \<Rightarrow> int" where
  "map_size m = int (fcard (fmdom m))"

definition pruneMap :: "buckets \<Rightarrow> int \<Rightarrow> int \<Rightarrow> buckets" where
  "pruneMap m now w =
     (let m = fmmap (\<lambda>b. trimExpired b now w) m;
          m = fmfilter (\<lambda>k. case fmlookup m k of Some b \<Rightarrow> b_ts b \<noteq> [] | None \<Rightarrow> False) m
      in if maxBuckets \<le> map_size m then
           (let target = maxBuckets - maxBuckets div 10;
                evicted = set (take (nat (map_size m - target)) (oldest_keys m))
            in fmfilter (\<lambda>k. k \<notin> evicted) m)
         else m)"

definition Limiter_prune :: "Limiter \<Rightarrow> int \<Rightarrow> Limiter" where
  "Limiter_prune l now =
     (if (case l_last l of None \<Rightarrow> False | Some t \<Rightarrow> now - t < 10 * second)
         \<and> map_size (l_buckets l) < maxBuckets \<and> map_size (l_heavy l) < maxBuckets
         \<and> map_size (l_failed l) < maxBuckets
      then l
      else l\<lparr>l_last := Some now, l_buckets := pruneMap (l_buckets l) now window,
             l_heavy := pruneMap (l_heavy l) now window, l_failed := pruneMap (l_failed l) now failedWindow,
             l_global := trimExpired (l_global l) now window\<rparr>)"

definition bucket_of :: "buckets \<Rightarrow> string \<Rightarrow> bucket" where
  "bucket_of m key = (case fmlookup m key of Some b \<Rightarrow> b | None \<Rightarrow> no_bucket)"

definition retry_after :: "bucket \<Rightarrow> int \<Rightarrow> int \<Rightarrow> int" where
  "retry_after b now w = (let retry = w - (now - b_ts b ! 0) in if retry < second then second else retry)"

definition full :: "bucket \<Rightarrow> int \<Rightarrow> bool" where
  "full b cap \<longleftrightarrow> cap \<le> int (length (b_ts b))"

definition hit :: "bucket \<Rightarrow> int \<Rightarrow> bucket" where
  "hit b now = b\<lparr>b_ts := b_ts b @ [now], b_last := now\<rparr>"

definition Allow :: "(string \<Rightarrow> string) \<Rightarrow> int \<Rightarrow> string \<Rightarrow> Limiter \<Rightarrow> (bool \<times> int) \<times> Limiter" where
  "Allow H now client l =
     (let key = keyFor H client;
          l = Limiter_prune l now;
          b = trimExpired (bucket_of (l_buckets l) key) now window
      in if full b maxRequests
         then ((False, retry_after b now window), l\<lparr>l_buckets := fmupd key (b\<lparr>b_last := now\<rparr>) (l_buckets l)\<rparr>)
         else ((True, 0), Limiter_prune (l\<lparr>l_buckets := fmupd key (hit b now) (l_buckets l)\<rparr>) now))"

definition AllowHeavy :: "(string \<Rightarrow> string) \<Rightarrow> int \<Rightarrow> string \<Rightarrow> Limiter \<Rightarrow> (bool \<times> int) \<times> Limiter" where
  "AllowHeavy H now client l =
     (let key = keyFor H client;
          l = Limiter_prune l now;
          b = trimExpired (bucket_of (l_heavy l) key) now window
      in if full b heavyMax
         then ((False, retry_after b now window), l\<lparr>l_heavy := fmupd key (b\<lparr>b_last := now\<rparr>) (l_heavy l)\<rparr>)
         else ((True, 0), l\<lparr>l_heavy := fmupd key (hit b now) (l_heavy l)\<rparr>))"

definition AllowGlobal :: "int \<Rightarrow> Limiter \<Rightarrow> (bool \<times> int) \<times> Limiter" where
  "AllowGlobal now l =
     (let l = Limiter_prune l now;
          b = trimExpired (l_global l) now window
      in if full b globalMax
         then ((False, retry_after b now window), l\<lparr>l_global := b\<rparr>)
         else ((True, 0), l\<lparr>l_global := b\<lparr>b_ts := b_ts b @ [now]\<rparr>\<rparr>))"

definition FailedBlocked :: "(string \<Rightarrow> string) \<Rightarrow> int \<Rightarrow> string \<Rightarrow> Limiter \<Rightarrow> (bool \<times> int) \<times> Limiter" where
  "FailedBlocked H now client l =
     (let key = keyFor H client in
      case fmlookup (l_failed l) key of
        None \<Rightarrow> ((False, 0), l)
      | Some b \<Rightarrow>
          (let b = trimExpired b now failedWindow; l = l\<lparr>l_failed := fmupd key b (l_failed l)\<rparr>
           in if full b failedMax then ((True, retry_after b now failedWindow), l) else ((False, 0), l)))"

definition RecordFailedAuth :: "(string \<Rightarrow> string) \<Rightarrow> int \<Rightarrow> string \<Rightarrow> Limiter \<Rightarrow> Limiter" where
  "RecordFailedAuth H now client l =
     (let key = keyFor H client;
          b = trimExpired (bucket_of (l_failed l) key) now failedWindow
      in l\<lparr>l_failed := fmupd key (hit b now) (l_failed l)\<rparr>)"

definition AllowFailedAuth :: "(string \<Rightarrow> string) \<Rightarrow> int \<Rightarrow> string \<Rightarrow> Limiter \<Rightarrow> (bool \<times> int) \<times> Limiter" where
  "AllowFailedAuth H now client l =
     (let key = keyFor H client;
          l = Limiter_prune l now;
          b = trimExpired (bucket_of (l_failed l) key) now failedWindow
      in if full b failedMax
         then ((False, retry_after b now failedWindow), l\<lparr>l_failed := fmupd key (b\<lparr>b_last := now\<rparr>) (l_failed l)\<rparr>)
         else ((True, 0), l\<lparr>l_failed := fmupd key (hit b now) (l_failed l)\<rparr>))"

subsection \<open>The maps stay small\<close>

lemma map_size_finite: "map_size m = int (card (fset (fmdom m)))"
  by (simp add: map_size_def fcard.rep_eq)

lemma oldest_keys_set: "set (oldest_keys m) = fset (fmdom m)" "distinct (oldest_keys m)"
  by (simp_all add: oldest_keys_def sorted_list_of_fset.rep_eq)

lemma pruneMap_small: "map_size (pruneMap m now w) < maxBuckets"
proof -
  define m1 where "m1 = fmmap (\<lambda>b. trimExpired b now w) m"
  define m2 where "m2 = fmfilter (\<lambda>k. case fmlookup m1 k of Some b \<Rightarrow> b_ts b \<noteq> [] | None \<Rightarrow> False) m1"
  show ?thesis
  proof (cases "maxBuckets \<le> map_size m2")
    case False
    then show ?thesis unfolding pruneMap_def Let_def m1_def [symmetric] m2_def [symmetric] by simp
  next
    case True
    let ?n = "nat (map_size m2 - 9000)"
    let ?E = "set (take ?n (oldest_keys m2))"
    have p: "pruneMap m now w = fmfilter (\<lambda>k. k \<notin> ?E) m2"
      using True unfolding pruneMap_def Let_def m1_def [symmetric] m2_def [symmetric]
      by (simp add: maxBuckets_def)
    have len: "length (oldest_keys m2) = card (fset (fmdom m2))"
      using oldest_keys_set [of m2] distinct_card by metis
    have "?E \<subseteq> fset (fmdom m2)" using oldest_keys_set(1) [of m2] set_take_subset by metis
    moreover have "card ?E = ?n"
    proof -
      have "?n \<le> length (oldest_keys m2)" unfolding len map_size_finite by simp
      then show ?thesis using oldest_keys_set(2) [of m2] by (simp add: distinct_card)
    qed
    moreover have "fset (fmdom (fmfilter (\<lambda>k. k \<notin> ?E) m2)) = fset (fmdom m2) - ?E" by auto
    ultimately have "map_size (pruneMap m now w) = map_size m2 - int ?n"
      unfolding p map_size_finite by (simp add: card_Diff_subset card_mono of_nat_diff)
    then show ?thesis using True by (simp add: maxBuckets_def)
  qed
qed

definition bounded_by :: "int \<Rightarrow> Limiter \<Rightarrow> bool" where
  "bounded_by n l \<longleftrightarrow> map_size (l_buckets l) \<le> n \<and> map_size (l_heavy l) \<le> n \<and> map_size (l_failed l) \<le> n"

lemma prune_bounded: "bounded_by (maxBuckets - 1) (Limiter_prune l now)"
  using pruneMap_small by (auto simp: Limiter_prune_def bounded_by_def zle_diff1_eq)

lemma map_size_fmupd: "map_size (fmupd k b m) \<le> map_size m + 1"
  by (simp add: map_size_finite card_insert_if)

lemma bounded_upd:
  "bounded_by n l \<Longrightarrow> bounded_by (n + 1) (l\<lparr>l_buckets := fmupd k b (l_buckets l)\<rparr>)"
  "bounded_by n l \<Longrightarrow> bounded_by (n + 1) (l\<lparr>l_heavy := fmupd k b (l_heavy l)\<rparr>)"
  "bounded_by n l \<Longrightarrow> bounded_by (n + 1) (l\<lparr>l_failed := fmupd k b (l_failed l)\<rparr>)"
  "bounded_by n l \<Longrightarrow> bounded_by (n + 1) (l\<lparr>l_global := b\<rparr>)"
  using map_size_fmupd by (fastforce simp: bounded_by_def intro: order_trans)+

lemma bounded_mono: "bounded_by m l \<Longrightarrow> m \<le> n \<Longrightarrow> bounded_by n l"
  by (auto simp: bounded_by_def)

text \<open>
  The limiter's memory is bounded. Whatever its state, after a request has been checked by
  \<open>Allow\<close>, \<open>AllowHeavy\<close>, \<open>AllowGlobal\<close> or \<open>AllowFailedAuth\<close> none of its maps has more than
  \<open>maxBuckets\<close> = 10000 entries.
\<close>

theorem limiter_bounded:
  "bounded_by maxBuckets (snd (Allow H now c l)) \<and> bounded_by maxBuckets (snd (AllowHeavy H now c l)) \<and>
   bounded_by maxBuckets (snd (AllowGlobal now l)) \<and> bounded_by maxBuckets (snd (AllowFailedAuth H now c l))"
proof -
  note p = prune_bounded [of l now]
  note u = bounded_upd [OF p, simplified]
  show ?thesis
    using u bounded_mono [OF prune_bounded, of maxBuckets]
    by (simp add: Allow_def AllowHeavy_def AllowGlobal_def AllowFailedAuth_def Let_def)
qed

subsection \<open>The specification: unbounded histories\<close>

text \<open>
  The limiter as a specification: it remembers the time of every admitted request of every key and
  never forgets one. A request is admitted while fewer than \<open>cap\<close> of them are recent.
\<close>

definition recent :: "int \<Rightarrow> int \<Rightarrow> int list \<Rightarrow> int list" where
  "recent w now h = filter (\<lambda>t. now - t < w) h"

definition verdict :: "int \<Rightarrow> int \<Rightarrow> int \<Rightarrow> int list \<Rightarrow> bool \<times> int" where
  "verdict w cap now h =
     (let r = recent w now h in
      if cap \<le> int (length r) then (False, max second (w - (now - r ! 0))) else (True, 0))"

record history =
  h_client :: "string \<Rightarrow> int list"
  h_heavy :: "string \<Rightarrow> int list"
  h_failed :: "string \<Rightarrow> int list"
  h_global :: "int list"

definition no_history :: history where
  "no_history = \<lparr>h_client = (\<lambda>_. []), h_heavy = (\<lambda>_. []), h_failed = (\<lambda>_. []), h_global = []\<rparr>"

datatype limit_request =
    RAllow string | RHeavy string | RGlobal | RBlocked string | RRecord string | RFailed string

definition note_at :: "int \<Rightarrow> string \<Rightarrow> (string \<Rightarrow> int list) \<Rightarrow> string \<Rightarrow> int list" where
  "note_at now k h = h(k := h k @ [now])"

fun spec_step :: "(string \<Rightarrow> string) \<Rightarrow> int \<Rightarrow> limit_request \<Rightarrow> history \<Rightarrow> (bool \<times> int) \<times> history" where
  "spec_step H now (RAllow c) s =
     (let v = verdict window maxRequests now (h_client s (keyFor H c))
      in (v, if fst v then s\<lparr>h_client := note_at now (keyFor H c) (h_client s)\<rparr> else s))"
| "spec_step H now (RHeavy c) s =
     (let v = verdict window heavyMax now (h_heavy s (keyFor H c))
      in (v, if fst v then s\<lparr>h_heavy := note_at now (keyFor H c) (h_heavy s)\<rparr> else s))"
| "spec_step H now RGlobal s =
     (let v = verdict window globalMax now (h_global s)
      in (v, if fst v then s\<lparr>h_global := h_global s @ [now]\<rparr> else s))"
| "spec_step H now (RBlocked c) s =
     (let v = verdict failedWindow failedMax now (h_failed s (keyFor H c)) in ((\<not> fst v, snd v), s))"
| "spec_step H now (RRecord c) s = ((True, 0), s\<lparr>h_failed := note_at now (keyFor H c) (h_failed s)\<rparr>)"
| "spec_step H now (RFailed c) s =
     (let v = verdict failedWindow failedMax now (h_failed s (keyFor H c))
      in (v, if fst v then s\<lparr>h_failed := note_at now (keyFor H c) (h_failed s)\<rparr> else s))"

text \<open>The limiter serving the same requests; recording a failure has no answer of its own.\<close>

fun limit_serve :: "(string \<Rightarrow> string) \<Rightarrow> int \<Rightarrow> limit_request \<Rightarrow> Limiter \<Rightarrow> (bool \<times> int) \<times> Limiter" where
  "limit_serve H now (RAllow c) l = Allow H now c l"
| "limit_serve H now (RHeavy c) l = AllowHeavy H now c l"
| "limit_serve H now RGlobal l = AllowGlobal now l"
| "limit_serve H now (RBlocked c) l = FailedBlocked H now c l"
| "limit_serve H now (RRecord c) l = ((True, 0), RecordFailedAuth H now c l)"
| "limit_serve H now (RFailed c) l = AllowFailedAuth H now c l"

fun run :: "('t \<Rightarrow> 'r \<Rightarrow> 's \<Rightarrow> 'a \<times> 's) \<Rightarrow> ('t \<times> 'r) list \<Rightarrow> 's \<Rightarrow> 'a list" where
  "run step [] s = []"
| "run step ((t, r) # tr) s = (let (a, s') = step t r s in a # run step tr s')"

text \<open>The keys a trace can put into the limiter's maps.\<close>

fun client_of :: "limit_request \<Rightarrow> string option" where
  "client_of RGlobal = None"
| "client_of (RAllow c) = Some c"
| "client_of (RHeavy c) = Some c"
| "client_of (RBlocked c) = Some c"
| "client_of (RRecord c) = Some c"
| "client_of (RFailed c) = Some c"

definition trace_keys :: "(string \<Rightarrow> string) \<Rightarrow> (int \<times> limit_request) list \<Rightarrow> string list" where
  "trace_keys H tr = remdups (concat (map (\<lambda>(t, r). case client_of r of None \<Rightarrow> [] | Some c \<Rightarrow> [keyFor H c]) tr))"

subsection \<open>Simulation\<close>

definition times :: "buckets \<Rightarrow> string \<Rightarrow> int list" where
  "times m k = b_ts (bucket_of m k)"

text \<open>A list of kept times stands for a history: both agree on what is recent.\<close>

definition track :: "int \<Rightarrow> int \<Rightarrow> int list \<Rightarrow> int list \<Rightarrow> bool" where
  "track w now ts h \<longleftrightarrow> sorted ts \<and> sorted h \<and> (\<forall>t \<in> set ts \<union> set h. t \<le> now) \<and> recent w now ts = recent w now h"

lemma recent_recent: "now \<le> now' \<Longrightarrow> recent w now' (recent w now ts) = recent w now' ts"
  by (auto simp: recent_def intro: filter_cong)

lemma recent_append: "recent w now (h @ g) = recent w now h @ recent w now g"
  by (simp add: recent_def)

lemma track_later: "track w now ts h \<Longrightarrow> now \<le> now' \<Longrightarrow> track w now' ts h"
  unfolding track_def using recent_recent by (metis order_trans)

lemma trim_recent: "sorted ts \<Longrightarrow> dropWhile (\<lambda>t. w \<le> now - t) ts = recent w now ts"
proof (induction ts)
  case (Cons t ts)
  show ?case
  proof (cases "w \<le> now - t")
    case False
    then have "filter (\<lambda>t. now - t < w) ts = ts" using Cons.prems by (auto simp: filter_id_conv)
    with False show ?thesis by (simp add: recent_def)
  qed (use Cons in \<open>simp add: recent_def\<close>)
qed (simp add: recent_def)

lemma trimExpired_ts: "sorted (b_ts b) \<Longrightarrow> b_ts (trimExpired b now w) = recent w now (b_ts b)"
  by (simp add: trimExpired_def trim_recent)

lemma track_trim: "track w now ts h \<Longrightarrow> track w now (recent w now ts) h"
  using recent_recent [of now now w] by (auto simp: track_def recent_def sorted_wrt_filter)

lemma track_hit: "track w now ts h \<Longrightarrow> track w now (ts @ [now]) (h @ [now])"
  by (auto simp: track_def recent_append sorted_append)

lemma track_Nil [simp]: "track w now [] []"
  by (simp add: track_def)

definition small :: "string set \<Rightarrow> buckets \<Rightarrow> bool" where
  "small K m \<longleftrightarrow> fset (fmdom m) \<subseteq> K \<and> finite K \<and> int (card K) < maxBuckets"

lemma small_size: "small K m \<Longrightarrow> map_size m < maxBuckets"
  by (auto simp: small_def map_size_finite dest: card_mono)

lemma small_upd: "small K m \<Longrightarrow> k \<in> K \<Longrightarrow> small K (fmupd k b m)"
  by (auto simp: small_def)

lemma times_upd: "times (fmupd k b m) = (times m)(k := b_ts b)"
  by (auto simp: times_def bucket_of_def)

lemma pruneMap_track:
  assumes "small K m" "\<And>k. track w now (times m k) (h k)"
  shows "small K (pruneMap m now w)" "track w now (times (pruneMap m now w) k) (h k)"
proof -
  define m1 where "m1 = fmmap (\<lambda>b. trimExpired b now w) m"
  define m2 where "m2 = fmfilter (\<lambda>k. case fmlookup m1 k of Some b \<Rightarrow> b_ts b \<noteq> [] | None \<Rightarrow> False) m1"
  have s: "small K m2" using assms(1) by (auto simp: small_def m2_def m1_def)
  have p: "pruneMap m now w = m2"
    using small_size [OF s] unfolding pruneMap_def Let_def m1_def [symmetric] m2_def [symmetric] by simp
  show "small K (pruneMap m now w)" unfolding p by (rule s)
  have "times m2 k = recent w now (times m k)"
  proof (cases "fmlookup m k")
    case None
    then show ?thesis by (simp add: times_def bucket_of_def m2_def m1_def no_bucket_def recent_def)
  next
    case (Some b)
    then have "sorted (b_ts b)" using assms(2) [of k] by (simp add: track_def times_def bucket_of_def)
    with Some show ?thesis
      by (auto simp: times_def bucket_of_def m2_def m1_def trimExpired_ts no_bucket_def)
  qed
  then show "track w now (times (pruneMap m now w) k) (h k)"
    unfolding p using track_trim [OF assms(2)] by simp
qed

definition sim :: "string set \<Rightarrow> int \<Rightarrow> Limiter \<Rightarrow> history \<Rightarrow> bool" where
  "sim K now l s \<longleftrightarrow> small K (l_buckets l) \<and> small K (l_heavy l) \<and> small K (l_failed l)
     \<and> (\<forall>k. track window now (times (l_buckets l) k) (h_client s k))
     \<and> (\<forall>k. track window now (times (l_heavy l) k) (h_heavy s k))
     \<and> (\<forall>k. track failedWindow now (times (l_failed l) k) (h_failed s k))
     \<and> track window now (b_ts (l_global l)) (h_global s)"

lemma sim_later: "sim K now l s \<Longrightarrow> now \<le> now' \<Longrightarrow> sim K now' l s"
  by (auto simp: sim_def intro: track_later)

lemma sim_prune:
  assumes "sim K now l s" shows "sim K now (Limiter_prune l now) s"
proof (cases "Limiter_prune l now = l")
  case False
  then have p: "Limiter_prune l now = l\<lparr>l_last := Some now, l_buckets := pruneMap (l_buckets l) now window,
             l_heavy := pruneMap (l_heavy l) now window, l_failed := pruneMap (l_failed l) now failedWindow,
             l_global := trimExpired (l_global l) now window\<rparr>"
    unfolding Limiter_prune_def by presburger
  note a = assms [unfolded sim_def]
  have "b_ts (trimExpired (l_global l) now window) = recent window now (b_ts (l_global l))"
    using a by (intro trimExpired_ts) (simp add: track_def)
  then show ?thesis unfolding p sim_def
    using a track_trim pruneMap_track [of K "l_buckets l" window now "h_client s"]
      pruneMap_track [of K "l_heavy l" window now "h_heavy s"]
      pruneMap_track [of K "l_failed l" failedWindow now "h_failed s"] by simp
qed (use assms in simp)

text \<open>Deciding a request on the kept times is deciding it on the history.\<close>

lemma track_trimExpired:
  assumes "track w now (b_ts b) h"
  shows "b_ts (trimExpired b now w) = recent w now h" "track w now (b_ts (trimExpired b now w)) h"
proof -
  have e: "b_ts (trimExpired b now w) = recent w now (b_ts b)"
    using assms by (intro trimExpired_ts) (simp add: track_def)
  then show "b_ts (trimExpired b now w) = recent w now h" using assms by (simp add: track_def)
  show "track w now (b_ts (trimExpired b now w)) h" unfolding e using assms by (rule track_trim)
qed

lemma decide_times:
  assumes "track w now (b_ts b) h"
  shows "full (trimExpired b now w) cap \<Longrightarrow> verdict w cap now h = (False, retry_after (trimExpired b now w) now w)"
    "\<not> full (trimExpired b now w) cap \<Longrightarrow> verdict w cap now h = (True, 0)"
  by (auto simp: full_def verdict_def retry_after_def Let_def track_trimExpired(1) [OF assms])

lemma bucket_step:
  assumes "small K m" "\<forall>k. track w now (times m k) (h k)" "key \<in> K"
  defines "b \<equiv> trimExpired (bucket_of m key) now w"
  shows "full b cap \<Longrightarrow> verdict w cap now (h key) = (False, retry_after b now w)
      \<and> small K (fmupd key (b\<lparr>b_last := now\<rparr>) m) \<and> (\<forall>k. track w now (times (fmupd key (b\<lparr>b_last := now\<rparr>) m) k) (h k))"
    "\<not> full b cap \<Longrightarrow> verdict w cap now (h key) = (True, 0)"
    "small K (fmupd key (hit b now) m) \<and> (\<forall>k. track w now (times (fmupd key (hit b now) m) k) (note_at now key h k))"
proof -
  have t: "track w now (b_ts (bucket_of m key)) (h key)" using assms(2) by (simp add: times_def)
  note tb = track_trimExpired(2) [OF t, folded b_def] and d = decide_times [OF t, of cap, folded b_def]
  show "full b cap \<Longrightarrow> verdict w cap now (h key) = (False, retry_after b now w)
      \<and> small K (fmupd key (b\<lparr>b_last := now\<rparr>) m) \<and> (\<forall>k. track w now (times (fmupd key (b\<lparr>b_last := now\<rparr>) m) k) (h k))"
    using d(1) tb assms(1-3) by (simp add: small_upd times_upd)
  show "\<not> full b cap \<Longrightarrow> verdict w cap now (h key) = (True, 0)" by (rule d(2))
  show "small K (fmupd key (hit b now) m) \<and> (\<forall>k. track w now (times (fmupd key (hit b now) m) k) (note_at now key h k))"
    using track_hit [OF tb] assms(1-3) by (simp add: small_upd times_upd note_at_def hit_def)
qed

text \<open>One lemma per operation: the answers agree and the simulation is kept.\<close>

definition agree :: "string set \<Rightarrow> int \<Rightarrow> 'a \<times> Limiter \<Rightarrow> 'a \<times> history \<Rightarrow> bool" where
  "agree K now p q \<longleftrightarrow> fst p = fst q \<and> sim K now (snd p) (snd q)"

lemma Allow_agree:
  assumes "sim K now l s" "keyFor H c \<in> K"
  shows "agree K now (Allow H now c l) (spec_step H now (RAllow c) s)"
proof -
  define l1 where "l1 = Limiter_prune l now"
  note S = sim_prune [OF assms(1), folded l1_def, unfolded sim_def]
  let ?b = "trimExpired (bucket_of (l_buckets l1) (keyFor H c)) now window"
  have "small K (l_buckets l1)" "\<forall>k. track window now (times (l_buckets l1) k) (h_client s k)" using S by simp_all
  note b = bucket_step [OF this assms(2)]
  show ?thesis
  proof (cases "full ?b maxRequests")
    case True
    with S b(1) [OF True] show ?thesis
      unfolding Allow_def Let_def l1_def [symmetric] if_P [OF True] by (simp add: agree_def sim_def)
  next
    case False
    have "sim K now (l1\<lparr>l_buckets := fmupd (keyFor H c) (hit ?b now) (l_buckets l1)\<rparr>)
        (s\<lparr>h_client := note_at now (keyFor H c) (h_client s)\<rparr>)"
      using S b(3) by (simp add: sim_def)
    from sim_prune [OF this] b(2) [OF False] show ?thesis
      unfolding Allow_def Let_def l1_def [symmetric] if_not_P [OF False] by (simp add: agree_def)
  qed
qed

lemma AllowHeavy_agree:
  assumes "sim K now l s" "keyFor H c \<in> K"
  shows "agree K now (AllowHeavy H now c l) (spec_step H now (RHeavy c) s)"
proof -
  define l1 where "l1 = Limiter_prune l now"
  note S = sim_prune [OF assms(1), folded l1_def, unfolded sim_def]
  have "small K (l_heavy l1)" "\<forall>k. track window now (times (l_heavy l1) k) (h_heavy s k)" using S by simp_all
  note b = bucket_step [OF this assms(2)]
  show ?thesis
    using S b(1,2) [of heavyMax] b(3) unfolding AllowHeavy_def Let_def l1_def [symmetric]
    by (cases "full (trimExpired (bucket_of (l_heavy l1) (keyFor H c)) now window) heavyMax")
       (simp_all add: agree_def sim_def Let_def)
qed

lemma AllowFailedAuth_agree:
  assumes "sim K now l s" "keyFor H c \<in> K"
  shows "agree K now (AllowFailedAuth H now c l) (spec_step H now (RFailed c) s)"
proof -
  define l1 where "l1 = Limiter_prune l now"
  note S = sim_prune [OF assms(1), folded l1_def, unfolded sim_def]
  have "small K (l_failed l1)" "\<forall>k. track failedWindow now (times (l_failed l1) k) (h_failed s k)" using S by simp_all
  note b = bucket_step [OF this assms(2)]
  show ?thesis
    using S b(1,2) [of failedMax] b(3) unfolding AllowFailedAuth_def Let_def l1_def [symmetric]
    by (cases "full (trimExpired (bucket_of (l_failed l1) (keyFor H c)) now failedWindow) failedMax")
       (simp_all add: agree_def sim_def Let_def)
qed

lemma RecordFailedAuth_agree:
  assumes "sim K now l s" "keyFor H c \<in> K"
  shows "agree K now ((True, 0), RecordFailedAuth H now c l) (spec_step H now (RRecord c) s)"
proof -
  note S = assms(1) [unfolded sim_def]
  have "small K (l_failed l)" "\<forall>k. track failedWindow now (times (l_failed l) k) (h_failed s k)" using S by simp_all
  from S bucket_step(3) [OF this assms(2)] show ?thesis
    by (simp add: agree_def RecordFailedAuth_def Let_def sim_def)
qed

lemma AllowGlobal_agree:
  assumes "sim K now l s" shows "agree K now (AllowGlobal now l) (spec_step H now RGlobal s)"
proof -
  define l1 where "l1 = Limiter_prune l now"
  note S = sim_prune [OF assms(1), folded l1_def, unfolded sim_def]
  have t: "track window now (b_ts (l_global l1)) (h_global s)" using S by simp
  note tb = track_trimExpired(2) [OF t] and d = decide_times [OF t, of globalMax]
  show ?thesis
    using S tb d track_hit [OF tb] unfolding AllowGlobal_def Let_def l1_def [symmetric]
    by (cases "full (trimExpired (l_global l1) now window) globalMax") (simp_all add: agree_def sim_def Let_def)
qed

lemma FailedBlocked_agree:
  assumes "sim K now l s" "keyFor H c \<in> K"
  shows "agree K now (FailedBlocked H now c l) (spec_step H now (RBlocked c) s)"
proof -
  note S = assms(1) [unfolded sim_def]
  have t: "track failedWindow now (b_ts (bucket_of (l_failed l) (keyFor H c))) (h_failed s (keyFor H c))"
    using S by (simp add: times_def)
  show ?thesis
  proof (cases "fmlookup (l_failed l) (keyFor H c)")
    case None
    then have "recent failedWindow now (h_failed s (keyFor H c)) = []"
      using t by (simp add: bucket_of_def no_bucket_def track_def recent_def)
    with None assms(1) show ?thesis
      by (simp add: agree_def FailedBlocked_def Let_def verdict_def failedMax_def)
  next
    case (Some b)
    note t = t [unfolded bucket_of_def Some option.case]
    note tb = track_trimExpired(2) [OF t] and d = decide_times [OF t, of failedMax]
    have "sim K now (l\<lparr>l_failed := fmupd (keyFor H c) (trimExpired b now failedWindow) (l_failed l)\<rparr>) s"
      using S assms(2) tb by (simp add: sim_def small_upd times_upd)
    with d Some show ?thesis
      by (cases "full (trimExpired b now failedWindow) failedMax") (simp_all add: agree_def FailedBlocked_def Let_def)
  qed
qed

lemmas agree_rules = Allow_agree AllowHeavy_agree AllowGlobal_agree FailedBlocked_agree RecordFailedAuth_agree
  AllowFailedAuth_agree

lemma serve_agree:
  "sim K now l s \<Longrightarrow> (\<And>c. client_of r = Some c \<Longrightarrow> keyFor H c \<in> K) \<Longrightarrow>
   agree K now (limit_serve H now r l) (spec_step H now r s)"
  by (cases r) (simp_all only: limit_serve.simps client_of.simps agree_rules)

lemma run_agree:
  assumes "sim K now l s" "sorted (map fst tr)" "\<And>t r. (t, r) \<in> set tr \<Longrightarrow> now \<le> t"
    "\<And>t r c. (t, r) \<in> set tr \<Longrightarrow> client_of r = Some c \<Longrightarrow> keyFor H c \<in> K"
  shows "run (limit_serve H) tr l = run (spec_step H) tr s"
  using assms
proof (induction tr arbitrary: now l s)
  case (Cons e tr)
  obtain t r where e: "e = (t, r)" by fastforce
  have "now \<le> t" by (rule Cons.prems(3) [of t r]) (simp add: e)
  with Cons.prems(1) have "sim K t l s" by (rule sim_later)
  then have "agree K t (limit_serve H t r l) (spec_step H t r s)"
    by (rule serve_agree) (use Cons.prems(4) e in auto)
  then obtain v l' s' where o: "limit_serve H t r l = (v, l')" "spec_step H t r s = (v, s')" "sim K t l' s'"
    by (cases "limit_serve H t r l"; cases "spec_step H t r s") (auto simp: agree_def)
  have "run (limit_serve H) tr l' = run (spec_step H) tr s'"
    by (rule Cons.IH [OF o(3)]) (use Cons.prems(2,4) e in force)+
  with o e show ?case by simp
qed simp

lemma trace_keys_set: "(t, r) \<in> set tr \<Longrightarrow> client_of r = Some c \<Longrightarrow> keyFor H c \<in> set (trace_keys H tr)"
  by (force simp: trace_keys_def)

lemma sim_New: "finite K \<Longrightarrow> int (card K) < maxBuckets \<Longrightarrow> sim K now New no_history"
  by (simp add: sim_def small_def New_def no_history_def times_def bucket_of_def no_bucket_def)

lemma limiter_refines_histories_aux:
  assumes "sorted (map fst tr)" "int (length (trace_keys H tr)) < maxBuckets"
  shows "run (limit_serve H) tr New = run (spec_step H) tr no_history"
proof (cases tr)
  case (Cons e tr')
  have "card (set (trace_keys H tr)) = length (trace_keys H tr)"
    by (rule distinct_card) (simp add: trace_keys_def)
  then have s: "sim (set (trace_keys H tr)) (fst e) New no_history"
    using assms(2) by (intro sim_New) auto
  show ?thesis
  proof (rule run_agree [OF s assms(1)])
    show "\<And>t r. (t, r) \<in> set tr \<Longrightarrow> fst e \<le> t" using assms(1) Cons by force
  qed (rule trace_keys_set)
qed simp


text \<open>A concrete trace; the hash is the client's name.\<close>

definition sample_trace :: "(int \<times> limit_request) list" where
  "sample_trace = [(0, RAllow ''bob''), (10, RFailed ''eve''), (11, RBlocked ''eve''), (12, RGlobal)]"

lemma sample_trace_ok: "sorted (map fst sample_trace)" "int (length (trace_keys id sample_trace)) < maxBuckets"
  by code_simp+


subsection \<open>What the clients of the limiter rely on\<close>

text \<open>
  A contract for one sliding window: a decision function on the times admitted so far that admits a
  request only while fewer than \<open>cap\<close> of them lie in the window.
\<close>

locale sliding_window =
  fixes span :: int and cap :: int and decide :: "int \<Rightarrow> int list \<Rightarrow> bool \<times> int"
  assumes span_pos: "0 < span" and cap_pos: "0 < cap"
    and admits: "fst (decide now h) \<Longrightarrow> int (length (filter (\<lambda>t. now - t < span) h)) < cap"
    and refuses: "\<not> fst (decide now h) \<Longrightarrow> (\<And>t. t \<in> set h \<Longrightarrow> t \<le> now) \<Longrightarrow>
      second \<le> snd (decide now h) \<and> snd (decide now h) \<le> max second span"
    and accepts: "fst (decide now h) \<Longrightarrow> snd (decide now h) = 0"
begin

text \<open>The number of times in the window that ends at \<open>t\<close>.\<close>

definition load :: "int \<Rightarrow> int list \<Rightarrow> int" where
  "load t h = int (length (filter (\<lambda>u. t - span < u \<and> u \<le> t) h))"

definition calm :: "int \<Rightarrow> int list \<Rightarrow> bool" where
  "calm now h \<longleftrightarrow> (\<forall>u \<in> set h. u \<le> now) \<and> (\<forall>t. load t h \<le> cap)"

lemma load_append: "load t (h @ g) = load t h + load t g"
  by (simp add: load_def)

lemma calm_Nil: "calm now []"
  using cap_pos by (simp add: calm_def load_def)

lemma calm_later: "calm now h \<Longrightarrow> now \<le> now' \<Longrightarrow> calm now' h"
  by (auto simp: calm_def)

lemma calm_admit:
  assumes "calm now h" "fst (decide now h)" shows "calm now (h @ [now])"
proof -
  have "load t (h @ [now]) \<le> cap" for t
  proof (cases "t - span < now \<and> now \<le> t")
    case True
    have "filter (\<lambda>u. t - span < u \<and> u \<le> t) h = filter (\<lambda>u. t - span < u \<and> u \<le> t) (filter (\<lambda>u. now - u < span) h)"
      using True by (auto intro!: filter_cong)
    then have "load t h \<le> int (length (filter (\<lambda>u. now - u < span) h))"
      unfolding load_def using length_filter_le by (metis of_nat_le_iff)
    with admits [OF assms(2)] show ?thesis by (simp add: load_def)
  next
    case False
    then show ?thesis using assms(1) by (auto simp: load_def calm_def)
  qed
  with assms(1) show ?thesis by (auto simp: calm_def)
qed

lemma calm_decide:
  "calm now h \<Longrightarrow> calm now (if fst (decide now h) then h @ [now] else h)"
  using calm_admit by simp

lemma retry_bounds:
  assumes "\<forall>u \<in> set h. u \<le> now"
  shows "snd (decide now h) = 0 \<or> second \<le> snd (decide now h) \<and> snd (decide now h) \<le> max second span"
  using refuses [of now h] accepts [of now h] assms by (cases "fst (decide now h)") auto

text \<open>
  Over a run whose steps append to the history only what the contract admits, the selected and
  admitted requests in any window and the history before the run stay together within the cap.
\<close>

lemma admitted_in_window:
  fixes step :: "int \<Rightarrow> 'r \<Rightarrow> 's \<Rightarrow> (bool \<times> int) \<times> 's"
  assumes step: "\<And>t r s. hist (snd (step t r s)) = hist s \<and> \<not> (sel r \<and> fst (fst (step t r s))) \<or>
      fst (decide t (hist s)) \<and> hist (snd (step t r s)) = hist s @ [t]"
    and "sorted (map fst tr)" "\<forall>e \<in> set tr. now \<le> fst e" "calm now (hist s)"
  shows "int (length (filter (\<lambda>((u, r), a). sel r \<and> fst a \<and> t - span < u \<and> u \<le> t) (zip tr (run step tr s))))
    + load t (hist s) \<le> cap"
  using assms(2-4)
proof (induction tr arbitrary: now s)
  case (Cons e tr)
  obtain u r where e: "e = (u, r)" by fastforce
  obtain a s' where st: "step u r s = (a, s')" by fastforce
  have u: "now \<le> u" "sorted (map fst tr)" "\<forall>e \<in> set tr. u \<le> fst e" using Cons.prems e by auto
  note c = calm_later [OF Cons.prems(3) u(1)]
  note cases = step [of u r s, unfolded st fst_conv snd_conv]
  then have "calm u (hist s')" using c calm_admit by auto
  note ih = Cons.IH [OF u(2,3) this]
  from cases show ?case
  proof
    assume "hist s' = hist s \<and> \<not> (sel r \<and> fst a)"
    with ih e st show ?thesis by auto
  next
    assume "fst (decide u (hist s)) \<and> hist s' = hist s @ [u]"
    moreover have "load t [u] = (if t - span < u \<and> u \<le> t then 1 else 0)" by (simp add: load_def)
    ultimately show ?thesis using ih e st by (auto simp: load_append split: if_splits)
  qed
qed (simp add: calm_def)

end

lemma verdict_window:
  assumes "0 < w" "0 < cap" shows "sliding_window w cap (verdict w cap)"
proof
  fix now h
  show "fst (verdict w cap now h) \<Longrightarrow> int (length (filter (\<lambda>t. now - t < w) h)) < cap"
    and "fst (verdict w cap now h) \<Longrightarrow> snd (verdict w cap now h) = 0"
    by (auto simp: verdict_def recent_def Let_def split: if_splits)
  assume r: "\<not> fst (verdict w cap now h)" and h: "\<And>t. t \<in> set h \<Longrightarrow> t \<le> now"
  then have n: "cap \<le> int (length (recent w now h))" by (auto simp: verdict_def Let_def split: if_splits)
  with assms(2) have "recent w now h ! 0 \<in> set (recent w now h)" by (intro nth_mem) linarith
  then have "recent w now h ! 0 \<le> now" "now - recent w now h ! 0 < w" using h by (auto simp: recent_def)
  then show "second \<le> snd (verdict w cap now h) \<and> snd (verdict w cap now h) \<le> max second w"
    using n by (auto simp: verdict_def Let_def)
qed (fact assms)+

interpretation client: sliding_window window maxRequests "verdict window maxRequests"
  by (rule verdict_window) (simp_all add: window_def second_def maxRequests_def)

interpretation heavy: sliding_window window heavyMax "verdict window heavyMax"
  by (rule verdict_window) (simp_all add: window_def second_def heavyMax_def)

interpretation all: sliding_window window globalMax "verdict window globalMax"
  by (rule verdict_window) (simp_all add: window_def second_def globalMax_def)

interpretation fails: sliding_window failedWindow failedMax "verdict failedWindow failedMax"
  by (rule verdict_window) (simp_all add: failedWindow_def second_def failedMax_def)

lemma client_step:
  assumes "keyFor H c = k"
  shows "h_client (snd (spec_step H t r s)) k = h_client s k \<and> \<not> (r = RAllow c \<and> fst (fst (spec_step H t r s)))
   \<or> fst (verdict window maxRequests t (h_client s k)) \<and> h_client (snd (spec_step H t r s)) k = h_client s k @ [t]"
proof (cases r)
  case (RAllow x)
  show ?thesis
  proof (cases "keyFor H x = k")
    case True
    then show ?thesis unfolding RAllow spec_step.simps Let_def True note_at_def by simp
  next
    case False
    then have "x \<noteq> c" using assms by blast
    with False show ?thesis unfolding RAllow spec_step.simps Let_def note_at_def by simp
  qed
qed (simp_all add: Let_def)

lemma heavy_step:
  assumes "keyFor H c = k"
  shows "h_heavy (snd (spec_step H t r s)) k = h_heavy s k \<and> \<not> (r = RHeavy c \<and> fst (fst (spec_step H t r s)))
   \<or> fst (verdict window heavyMax t (h_heavy s k)) \<and> h_heavy (snd (spec_step H t r s)) k = h_heavy s k @ [t]"
proof (cases r)
  case (RHeavy x)
  show ?thesis
  proof (cases "keyFor H x = k")
    case True
    then show ?thesis unfolding RHeavy spec_step.simps Let_def True note_at_def by simp
  next
    case False
    then have "x \<noteq> c" using assms by blast
    with False show ?thesis unfolding RHeavy spec_step.simps Let_def note_at_def by simp
  qed
qed (simp_all add: Let_def)

lemma global_step:
  "h_global (snd (spec_step H t r s)) = h_global s \<and> \<not> (r = RGlobal \<and> fst (fst (spec_step H t r s)))
   \<or> fst (verdict window globalMax t (h_global s)) \<and> h_global (snd (spec_step H t r s)) = h_global s @ [t]"
  by (cases r) (simp_all add: Let_def)



text \<open>
  Retry times are sane. Under the same conditions every answer has the retry time 0 or one
  between one second and five minutes.
\<close>

definition past :: "int \<Rightarrow> history \<Rightarrow> bool" where
  "past now s \<longleftrightarrow> (\<forall>k. (\<forall>u \<in> set (h_client s k). u \<le> now) \<and> (\<forall>u \<in> set (h_heavy s k). u \<le> now)
     \<and> (\<forall>u \<in> set (h_failed s k). u \<le> now)) \<and> (\<forall>u \<in> set (h_global s). u \<le> now)"

definition sane :: "int \<Rightarrow> bool" where
  "sane retry \<longleftrightarrow> retry = 0 \<or> second \<le> retry \<and> retry \<le> 300 * second"

lemma past_later: "past now s \<Longrightarrow> now \<le> now' \<Longrightarrow> past now' s"
  unfolding past_def by (meson order_trans)

lemma past_step: "past now s \<Longrightarrow> past now (snd (spec_step H now r s))"
  by (cases r) (auto simp: past_def note_at_def Let_def)

lemma sane_span: "retry = 0 \<or> second \<le> retry \<and> retry \<le> max second w \<Longrightarrow> w \<le> 300 * second \<Longrightarrow> sane retry"
  by (auto simp: sane_def second_def)

lemma sane_step:
  assumes "past now s" shows "sane (snd (fst (spec_step H now r s)))"
proof -
  have w: "window \<le> 300 * second" "failedWindow \<le> 300 * second" by (simp_all add: window_def failedWindow_def second_def)
  have "sane (snd (verdict window maxRequests now (h_client s k)))" "sane (snd (verdict window heavyMax now (h_heavy s k)))"
    "sane (snd (verdict window globalMax now (h_global s)))" "sane (snd (verdict failedWindow failedMax now (h_failed s k)))" for k
    by (rule sane_span [OF client.retry_bounds w(1)] sane_span [OF heavy.retry_bounds w(1)] sane_span [OF all.retry_bounds w(1)]
          sane_span [OF fails.retry_bounds w(2)], use assms in \<open>simp add: past_def\<close>)+
  moreover have "sane 0" by (simp add: sane_def)
  ultimately show ?thesis by (cases r) (simp_all add: Let_def)
qed

lemma run_sane:
  "past now s \<Longrightarrow> sorted (map fst tr) \<Longrightarrow> \<forall>e \<in> set tr. now \<le> fst e \<Longrightarrow>
   list_all (\<lambda>(ok, retry). sane retry) (run (spec_step H) tr s)"
proof (induction tr arbitrary: now s)
  case (Cons e tr)
  obtain t r where e: "e = (t, r)" by fastforce
  obtain ok retry s' where st: "spec_step H t r s = ((ok, retry), s')" by (metis prod.exhaust)
  have p: "past t s" using Cons.prems e by (auto intro: past_later)
  have "list_all (\<lambda>(ok, retry). sane retry) (run (spec_step H) tr s')"
    by (rule Cons.IH [of t]) (use past_step [OF p, of H r] st Cons.prems e in auto)
  with sane_step [OF p, of H r] st e show ?case by simp
qed simp

theorem retry_times_sane:
  assumes "sorted (map fst tr)" "int (length (trace_keys H tr)) < maxBuckets"
  shows "list_all (\<lambda>(ok, retry). sane retry) (run (limit_serve H) tr New)"
  unfolding limiter_refines_histories_aux [OF assms]
  by (rule run_sane [of "case tr of [] \<Rightarrow> 0 | e # _ \<Rightarrow> fst e"])
     (use assms(1) in \<open>cases tr; force simp: past_def no_history_def\<close>)+

theorem retry_times_sane_witness: "list_all (\<lambda>(ok, retry). sane retry) (run (limit_serve id) sample_trace New)"
  by (rule retry_times_sane [OF sample_trace_ok])

end
