(* ===== verification/Pairing.thy ===== *)
theory Pairing
  imports Paths Json
begin

text \<open>
  \<open>pairing/pairing.go\<close>: a node obeys one panel at a time. The lease of the panel is a JSON file that
  every accepted request of the panel renews; another panel is refused until the lease has run out.

  The second half refines \<open>Enforce\<close> to a lease without files and shows how long it is exclusive.
\<close>

subsection \<open>The lease file\<close>

definition leaseSeconds :: int where
  "leaseSeconds = 30 * 60"

definition pairingPath :: "world \<Rightarrow> path" where
  "pairingPath w = OVNodeDir w @ [''state'', ''pairing.json'']"

record Lease =
  le_panel :: string
  le_seen :: int

fun dec_lease_fields :: "(string \<times> json) list \<Rightarrow> Lease \<Rightarrow> Lease option" where
  "dec_lease_fields [] r = Some r"
| "dec_lease_fields ((k, v) # m) r =
     (if EqualFold k ''panel_id'' then
        (case v of
           JNull \<Rightarrow> dec_lease_fields m r
         | JStr s \<Rightarrow> dec_lease_fields m (r\<lparr>le_panel := s\<rparr>)
         | _ \<Rightarrow> None)
      else if EqualFold k ''last_seen'' then
        (case v of
           JNull \<Rightarrow> dec_lease_fields m r
         | JNum n \<Rightarrow> (case ParseInt n of None \<Rightarrow> None | Some i \<Rightarrow> dec_lease_fields m (r\<lparr>le_seen := i\<rparr>))
         | _ \<Rightarrow> None)
      else dec_lease_fields m r)"

definition no_lease :: Lease where
  "no_lease = \<lparr>le_panel = [], le_seen = 0\<rparr>"

definition dec_lease :: "json \<Rightarrow> Lease option" where
  "dec_lease v = (case v of JNull \<Rightarrow> Some no_lease | JObj m \<Rightarrow> dec_lease_fields m no_lease | _ \<Rightarrow> None)"

text \<open>The current lease: none if the file is missing or names no panel.\<close>

definition read_lease :: "world \<Rightarrow> path \<Rightarrow> Lease option res" where
  "read_lease w p = (case os_ReadFile w p of
      Inl e \<Rightarrow> if e = NotExist then Inr None else Inl (Err (''pairing file unreadable: '' @ err_text e))
    | Inr data \<Rightarrow> (case Option.bind (unmarshal_value data) dec_lease of
          None \<Rightarrow> Inl (Err ''pairing file corrupt: invalid JSON'')
        | Some r \<Rightarrow> Inr (if le_panel r \<noteq> [] then Some r else None)))"

definition lease_body :: "string \<Rightarrow> int \<Rightarrow> string" where
  "lease_body panel now = show_json (JObj [(''last_seen'', JNum (Itoa now)), (''panel_id'', JStr panel)])"

text \<open>
  \<open>os.OpenFile(O_CREATE|O_RDWR)\<close> for the lock: it follows symbolic links and creates a missing file,
  also one that a link points to.
\<close>

fun lease_target :: "nat \<Rightarrow> fs \<Rightarrow> path \<Rightarrow> path option" where
  "lease_target 0 f p = None"
| "lease_target (Suc k) f p = (case fmlookup f p of
      Some nd \<Rightarrow> (case n_kind nd of Link t \<Rightarrow> lease_target k f t | _ \<Rightarrow> Some p)
    | None \<Rightarrow> Some p)"

definition os_OpenCreate :: "path \<Rightarrow> perm \<Rightarrow> unit io" where
  "os_OpenCreate p perm w =
     (if fault w OpOpen p then (Inl (Fault OpOpen), w)
      else case lease_target max_links (w_fs w) p of
        None \<Rightarrow> (Inl (Err ''too many levels of symbolic links''), w)
      | Some q \<Rightarrow>
          (case look w q of
             Some nd \<Rightarrow> if is_dir nd then (Inl (Err ''is a directory''), w) else (Inr (), w)
           | None \<Rightarrow>
               if (case os_Stat w (butlast q) of Inr nd \<Rightarrow> is_dir nd | Inl _ \<Rightarrow> False)
               then (Inr (), put q (new_file w (butlast q) perm []) w)
               else (Inl NotExist, w)))"

text \<open>The write of the lease: a temporary file in the same directory, synced and renamed.\<close>

definition write_lease :: "path \<Rightarrow> string \<Rightarrow> unit io" where
  "write_lease p body w =
     (let dir = butlast p; tmp = fresh_name ''.pairing-'' (w_fs w) dir in
      if fault w OpCreateTemp p \<or> \<not> (case os_Stat w dir of Inr nd \<Rightarrow> is_dir nd | Inl _ \<Rightarrow> False)
      then (Inl (Fault OpCreateTemp), w)
      else
        (let w1 = put tmp (new_file w dir perm_0600 []) w;
             fail = (\<lambda>op wx. (Inl (Fault op), snd (os_Remove tmp wx))) in
         if fault w OpWrite p then fail OpWrite w1
         else let w2 = put tmp (new_file w dir perm_0600 body) w1 in
         if fault w OpSync p then fail OpSync w2
         else if fault w OpRename p \<or> (case look w2 p of Some nd \<Rightarrow> is_dir nd | None \<Rightarrow> False)
         then fail OpRename w2
         else (Inr (), put p (new_file w dir perm_0600 body) (del tmp w2))))"

definition ErrPermission :: err where
  "ErrPermission = Err ''permission denied''"

text \<open>Subtraction of 64-bit integers, as Go computes the age of a lease.\<close>

definition sub64 :: "int \<Rightarrow> int \<Rightarrow> int" where
  "sub64 a b = (a - b + 2 ^ 63) mod 2 ^ 64 - 2 ^ 63"

definition Enforce :: "string \<Rightarrow> unit io" where
  "Enforce panelID w =
     (let p = pairingPath w; lockFile = butlast p @ [last p @ ''.lock''] in
      case os_MkdirAll (butlast p) perm_0755 w of
        (Inl e, w) \<Rightarrow> (Inl e, w)
      | (Inr _, w) \<Rightarrow>
          (case os_OpenCreate lockFile perm_0600 w of
             (Inl e, w) \<Rightarrow> (Inl e, w)
           | (Inr _, w) \<Rightarrow>
               if fault w OpFlock lockFile then (Inl (Fault OpFlock), w)
               else (case read_lease w p of
                   Inl e \<Rightarrow> (Inl e, w)
                 | Inr rec \<Rightarrow>
                     if panelID = [] then (if rec \<noteq> None then (Inl ErrPermission, w) else (Inr (), w))
                     else if (case rec of None \<Rightarrow> False
                              | Some r \<Rightarrow> le_panel r \<noteq> panelID \<and> sub64 (w_now w) (le_seen r) \<le> leaseSeconds)
                     then (Inl ErrPermission, w)
                     else if (case rec of None \<Rightarrow> False
                              | Some r \<Rightarrow> le_panel r = panelID \<and> sub64 (w_now w) (le_seen r) < 60)
                     then (Inr (), w)
                     else write_lease p (lease_body panelID (w_now w)) (snd (os_MkdirAll (butlast p) perm_0755 w)))))"

subsection \<open>The lease as a specification\<close>

text \<open>One request of \<open>panel\<close> at time \<open>now\<close>: whether it is accepted, and the new lease.\<close>

definition lease_step :: "int \<Rightarrow> string \<Rightarrow> Lease option \<Rightarrow> bool \<times> Lease option" where
  "lease_step now panel rec =
     (if panel = [] then (rec = None, rec)
      else case rec of
        None \<Rightarrow> (True, Some \<lparr>le_panel = panel, le_seen = now\<rparr>)
      | Some r \<Rightarrow>
          if le_panel r \<noteq> panel \<and> now - le_seen r \<le> leaseSeconds then (False, rec)
          else if le_panel r = panel \<and> now - le_seen r < 60 then (True, rec)
          else (True, Some \<lparr>le_panel = panel, le_seen = now\<rparr>))"

lemma read_back:
  assumes "ascii panel" "panel \<noteq> []" "- (2 ^ 63) \<le> now" "now < 2 ^ 63"
  shows "Option.bind (unmarshal_value (lease_body panel now)) dec_lease = Some \<lparr>le_panel = panel, le_seen = now\<rparr>"
proof -
  let ?m = "[(''last_seen'', JNum (Itoa now)), (''panel_id'', JStr panel)]"
  have "ascii ''last_seen''" "ascii ''panel_id''" by code_simp+
  then have "wf_json (JObj ?m)" using assms(1) by auto
  from unmarshal_show_json [OF this] have u: "unmarshal_value (lease_body panel now) = Some (JObj ?m)"
    unfolding lease_body_def .
  have "\<not> EqualFold ''last_seen'' ''panel_id''" "EqualFold ''last_seen'' ''last_seen''" "EqualFold ''panel_id'' ''panel_id''"
    by code_simp+
  then show ?thesis using assms(3,4) unfolding u dec_lease_def
    by (simp add: no_lease_def ParseInt_Itoa)
qed

lemma sub64_exact: "0 \<le> a \<Longrightarrow> a < 2 ^ 63 \<Longrightarrow> 0 \<le> b \<Longrightarrow> b < 2 ^ 63 \<Longrightarrow> sub64 a b = a - b"
  by (simp add: sub64_def)

text \<open>The lease directory exists, and neither the lease nor its lock is a link or a directory.\<close>

definition lease_lock :: "world \<Rightarrow> path" where
  "lease_lock w = OVNodeDir w @ [''state'', ''pairing.json.lock'']"

definition lease_ready :: "world \<Rightarrow> bool" where
  "lease_ready w \<longleftrightarrow> healthy w \<and> dir_ready w (OVNodeDir w @ [''state'']) \<and> plain w (lease_lock w) \<and> plain w (pairingPath w)
     \<and> 0 \<le> w_now w \<and> w_now w < 2 ^ 63"

definition lease_ok :: "Lease option \<Rightarrow> bool" where
  "lease_ok rec = (case rec of None \<Rightarrow> True | Some r \<Rightarrow> le_panel r \<noteq> [] \<and> 0 \<le> le_seen r \<and> le_seen r < 2 ^ 63)"

lemma lease_target_plain: "plain w p \<Longrightarrow> lease_target max_links (w_fs w) p = Some p"
proof -
  have m: "max_links = Suc 39" by (simp add: max_links_def)
  assume "plain w p"
  then show ?thesis unfolding m lease_target.simps
    by (auto simp: plain_def is_regular_def split: option.splits kind.splits)
qed

lemma os_OpenCreate_plain:
  assumes "healthy w" "dir_ready w d" "d \<noteq> []" "plain w (d @ [n])"
  obtains w1 where "os_OpenCreate (d @ [n]) m w = (Inr (), w1)" "frame (\<lambda>q. q = d @ [n]) w w1" "plain w1 (d @ [n])"
proof (cases "look w (d @ [n])")
  case None
  obtain nd where "os_Stat w d = Inr nd" "is_dir nd" using dir_ready_stat [OF assms(1-3)] by blast
  then have "os_OpenCreate (d @ [n]) m w = (Inr (), put (d @ [n]) (new_file w d m []) w)"
    using None assms(1) by (simp add: os_OpenCreate_def lease_target_plain [OF assms(4)])
  then show ?thesis by (rule that) (auto intro: frame_put simp: plain_def is_regular_def new_file_def)
next
  case (Some nd)
  from Some assms(4) have "is_regular nd" by (simp add: plain_def)
  then obtain c where "n_kind nd = Reg c" by (auto simp: is_regular_def split: kind.splits)
  with Some assms(1) have "os_OpenCreate (d @ [n]) m w = (Inr (), w)"
    by (simp add: os_OpenCreate_def lease_target_plain [OF assms(4)] is_dir_def)
  then show ?thesis by (rule that) (use assms(4) in simp_all)
qed

lemma write_lease_ready:
  assumes "healthy w" "dir_ready w d" "d \<noteq> []" "plain w (d @ [n])"
  shows "write_lease (d @ [n]) body w = (Inr (), put (d @ [n]) (new_file w d perm_0600 body) w)"
proof -
  define t where "t = fresh_name ''.pairing-'' (w_fs w) d"
  have t: "look w t = None" unfolding t_def by (rule fresh_name_fresh)
  obtain nd where s: "os_Stat w d = Inr nd" "is_dir nd" using dir_ready_stat [OF assms(1-3)] by blast
  have r: "\<not> (case look (put t (new_file w d perm_0600 body) w) (d @ [n]) of None \<Rightarrow> False | Some nd \<Rightarrow> is_dir nd)"
    using assms(4) by (auto simp: is_dir_def new_file_def plain_def is_regular_def split: option.splits)
  show ?thesis
    unfolding write_lease_def Let_def butlast_snoc t_def [symmetric]
    using assms(1) s r t by (simp add: del_put_fresh)
qed

lemma read_lease_frame:
  assumes "frame P w v" "\<not> P p" "plain w p" shows "read_lease v p = read_lease w p"
proof -
  have "plain v p" "look v p = look w p" using assms by (simp_all add: plain_frame frame_look)
  then show ?thesis using assms(3) frame_fault [OF assms(1)] by (simp add: read_lease_def plain_ReadFile)
qed

lemma pairing_env:
  assumes "same_env w v"
  shows "OVNodeDir v = OVNodeDir w" "pairingPath v = pairingPath w" "lease_lock v = lease_lock w"
proof -
  show "OVNodeDir v = OVNodeDir w" using assms by (rule OVNodeDir_env)
  then show "pairingPath v = pairingPath w" "lease_lock v = lease_lock w"
    by (simp_all add: pairingPath_def lease_lock_def)
qed

lemma Enforce_lease:
  assumes ready: "lease_ready w" and rd: "read_lease w (pairingPath w) = Inr rec" and ok: "lease_ok rec"
    and panel: "ascii panel" and st: "lease_step (w_now w) panel rec = (acc, rec')"
  obtains w' where "Enforce panel w = (if acc then Inr () else Inl ErrPermission, w')"
    "read_lease w' (pairingPath w) = Inr rec'" "lease_ready w'" "same_env w w'"
proof -
  let ?d = "OVNodeDir w @ [''state'']" and ?p = "pairingPath w" and ?l = "lease_lock w"
  have p: "?p = ?d @ [''pairing.json'']" "butlast ?p = ?d" "butlast ?p @ [last ?p @ ''.lock''] = ?l" "?l = ?d @ [''pairing.json.lock'']"
    by (simp_all add: pairingPath_def lease_lock_def butlast_append)
  note R = ready [unfolded lease_ready_def]
  obtain w1 where o: "os_OpenCreate ?l perm_0600 w = (Inr (), w1)" and f: "frame (\<lambda>q. q = ?l) w w1" and pl: "plain w1 ?l"
    using os_OpenCreate_plain [of w ?d "''pairing.json.lock''" perm_0600] R p(4) by (metis append_is_Nil_conv not_Cons_self2)
  have h1: "healthy w1" "plain w1 ?p" "dir_ready w1 ?d" "w_now w1 = w_now w" "same_env w w1"
    using R f p healthy_frame [OF _ f] plain_frame [OF f] frame_now [OF f]
      dir_ready_children [OF f, of ?d] by (auto simp: frame_def)
  have rd1: "read_lease w1 ?p = Inr rec" using read_lease_frame [OF f, of ?p] R rd p by simp
  have age: "sub64 (w_now w1) (le_seen r) = w_now w - le_seen r" if "rec = Some r" for r
    using that ok R h1(4) by (simp add: lease_ok_def sub64_exact)
  note m = os_MkdirAll_ready [of w ?d perm_0755] os_MkdirAll_ready [OF h1(1,3), of perm_0755]
  have e: "Enforce panel w =
      (if panel = [] then (if rec \<noteq> None then (Inl ErrPermission, w1) else (Inr (), w1))
       else if (case rec of None \<Rightarrow> False | Some r \<Rightarrow> le_panel r \<noteq> panel \<and> sub64 (w_now w1) (le_seen r) \<le> leaseSeconds)
       then (Inl ErrPermission, w1)
       else if (case rec of None \<Rightarrow> False | Some r \<Rightarrow> le_panel r = panel \<and> sub64 (w_now w1) (le_seen r) < 60)
       then (Inr (), w1)
       else write_lease ?p (lease_body panel (w_now w1)) w1)"
    unfolding Enforce_def Let_def p(3) unfolding p(2) using R m o h1(1) rd1 by simp
  have r1: "lease_ready w1" using R pl h1 pairing_env [OF h1(5)] by (simp add: lease_ready_def)
  let ?w2 = "put ?p (new_file w1 ?d perm_0600 (lease_body panel (w_now w))) w1"
  consider (keep) "Enforce panel w = (if acc then Inr () else Inl ErrPermission, w1)" "rec' = rec"
    | (renew) "Enforce panel w = write_lease ?p (lease_body panel (w_now w)) w1" "acc" "panel \<noteq> []"
        "rec' = Some \<lparr>le_panel = panel, le_seen = w_now w\<rparr>"
  proof (cases "panel = []")
    case True
    then show thesis using e st by (intro keep) (auto simp: lease_step_def split: if_splits)
  next
    case False
    show thesis
    proof (cases rec)
      case None
      with False e st h1(4) show thesis by (intro renew) (auto simp: lease_step_def)
    next
      case (Some q)
      note e' = e [unfolded Some option.case age [OF Some] if_not_P [OF False]]
        and st' = st [unfolded lease_step_def Some option.case if_not_P [OF False]]
      show thesis
      proof (cases "le_panel q \<noteq> panel \<and> w_now w - le_seen q \<le> leaseSeconds \<or> le_panel q = panel \<and> w_now w - le_seen q < 60")
        case True
        then show thesis using e' st' Some by (intro keep) (auto split: if_splits)
      next
        case no: False
        then show thesis using e' st' False h1(4) by (intro renew) (auto split: if_splits)
      qed
    qed
  qed
  then show thesis
  proof cases
    case keep
    then show thesis using rd1 r1 h1(5) by (intro that [of w1]) auto
  next
    case renew
    have wl: "write_lease ?p (lease_body panel (w_now w)) w1 = (Inr (), ?w2)"
      unfolding p(1) using h1 p(1) by (intro write_lease_ready) simp_all
    have g: "frame (\<lambda>q. q = ?p) w1 ?w2" by (rule frame_put) simp
    have env: "same_env w ?w2" using h1(5) g by (auto simp: frame_def intro: same_env_trans)
    have plain: "plain ?w2 ?p" by (simp add: plain_def is_regular_def new_file_def)
    have rf: "os_ReadFile ?w2 ?p = Inr (lease_body panel (w_now w))"
      using h1(1) unfolding plain_ReadFile [OF plain] by (simp add: new_file_def)
    have "read_lease ?w2 ?p = Inr rec'"
      using R renew(3,4) read_back [OF panel renew(3), of "w_now w"]
      unfolding read_lease_def rf sum.case by simp
    moreover have "lease_ready ?w2"
      using R h1 plain pairing_env [OF env] plain_frame [OF g, of ?l] pl p dir_ready_children [OF g, of ?d]
      by (simp add: lease_ready_def)
    ultimately show thesis using renew(1,2) wl env by (intro that [of ?w2]) auto
  qed
qed

text \<open>
  C27. \<open>Enforce\<close> refines the lease. In a healthy run with a readable lease file, a request is accepted
  exactly when the lease of the specification accepts it, a refusal is a permission error, and
  afterwards the file holds exactly the new lease of the specification.
\<close>

theorem enforce_refines_lease:
  assumes "lease_ready w" "read_lease w (pairingPath w) = Inr rec" "lease_ok rec" "ascii panel"
  shows "\<exists>w'. Enforce panel w = (if fst (lease_step (w_now w) panel rec) then Inr () else Inl ErrPermission, w')
    \<and> read_lease w' (pairingPath w) = Inr (snd (lease_step (w_now w) panel rec)) \<and> lease_ready w'"
  using Enforce_lease [OF assms, of "fst (lease_step (w_now w) panel rec)" "snd (lease_step (w_now w) panel rec)"]
  by (metis prod.collapse)

definition sample_pairing :: world where
  "sample_pairing = sample_world [root_dir [''d''], root_dir [''d'', ''state''],
     root_file [''d'', ''state'', ''pairing.json''] (lease_body ''blue'' 30)]\<lparr>w_env := [''OVNODE_DATA_DIR'' \<mapsto> ''/d'']\<rparr>"

lemma sample_pairing_ok:
  "lease_ready sample_pairing" "read_lease sample_pairing (pairingPath sample_pairing) = Inr (Some \<lparr>le_panel = ''blue'', le_seen = 30\<rparr>)"
  "lease_ok (Some \<lparr>le_panel = ''blue'', le_seen = 30\<rparr>)" "ascii ''red''" "ascii ''blue''"
proof -
  have "healthy sample_pairing" by (simp add: healthy_def sample_pairing_def sample_world_def)
  moreover have "dir_ready sample_pairing (OVNodeDir sample_pairing @ [''state'']) \<and> plain sample_pairing (lease_lock sample_pairing)
     \<and> plain sample_pairing (pairingPath sample_pairing)" "w_now sample_pairing = 100" by code_simp+
  ultimately show "lease_ready sample_pairing" by (simp add: lease_ready_def)
qed code_simp+

theorem enforce_refines_lease_witness:
  "fst (Enforce ''red'' sample_pairing) = Inl ErrPermission \<and> fst (Enforce ''blue'' sample_pairing) = Inr ()"
proof -
  have n: "w_now sample_pairing = 100" by code_simp
  from enforce_refines_lease [OF sample_pairing_ok(1-3,4)] enforce_refines_lease [OF sample_pairing_ok(1-3,5)]
  show ?thesis unfolding n by (auto simp: lease_step_def leaseSeconds_def)
qed

subsection \<open>How long a lease is exclusive\<close>

fun enforce_run :: "(int \<times> string) list \<Rightarrow> world \<Rightarrow> bool list" where
  "enforce_run [] w = []"
| "enforce_run ((t, panel) # tr) w =
     (case Enforce panel (w\<lparr>w_now := t\<rparr>) of (r, w') \<Rightarrow> (case r of Inr _ \<Rightarrow> True | Inl _ \<Rightarrow> False) # enforce_run tr w')"

fun lease_run :: "(int \<times> string) list \<Rightarrow> Lease option \<Rightarrow> bool list" where
  "lease_run [] rec = []"
| "lease_run ((t, panel) # tr) rec = fst (lease_step t panel rec) # lease_run tr (snd (lease_step t panel rec))"

lemma lease_step_ok: "lease_ok rec \<Longrightarrow> 0 \<le> t \<Longrightarrow> t < 2 ^ 63 \<Longrightarrow> lease_ok (snd (lease_step t panel rec))"
  by (auto simp: lease_ok_def lease_step_def split: option.splits)

lemma retime: "read_lease (w\<lparr>w_now := t\<rparr>) p = read_lease w p" "pairingPath (w\<lparr>w_now := t\<rparr>) = pairingPath w"
  "lease_ready w \<Longrightarrow> 0 \<le> t \<Longrightarrow> t < 2 ^ 63 \<Longrightarrow> lease_ready (w\<lparr>w_now := t\<rparr>)"
proof -
  let ?v = "w\<lparr>w_now := t\<rparr>"
  show "read_lease ?v p = read_lease w p" by (simp add: read_lease_def os_ReadFile_def)
  have "w_env ?v = w_env w" "w_envfile ?v = w_envfile w" by simp_all
  then have "envOr ?v n f = envOr w n f" for n f unfolding envOr_def by (simp only:)
  then have d: "OVNodeDir ?v = OVNodeDir w" by (simp add: OVNodeDir_def)
  then show "pairingPath ?v = pairingPath w" by (simp add: pairingPath_def)
  have "dirs_ok ?v cur ps = dirs_ok w cur ps" for cur ps
    by (induction ps arbitrary: cur) (auto simp: openat_dir_def split: sum.splits)
  then show "lease_ready w \<Longrightarrow> 0 \<le> t \<Longrightarrow> t < 2 ^ 63 \<Longrightarrow> lease_ready ?v"
    using d by (simp add: lease_ready_def healthy_def dir_ready_def plain_def pairingPath_def lease_lock_def)
qed

lemma enforce_run_lease:
  assumes "lease_ready w" "read_lease w (pairingPath w) = Inr rec" "lease_ok rec"
    "\<forall>(t, panel) \<in> set tr. 0 \<le> t \<and> t < 2 ^ 63 \<and> ascii panel"
  shows "enforce_run tr w = lease_run tr rec"
  using assms
proof (induction tr arbitrary: w rec)
  case (Cons e tr)
  obtain t panel where e: "e = (t, panel)" by fastforce
  have t: "0 \<le> t" "t < 2 ^ 63" "ascii panel" using Cons.prems(4) e by simp_all
  let ?v = "w\<lparr>w_now := t\<rparr>" and ?s = "lease_step t panel rec"
  obtain w' where w': "Enforce panel ?v = (if fst ?s then Inr () else Inl ErrPermission, w')"
    "read_lease w' (pairingPath w) = Inr (snd ?s)" "lease_ready w'" "same_env ?v w'"
    using Enforce_lease [of ?v rec panel "fst ?s" "snd ?s"] retime Cons.prems(1-3) t by auto
  have "enforce_run tr w' = lease_run tr (snd ?s)"
    by (rule Cons.IH) (use w' pairing_env(2) [OF w'(4)] retime(2) lease_step_ok [OF Cons.prems(3) t(1,2)] Cons.prems(4) in auto)
  then show ?case using w'(1) e by (simp split: if_splits)
qed simp

text \<open>While a panel's lease is fresh only that panel is accepted, and the lease stays its own.\<close>

definition holds :: "string \<Rightarrow> int \<Rightarrow> Lease option \<Rightarrow> bool" where
  "holds panel t rec \<longleftrightarrow> (\<exists>r. rec = Some r \<and> le_panel r = panel \<and> t - 60 < le_seen r)"

lemma lease_step_accepts: "panel \<noteq> [] \<Longrightarrow> fst (lease_step t panel rec) \<Longrightarrow> holds panel t (snd (lease_step t panel rec))"
  by (auto simp: lease_step_def holds_def split: option.splits if_splits)

lemma lease_step_holds:
  assumes "panel \<noteq> []" "holds panel t rec" "t \<le> u" "u - t \<le> leaseSeconds - 60"
  shows "fst (lease_step u other rec) \<longrightarrow> other = panel" "holds panel t (snd (lease_step u other rec))"
  using assms by (auto simp: lease_step_def holds_def split: if_splits)

lemma length_lease_run [simp]: "length (lease_run tr rec) = length tr"
  by (induction tr rec rule: lease_run.induct) simp_all

lemma lease_run_exclusive:
  "panel \<noteq> [] \<Longrightarrow> holds panel t rec \<Longrightarrow> sorted (map fst tr) \<Longrightarrow> \<forall>e \<in> set tr. t \<le> fst e \<Longrightarrow>
   list_all2 (\<lambda>(u, other) ok. u - t \<le> leaseSeconds - 60 \<longrightarrow> ok \<longrightarrow> other = panel) tr (lease_run tr rec)"
proof (induction tr arbitrary: rec)
  case (Cons e tr)
  obtain u other where e: "e = (u, other)" by fastforce
  show ?case
  proof (cases "u - t \<le> leaseSeconds - 60")
    case True
    have "t \<le> u" using Cons.prems(4) e by simp
    note h = lease_step_holds [OF Cons.prems(1,2) this True, of other]
    have "list_all2 (\<lambda>(u, other) ok. u - t \<le> leaseSeconds - 60 \<longrightarrow> ok \<longrightarrow> other = panel) tr
        (lease_run tr (snd (lease_step u other rec)))"
      using Cons.prems h(2) by (intro Cons.IH) auto
    with e h(1) show ?thesis by simp
  next
    case False
    then have late: "\<not> fst x - t \<le> leaseSeconds - 60" if "x \<in> set (e # tr)" for x using Cons.prems(3) e that by auto
    show ?thesis
      by (rule list_all2_all_nthI [OF length_lease_run [symmetric]])
         (use late [OF nth_mem] in \<open>simp add: case_prod_beta del: lease_run.simps nth_Cons_0\<close>)
  qed
qed simp

text \<open>
  C28. The node obeys one panel at a time. Once a panel has been accepted, no other panel is accepted
  for the next 29 minutes, whatever requests arrive in between. (The lease lasts 30 minutes from the
  last renewal, and a renewal within a minute of the last one is skipped.)
\<close>

theorem pairing_exclusive:
  assumes "lease_ready w" "read_lease w (pairingPath w) = Inr rec" "lease_ok rec"
    "\<forall>(t, panel) \<in> set ((t, panel) # tr). 0 \<le> t \<and> t < 2 ^ 63 \<and> ascii panel"
    "sorted (map fst ((t, panel) # tr))" "panel \<noteq> []"
    "enforce_run ((t, panel) # tr) w = True # oks"
  shows "list_all2 (\<lambda>(u, other) ok. u - t \<le> 29 * 60 \<longrightarrow> ok \<longrightarrow> other = panel) tr oks"
proof -
  have r: "lease_run ((t, panel) # tr) rec = True # oks"
    using enforce_run_lease [OF assms(1-4)] assms(7) by simp
  then have "holds panel t (snd (lease_step t panel rec))" using lease_step_accepts [OF assms(6)] by simp
  from lease_run_exclusive [OF assms(6) this, of tr] assms(5) r show ?thesis
    by (auto simp: leaseSeconds_def)
qed

definition sample_claims :: "(int \<times> string) list" where
  "sample_claims = [(200, ''red''), (1000, ''blue''), (5000, ''red'')]"

theorem pairing_exclusive_witness:
  "list_all2 (\<lambda>(u, other) ok. u - 100 \<le> 29 * 60 \<longrightarrow> ok \<longrightarrow> other = ''blue'') sample_claims [False, True, True]"
proof -
  have v: "\<forall>(t, panel) \<in> set ((100, ''blue'') # sample_claims). 0 \<le> t \<and> t < 2 ^ 63 \<and> ascii panel"
    "sorted (map fst ((100, ''blue'') # sample_claims))" by code_simp+
  have "lease_run ((100, ''blue'') # sample_claims) (Some \<lparr>le_panel = ''blue'', le_seen = 30\<rparr>) = [True, False, True, True]"
    by code_simp
  then have "enforce_run ((100, ''blue'') # sample_claims) sample_pairing = True # [False, True, True]"
    using enforce_run_lease [OF sample_pairing_ok(1-3) v(1)] by simp
  from pairing_exclusive [OF sample_pairing_ok(1-3) v _ this] show ?thesis by simp
qed

end
