(* ===== verification/Policy.thy ===== *)
theory Policy
  imports Paths
begin

text \<open>
  \<open>policy/policy.go\<close>: the desired state of ports, DNS and IPv6 kept in small files under the data
  directory, the NAT configuration, and the rewriting of the pushed DNS lines of \<open>server.conf\<close>.
  \<open>ovnode nat apply\<close>, the process that \<open>SyncNATConfig\<close> starts, is the parameter \<open>natApply\<close>.
\<close>

definition statePath :: "world \<Rightarrow> string \<Rightarrow> path" where
  "statePath w name = OVNodeDir w @ [name]"

subsection \<open>Ports\<close>

definition PortsStatePath :: "world \<Rightarrow> path" where
  "PortsStatePath w = statePath w ''ports''"

definition envInt :: "world \<Rightarrow> string \<Rightarrow> int \<Rightarrow> int" where
  "envInt w name dflt =
     (let v = TrimSpace (Env w name []) in
      if v = [] then dflt else case Atoi v of None \<Rightarrow> dflt | Some n \<Rightarrow> n)"

definition truthy :: "string \<Rightarrow> bool" where
  "truthy v \<longleftrightarrow> v = ''1'' \<or> v = ''true'' \<or> v = ''yes'' \<or> v = ''on''"

definition allowWebExtraPorts :: "world \<Rightarrow> bool" where
  "allowWebExtraPorts w =
     list_ex (\<lambda>name. truthy (ToLower (TrimSpace (Env w name []))))
       [''OVNODE_ALLOW_EXTRA_WEB_PORTS'', ''OVNODE_ALLOW_PRIVILEGED_EXTRA_PORTS'', ''ALLOW_EXTRA_WEB_PORTS'',
        ''ALLOW_PRIVILEGED_EXTRA_PORTS'']"

text \<open>The reserved ports, as the list of keys of the map the code builds.\<close>

definition reservedExtraPorts :: "world \<Rightarrow> int \<Rightarrow> int list" where
  "reservedExtraPorts w primary =
     [22, primary, 7505, 2083]
     @ (let mp = envInt w ''MANAGEMENT_PORT'' 7505 in if 0 < mp then [mp] else [])
     @ (let ap = envInt w ''SERVICE_PORT'' 2083 in if 0 < ap then [ap] else [])
     @ (if \<not> allowWebExtraPorts w then [80, 443] else [])"

definition port_fields :: "string \<Rightarrow> string list" where
  "port_fields raw = filter (\<lambda>t. t \<noteq> []) (concat (map (Split (CHR '';'')) (Split (CHR '','') raw)))"

fun validate_ports :: "int list \<Rightarrow> string list \<Rightarrow> int list \<Rightarrow> int list res" where
  "validate_ports reserved [] out = Inr out"
| "validate_ports reserved (t # ts) out =
     (let tok = TrimSpace t in
      if tok = [] then validate_ports reserved ts out
      else case Atoi tok of
        None \<Rightarrow> Inl (Err (''invalid extra port '' @ go_quote tok))
      | Some n \<Rightarrow>
          if n < 1 \<or> 65535 < n then Inl (Err (''extra port '' @ Itoa n @ '' out of range''))
          else if n \<in> set reserved then Inl (Err (''extra port '' @ Itoa n @ '' is reserved''))
          else if n \<in> set out then validate_ports reserved ts out
          else if 16 \<le> length out then Inl (Err ''too many extra ports (max 16)'')
          else validate_ports reserved ts (out @ [n]))"

definition ValidateExtraPorts :: "world \<Rightarrow> string \<Rightarrow> int \<Rightarrow> int list res" where
  "ValidateExtraPorts w raw primary = validate_ports (reservedExtraPorts w primary) (port_fields raw) []"

text \<open>The lenient pass skips what the strict one refuses and stops after 16 ports.\<close>

fun lenient_ports :: "int list \<Rightarrow> int \<Rightarrow> string list \<Rightarrow> int list \<Rightarrow> int list" where
  "lenient_ports reserved primary [] out = out"
| "lenient_ports reserved primary (t # ts) out =
     (let tok = TrimSpace t in
      if tok = [] then lenient_ports reserved primary ts out
      else case Atoi tok of
        None \<Rightarrow> lenient_ports reserved primary ts out
      | Some n \<Rightarrow>
          if n < 1 \<or> 65535 < n then lenient_ports reserved primary ts out
          else if n \<in> set reserved \<or> n = primary \<or> n \<in> set out then lenient_ports reserved primary ts out
          else if 16 \<le> length out then out
          else lenient_ports reserved primary ts (out @ [n]))"

definition ParseExtraPorts :: "world \<Rightarrow> string \<Rightarrow> int \<Rightarrow> int list" where
  "ParseExtraPorts w raw primary = (case ValidateExtraPorts w raw primary of
      Inr out \<Rightarrow> out
    | Inl _ \<Rightarrow> lenient_ports (reservedExtraPorts w primary) primary (port_fields raw) [])"

record PortsState =
  ps_ports :: "int list"
  ps_pinned :: bool

fun ports_lines :: "world \<Rightarrow> string list \<Rightarrow> PortsState \<Rightarrow> PortsState" where
  "ports_lines w [] st = st"
| "ports_lines w (l # ls) st =
     (let line = TrimSpace l in
      if \<not> HasPrefix line ''ports='' then ports_lines w ls st
      else (let val = drop 6 line in
            if val = [] then st\<lparr>ps_ports := [], ps_pinned := True\<rparr>
            else ports_lines w ls (st\<lparr>ps_ports := ParseExtraPorts w val 0, ps_pinned := True\<rparr>)))"

definition ReadPortsState :: "world \<Rightarrow> PortsState" where
  "ReadPortsState w =
     (let st = \<lparr>ps_ports = [], ps_pinned = False\<rparr> in
      case os_ReadFile w (PortsStatePath w) of Inl _ \<Rightarrow> st | Inr data \<Rightarrow> ports_lines w (Split NL data) st)"

definition joinInts :: "int list \<Rightarrow> string" where
  "joinInts ns = Join (map Itoa ns) '',''"

text \<open>The file exists and holds the desired text up to surrounding white space.\<close>

definition already :: "world \<Rightarrow> path \<Rightarrow> string \<Rightarrow> bool" where
  "already w p desired = (case os_Stat w p of
      Inl _ \<Rightarrow> False
    | Inr _ \<Rightarrow> TrimSpace (case os_ReadFile w p of Inl _ \<Rightarrow> [] | Inr old \<Rightarrow> old) = desired)"

definition WritePortsState :: "int list \<Rightarrow> world \<Rightarrow> bool \<times> world" where
  "WritePortsState ports w =
     (let p = PortsStatePath w;
          desired = (if ports = [] then ''ports='' else ''ports='' @ joinInts ports)
      in if already w p desired then (False, w)
         else (case WriteFileAtomic p (desired @ [NL]) perm_0644 (snd (os_MkdirAll (butlast p) perm_0755 w)) of
             (Inl _, w) \<Rightarrow> (False, w)
           | (Inr _, w) \<Rightarrow> (True, w)))"

definition PortsEffective :: "world \<Rightarrow> int list \<Rightarrow> int list" where
  "PortsEffective w defaultPorts =
     (let st = ReadPortsState w in if ps_pinned st then ps_ports st else defaultPorts)"

definition IsReservedPrimaryPort :: "world \<Rightarrow> int \<Rightarrow> bool" where
  "IsReservedPrimaryPort w p \<longleftrightarrow>
     p = 22 \<or> p = 2083 \<or> p = 7505
     \<or> (let mp = envInt w ''MANAGEMENT_PORT'' 7505 in 0 < mp \<and> p = mp)
     \<or> (let sp = envInt w ''SERVICE_PORT'' 2083 in 0 < sp \<and> p = sp)"

subsection \<open>NAT configuration\<close>

definition natConfigPath :: "world \<Rightarrow> path" where
  "natConfigPath w = (case w_env w ''OVNODE_NAT_CONF'' of
      Some v \<Rightarrow> if v \<noteq> [] then to_path v else to_path ''/etc/default/ovnode-nat''
    | None \<Rightarrow> to_path ''/etc/default/ovnode-nat'')"

text \<open>The last \<open>VPN_NAT_ENABLED\<close> line decides; without one NAT is enabled.\<close>

fun nat_enabled :: "string list \<Rightarrow> bool \<Rightarrow> bool" where
  "nat_enabled [] enabled = enabled"
| "nat_enabled (l # ls) enabled =
     (case Cut (CHR ''='') (TrimSpace l) of
        (k, v, ok) \<Rightarrow>
          if ok \<and> TrimSpace k = ''VPN_NAT_ENABLED'' then
            (let v = TrimSpace v in nat_enabled ls (v = ''1'' \<or> EqualFold v ''true'' \<or> EqualFold v ''yes''))
          else nat_enabled ls enabled)"

definition nat_content :: "bool \<Rightarrow> int \<Rightarrow> int list \<Rightarrow> string" where
  "nat_content enabled primaryPort extraPorts =
     ''# OVNode NAT configuration'' @ [NL] @ ''VPN_NAT_ENABLED='' @ (if enabled then ''1'' else ''0'') @ [NL]
     @ ''VPN_PRIMARY_PORT='' @ Itoa primaryPort @ [NL] @ ''VPN_EXTRA_PORTS='' @ joinInts extraPorts @ [NL]"

definition SyncNATConfig :: "unit io \<Rightarrow> int \<Rightarrow> int list \<Rightarrow> unit io" where
  "SyncNATConfig natApply primaryPort extraPorts w =
     (let p = natConfigPath w in
      case os_ReadFile w p of
        Inl _ \<Rightarrow> (Inr (), w)
      | Inr data \<Rightarrow>
          (let enabled = nat_enabled (Split NL data) True in
           case WriteFileAtomic p (nat_content enabled primaryPort extraPorts) perm_0644 w of
             (Inl e, w) \<Rightarrow> (Inl (Err (''policy: write nat config: '' @ err_text e)), w)
           | (Inr _, w) \<Rightarrow>
               if \<not> enabled then (Inr (), w)
               else (case natApply w of
                   (Inr _, w) \<Rightarrow> (Inr (), w)
                 | (Inl e, w) \<Rightarrow>
                     (let perm = (case os_Stat w p of Inr st \<Rightarrow> n_mode st AND 0x1FF | Inl _ \<Rightarrow> perm_0644);
                          w = snd (WriteFileAtomic p data perm w)
                      in (Inl (Err (''policy: nat apply: '' @ err_text e)), w)))))"

subsection \<open>DNS and IPv6\<close>

definition DNSStatePath :: "world \<Rightarrow> path" where
  "DNSStatePath w = statePath w ''dns''"

record DNSState =
  dns_1 :: string
  dns_2 :: string

definition dns_line :: "DNSState \<Rightarrow> string \<Rightarrow> DNSState" where
  "dns_line st l = (case Cut (CHR ''='') (TrimSpace l) of
      (k, v, ok) \<Rightarrow>
        if \<not> ok then st
        else if k = ''dns1'' then st\<lparr>dns_1 := v\<rparr> else if k = ''dns2'' then st\<lparr>dns_2 := v\<rparr> else st)"

definition ReadDNSState :: "world \<Rightarrow> DNSState" where
  "ReadDNSState w = (case os_ReadFile w (DNSStatePath w) of
      Inl _ \<Rightarrow> \<lparr>dns_1 = [], dns_2 = []\<rparr>
    | Inr data \<Rightarrow> foldl dns_line \<lparr>dns_1 = [], dns_2 = []\<rparr> (Split NL data))"

text \<open>
  The writer of the DNS and IPv6 files: only the creation of the temporary file is checked; the
  results of the write, the mode change and the rename are dropped.
\<close>

definition unchecked_write :: "string \<Rightarrow> path \<Rightarrow> string \<Rightarrow> world \<Rightarrow> bool \<times> world" where
  "unchecked_write pre p body w =
     (let w = snd (os_MkdirAll (butlast p) perm_0755 w);
          dir = butlast p;
          tmp = fresh_name pre (w_fs w) dir
      in if fault w OpCreateTemp p \<or> \<not> (case os_Stat w dir of Inr nd \<Rightarrow> is_dir nd | Inl _ \<Rightarrow> False)
         then (False, w)
         else
           (let nd = new_file w dir (if fault w OpChmod p then perm_0600 else perm_0644)
                       (if fault w OpWrite p then [] else body);
                w1 = put tmp nd w
            in if fault w OpRename p \<or> (case look w1 p of Some nd \<Rightarrow> is_dir nd | None \<Rightarrow> False)
               then (True, w1)
               else (True, put p nd (del tmp w1))))"

definition WriteDNSState :: "string \<Rightarrow> string \<Rightarrow> world \<Rightarrow> bool \<times> world" where
  "WriteDNSState dns1 dns2 w =
     (let p = DNSStatePath w;
          ls = (if dns1 \<noteq> [] then [''dns1='' @ dns1] else []) @ (if dns2 \<noteq> [] then [''dns2='' @ dns2] else []);
          desired = Join ls [NL]
      in if already w p desired then (False, w)
         else unchecked_write ''.dns-'' p (if desired \<noteq> [] then desired @ [NL] else []) w)"

definition DNSEffective :: "world \<Rightarrow> string \<Rightarrow> string \<Rightarrow> string list" where
  "DNSEffective w def1 def2 =
     (let st = ReadDNSState w;
          v1 = (if dns_1 st = [] then def1 else dns_1 st);
          v2 = (if dns_2 st = [] then def2 else dns_2 st)
      in (if v1 \<noteq> [] then [v1] else []) @ (if v2 \<noteq> [] then [v2] else []))"

definition IPv6StatePath :: "world \<Rightarrow> path" where
  "IPv6StatePath w = statePath w ''ipv6''"

record IPv6State =
  v6_enabled :: string
  v6_prefix :: string

definition ipv6_line :: "IPv6State \<Rightarrow> string \<Rightarrow> IPv6State" where
  "ipv6_line st l = (case Cut (CHR ''='') (TrimSpace l) of
      (k, v, ok) \<Rightarrow>
        if \<not> ok then st
        else if k = ''enabled'' then st\<lparr>v6_enabled := v\<rparr> else if k = ''prefix'' then st\<lparr>v6_prefix := v\<rparr> else st)"

definition ReadIPv6State :: "world \<Rightarrow> IPv6State" where
  "ReadIPv6State w = (case os_ReadFile w (IPv6StatePath w) of
      Inl _ \<Rightarrow> \<lparr>v6_enabled = [], v6_prefix = []\<rparr>
    | Inr data \<Rightarrow> foldl ipv6_line \<lparr>v6_enabled = [], v6_prefix = []\<rparr> (Split NL data))"

definition ipv6_desired :: "bool \<Rightarrow> string \<Rightarrow> string" where
  "ipv6_desired enabled prf = ''enabled='' @ (if enabled then ''1'' else ''0'') @ [NL] @ ''prefix='' @ prf"

definition WriteIPv6State :: "bool \<Rightarrow> string \<Rightarrow> world \<Rightarrow> bool \<times> world" where
  "WriteIPv6State enabled prf w =
     (let p = IPv6StatePath w; desired = ipv6_desired enabled prf
      in if already w p desired then (False, w) else unchecked_write ''.ipv6-'' p (desired @ [NL]) w)"

definition IPv6Effective :: "world \<Rightarrow> bool \<Rightarrow> string \<Rightarrow> bool \<times> string" where
  "IPv6Effective w defEnabled defPrefix =
     (let st = ReadIPv6State w;
          v = TrimSpace (v6_enabled st);
          enabled = (if v \<noteq> [] then truthy (ToLower v) else defEnabled);
          p = TrimSpace (v6_prefix st)
      in (enabled, if p \<noteq> [] then p else defPrefix))"

subsection \<open>Rewriting server.conf\<close>

definition push_dns :: string where
  "push_dns = ''push '' @ [DQ] @ ''dhcp-option DNS''"

definition push_redirect :: string where
  "push_redirect = ''push '' @ [DQ] @ ''redirect-gateway''"

definition dns_push_line :: "string \<Rightarrow> string" where
  "dns_push_line s = push_dns @ '' '' @ s @ [DQ]"

fun first_index :: "('a \<Rightarrow> bool) \<Rightarrow> 'a list \<Rightarrow> nat option" where
  "first_index P [] = None"
| "first_index P (x # xs) = (if P x then Some 0 else map_option Suc (first_index P xs))"

definition insert_after :: "string list \<Rightarrow> nat option" where
  "insert_after out = (case first_index (\<lambda>ln. Contains ln push_redirect) out of
      Some i \<Rightarrow> Some i
    | None \<Rightarrow> first_index (\<lambda>ln. HasPrefix (TrimSpace ln) ''server '') out)"

definition RewritePushDNS :: "string \<Rightarrow> string list \<Rightarrow> string" where
  "RewritePushDNS conf servers =
     (let out = filter (\<lambda>ln. \<not> Contains ln push_dns) (Split NL conf);
          ins = map dns_push_line servers
      in Join (case insert_after out of
                 Some i \<Rightarrow> take (i + 1) out @ ins @ drop (i + 1) out
               | None \<Rightarrow> out @ ins) [NL])"

subsection \<open>Lists of ports\<close>

definition good_ports :: "int list \<Rightarrow> int list \<Rightarrow> bool" where
  "good_ports reserved out \<longleftrightarrow> distinct out \<and> length out \<le> 16
     \<and> list_all (\<lambda>n. 1 \<le> n \<and> n \<le> 65535 \<and> n \<notin> set reserved) out"

lemma good_ports_snoc:
  "good_ports reserved out \<Longrightarrow> 1 \<le> n \<Longrightarrow> n \<le> 65535 \<Longrightarrow> n \<notin> set reserved \<Longrightarrow> n \<notin> set out \<Longrightarrow>
   length out < 16 \<Longrightarrow> good_ports reserved (out @ [n])"
  by (simp add: good_ports_def)

lemma validate_ports_good:
  "validate_ports reserved ts out = Inr ps \<Longrightarrow> good_ports reserved out \<Longrightarrow> good_ports reserved ps"
proof (induction reserved ts out rule: validate_ports.induct)
  case (2 reserved t ts out)
  then show ?case
    by (cases "Atoi (TrimSpace t)") (auto simp: Let_def good_ports_snoc split: if_splits)
qed simp

lemma lenient_ports_good:
  "good_ports reserved out \<Longrightarrow> good_ports reserved (lenient_ports reserved primary ts out)"
proof (induction reserved primary ts out rule: lenient_ports.induct)
  case (2 reserved primary t ts out)
  then show ?case
    by (cases "Atoi (TrimSpace t)") (auto simp: Let_def good_ports_snoc)
qed simp

text \<open>
  C31. Extra ports are safe. Whatever text the panel sends, both readers return at most 16 distinct
  ports between 1 and 65535, none of them reserved (SSH, the primary port, the management and service
  ports, and the web ports unless allowed); where the strict reader accepts, the lenient one agrees.
\<close>

theorem extra_ports_safe:
  "good_ports (reservedExtraPorts w primary) (ParseExtraPorts w raw primary) \<and>
   (case ValidateExtraPorts w raw primary of
      Inr out \<Rightarrow> good_ports (reservedExtraPorts w primary) out \<and> ParseExtraPorts w raw primary = out
    | Inl _ \<Rightarrow> True)"
proof -
  have n: "good_ports r []" for r by (simp add: good_ports_def)
  show ?thesis
    using validate_ports_good [OF _ n] lenient_ports_good [OF n]
    by (auto simp: ParseExtraPorts_def ValidateExtraPorts_def split: sum.splits)
qed

lemma Itoa_plain: "0 \<le> n \<Longrightarrow> c \<in> set (Itoa n) \<Longrightarrow> is_digit c"
  by (auto simp: Itoa_def dest: itoa_nat_graph)

lemma port_fields_joinInts:
  assumes "list_all (\<lambda>n. 1 \<le> n) ns" shows "port_fields (joinInts ns) = map Itoa ns"
proof (cases "ns = []")
  case False
  have d: "is_digit c" if "n \<in> set ns" "c \<in> set (Itoa n)" for n c
    using that assms Itoa_plain [of n c] by (auto simp: list_all_iff)
  have comma: "\<not> is_digit (CHR '','')" "\<not> is_digit (CHR '';'')" by (simp_all add: is_digit_def byte_def)
  have "Split (CHR '','') (joinInts ns) = map Itoa ns"
    unfolding joinInts_def using False d comma by (intro Split_Join) auto
  moreover have "map (Split (CHR '';'')) (map Itoa ns) = map (\<lambda>x. [x]) (map Itoa ns)"
    using d comma by (auto intro!: Split_no_sep)
  moreover have "concat (map (\<lambda>x. [x]) xs) = xs" for xs :: "string list" by (induction xs) auto
  ultimately have "concat (map (Split (CHR '';'')) (Split (CHR '','') (joinInts ns))) = map Itoa ns" by (simp only:)
  then show ?thesis by (auto simp: port_fields_def filter_id_conv)
qed (simp add: port_fields_def joinInts_def)

lemma Atoi_Itoa: "- (2 ^ 63) \<le> i \<Longrightarrow> i < 2 ^ 63 \<Longrightarrow> Atoi (Itoa i) = Some i"
  by (simp add: Atoi_def ParseInt_Itoa)

lemma TrimSpace_Itoa: "TrimSpace (Itoa i) = Itoa i"
  by (rule TrimSpace_visible) (auto intro: visible_ends_graph Itoa_graph)

lemma validate_ports_Itoa:
  "good_ports reserved (out @ ns) \<Longrightarrow> validate_ports reserved (map Itoa ns) out = Inr (out @ ns)"
proof (induction ns arbitrary: out)
  case (Cons n ns)
  then have "Atoi (Itoa n) = Some n" by (intro Atoi_Itoa) (auto simp: good_ports_def)
  with Cons show ?case by (simp add: TrimSpace_Itoa Let_def) (auto simp: good_ports_def)
qed simp

lemma ValidateExtraPorts_joinInts:
  "good_ports (reservedExtraPorts w primary) ns \<Longrightarrow> ValidateExtraPorts w (joinInts ns) primary = Inr ns"
  unfolding ValidateExtraPorts_def
  by (subst port_fields_joinInts) (auto simp: validate_ports_Itoa good_ports_def list_all_iff)

lemma joinInts_Nil: "joinInts ns = [] \<longleftrightarrow> ns = []"
  by (induction ns rule: induct_list012) (auto simp: joinInts_def)

lemma reserved_zero: "good_ports (reservedExtraPorts w primary) ns \<Longrightarrow> good_ports (reservedExtraPorts w 0) ns"
proof -
  have "set (reservedExtraPorts w 0) \<subseteq> insert 0 (set (reservedExtraPorts w primary))"
    unfolding reservedExtraPorts_def set_append list.set by blast
  then have "n \<notin> set (reservedExtraPorts w 0)" if "n \<notin> set (reservedExtraPorts w primary)" "1 \<le> n" for n
    using that by auto
  then show "good_ports (reservedExtraPorts w primary) ns \<Longrightarrow> good_ports (reservedExtraPorts w 0) ns"
    unfolding good_ports_def list_all_iff by blast
qed

lemma reserved_env: "same_env w v \<Longrightarrow> reservedExtraPorts v primary = reservedExtraPorts w primary"
proof -
  assume "same_env w v"
  then have e: "w_env v = w_env w" "w_envfile v = w_envfile w" by (simp_all add: same_env_def)
  have "Env v n f = Env w n f" for n f unfolding Env_def envOr_def e ..
  then show ?thesis by (simp add: reservedExtraPorts_def envInt_def allowWebExtraPorts_def)
qed

lemma statePath_env: "same_env w v \<Longrightarrow> statePath v n = statePath w n"
  by (simp add: statePath_def OVNodeDir_env)

lemma ports_text_graph: "c \<in> set (''ports='' @ joinInts ns) \<Longrightarrow> is_graph c"
proof -
  have "c \<in> set (Join (map Itoa ns) '','') \<Longrightarrow> is_graph c"
    using Join_set [of c "map Itoa ns" "'',''"] by (auto dest: Itoa_graph) (simp add: is_graph_def byte_def)
  moreover have "c \<in> set ''ports='' \<Longrightarrow> is_graph c" by (auto simp: is_graph_def byte_def)
  ultimately show "c \<in> set (''ports='' @ joinInts ns) \<Longrightarrow> is_graph c" by (auto simp: joinInts_def)
qed

text \<open>
  The port list round-trips. A list of valid extra ports that \<open>WritePortsState\<close> reports as written
  is exactly what \<open>ReadPortsState\<close> reads back, pinned, also when it is empty.
\<close>

theorem ports_state_roundtrip:
  assumes "good_ports (reservedExtraPorts w primary) ports" "WritePortsState ports w = (True, w')"
    "\<not> fault w OpRead (PortsStatePath w)"
  shows "ReadPortsState w' = \<lparr>ps_ports = ports, ps_pinned = True\<rparr>"
proof -
  let ?p = "PortsStatePath w" and ?t = "''ports='' @ joinInts ports"
  have t: "(if ports = [] then ''ports='' else ?t) = ?t" by (simp add: joinInts_def)
  obtain w1 where m: "snd (os_MkdirAll (butlast ?p) perm_0755 w) = w1" by blast
  obtain r where wr: "WriteFileAtomic ?p (?t @ [NL]) perm_0644 w1 = (r, w')" and "r = Inr ()"
    using assms(2) m unfolding WritePortsState_def Let_def t by (auto split: if_splits prod.splits sum.splits)
  then have w': "w' = put ?p (new_file w1 (butlast ?p) perm_0644 (?t @ [NL])) w1" using WriteFileAtomic_ok by blast
  have e: "same_env w w'"
  proof -
    obtain a where "os_MkdirAll (butlast ?p) perm_0755 w = (a, w1)" using m by (metis prod.collapse)
    then have "same_env w w1" using os_MkdirAll_frame unfolding frame_def by blast
    then show ?thesis unfolding w' by (simp add: same_env_def)
  qed
  have p: "PortsStatePath w' = ?p" using statePath_env [OF e] by (simp add: PortsStatePath_def)
  have "plain w' ?p" unfolding w' by (simp add: plain_def new_file_def is_regular_def)
  moreover have "\<not> fault w' OpRead ?p" using assms(3) e by (simp add: same_env_def)
  ultimately have rd: "os_ReadFile w' ?p = Inr (?t @ [NL])" by (simp add: plain_ReadFile w' new_file_def)
  have nl: "NL \<notin> set ?t" using ports_text_graph [of NL ports] by (auto simp: is_graph_def byte_def)
  have sp: "Split NL (?t @ [NL]) = [?t, []]" using Split_append_sep [OF nl, of "[]"] by simp
  have tr: "TrimSpace ?t = ?t" by (rule TrimSpace_visible, rule visible_ends_graph, rule ports_text_graph)
  have "good_ports (reservedExtraPorts w' 0) ports"
    unfolding reserved_env [OF e] using assms(1) by (rule reserved_zero)
  then have v: "ParseExtraPorts w' (joinInts ports) 0 = ports"
    unfolding ParseExtraPorts_def by (simp only: ValidateExtraPorts_joinInts sum.case)
  have z: "joinInts ports = [] \<longleftrightarrow> ports = []" by (rule joinInts_Nil)
  have d: "drop 6 ?t = joinInts ports" "HasPrefix ?t ''ports=''" by simp_all
  have "ReadPortsState w' = ports_lines w' [?t, []] \<lparr>ps_ports = [], ps_pinned = False\<rparr>"
    unfolding ReadPortsState_def Let_def p rd sum.case sp ..
  also have "\<dots> = \<lparr>ps_ports = ports, ps_pinned = True\<rparr>"
    unfolding ports_lines.simps tr Let_def d using z v by simp
  finally show ?thesis .
qed

definition sample_data :: world where
  "sample_data = sample_world [root_dir [''var''], root_dir [''var'', ''lib''], root_dir [''var'', ''lib'', ''ovnode'']]"

lemma sample_data_Env: "Env sample_data n [] = []"
  by (simp add: Env_def envOr_def sample_data_def sample_world_def)

theorem ports_state_roundtrip_witness:
  "ReadPortsState (snd (WritePortsState [1194, 8443] sample_data)) = \<lparr>ps_ports = [1194, 8443], ps_pinned = True\<rparr>"
proof -
  have "reservedExtraPorts sample_data 1195 = [22, 1195, 7505, 2083, 7505, 2083, 80, 443]"
    unfolding reservedExtraPorts_def envInt_def allowWebExtraPorts_def sample_data_Env
    by (simp add: truthy_def ToLower_def)
  then have g: "good_ports (reservedExtraPorts sample_data 1195) [1194, 8443]" by (simp add: good_ports_def)
  have "fst (WritePortsState [1194, 8443] sample_data)" by code_simp
  then have w: "WritePortsState [1194, 8443] sample_data = (True, snd (WritePortsState [1194, 8443] sample_data))"
    by (metis prod.collapse)
  have f: "\<not> fault sample_data OpRead (PortsStatePath sample_data)" by (simp add: sample_data_def sample_world_def)
  show ?thesis by (rule ports_state_roundtrip [OF g w f])
qed

subsection \<open>Pushed DNS servers\<close>

definition is_dns_push :: "string \<Rightarrow> bool" where
  "is_dns_push ln \<longleftrightarrow> Contains ln push_dns"

text \<open>The lines of the rewritten file, from the lines that are kept.\<close>

definition place_dns :: "string list \<Rightarrow> string list \<Rightarrow> string list" where
  "place_dns out servers = (case insert_after out of
      Some i \<Rightarrow> take (i + 1) out @ map dns_push_line servers @ drop (i + 1) out
    | None \<Rightarrow> out @ map dns_push_line servers)"

lemma RewritePushDNS_lines:
  "RewritePushDNS conf servers = Join (place_dns (filter (\<lambda>ln. \<not> is_dns_push ln) (Split NL conf)) servers) [NL]"
  by (simp add: RewritePushDNS_def place_dns_def is_dns_push_def Let_def)

lemma dns_push_line_is: "is_dns_push (dns_push_line s)"
  using Contains_append_mid [of "[]" push_dns "'' '' @ s @ [DQ]"] by (simp add: is_dns_push_def dns_push_line_def)

lemma dns_push_line_NL: "NL \<notin> set s \<Longrightarrow> NL \<notin> set (dns_push_line s)"
  by (simp add: dns_push_line_def push_dns_def)

lemma place_dns_filter:
  assumes "\<forall>ln \<in> set out. \<not> is_dns_push ln"
  shows "filter (\<lambda>ln. \<not> is_dns_push ln) (place_dns out servers) = out"
    "filter is_dns_push (place_dns out servers) = map dns_push_line servers"
proof -
  have k: "filter (\<lambda>ln. \<not> is_dns_push ln) xs = xs" "filter is_dns_push xs = []" if "set xs \<subseteq> set out" for xs
    using that assms by (auto simp: filter_id_conv filter_empty_conv)
  have d: "filter (\<lambda>ln. \<not> is_dns_push ln) (map dns_push_line servers) = []"
    "filter is_dns_push (map dns_push_line servers) = map dns_push_line servers"
    using dns_push_line_is by (auto simp: filter_id_conv filter_empty_conv)
  have "set (take n out) \<subseteq> set out" "set (drop n out) \<subseteq> set out" for n
    by (rule set_take_subset, rule set_drop_subset)
  then show "filter (\<lambda>ln. \<not> is_dns_push ln) (place_dns out servers) = out"
    "filter is_dns_push (place_dns out servers) = map dns_push_line servers"
    unfolding place_dns_def by (simp_all add: k d split: option.splits)
qed

lemma place_dns_set: "set (place_dns out servers) = set out \<union> set (map dns_push_line servers)"
proof (cases "insert_after out")
  case (Some i)
  have "set (take (i + 1) out) \<union> set (drop (i + 1) out) = set out"
    by (metis append_take_drop_id set_append)
  with Some show ?thesis by (auto simp: place_dns_def)
qed (simp add: place_dns_def)

lemma Split_rewritten:
  assumes "filter (\<lambda>ln. \<not> is_dns_push ln) (Split NL conf) \<noteq> []" "\<forall>s \<in> set servers. NL \<notin> set s"
  shows "Split NL (RewritePushDNS conf servers) = place_dns (filter (\<lambda>ln. \<not> is_dns_push ln) (Split NL conf)) servers"
  unfolding RewritePushDNS_lines
proof (rule Split_Join)
  let ?out = "filter (\<lambda>ln. \<not> is_dns_push ln) (Split NL conf)"
  obtain l where "l \<in> set ?out" using assms(1) by (meson hd_in_set)
  then show "place_dns ?out servers \<noteq> []" using place_dns_set [of ?out servers] by force
  fix x assume "x \<in> set (place_dns ?out servers)"
  then show "NL \<notin> set x"
    using assms(2) Split_pieces [of _ NL conf] dns_push_line_NL by (auto simp: place_dns_set)
qed

text \<open>
  Rewriting the pushed DNS servers touches nothing else. As long as one other line remains, the
  rewritten configuration has the other lines unchanged and in order, its DNS lines are exactly the
  given servers in order, and a later rewrite replaces them as if the first had never been made.
\<close>

theorem push_dns_rewrite:
  assumes "filter (\<lambda>ln. \<not> is_dns_push ln) (Split NL conf) \<noteq> []" "\<forall>s \<in> set servers. NL \<notin> set s"
  shows "filter (\<lambda>ln. \<not> is_dns_push ln) (Split NL (RewritePushDNS conf servers))
      = filter (\<lambda>ln. \<not> is_dns_push ln) (Split NL conf)
    \<and> filter is_dns_push (Split NL (RewritePushDNS conf servers)) = map dns_push_line servers
    \<and> RewritePushDNS (RewritePushDNS conf servers) others = RewritePushDNS conf others"
proof -
  let ?out = "filter (\<lambda>ln. \<not> is_dns_push ln) (Split NL conf)"
  have f: "\<forall>ln \<in> set ?out. \<not> is_dns_push ln" by simp
  note s = Split_rewritten [OF assms] and p = place_dns_filter [OF f]
  show ?thesis unfolding s p unfolding RewritePushDNS_lines [of "RewritePushDNS conf servers"] s p
    by (simp add: RewritePushDNS_lines)
qed

definition sample_conf :: string where
  "sample_conf = ''port 1194'' @ [NL] @ ''server 10.8.0.0 255.255.255.0'' @ [NL] @ dns_push_line ''9.9.9.9'' @ [NL] @ ''verb 3''"

theorem push_dns_rewrite_witness:
  "RewritePushDNS (RewritePushDNS sample_conf [''1.1.1.1'']) [] = RewritePushDNS sample_conf []"
proof -
  have "filter (\<lambda>ln. \<not> is_dns_push ln) (Split NL sample_conf) \<noteq> [] \<and> (\<forall>s \<in> set [''1.1.1.1'']. NL \<notin> set s)" by code_simp
  with push_dns_rewrite [of sample_conf "[''1.1.1.1'']" "[]"] show ?thesis by blast
qed

subsection \<open>Failures\<close>

text \<open>
  A failed NAT change is rolled back. If \<open>SyncNATConfig\<close> reports an error in a healthy run, where
  the external \<open>nat apply\<close> leaves the configuration file and its directory alone, the configuration
  file reads as before the call.
\<close>

theorem nat_rollback:
  assumes "healthy w" "plain w p" "p = natConfigPath w" "\<not> tmp_path p"
    and "dir_ready w (butlast p)" "butlast p \<noteq> []"
    and command: "\<And>v r v'. natApply v = (r, v') \<Longrightarrow> frame (\<lambda>q. \<not> prefix q p) v v'"
    and sync: "SyncNATConfig natApply primary ports w = (Inl e, w')"
  shows "os_ReadFile w' p = os_ReadFile w p"
proof -
  obtain data where d: "os_ReadFile w p = Inr data" using sync assms(3) by (auto simp: SyncNATConfig_def Let_def split: sum.splits)
  let ?c = "nat_content (nat_enabled (Split NL data) True) primary ports"
  obtain r w1 where wr: "WriteFileAtomic p ?c perm_0644 w = (r, w1)" by fastforce
  note s = sync [unfolded SyncNATConfig_def assms(3) [symmetric] Let_def d sum.case wr prod.case]
  show ?thesis
  proof (cases r)
    case (Inl er)
    then have w': "w' = w1" using s by simp
    have f: "frame tmp_path w w'" using WriteFileAtomic_err wr Inl w' by blast
    from plain_frame [OF f assms(4)] frame_look [OF f assms(4)] frame_fault [OF f] assms(2)
    show ?thesis by (simp add: plain_ReadFile)
  next
    case (Inr u)
    then have w1: "w1 = put p (new_file w (butlast p) perm_0644 ?c) w" using wr WriteFileAtomic_ok by simp
    obtain a w2 where ap: "natApply w1 = (a, w2)" by fastforce
    obtain e' where a: "a = Inl e'" using s Inr ap by (cases a) (auto split: if_splits)
    note f2 = command [OF ap]
    let ?perm = "case os_Stat w2 p of Inr st \<Rightarrow> n_mode st AND 0x1FF | Inl _ \<Rightarrow> perm_0644"
    have w': "w' = snd (WriteFileAtomic p data ?perm w2)"
      using s Inr ap a by (simp add: Let_def split: if_splits)
    have p: "p \<noteq> []" "\<not> prefix p (butlast p)" using assms(6) by (auto dest!: prefix_length_le) (cases p; simp)+
    have f: "frame (\<lambda>q. \<not> prefix q p \<or> q = p) w w2"
    proof (rule frame_trans)
      show "frame (\<lambda>q. \<not> prefix q p \<or> q = p) w w1" unfolding w1 by (rule frame_put) simp
      show "frame (\<lambda>q. \<not> prefix q p \<or> q = p) w1 w2" using f2 by (rule frame_mono) simp
    qed
    have h2: "healthy w2" using assms(1) f by (rule healthy_frame)
    have "prefix q (butlast p) \<Longrightarrow> \<not> (\<not> prefix q p \<or> q = p)" for q
      using p(2) prefix_order.trans [OF _ prefixeq_butlast, of q p] by auto
    then have "dir_ready w2 (butlast p)" using dir_ready_frame [OF f] assms(5) by blast
    then obtain dn where dn: "look w2 (butlast p) = Some dn" "is_dir dn" using dir_ready_look assms(6) by blast
    have l2: "look w2 p = look w1 p" using frame_look [OF f2] by simp
    then have "\<not> is_dir nd" if "look w2 p = Some nd" for nd using that by (auto simp: w1 new_file_def is_dir_def)
    from WriteFileAtomic_ready [OF h2 dn p(1) this, of data ?perm]
    have "w' = put p (new_file w2 (butlast p) ?perm data) w2" unfolding w' by simp
    moreover from this have "plain w' p" by (simp add: plain_def new_file_def is_regular_def)
    ultimately show ?thesis using d h2 by (simp add: plain_ReadFile new_file_def)
  qed
qed

definition sample_nat :: world where
  "sample_nat = sample_world [root_dir [''etc''], root_file [''etc'', ''nat''] (''VPN_PRIMARY_PORT=1'' @ [NL])]
     \<lparr>w_env := [''OVNODE_NAT_CONF'' \<mapsto> ''/etc/nat'']\<rparr>"

theorem nat_rollback_witness:
  "os_ReadFile (snd (SyncNATConfig (\<lambda>w. (Inl (Err ''exit status 1''), w)) 1194 [443] sample_nat)) [''etc'', ''nat'']
     = Inr (''VPN_PRIMARY_PORT=1'' @ [NL])"
proof -
  let ?s = "SyncNATConfig (\<lambda>w. (Inl (Err ''exit status 1''), w)) 1194 [443] sample_nat"
  have "is_err ?s" by code_simp
  note s = is_errD [OF this]
  have h: "healthy sample_nat" by (simp add: healthy_def sample_nat_def sample_world_def)
  have p: "plain sample_nat [''etc'', ''nat'']" "\<not> tmp_path [''etc'', ''nat'']" "dir_ready sample_nat (butlast [''etc'', ''nat''])"
    "butlast [''etc'', ''nat''] \<noteq> []" by code_simp+
  have n: "[''etc'', ''nat''] = natConfigPath sample_nat" by code_simp
  have r: "os_ReadFile sample_nat [''etc'', ''nat''] = Inr (''VPN_PRIMARY_PORT=1'' @ [NL])" by code_simp
  show ?thesis unfolding r [symmetric]
    by (rule nat_rollback [OF h p(1) n p(2,3,4) _ s]) (simp add: frame_def)
qed

text \<open>
  A failed DNS change is reported as done. When the rename of the new file fails,
  \<open>WriteDNSState\<close> returns true, as after a successful change, although the DNS file is what it was.
\<close>

theorem dns_rename_failure_hidden:
  assumes "\<not> already w (DNSStatePath w) (Join ((if dns1 \<noteq> [] then [''dns1='' @ dns1] else [])
      @ (if dns2 \<noteq> [] then [''dns2='' @ dns2] else [])) [NL])"
    and "dir_ready w (OVNodeDir w)" "OVNodeDir w \<noteq> []"
    and "fault w = (\<lambda>op p. op = OpRename \<and> p = DNSStatePath w)"
  shows "\<exists>w'. WriteDNSState dns1 dns2 w = (True, w') \<and> look w' (DNSStatePath w) = look w (DNSStatePath w)"
proof -
  let ?p = "DNSStatePath w"
  have p: "butlast ?p = OVNodeDir w" by (simp add: DNSStatePath_def statePath_def)
  have nofault: "\<not> fault w OpStat q" "\<not> fault w OpCreateTemp q" "fault w OpRename ?p" for q using assms(4) by simp_all
  have m: "os_MkdirAll (OVNodeDir w) perm_0755 w = (Inr (), w)"
    by (rule os_MkdirAll_stat) (use nofault assms(2) in simp_all)
  obtain nd where nd: "look w (OVNodeDir w) = Some nd" "is_dir nd" using dir_ready_look assms(2,3) by blast
  then have s: "os_Stat w (OVNodeDir w) = Inr nd" using nofault by (simp add: os_Stat_def follow_max is_dir_def)
  have "look (put (fresh_name ''.dns-'' (w_fs w) (OVNodeDir w)) x w) ?p = look w ?p" for x
    using fresh_name_fresh [of w "''.dns-''" "OVNodeDir w"]
    by (auto simp: fresh_name_def DNSStatePath_def statePath_def)
  then show ?thesis using assms(1) nofault s nd(2)
    unfolding WriteDNSState_def Let_def unchecked_write_def p m snd_conv by simp
qed

definition sample_no_rename :: world where
  "sample_no_rename = sample_data\<lparr>w_fault := (\<lambda>op p. op = OpRename \<and> p = [''var'', ''lib'', ''ovnode'', ''dns''])\<rparr>"

theorem dns_rename_failure_hidden_witness:
  "\<exists>w'. WriteDNSState ''1.1.1.1'' [] sample_no_rename = (True, w') \<and> look w' [''var'', ''lib'', ''ovnode'', ''dns''] = None"
proof -
  let ?w = sample_no_rename
  have d: "DNSStatePath ?w = [''var'', ''lib'', ''ovnode'', ''dns'']" "OVNodeDir ?w = [''var'', ''lib'', ''ovnode'']" by code_simp+
  have r: "dir_ready ?w (OVNodeDir ?w)" "OVNodeDir ?w \<noteq> []" by code_simp+
  have l: "\<not> is_some (look ?w [''var'', ''lib'', ''ovnode'', ''dns''])" by code_simp
  have a: "\<not> already ?w (DNSStatePath ?w) (Join ((if ''1.1.1.1'' \<noteq> [] then [''dns1='' @ ''1.1.1.1''] else [])
      @ (if [] \<noteq> [] then [''dns2='' @ []] else [])) [NL])" by code_simp
  have f: "fault ?w = (\<lambda>op p. op = OpRename \<and> p = DNSStatePath ?w)" unfolding d by (simp add: sample_no_rename_def)
  from dns_rename_failure_hidden [OF a r f] show ?thesis using l unfolding d by (auto simp: is_some_def split: option.splits)
qed

end
