(* ===== verification/Auth.thy ===== *)
theory Auth
  imports Ratelimit Pairing
begin

text \<open>
  \<open>httpapi/auth.go\<close>: the gate in front of every route of the panel: API key, request limits, lease of
  the panel and contract version, in this order. \<open>authorize\<close> answers \<open>None\<close> when the request may go
  on, and the refusal otherwise. The hash \<open>H\<close> is SHA-256, in its two uses.

  The second half refines the gate to one on request histories and a lease, and bounds how often a
  wrong key is compared.
\<close>

subsection \<open>Requests and refusals\<close>

text \<open>A request: \<open>Header.Get\<close> and the connecting address.\<close>

record http_req =
  rq_header :: "string \<Rightarrow> string"
  rq_remote :: string

record http_resp =
  rs_status :: int
  rs_retry :: "string option"
  rs_body :: json

record Server =
  sv_key :: string
  sv_limiter :: Limiter

definition msg_no_key :: string where "msg_no_key = ''API key not configured''"
definition msg_missing :: string where "msg_missing = ''Missing API key''"
definition msg_rate :: string where "msg_rate = ''Rate limit exceeded''"
definition msg_blocked :: string where "msg_blocked = ''Too many failed authentication attempts''"
definition msg_invalid :: string where "msg_invalid = ''Invalid API key''"

definition msg_heavy :: string where
  "msg_heavy = ''Too many certificate operations '' @ [CHR 0xE2, CHR 0x80, CHR 0x94] @ '' slow down''"

definition msg_paired :: string where
  "msg_paired = ''Node is paired with another panel. Wait for the 30-minute lease or run `ovnode auth disconnect` on this node.''"

definition ContractVersion :: int where "ContractVersion = 3"

definition msg_contract :: "string \<Rightarrow> string" where
  "msg_contract cv = ''contract_version_mismatch: panel requires contract '' @ cv
     @ '' but this node implements contract '' @ Itoa ContractVersion
     @ '' '' @ [CHR 0xE2, CHR 0x80, CHR 0x94] @ '' update the node first''"

text \<open>The members of the body in the order of the encoder.\<close>

definition writeAuthError :: "int \<Rightarrow> string \<Rightarrow> string option \<Rightarrow> http_resp" where
  "writeAuthError status msg retry =
     \<lparr>rs_status = status, rs_retry = retry,
      rs_body = JObj ([(''data'', JNull)] @ (if status = 409 then [(''detail'', JStr msg)] else [])
                      @ [(''msg'', JStr msg), (''success'', JBool False)])\<rparr>"

definition retry_header :: "int \<Rightarrow> string option" where
  "retry_header retry = Some (Itoa (retry div second))"

definition keyEqual :: "(string \<Rightarrow> string) \<Rightarrow> string \<Rightarrow> string \<Rightarrow> bool" where
  "keyEqual H given apiKey \<longleftrightarrow> H given = H apiKey"

text \<open>\<open>net.SplitHostPort\<close>; \<open>None\<close> is its error.\<close>

definition SplitHostPort :: "string \<Rightarrow> (string \<times> string) option" where
  "SplitHostPort s = (case CutLast (CHR '':'') s of
      None \<Rightarrow> None
    | Some (before, port) \<Rightarrow>
        if hd s = CHR ''['' then
          (let inner = takeWhile (\<lambda>c. c \<noteq> CHR '']'') s in
           if CHR '']'' \<notin> set s \<or> length inner + 1 \<noteq> length before
              \<or> CHR ''['' \<in> set (tl s) \<or> CHR '']'' \<in> set (drop (length inner + 1) s)
           then None else Some (tl inner, port))
        else if CHR '':'' \<in> set before \<or> CHR ''['' \<in> set s \<or> CHR '']'' \<in> set s then None
        else Some (before, port))"

definition clientAddr :: "http_req \<Rightarrow> string" where
  "clientAddr r = (case SplitHostPort (rq_remote r) of None \<Rightarrow> rq_remote r | Some (host, _) \<Rightarrow> host)"

text \<open>Reconnecting from another port keeps the address the limits are keyed on.\<close>

lemma clientAddr_port:
  assumes "rq_remote r = host @ CHR '':'' # port" "host \<noteq> []"
    "set host \<inter> {CHR '':'', CHR ''['', CHR '']''} = {}" "set port \<inter> {CHR '':'', CHR ''['', CHR '']''} = {}"
  shows "clientAddr r = host"
proof -
  have "CutLast (CHR '':'') (rq_remote r) = Some (host, port)"
    unfolding assms(1) by (rule CutLast_append) (use assms(4) in auto)
  moreover have "hd (rq_remote r) \<noteq> CHR ''[''" using assms(1-3) by (cases host) auto
  ultimately show ?thesis using assms by (auto simp: clientAddr_def SplitHostPort_def)
qed

text \<open>The refusal of a contract version above the node's; an unreadable one is ignored.\<close>

definition contract_refusal :: "http_req \<Rightarrow> http_resp option" where
  "contract_refusal r =
     (let cv = TrimSpace (rq_header r ''X-Contract-Version'') in
      if cv = [] then None
      else case Atoi cv of
        None \<Rightarrow> None
      | Some n \<Rightarrow> if ContractVersion < n then Some (writeAuthError 409 (msg_contract cv) None) else None)"

text \<open>The clock of the limiter is \<open>w_nanos\<close>, the one of the lease \<open>w_now\<close>.\<close>

definition authorize ::
  "(string \<Rightarrow> string) \<Rightarrow> http_req \<Rightarrow> bool \<Rightarrow> Server \<Rightarrow> world \<Rightarrow> http_resp option \<times> Server \<times> world" where
  "authorize H r heavy sv w =
     (let given = rq_header r ''key''; now = w_nanos w; client = clientAddr r;
          refuse = (\<lambda>status msg retry l w. (Some (writeAuthError status msg retry), sv\<lparr>sv_limiter := l\<rparr>, w)) in
      if length (sv_key sv) < 16 then refuse 503 msg_no_key None (sv_limiter sv) w
      else if given = [] then refuse 401 msg_missing None (sv_limiter sv) w
      else case Allow H now client (sv_limiter sv) of ((ok, retry), l) \<Rightarrow>
      if \<not> ok then refuse 429 msg_rate (retry_header retry) l w
      else case FailedBlocked H now client l of ((blocked, retry), l) \<Rightarrow>
      if blocked then refuse 429 msg_blocked (retry_header retry) l w
      else if \<not> keyEqual H given (sv_key sv) then refuse 401 msg_invalid None (RecordFailedAuth H now client l) w
      else case AllowGlobal now l of ((ok, retry), l) \<Rightarrow>
      if \<not> ok then refuse 429 msg_rate (retry_header retry) l w
      else case (if heavy then AllowHeavy H now client l else ((True, 0), l)) of ((ok, retry), l) \<Rightarrow>
      if \<not> ok then refuse 429 msg_heavy (retry_header retry) l w
      else case Enforce (TrimSpace (rq_header r ''X-Panel-ID'')) w of
        (Inl _, w) \<Rightarrow> refuse 409 msg_paired None l w
      | (Inr _, w) \<Rightarrow> (contract_refusal r, sv\<lparr>sv_limiter := l\<rparr>, w))"

subsection \<open>The gate as a specification\<close>

text \<open>
  The state of the specification is the histories of admitted requests and the lease. Each check is
  decided on the state before the request; a request leaves a trace exactly in the checks it reached.
\<close>

record gate =
  g_hist :: history
  g_lease :: "Lease option"

definition gate_step ::
  "(string \<Rightarrow> string) \<Rightarrow> string \<Rightarrow> int \<Rightarrow> http_req \<times> bool \<Rightarrow> gate \<Rightarrow> http_resp option \<times> gate" where
  "gate_step H apiKey t rq g =
     (let (r, heavy) = rq; k = keyFor H (clientAddr r); s = g_hist g; given = rq_header r ''key'';
          v_client = verdict window maxRequests t (h_client s k);
          v_failed = verdict failedWindow failedMax t (h_failed s k);
          v_global = verdict window globalMax t (h_global s);
          v_heavy = (if heavy then verdict window heavyMax t (h_heavy s k) else (True, 0));
          lease = lease_step (t div second) (TrimSpace (rq_header r ''X-Panel-ID'')) (g_lease g);
          asked = 16 \<le> length apiKey \<and> given \<noteq> [];
          compared = asked \<and> fst v_client \<and> fst v_failed;
          known = compared \<and> keyEqual H given apiKey;
          heavy_ok = known \<and> fst v_global \<and> fst v_heavy
      in (if length apiKey < 16 then Some (writeAuthError 503 msg_no_key None)
          else if given = [] then Some (writeAuthError 401 msg_missing None)
          else if \<not> fst v_client then Some (writeAuthError 429 msg_rate (retry_header (snd v_client)))
          else if \<not> fst v_failed then Some (writeAuthError 429 msg_blocked (retry_header (snd v_failed)))
          else if \<not> known then Some (writeAuthError 401 msg_invalid None)
          else if \<not> fst v_global then Some (writeAuthError 429 msg_rate (retry_header (snd v_global)))
          else if \<not> fst v_heavy then Some (writeAuthError 429 msg_heavy (retry_header (snd v_heavy)))
          else if \<not> fst lease then Some (writeAuthError 409 msg_paired None)
          else contract_refusal r,
          g\<lparr>g_hist := s\<lparr>h_client := (if asked \<and> fst v_client then note_at t k (h_client s) else h_client s),
             h_heavy := (if heavy \<and> heavy_ok then note_at t k (h_heavy s) else h_heavy s),
             h_failed := (if compared \<and> \<not> known then note_at t k (h_failed s) else h_failed s),
             h_global := (if known \<and> fst v_global then h_global s @ [t] else h_global s)\<rparr>,
           g_lease := (if heavy_ok then snd lease else g_lease g)\<rparr>))"


subsection \<open>The gate keeps its specification\<close>

text \<open>The two sides, check by check, for a request that carries a key.\<close>

lemma authorize_stages:
  assumes "16 \<le> length (sv_key sv)" "rq_header r ''key'' \<noteq> []" "w_nanos w = t" "clientAddr r = c"
    "Allow H t c (sv_limiter sv) = (v1, l1)" "FailedBlocked H t c l1 = ((\<not> fst v2, snd v2), l2)"
    "AllowGlobal t l2 = (v3, l3)" "AllowHeavy H t c l3 = (v4, l4)"
  shows "authorize H r heavy sv w =
     (if \<not> fst v1 then (Some (writeAuthError 429 msg_rate (retry_header (snd v1))), sv\<lparr>sv_limiter := l1\<rparr>, w)
      else if \<not> fst v2 then (Some (writeAuthError 429 msg_blocked (retry_header (snd v2))), sv\<lparr>sv_limiter := l2\<rparr>, w)
      else if \<not> keyEqual H (rq_header r ''key'') (sv_key sv)
      then (Some (writeAuthError 401 msg_invalid None), sv\<lparr>sv_limiter := RecordFailedAuth H t c l2\<rparr>, w)
      else if \<not> fst v3 then (Some (writeAuthError 429 msg_rate (retry_header (snd v3))), sv\<lparr>sv_limiter := l3\<rparr>, w)
      else if heavy \<and> \<not> fst v4 then (Some (writeAuthError 429 msg_heavy (retry_header (snd v4))), sv\<lparr>sv_limiter := l4\<rparr>, w)
      else case Enforce (TrimSpace (rq_header r ''X-Panel-ID'')) w of
        (Inl _, w) \<Rightarrow> (Some (writeAuthError 409 msg_paired None), sv\<lparr>sv_limiter := if heavy then l4 else l3\<rparr>, w)
      | (Inr _, w) \<Rightarrow> (contract_refusal r, sv\<lparr>sv_limiter := if heavy then l4 else l3\<rparr>, w))"
  unfolding authorize_def Let_def assms(3,4)
  using assms(1,2) by (cases heavy; cases "fst (Enforce (TrimSpace (rq_header r ''X-Panel-ID'')) w)")
    (simp_all add: assms(5-8) case_prod_beta)

lemma gate_stages:
  assumes G: "gate_step H apiKey t (r, heavy) g = (out, g')"
    and "16 \<le> length apiKey" "rq_header r ''key'' \<noteq> []" "clientAddr r = c" "g_hist g = s"
    and le: "lease_step (t div second) (TrimSpace (rq_header r ''X-Panel-ID'')) (g_lease g) = le"
    and v1: "v1 = verdict window maxRequests t (h_client s (keyFor H c))"
    and v2: "v2 = verdict failedWindow failedMax t (h_failed s (keyFor H c))"
    and v3: "v3 = verdict window globalMax t (h_global s)"
    and v4: "v4 = verdict window heavyMax t (h_heavy s (keyFor H c))"
    and known: "known = keyEqual H (rq_header r ''key'') apiKey"
    and s1: "s1 = (if fst v1 then s\<lparr>h_client := note_at t (keyFor H c) (h_client s)\<rparr> else s)"
    and s3: "s3 = (if fst v3 then s1\<lparr>h_global := h_global s1 @ [t]\<rparr> else s1)"
  shows "out = (if \<not> fst v1 then Some (writeAuthError 429 msg_rate (retry_header (snd v1)))
      else if \<not> fst v2 then Some (writeAuthError 429 msg_blocked (retry_header (snd v2)))
      else if \<not> known then Some (writeAuthError 401 msg_invalid None)
      else if \<not> fst v3 then Some (writeAuthError 429 msg_rate (retry_header (snd v3)))
      else if heavy \<and> \<not> fst v4 then Some (writeAuthError 429 msg_heavy (retry_header (snd v4)))
      else if \<not> fst le then Some (writeAuthError 409 msg_paired None)
      else contract_refusal r)"
    and "g_lease g' = (if fst v1 \<and> fst v2 \<and> known \<and> fst v3 \<and> (heavy \<longrightarrow> fst v4) then snd le else g_lease g)"
    and "g_hist g' = (if \<not> fst v1 \<or> \<not> fst v2 then s1
      else if \<not> known then s1\<lparr>h_failed := note_at t (keyFor H c) (h_failed s)\<rparr>
      else if fst v3 \<and> fst v4 \<and> heavy then s3\<lparr>h_heavy := note_at t (keyFor H c) (h_heavy s3)\<rparr> else s3)"
  using G [unfolded gate_step_def Let_def prod.case assms(4,5) le, folded v1 v2 v3 v4 known, symmetric] assms(2,3)
  by (auto simp: s1 s3)

lemma authorize_gate:
  assumes sim: "sim K t (sv_limiter sv) (g_hist g)" and key: "keyFor H (clientAddr r) \<in> K"
    and clock: "w_nanos w = t" "w_now w = t div second"
    and lease: "lease_ready w" "read_lease w (pairingPath w) = Inr (g_lease g)" "lease_ok (g_lease g)"
      "ascii (TrimSpace (rq_header r ''X-Panel-ID''))"
    and G: "gate_step H (sv_key sv) t (r, heavy) g = (out, g')"
  obtains l w' where "authorize H r heavy sv w = (out, sv\<lparr>sv_limiter := l\<rparr>, w')"
    "sim K t l (g_hist g')" "lease_ready w'" "read_lease w' (pairingPath w) = Inr (g_lease g')" "same_env w w'"
proof (cases "16 \<le> length (sv_key sv) \<and> rq_header r ''key'' \<noteq> []")
  case False
  then show thesis using sim lease G
    by (intro that [of "sv_limiter sv" w]) (auto simp: authorize_def gate_step_def Let_def)
next
  case asked: True
  define s where "s = g_hist g"
  let ?k = "keyFor H (clientAddr r)"
  define v1 where "v1 = verdict window maxRequests t (h_client s ?k)"
  define v2 where "v2 = verdict failedWindow failedMax t (h_failed s ?k)"
  define v3 where "v3 = verdict window globalMax t (h_global s)"
  define v4 where "v4 = verdict window heavyMax t (h_heavy s ?k)"
  define s1 where "s1 = (if fst v1 then s\<lparr>h_client := note_at t ?k (h_client s)\<rparr> else s)"
  define s3 where "s3 = (if fst v3 then s1\<lparr>h_global := h_global s1 @ [t]\<rparr> else s1)"
  define panel where "panel = TrimSpace (rq_header r ''X-Panel-ID'')"
  define le where "le = lease_step (t div second) panel (g_lease g)"
  define known where "known = keyEqual H (rq_header r ''key'') (sv_key sv)"
  have h: "h_failed s1 = h_failed s" "h_global s1 = h_global s" "h_heavy s3 = h_heavy s"
    by (simp_all add: s1_def s3_def)
  have sim: "sim K t (sv_limiter sv) s" using sim by (simp add: s_def)
  obtain l1 where o1: "Allow H t (clientAddr r) (sv_limiter sv) = (v1, l1)" and S1: "sim K t l1 s1"
    using Allow_agree [OF sim key]
    by (cases "Allow H t (clientAddr r) (sv_limiter sv)") (simp add: agree_def Let_def v1_def s1_def)
  obtain l2 where o2: "FailedBlocked H t (clientAddr r) l1 = ((\<not> fst v2, snd v2), l2)" and S2: "sim K t l2 s1"
    using FailedBlocked_agree [OF S1 key]
    by (cases "FailedBlocked H t (clientAddr r) l1") (simp add: agree_def Let_def v2_def h)
  have S2': "sim K t (RecordFailedAuth H t (clientAddr r) l2) (s1\<lparr>h_failed := note_at t ?k (h_failed s)\<rparr>)"
    using RecordFailedAuth_agree [OF S2 key] by (simp add: agree_def h)
  obtain l3 where o3: "AllowGlobal t l2 = (v3, l3)" and S3: "sim K t l3 s3"
    using AllowGlobal_agree [OF S2, of H] by (cases "AllowGlobal t l2") (simp add: agree_def Let_def v3_def s3_def h(2))
  obtain l4 where o4: "AllowHeavy H t (clientAddr r) l3 = (v4, l4)"
    and S4: "sim K t l4 (if fst v4 then s3\<lparr>h_heavy := note_at t ?k (h_heavy s3)\<rparr> else s3)"
    using AllowHeavy_agree [OF S3 key]
    by (cases "AllowHeavy H t (clientAddr r) l3") (simp add: agree_def Let_def v4_def h(3) cong: if_cong)
  note R = authorize_stages [OF asked [THEN conjunct1] asked [THEN conjunct2] clock(1) refl o1 o2 o3 o4,
      of heavy, folded known_def panel_def]
    gate_stages [OF G asked [THEN conjunct1] asked [THEN conjunct2] refl s_def [symmetric] le_def [symmetric, unfolded panel_def]
      v1_def v2_def v3_def v4_def known_def s1_def s3_def,
      folded panel_def]
    S1 S2 S2' S3 S4 lease
  consider "\<not> fst v1" | "fst v1 \<and> \<not> fst v2" | "fst v1 \<and> fst v2 \<and> \<not> known"
    | "fst v1 \<and> fst v2 \<and> known \<and> \<not> fst v3" | "fst v1 \<and> fst v2 \<and> known \<and> fst v3 \<and> heavy \<and> \<not> fst v4"
    | "fst v1 \<and> fst v2 \<and> known \<and> fst v3 \<and> (heavy \<longrightarrow> fst v4)" by blast
  then show thesis
  proof cases
    case 1 then show thesis using R by (intro that [of l1 w]) simp_all
  next
    case 2 then show thesis using R by (intro that [of l2 w]) simp_all
  next
    case 3 then show thesis using R by (intro that [of "RecordFailedAuth H t (clientAddr r) l2" w]) simp_all
  next
    case 4 then show thesis using R by (intro that [of l3 w]) simp_all
  next
    case 5 then show thesis using R by (intro that [of l4 w]) simp_all
  next
    case 6
    obtain w' where "Enforce panel w = (if fst le then Inr () else Inl ErrPermission, w')"
      "read_lease w' (pairingPath w) = Inr (snd le)" "lease_ready w'" "same_env w w'"
      using Enforce_lease [OF lease(1-3), of panel "fst le" "snd le"] lease(4) clock(2) by (auto simp: panel_def le_def)
    then show thesis
      using 6 R by (cases heavy; cases "fst le"; intro that [of "if heavy then l4 else l3" w']) simp_all
  qed
qed

subsection \<open>Sequences of requests\<close>

text \<open>A request that arrives \<open>t\<close> nanoseconds after the epoch.\<close>

definition at_time :: "int \<Rightarrow> world \<Rightarrow> world" where
  "at_time t w = w\<lparr>w_now := t div second, w_nanos := t\<rparr>"

fun authorize_run :: "(string \<Rightarrow> string) \<Rightarrow> (int \<times> http_req \<times> bool) list \<Rightarrow> Server \<Rightarrow> world \<Rightarrow> http_resp option list" where
  "authorize_run H [] sv w = []"
| "authorize_run H ((t, r, heavy) # tr) sv w =
     (case authorize H r heavy sv (at_time t w) of (out, sv, w) \<Rightarrow> out # authorize_run H tr sv w)"

fun gate_run :: "(string \<Rightarrow> string) \<Rightarrow> string \<Rightarrow> (int \<times> http_req \<times> bool) list \<Rightarrow> gate \<Rightarrow> http_resp option list" where
  "gate_run H apiKey [] g = []"
| "gate_run H apiKey ((t, rq) # tr) g = (case gate_step H apiKey t rq g of (out, g) \<Rightarrow> out # gate_run H apiKey tr g)"

text \<open>Times in order, in the range of the clock; readable panel names; not too many clients.\<close>

definition fair_requests :: "(string \<Rightarrow> string) \<Rightarrow> (int \<times> http_req \<times> bool) list \<Rightarrow> bool" where
  "fair_requests H tr \<longleftrightarrow> sorted (map fst tr)
     \<and> list_all (\<lambda>(t, r, _). 0 \<le> t \<and> t < 2 ^ 63 \<and> ascii (TrimSpace (rq_header r ''X-Panel-ID''))) tr
     \<and> int (length (remdups (map (\<lambda>e. keyFor H (clientAddr (fst (snd e)))) tr))) < maxBuckets"

lemma at_time_ready:
  "read_lease (at_time t w) p = read_lease w p" "pairingPath (at_time t w) = pairingPath w"
  "lease_ready w \<Longrightarrow> 0 \<le> t \<Longrightarrow> t < 2 ^ 63 \<Longrightarrow> lease_ready (at_time t w)"
proof -
  let ?u = "w\<lparr>w_nanos := t\<rparr>"
  have a: "at_time t w = ?u\<lparr>w_now := t div second\<rparr>" by (simp add: at_time_def)
  have rd: "read_lease ?u q = read_lease w q" for q by (simp add: read_lease_def os_ReadFile_def)
  have "w_env ?u = w_env w" "w_envfile ?u = w_envfile w" by simp_all
  then have "envOr ?u n f = envOr w n f" for n f unfolding envOr_def by (simp only:)
  then have d: "OVNodeDir ?u = OVNodeDir w" by (simp add: OVNodeDir_def)
  then have pp: "pairingPath ?u = pairingPath w" by (simp add: pairingPath_def)
  have "dirs_ok ?u cur ps = dirs_ok w cur ps" for cur ps
    by (induction ps arbitrary: cur) (auto simp: openat_dir_def split: sum.splits)
  then have "lease_ready w \<Longrightarrow> lease_ready ?u"
    using d pp by (simp add: lease_ready_def healthy_def dir_ready_def plain_def lease_lock_def)
  then show "read_lease (at_time t w) p = read_lease w p" "pairingPath (at_time t w) = pairingPath w"
    "lease_ready w \<Longrightarrow> 0 \<le> t \<Longrightarrow> t < 2 ^ 63 \<Longrightarrow> lease_ready (at_time t w)"
    using retime [where w = ?u and t = "t div second"] rd pp unfolding a by (simp_all add: second_def)
qed

lemma gate_lease_ok:
  assumes "gate_step H apiKey t (r, heavy) g = (out, g')" "lease_ok (g_lease g)" "0 \<le> t" "t < 2 ^ 63"
  shows "lease_ok (g_lease g')"
  using assms lease_step_ok [of "g_lease g" "t div second"]
  by (auto simp: gate_step_def Let_def second_def)

lemma authorize_run_gate:
  assumes "sim K now (sv_limiter sv) (g_hist g)" "lease_ready w" "read_lease w (pairingPath w) = Inr (g_lease g)"
    "lease_ok (g_lease g)" "sorted (now # map fst tr)"
    "list_all (\<lambda>(t, r, _). 0 \<le> t \<and> t < 2 ^ 63 \<and> ascii (TrimSpace (rq_header r ''X-Panel-ID''))
       \<and> keyFor H (clientAddr r) \<in> K) tr"
  shows "authorize_run H tr sv w = gate_run H (sv_key sv) tr g"
  using assms
proof (induction tr arbitrary: now sv w g)
  case (Cons e tr)
  obtain t r heavy where e: "e = (t, r, heavy)" by (cases e) auto
  have t: "0 \<le> t" "t < 2 ^ 63" "now \<le> t" using Cons.prems(5,6) e by auto
  obtain out g' where G: "gate_step H (sv_key sv) t (r, heavy) g = (out, g')" by fastforce
  obtain l w' where o: "authorize H r heavy sv (at_time t w) = (out, sv\<lparr>sv_limiter := l\<rparr>, w')"
    "sim K t l (g_hist g')" "lease_ready w'" "read_lease w' (pairingPath w) = Inr (g_lease g')" "same_env (at_time t w) w'"
    by (rule authorize_gate [OF sim_later [OF Cons.prems(1) t(3)] _ _ _ at_time_ready(3) [OF Cons.prems(2) t(1,2)] _ Cons.prems(4) _ G])
       (use Cons.prems(3,6) e in \<open>simp_all add: at_time_ready(1,2), simp_all add: at_time_def\<close>)
  have "authorize_run H tr (sv\<lparr>sv_limiter := l\<rparr>) w' = gate_run H (sv_key (sv\<lparr>sv_limiter := l\<rparr>)) tr g'"
    by (rule Cons.IH [of t]) (use o pairing_env(2) [OF o(5)] at_time_ready(2) [of t w] gate_lease_ok [OF G Cons.prems(4) t(1,2)] Cons.prems(5,6) e in auto)
  then show ?case by (simp add: e o(1) G)
qed simp

lemma fair_run:
  assumes "fair_requests H tr" "sv_limiter sv = New" "lease_ready w" "read_lease w (pairingPath w) = Inr rec" "lease_ok rec"
  shows "authorize_run H tr sv w = gate_run H (sv_key sv) tr \<lparr>g_hist = no_history, g_lease = rec\<rparr>"
proof (cases tr)
  case (Cons e tr')
  let ?keys = "map (\<lambda>e. keyFor H (clientAddr (fst (snd e)))) tr"
  have "card (set ?keys) = length (remdups ?keys)" by (simp add: length_remdups_card_conv)
  then have "sim (set ?keys) (fst e) (sv_limiter sv) no_history"
    using assms(1,2) by (simp add: sim_New fair_requests_def)
  then show ?thesis
    by (intro authorize_run_gate [where K = "set ?keys" and now = "fst e"])
       (use assms Cons in \<open>auto simp: fair_requests_def list_all_iff case_prod_beta\<close>)
qed simp

subsection \<open>Properties\<close>

text \<open>
  Only the owner of the key and of the lease gets in. Whatever the state of the node, a request
  that \<open>authorize\<close> lets through carries a key with the hash of the node's key of at least 16 bytes,
  its panel has just been accepted by the pairing, and it does not ask for a contract above the node's.
\<close>

theorem authorized_sound:
  assumes "authorize H r heavy sv w = (None, sv', w')"
  shows "16 \<le> length (sv_key sv) \<and> H (rq_header r ''key'') = H (sv_key sv)
    \<and> Enforce (TrimSpace (rq_header r ''X-Panel-ID'')) w = (Inr (), w')
    \<and> (case Atoi (TrimSpace (rq_header r ''X-Contract-Version'')) of None \<Rightarrow> True | Some n \<Rightarrow> n \<le> 3)"
proof -
  have "16 \<le> length (sv_key sv) \<and> H (rq_header r ''key'') = H (sv_key sv)
      \<and> Enforce (TrimSpace (rq_header r ''X-Panel-ID'')) w = (Inr (), w') \<and> contract_refusal r = None"
    using assms by (auto simp: authorize_def Let_def keyEqual_def split: if_splits prod.splits sum.splits)
  moreover have "contract_refusal r = None \<Longrightarrow> case Atoi (TrimSpace (rq_header r ''X-Contract-Version'')) of None \<Rightarrow> True | Some n \<Rightarrow> n \<le> 3"
    by (auto simp: contract_refusal_def Let_def ContractVersion_def Atoi_def ParseInt_def all_digits_def split: if_splits option.splits)
  ultimately show ?thesis by blast
qed

definition sample_request :: "string \<Rightarrow> string \<Rightarrow> string \<Rightarrow> http_req" where
  "sample_request key panel version = \<lparr>rq_header = (\<lambda>h. if h = ''key'' then key else if h = ''X-Panel-ID'' then panel
      else if h = ''X-Contract-Version'' then version else []), rq_remote = ''10.0.0.9:4711''\<rparr>"

definition sample_key :: string where "sample_key = ''0123456789abcdef''"

definition sample_server :: Server where
  "sample_server = \<lparr>sv_key = sample_key, sv_limiter = New\<rparr>"

definition sample_requests :: "(int \<times> http_req \<times> bool) list" where
  "sample_requests = [(100000000000, sample_request ''wrong'' ''blue'' [], False),
     (100000000001, sample_request sample_key ''blue'' ''3'', True), (100000000002, sample_request sample_key ''red'' [], False),
     (100000000003, sample_request sample_key ''blue'' ''4'', False)]"

lemma sample_requests_fair: "fair_requests id sample_requests"
  unfolding fair_requests_def by (intro conjI; code_simp)

definition sample_gate :: gate where
  "sample_gate = \<lparr>g_hist = no_history, g_lease = Some \<lparr>le_panel = ''blue'', le_seen = 30\<rparr>\<rparr>"

lemma sample_gate_run:
  "gate_run id sample_key sample_requests sample_gate =
     [Some (writeAuthError 401 msg_invalid None), None, Some (writeAuthError 409 msg_paired None),
      Some (writeAuthError 409 (msg_contract ''4'') None)]"
  by code_simp

theorem authorized_sound_witness:
  "\<exists>w'. Enforce ''blue'' (at_time 100000000001 sample_pairing) = (Inr (), w')"
proof -
  let ?r = "sample_request sample_key ''blue'' ''3''" and ?v = "at_time 100000000001 sample_pairing"
  have f: "fair_requests id [(100000000001, ?r, True)]" unfolding fair_requests_def by (intro conjI; code_simp)
  have g: "gate_run id sample_key [(100000000001, ?r, True)] sample_gate = [None]" by code_simp
  have sv: "sv_limiter sample_server = New" "sv_key sample_server = sample_key" by (simp_all add: sample_server_def)
  have "authorize_run id [(100000000001, ?r, True)] sample_server sample_pairing = [None]"
    using fair_run [OF f sv(1) sample_pairing_ok(1-3)] g by (simp add: sv(2) sample_gate_def)
  then obtain sv' w' where "authorize id ?r True sample_server ?v = (None, sv', w')"
    by (auto split: prod.splits)
  from authorized_sound [OF this] have "Enforce (TrimSpace (rq_header ?r ''X-Panel-ID'')) ?v = (Inr (), w')" by blast
  moreover have "TrimSpace (rq_header ?r ''X-Panel-ID'') = ''blue''" by code_simp
  ultimately show ?thesis by auto
qed




text \<open>
  A wrong key harms nobody else. A request whose key has another hash is refused, leaves the files
  - the lease included - alone, and as far as any later decision can tell changes no request window but
  the two of its own address: the global window, the heavy windows and those of other addresses stay.
\<close>

theorem wrong_key_harmless:
  assumes "sim K (w_nanos w) (sv_limiter sv) s" "keyFor H (clientAddr r) \<in> K"
    and "H (rq_header r ''key'') \<noteq> H (sv_key sv)"
  shows "case authorize H r heavy sv w of (out, sv', w') \<Rightarrow> out \<noteq> None \<and> w' = w \<and>
     (\<exists>s'. sim K (w_nanos w) (sv_limiter sv') s' \<and> h_global s' = h_global s \<and> h_heavy s' = h_heavy s
       \<and> (\<forall>k. k \<noteq> keyFor H (clientAddr r) \<longrightarrow> h_client s' k = h_client s k \<and> h_failed s' k = h_failed s k))"
proof (cases "16 \<le> length (sv_key sv) \<and> rq_header r ''key'' \<noteq> []")
  case False
  then show ?thesis using assms(1) by (auto simp: authorize_def Let_def)
next
  case asked: True
  let ?t = "w_nanos w" and ?c = "clientAddr r"
  define s1 where "s1 = snd (spec_step H ?t (RAllow ?c) s)"
  define s2 where "s2 = snd (spec_step H ?t (RRecord ?c) s1)"
  obtain v1 l1 where o1: "Allow H ?t ?c (sv_limiter sv) = (v1, l1)" by fastforce
  obtain b2 q2 l2 where "FailedBlocked H ?t ?c l1 = ((b2, q2), l2)" by (metis surj_pair)
  then have o2: "FailedBlocked H ?t ?c l1 = ((\<not> fst (\<not> b2, q2), snd (\<not> b2, q2)), l2)" by simp
  have S1: "sim K ?t l1 s1" using Allow_agree [OF assms(1,2)] o1 by (simp add: agree_def s1_def)
  have S2: "sim K ?t l2 s1" using FailedBlocked_agree [OF S1 assms(2)] o2 by (simp add: agree_def Let_def)
  have S3: "sim K ?t (RecordFailedAuth H ?t ?c l2) s2" using RecordFailedAuth_agree [OF S2 assms(2)] by (simp add: agree_def s2_def)
  have h: "h_global s1 = h_global s" "h_heavy s1 = h_heavy s" "h_global s2 = h_global s" "h_heavy s2 = h_heavy s"
    "k \<noteq> keyFor H ?c \<Longrightarrow> h_client s1 k = h_client s k \<and> h_failed s1 k = h_failed s k
       \<and> h_client s2 k = h_client s k \<and> h_failed s2 k = h_failed s k" for k
    by (simp_all add: s1_def s2_def Let_def note_at_def)
  obtain v3 l3 v4 l4 where o3: "AllowGlobal ?t l2 = (v3, l3)" "AllowHeavy H ?t ?c l3 = (v4, l4)" by fastforce
  note E = authorize_stages [OF asked [THEN conjunct1] asked [THEN conjunct2] refl refl o1 o2 o3, of heavy]
  have "\<not> keyEqual H (rq_header r ''key'') (sv_key sv)" using assms(3) by (simp add: keyEqual_def)
  then consider (a) "\<not> fst v1" | (b) "fst v1" "b2" | (c) "fst v1" "\<not> b2" "\<not> keyEqual H (rq_header r ''key'') (sv_key sv)"
    by blast
  then show ?thesis
  proof cases
    case a
    then show ?thesis using E S1 h by (auto intro: exI [of _ s1])
  next
    case b
    then show ?thesis using E S2 h by (auto intro: exI [of _ s1])
  next
    case c
    then show ?thesis using E S3 h by (auto intro: exI [of _ s2])
  qed
qed


theorem wrong_key_harmless_witness:
  "case authorize id (sample_request ''wrong'' ''blue'' []) False sample_server sample_pairing of
     (out, sv', w') \<Rightarrow> out \<noteq> None \<and> w' = sample_pairing"
proof -
  let ?r = "sample_request ''wrong'' ''blue'' []"
  have "id (rq_header ?r ''key'') \<noteq> id (sv_key sample_server)" by code_simp
  moreover have "sim {keyFor id (clientAddr ?r)} (w_nanos sample_pairing) (sv_limiter sample_server) no_history"
    unfolding sample_server_def Server.simps by (rule sim_New) (simp_all add: maxBuckets_def)
  ultimately show ?thesis using wrong_key_harmless [of _ sample_pairing sample_server _ id ?r False] by fastforce
qed

text \<open>Refusals differ when their status or message does.\<close>

lemma writeAuthError_eq:
  "writeAuthError a m x = writeAuthError b n y \<longleftrightarrow> a = b \<and> m = n \<and> x = y"
  by (auto simp: writeAuthError_def)

definition invalid_key :: http_resp where
  "invalid_key = writeAuthError 401 msg_invalid None"

lemma invalid_key_only:
  "writeAuthError a m x \<noteq> invalid_key" if "a \<noteq> 401 \<or> m = msg_missing"
proof -
  have "msg_missing \<noteq> msg_invalid" by code_simp
  with that show ?thesis by (auto simp: invalid_key_def writeAuthError_eq)
qed

lemma contract_not_invalid: "contract_refusal r \<noteq> Some invalid_key"
  using invalid_key_only by (auto simp: contract_refusal_def Let_def split: option.splits)

text \<open>A wrong key is compared only while the window of failures admits it, and is then recorded.\<close>

lemma failed_step:
  assumes "keyFor H c = k" "gate_step H apiKey t (r, heavy) g = (out, g')"
  shows "h_failed (g_hist g') k = h_failed (g_hist g) k \<and> \<not> (clientAddr r = c \<and> out = Some invalid_key)
    \<or> fst (verdict failedWindow failedMax t (h_failed (g_hist g) k)) \<and> h_failed (g_hist g') k = h_failed (g_hist g) k @ [t]"
proof (cases "16 \<le> length apiKey \<and> rq_header r ''key'' \<noteq> []")
  case False
  then have "out = (if length apiKey < 16 then Some (writeAuthError 503 msg_no_key None) else Some (writeAuthError 401 msg_missing None))"
    "g_hist g' = g_hist g"
    using assms(2) by (auto simp: gate_step_def Let_def)
  then show ?thesis by (simp add: invalid_key_only)
next
  case asked: True
  note S = gate_stages [OF assms(2) asked [THEN conjunct1] asked [THEN conjunct2] refl refl refl refl refl refl refl refl refl refl]
  show ?thesis
  proof (cases "keyFor H (clientAddr r) = k")
    case True
    show ?thesis unfolding S(1,3) True
      by (simp add: invalid_key_only contract_not_invalid note_at_def)
  next
    case False
    then have "clientAddr r \<noteq> c" using assms(1) by blast
    with False show ?thesis unfolding S(3) by (simp add: note_at_def)
  qed
qed

text \<open>The run of the gate as the contract of the windows wants it.\<close>

definition probe_step ::
  "(string \<Rightarrow> string) \<Rightarrow> string \<Rightarrow> int \<Rightarrow> http_req \<times> bool \<Rightarrow> gate \<Rightarrow> (bool \<times> int) \<times> gate" where
  "probe_step H apiKey t rq g = (case gate_step H apiKey t rq g of (out, g') \<Rightarrow> ((out = Some invalid_key, 0), g'))"

lemma run_probe: "run (probe_step H apiKey) tr g = map (\<lambda>out. (out = Some invalid_key, 0)) (gate_run H apiKey tr g)"
  by (induction tr arbitrary: g) (auto simp: probe_step_def split: prod.splits)




text \<open>
  The check \<open>FailedBlocked\<close> and the record \<open>RecordFailedAuth\<close> are two critical sections, and requests are
  served concurrently: any number of requests may pass the check before the first failure is recorded.
\<close>

theorem guesses_race:
  "take n (run (limit_serve H) (replicate n (t, RBlocked c) @ replicate n (t, RRecord c)) New) = replicate n (False, 0)"
proof -
  have "limit_serve H t (RBlocked c) New = ((False, 0), New)" by (simp add: FailedBlocked_def New_def)
  then have "run (limit_serve H) (replicate n (t, RBlocked c) @ tr) New = replicate n (False, 0) @ run (limit_serve H) tr New" for n tr
    by (induction n) simp_all
  then show ?thesis by simp
qed

end
