(* ===== verification/Ring.thy ===== *)
theory Ring
  imports Prelude
begin

text \<open>
  \<open>logging/ring.go\<close>: the last log records of the agent, kept in memory for the panel.

  A time stamp is the count of nanoseconds (the code stores it as a float of seconds, whose rounding of
  less than a microsecond is not modelled). The text of a time, which depends on the zone of the host, is
  the parameter \<open>fmt\<close>; the place of the call and the formatted message are arguments.
\<close>

definition RingSize :: nat where "RingSize = 500"

record Record =
  rc_ts :: int
  rc_time :: string
  rc_level :: string
  rc_levelno :: int
  rc_logger :: string
  rc_where :: string
  rc_message :: string

record logs =
  lg_records :: "Record list"
  lg_stderr :: "string list"

definition no_logs :: logs where
  "no_logs = \<lparr>lg_records = [], lg_stderr = []\<rparr>"

definition levelNo :: "string \<Rightarrow> int" where
  "levelNo name = (if name = ''DEBUG'' then 10 else if name = ''INFO'' then 20
     else if name = ''WARNING'' then 30 else if name = ''ERROR'' then 40 else 30)"

definition ring_add :: "Record \<Rightarrow> Record list \<Rightarrow> Record list" where
  "ring_add rec rs = (let rs = rs @ [rec] in if RingSize < length rs then drop (length rs - RingSize) rs else rs)"

definition new_record :: "(int \<Rightarrow> string) \<Rightarrow> int \<Rightarrow> string \<Rightarrow> string \<Rightarrow> string \<Rightarrow> Record" where
  "new_record fmt now level place message =
     \<lparr>rc_ts = now, rc_time = fmt now, rc_level = level, rc_levelno = levelNo level, rc_logger = ''ovnode'',
      rc_where = place, rc_message = message\<rparr>"

definition pad7 :: "string \<Rightarrow> string" where
  "pad7 s = s @ replicate (7 - length s) (CHR '' '')"

definition emit :: "(int \<Rightarrow> string) \<Rightarrow> int \<Rightarrow> string \<Rightarrow> string \<Rightarrow> string \<Rightarrow> logs \<Rightarrow> logs" where
  "emit fmt now level place message lg =
     lg\<lparr>lg_records := ring_add (new_record fmt now level place message) (lg_records lg),
        lg_stderr := lg_stderr lg @ [fmt now @ '' '' @ pad7 level @ '' ovnode '' @ place @ '' ''
          @ [CHR 0xE2, CHR 0x80, CHR 0x94] @ '' '' @ message @ [NL]]\<rparr>"

definition clamp_limit :: "int \<Rightarrow> nat" where
  "clamp_limit limit = (let limit = (if limit < 1 then 1 else limit)
     in nat (if int RingSize < limit then int RingSize else limit))"

definition Recent :: "string \<Rightarrow> int \<Rightarrow> logs \<Rightarrow> Record list" where
  "Recent minLevel limit lg =
     (let n = clamp_limit limit; out = filter (\<lambda>r. levelNo minLevel \<le> rc_levelno r) (lg_records lg)
      in if n < length out then drop (length out - n) out else out)"

text \<open>Errors, warnings and the text of the newest error of the last hour.\<close>

fun stats_from :: "int \<Rightarrow> Record list \<Rightarrow> nat \<times> nat \<times> string \<Rightarrow> nat \<times> nat \<times> string" where
  "stats_from cutoff [] acc = acc"
| "stats_from cutoff (r # rs) (errors, warnings, lastError) =
     stats_from cutoff rs
       (if rc_ts r < cutoff then (errors, warnings, lastError)
        else if levelNo ''ERROR'' \<le> rc_levelno r then (errors + 1, warnings, rc_time r @ '' '' @ rc_message r)
        else if levelNo ''WARNING'' \<le> rc_levelno r then (errors, warnings + 1, lastError)
        else (errors, warnings, lastError))"

definition Stats :: "int \<Rightarrow> logs \<Rightarrow> nat \<times> nat \<times> string" where
  "Stats now lg = stats_from (now - 3600 * 10 ^ 9) (lg_records lg) (0, 0, [])"

subsection \<open>The buffer is the end of the log\<close>

definition last_n :: "nat \<Rightarrow> 'a list \<Rightarrow> 'a list" where
  "last_n n xs = drop (length xs - n) xs"

lemma last_n_snoc: "0 < n \<Longrightarrow> last_n n (last_n n xs @ [x]) = last_n n (xs @ [x])"
  by (cases "n \<le> length xs") (auto simp: last_n_def Suc_diff_le)

lemma last_n_append: "length ys \<le> n \<Longrightarrow> last_n n (xs @ ys) = last_n (n - length ys) xs @ ys"
  by (simp add: last_n_def diff_diff_left add.commute)

lemma ring_add_last: "ring_add rec rs = last_n RingSize (rs @ [rec])"
  by (auto simp: ring_add_def last_n_def Let_def)

lemma Recent_last: "Recent lvl limit lg = last_n (clamp_limit limit) (filter (\<lambda>r. levelNo lvl \<le> rc_levelno r) (lg_records lg))"
  by (auto simp: Recent_def last_n_def Let_def)

text \<open>A log call: its time, level, place and message.\<close>

type_synonym call = "int \<times> string \<times> string \<times> string"

fun log_run :: "(int \<Rightarrow> string) \<Rightarrow> call list \<Rightarrow> logs \<Rightarrow> logs" where
  "log_run fmt [] lg = lg"
| "log_run fmt ((now, level, place, message) # cs) lg = log_run fmt cs (emit fmt now level place message lg)"

definition call_record :: "(int \<Rightarrow> string) \<Rightarrow> call \<Rightarrow> Record" where
  "call_record fmt c = (case c of (now, level, place, message) \<Rightarrow> new_record fmt now level place message)"

lemma log_run_records:
  "lg_records lg = last_n RingSize hs \<Longrightarrow> lg_records (log_run fmt cs lg) = last_n RingSize (hs @ map (call_record fmt) cs)"
proof (induction cs arbitrary: lg hs)
  case (Cons c cs)
  obtain now level place message where c: "c = (now, level, place, message)" by (cases c) auto
  have "lg_records (emit fmt now level place message lg) = last_n RingSize (hs @ [call_record fmt c])"
    unfolding emit_def ring_add_last using Cons.prems c
    by (simp add: last_n_snoc RingSize_def call_record_def)
  from Cons.IH [OF this] show ?case by (simp add: c)
qed simp

text \<open>
  The ring refines the whole log: after any number of log calls it holds the records of the last 500
  calls in their order, and standard error got a line for every call.
\<close>

lemma ring_holds_the_end:
  "lg_records (log_run fmt cs no_logs) = last_n 500 (map (call_record fmt) cs)
   \<and> length (lg_stderr (log_run fmt cs no_logs)) = length cs"
proof -
  have "length (lg_stderr (log_run fmt cs lg)) = length (lg_stderr lg) + length cs" for lg
    by (induction cs arbitrary: lg) (auto simp: emit_def)
  then show ?thesis
    using log_run_records [of no_logs "[]" fmt cs] by (simp add: no_logs_def last_n_def RingSize_def)
qed

text \<open>
  The panel's view misses nothing recent. A logged record whose level passes the filter is returned
  by \<open>Recent\<close> unless 500 records, or \<open>limit\<close> records that pass the filter, were logged after it; what
  follows it in the answer is exactly the later records that pass, in their order.
\<close>

theorem recent_shows:
  assumes "levelNo lvl \<le> levelNo level" "length post < 500"
    and "length (filter (\<lambda>r. levelNo lvl \<le> rc_levelno r) (map (call_record fmt) post)) < clamp_limit limit"
  shows "\<exists>older. Recent lvl limit (log_run fmt (pre @ (now, level, place, message) # post) no_logs)
    = older @ new_record fmt now level place message # filter (\<lambda>r. levelNo lvl \<le> rc_levelno r) (map (call_record fmt) post)"
proof -
  let ?r = "new_record fmt now level place message" and ?post = "map (call_record fmt) post"
  let ?f = "filter (\<lambda>r. levelNo lvl \<le> rc_levelno r)"
  have "lg_records (log_run fmt (pre @ (now, level, place, message) # post) no_logs)
      = last_n 500 (map (call_record fmt) pre @ ?r # ?post)"
    using log_run_records [of no_logs "[]" fmt] by (simp add: no_logs_def last_n_def RingSize_def call_record_def)
  also have "\<dots> = last_n (500 - length (?r # ?post)) (map (call_record fmt) pre) @ ?r # ?post"
    using assms(2) by (intro last_n_append) simp
  finally have "\<exists>older. ?f (lg_records (log_run fmt (pre @ (now, level, place, message) # post) no_logs)) = older @ ?r # ?f ?post"
    using assms(1) by (auto simp: new_record_def)
  then obtain older where "Recent lvl limit (log_run fmt (pre @ (now, level, place, message) # post) no_logs)
      = last_n (clamp_limit limit) (older @ ?r # ?f ?post)" by (auto simp: Recent_last)
  moreover have "length (?r # ?f ?post) \<le> clamp_limit limit" using assms(3) by simp
  ultimately show ?thesis using last_n_append by metis
qed

theorem recent_shows_witness:
  "\<exists>older. Recent ''WARNING'' 1 (log_run (\<lambda>_. ''now'') ([] @ (7, ''ERROR'', ''a.go:1'', ''bad'') # [(8, ''INFO'', ''a.go:2'', ''ok'')]) no_logs)
    = older @ new_record (\<lambda>_. ''now'') 7 ''ERROR'' ''a.go:1'' ''bad''
        # filter (\<lambda>r. levelNo ''WARNING'' \<le> rc_levelno r) (map (call_record (\<lambda>_. ''now'')) [(8, ''INFO'', ''a.go:2'', ''ok'')])"
proof -
  have a: "levelNo ''WARNING'' \<le> levelNo ''ERROR''" "length [(8 :: int, ''INFO'', ''a.go:2'', ''ok'')] < 500"
    "length (filter (\<lambda>r. levelNo ''WARNING'' \<le> rc_levelno r) (map (call_record (\<lambda>_. ''now'')) [(8, ''INFO'', ''a.go:2'', ''ok'')])) < clamp_limit 1"
    by code_simp+
  show ?thesis by (rule recent_shows [OF a])
qed

text \<open>
  C38. Records are well typed. Whatever was logged, the ring never holds more than 500 records, and each
  has one of the four level numbers, the number of its level's name; an unknown level counts as a warning,
  so the panel's default filter shows it.
\<close>

definition typed_record :: "Record \<Rightarrow> bool" where
  "typed_record r \<longleftrightarrow> rc_levelno r = levelNo (rc_level r) \<and> rc_levelno r \<in> {10, 20, 30, 40} \<and> rc_logger r = ''ovnode''
     \<and> (rc_level r \<notin> {''DEBUG'', ''INFO''} \<longrightarrow> levelNo ''WARNING'' \<le> rc_levelno r)"

theorem ring_typed:
  "list_all typed_record (lg_records (log_run fmt cs no_logs)) \<and> length (lg_records (log_run fmt cs no_logs)) \<le> 500
   \<and> length (Recent lvl limit (log_run fmt cs no_logs)) \<le> 500"
proof -
  have r: "lg_records (log_run fmt cs no_logs) = last_n 500 (map (call_record fmt) cs)"
    using log_run_records [of no_logs "[]" fmt cs] by (simp add: no_logs_def last_n_def RingSize_def)
  have t: "typed_record (call_record fmt c)" for c
    by (simp add: typed_record_def call_record_def new_record_def levelNo_def split: prod.split)
  have "clamp_limit limit \<le> 500" by (auto simp: clamp_limit_def RingSize_def Let_def)
  moreover have l: "length (last_n n xs) \<le> n" for n and xs :: "Record list" by (simp add: last_n_def)
  ultimately have "length (Recent lvl limit (log_run fmt cs no_logs)) \<le> 500"
    unfolding Recent_last by (rule order_trans [rotated])
  with t l show ?thesis unfolding r by (auto simp: list_all_iff last_n_def drop_map)
qed

subsection \<open>Counters\<close>

lemma stats_from_counts:
  "stats_from cutoff rs (e, w, m) =
     (let errs = filter (\<lambda>r. cutoff \<le> rc_ts r \<and> 40 \<le> rc_levelno r) rs in
      (e + length errs, w + length (filter (\<lambda>r. cutoff \<le> rc_ts r \<and> 30 \<le> rc_levelno r \<and> rc_levelno r < 40) rs),
       if errs = [] then m else rc_time (last errs) @ '' '' @ rc_message (last errs)))"
proof -
  have lv: "levelNo ''ERROR'' = 40" "levelNo ''WARNING'' = 30" by code_simp+
  show ?thesis
  proof (induction rs arbitrary: e w m)
    case (Cons r rs)
    show ?case
    proof (cases "rc_ts r < cutoff")
      case True
      then show ?thesis using Cons by simp
    next
      case False
      then show ?thesis using Cons by (auto simp: lv Let_def)
    qed
  qed simp
qed

text \<open>
  The counters of the badge are exact: over the buffered records of the last hour, \<open>Stats\<close> counts the
  errors and the warnings, and names the newest error.
\<close>

lemma stats_counts:
  "Stats now lg =
     (let hour = filter (\<lambda>r. now - 3600 * 10 ^ 9 \<le> rc_ts r) (lg_records lg); errs = filter (\<lambda>r. 40 \<le> rc_levelno r) hour in
      (length errs, length (filter (\<lambda>r. 30 \<le> rc_levelno r \<and> rc_levelno r < 40) hour),
       if errs = [] then [] else rc_time (last errs) @ '' '' @ rc_message (last errs)))"
  by (simp add: Stats_def stats_from_counts Let_def conj_commute conj_left_commute cong: filter_cong)

end
