(* ===== verification/Usage.thy ===== *)
theory Usage
  imports Admission
begin

text \<open>
  \<open>ovpn/usage.go\<close>, \<open>ovpn/disconnect.go\<close> and the matching part of \<open>ovpn/sessions.go\<close>: which marker a row
  of the status file belongs to, the usage poll of the panel and the disconnection of a user.

  The poll books the live rows into the counters under the session lock of each user and then reports
  the totals of the counters. Go visits its maps in any order; the model takes the order of the names.
\<close>

subsection \<open>Session markers\<close>

record marker =
  mk_key :: string
  mk_cn :: string
  mk_ip :: string
  mk_port :: string
  mk_pool :: string
  mk_created :: int
  mk_sid :: string
  mk_connected :: int

definition marker_of :: "string \<Rightarrow> Marker \<Rightarrow> marker" where
  "marker_of name m =
     \<lparr>mk_key = name, mk_cn = (if m_cn m = [] then takeWhile (\<lambda>c. c \<noteq> CHR ''.'') name else m_cn m),
      mk_ip = m_ip m, mk_port = m_port m, mk_pool = m_pool m, mk_created = m_created m,
      mk_sid = (if m_sid m = [] then name else m_sid m),
      mk_connected = (if m_connected m = 0 then m_created m else m_connected m)\<rparr>"

definition readMarkers :: "world \<Rightarrow> marker list" where
  "readMarkers w = (case os_ReadDir w (SessionsDir w) of
      Inl _ \<Rightarrow> []
    | Inr entries \<Rightarrow> sort_key mk_key (concat (map (\<lambda>(n, nd).
        if is_dir nd \<or> HasPrefix n ''.'' then []
        else (case ReadMarker w (SessionsDir w @ [n]) of None \<Rightarrow> [] | Some m \<Rightarrow> [marker_of n m])) entries)))"

text \<open>The index of the live sessions.\<close>

record liveIndex =
  li_pool :: "string list"
  li_real :: "string list"

definition newLiveIndex :: "Session list \<Rightarrow> liveIndex" where
  "newLiveIndex ss = \<lparr>li_pool = map (\<lambda>s. ss_cn s @ ''|'' @ ss_virtual s) ss,
     li_real = map (\<lambda>s. ss_cn s @ ''|'' @ ss_ip s @ ''|'' @ ss_port s) ss\<rparr>"

definition isLive :: "marker \<Rightarrow> liveIndex \<Rightarrow> bool" where
  "isLive m idx =
     (if mk_pool m \<noteq> [] then mk_cn m @ ''|'' @ mk_pool m \<in> set (li_pool idx)
      else mk_cn m @ ''|'' @ mk_ip m @ ''|'' @ mk_port m \<in> set (li_real idx))"

subsection \<open>The marker of a row\<close>

definition marker_ts :: "marker \<Rightarrow> int" where
  "marker_ts mk = (if mk_connected mk = 0 then mk_created mk else mk_connected mk)"

text \<open>The tests of the loop: not created after the snapshot, and the same pool or real address.\<close>

definition may_account :: "Session \<Rightarrow> int \<Rightarrow> marker \<Rightarrow> bool" where
  "may_account s updatedAt mk \<longleftrightarrow>
     \<not> (0 < updatedAt \<and> 0 < marker_ts mk \<and> updatedAt \<le> marker_ts mk)
     \<and> \<not> (mk_pool mk \<noteq> [] \<and> mk_pool mk \<noteq> ss_virtual s)
     \<and> \<not> (mk_pool mk = [] \<and> (mk_ip mk \<noteq> ss_ip s \<or> mk_port mk \<noteq> ss_port s))"

fun choose_from :: "Session \<Rightarrow> int \<Rightarrow> marker list \<Rightarrow> marker option \<Rightarrow> marker option" where
  "choose_from s updatedAt [] chosen = chosen"
| "choose_from s updatedAt (mk # mks) chosen =
     choose_from s updatedAt mks
       (if \<not> may_account s updatedAt mk then chosen
        else case chosen of
          None \<Rightarrow> Some mk
        | Some old \<Rightarrow> if marker_ts old < marker_ts mk then Some mk else chosen)"

definition chooseMarker :: "Session \<Rightarrow> marker list \<Rightarrow> int \<Rightarrow> marker option" where
  "chooseMarker s cands updatedAt = choose_from s updatedAt cands None"

definition derivedSessionID :: "Session \<Rightarrow> string" where
  "derivedSessionID s = ss_cn s @ ''.'' @ ss_virtual s @ ''.'' @ ss_cid s @ ''.'' @ Itoa (ss_connected s)"

text \<open>The session a row is booked to; \<open>None\<close> if it is not booked.\<close>

definition accounting_id :: "Session \<Rightarrow> marker list \<Rightarrow> int \<Rightarrow> string option" where
  "accounting_id s cands updatedAt = (case chooseMarker s cands updatedAt of
      Some mk \<Rightarrow> Some (mk_sid mk)
    | None \<Rightarrow> if cands = [] then Some (derivedSessionID s) else None)"

subsection \<open>The poll\<close>

type_synonym counts = "(string, u64) fmap"

definition add_to :: "string \<Rightarrow> u64 \<Rightarrow> counts \<Rightarrow> counts" where
  "add_to k v m = fmupd k ((case fmlookup m k of None \<Rightarrow> 0 | Some x \<Rightarrow> x) + v) m"

definition row_total :: "Session \<Rightarrow> u64" where
  "row_total s = ss_rx s + ss_tx s"

text \<open>The largest total per real address of one user.\<close>

definition per_session :: "Session list \<Rightarrow> (string, counts) fmap" where
  "per_session ss = fold (\<lambda>s m.
      let per = (case fmlookup m (ss_cn s) of None \<Rightarrow> fmempty | Some per \<Rightarrow> per) in
      fmupd (ss_cn s)
        (case fmlookup per (ss_real s) of
           None \<Rightarrow> fmupd (ss_real s) (row_total s) per
         | Some old \<Rightarrow> if old < row_total s then fmupd (ss_real s) (row_total s) per else per) m) ss fmempty"

type_synonym present = "(string \<times> string) list"

fun record_rows :: "path \<Rightarrow> string \<Rightarrow> marker list \<Rightarrow> int \<Rightarrow> Session list \<Rightarrow> present \<Rightarrow> present io" where
  "record_rows d cn cands updatedAt [] present w = (Inr present, w)"
| "record_rows d cn cands updatedAt (s # ss) present w =
     (case accounting_id s cands updatedAt of
        None \<Rightarrow> record_rows d cn cands updatedAt ss present w
      | Some sid \<Rightarrow>
          (case RecordSessionUsage d cn sid (row_total s) False w of
             (Inl e, w) \<Rightarrow> (Inl e, w)
           | (Inr _, w) \<Rightarrow> record_rows d cn cands updatedAt ss ((cn, sid) # present) w))"

text \<open>\<open>filepath.Join\<close> of a directory and a name that may have slashes.\<close>

definition join_path :: "path \<Rightarrow> string \<Rightarrow> path" where
  "join_path d name = clean_parts (Split (CHR ''/'') name) (rev d)"

definition record_user :: "int \<Rightarrow> Session list \<Rightarrow> string \<Rightarrow> present \<Rightarrow> present io" where
  "record_user updatedAt sessions cn present w =
     Lock (join_path (SessionsDir w) (''.lock.'' @ cn)) perm_0660
       (\<lambda>w. record_rows (UsageDir w) cn (filter (\<lambda>m. mk_cn m = cn) (readMarkers w)) updatedAt
              (filter (\<lambda>s. ss_cn s = cn) sessions) present w) w"

fun record_users :: "int \<Rightarrow> Session list \<Rightarrow> string list \<Rightarrow> present \<Rightarrow> present io" where
  "record_users updatedAt sessions [] present w = (Inr present, w)"
| "record_users updatedAt sessions (cn # cns) present w =
     (case record_user updatedAt sessions cn present w of
        (Inl e, w) \<Rightarrow> (Inl e, w)
      | (Inr present, w) \<Rightarrow> record_users updatedAt sessions cns present w)"

definition display :: "(string, string) fmap \<Rightarrow> string \<Rightarrow> string" where
  "display names cn = (case fmlookup names cn of None \<Rightarrow> cn | Some n \<Rightarrow> if n = [] then cn else n)"

definition counter_names :: "(string \<times> node) list \<Rightarrow> string list" where
  "counter_names entries = sort (map fst (filter (\<lambda>(n, nd). \<not> is_dir nd \<and> \<not> HasPrefix n ''.lock.'' \<and> StoreKeyRe n) entries))"

text \<open>The totals and epochs of the counters, stopped by the first one that cannot be read.\<close>

fun read_totals :: "path \<Rightarrow> string list \<Rightarrow> (string \<times> UsageState) list io" where
  "read_totals d [] w = (Inr [], w)"
| "read_totals d (cn # cns) w =
     (case ReadUsageState d cn w of
        (Inl e, w) \<Rightarrow> (Inl e, w)
      | (Inr st, w) \<Rightarrow> (case read_totals d cns w of
            (Inl e, w) \<Rightarrow> (Inl e, w)
          | (Inr sts, w) \<Rightarrow> (Inr ((cn, st) # sts), w)))"

fun prune_counters :: "path \<Rightarrow> present \<Rightarrow> string list \<Rightarrow> unit io" where
  "prune_counters d present [] w = (Inr (), w)"
| "prune_counters d present (cn # cns) w =
     (case PruneReceipts d cn (\<lambda>sid. (cn, sid) \<in> set present) w of
        (Inl e, w) \<Rightarrow> (Inl e, w)
      | (Inr _, w) \<Rightarrow> prune_counters d present cns w)"

record usage_report =
  ur_users :: counts
  ur_sessions :: "(string, counts) fmap"
  ur_totals :: counts
  ur_epochs :: "(string, string) fmap"

definition sum_by :: "(string, string) fmap \<Rightarrow> (string \<times> u64) list \<Rightarrow> counts" where
  "sum_by names kvs = fold (\<lambda>(cn, v). add_to (display names cn) v) kvs fmempty"

definition session_rows :: "(string, string) fmap \<Rightarrow> (string, counts) fmap \<Rightarrow> (string, counts) fmap" where
  "session_rows names per = fold (\<lambda>cn m.
      let rows = (case fmlookup per cn of None \<Rightarrow> fmempty | Some r \<Rightarrow> r); m = fmupd cn rows m; name = display names cn
      in if name \<noteq> cn then fmupd name rows m else m) (sorted_list_of_fset (fmdom per)) fmempty"

text \<open>The epochs of a name: the one epoch, or the pairs of all its users.\<close>

definition name_epochs :: "(string, string) fmap \<Rightarrow> (string \<times> UsageState) list \<Rightarrow> string \<Rightarrow> string" where
  "name_epochs names sts name =
     (case filter (\<lambda>(cn, st). display names cn = name) sts of
        [(cn, st)] \<Rightarrow> u_epoch st
      | pairs \<Rightarrow> Join (map (\<lambda>(cn, st). cn @ ''='' @ u_epoch st) pairs) '','')"

definition usage_answer :: "(string, string) fmap \<Rightarrow> Session list \<Rightarrow> (string \<times> UsageState) list \<Rightarrow> usage_report" where
  "usage_answer names sessions sts =
     \<lparr>ur_users = sum_by names (map (\<lambda>s. (ss_cn s, row_total s)) sessions),
      ur_sessions = session_rows names (per_session sessions),
      ur_totals = sum_by names (map (\<lambda>(cn, st). (cn, u_total st)) sts),
      ur_epochs = fmap_of_list (map (\<lambda>(cn, st). (display names cn, name_epochs names sts (display names cn))) sts)\<rparr>"

definition book_snapshot :: "StatusSnapshot \<Rightarrow> present io" where
  "book_snapshot snap =
     record_users (sn_updated snap) (sn_sessions snap) (sort (remdups (map ss_cn (sn_sessions snap)))) []"

text \<open>\<open>None\<close> is the run-time panic of the status reader.\<close>

definition UsersUsage :: "world \<Rightarrow> usage_report res option \<times> world" where
  "UsersUsage w =
     (case ReadStatusSnapshot w (StatusFile w) of
        None \<Rightarrow> (None, w)
      | Some (Inl e) \<Rightarrow> (Some (Inl e), w)
      | Some (Inr snap) \<Rightarrow>
          (let (names, w) = NameMap (UsersDir w) w in
           case book_snapshot snap w of
             (Inl e, w) \<Rightarrow> (Some (Inl e), w)
           | (Inr present, w) \<Rightarrow>
               (case os_ReadDir w (UsageDir w) of
                  Inl e \<Rightarrow> (Some (Inl e), w)
                | Inr entries \<Rightarrow>
                    (let cns = counter_names entries;
                         present = concat (map (\<lambda>m. [(mk_cn m, mk_sid m), (mk_cn m, mk_key m)]) (readMarkers w)) @ present
                     in case read_totals (UsageDir w) cns w of
                          (Inl e, w) \<Rightarrow> (Some (Inl e), w)
                        | (Inr sts, w) \<Rightarrow>
                            (case prune_counters (UsageDir w) present cns w of
                               (Inl e, w) \<Rightarrow> (Some (Inl e), w)
                             | (Inr _, w) \<Rightarrow> (Some (Inr (usage_answer names (sn_sessions snap) sts)), w))))))"

subsection \<open>disconnect.go\<close>

text \<open>The sweep over the stale markers of a user, and the keys it removed.\<close>

fun sweep_markers :: "path \<Rightarrow> string \<Rightarrow> liveIndex \<Rightarrow> marker list \<Rightarrow> world \<Rightarrow> string list \<times> world" where
  "sweep_markers d cn idx [] w = ([], w)"
| "sweep_markers d cn idx (m # ms) w =
     (if mk_cn m \<noteq> cn \<or> isLive m idx then sweep_markers d cn idx ms w
      else (case os_Remove (d @ [mk_key m]) w of (r, w) \<Rightarrow>
        if r \<noteq> Inr () \<and> r \<noteq> Inl NotExist then sweep_markers d cn idx ms w
        else (let (keys, w) = sweep_markers d cn idx ms w in (mk_key m # keys, w))))"

definition mgmt_skipped :: "json \<Rightarrow> string \<Rightarrow> json" where
  "mgmt_skipped flag why = JObj [(''available'', flag), (''ok'', flag), (''skipped'', JStr why)]"

text \<open>
  \<open>DisconnectUser\<close>: the removed keys, the number of killed sessions and the report on the management
  socket. \<open>running\<close> is the answer of \<open>TreeOpenVPNRunning\<close>; \<open>None\<close> the panic of the status reader.
\<close>

definition DisconnectUser ::
  "peer \<Rightarrow> bool \<Rightarrow> int \<Rightarrow> string \<Rightarrow> bool \<Rightarrow> world \<Rightarrow> (string list \<times> nat \<times> json) option \<times> world" where
  "DisconnectUser P running port cn onlyStale w =
     (case ParseSessions w (StatusFile w) of
        None \<Rightarrow> (None, w)
      | Some sessions \<Rightarrow>
          if onlyStale then
            (let (removed, w) = sweep_markers (SessionsDir w) cn (newLiveIndex sessions) (readMarkers w) w
             in (Some (removed, 0, mgmt_skipped JNull ''only_stale''), w))
          else if \<not> running then (Some ([], 0, mgmt_skipped (JBool False) ''openvpn not running''), w)
          else
            (let (killed, ok) = killSessions P w port cn sessions
             in (Some ([], killed, JObj [(''available'', JBool True), (''killed_sessions'', JNum (itoa_nat killed)),
                        (''ok'', JBool ok)]), w)))"

subsection \<open>The choice of a marker\<close>

lemma choose_from_spec:
  assumes "\<forall>m. chosen = Some m \<longrightarrow> may_account s u m \<and> (\<forall>m' \<in> set old. may_account s u m' \<longrightarrow> marker_ts m' \<le> marker_ts m) \<and> m \<in> set old"
    and "chosen = None \<longrightarrow> (\<forall>m' \<in> set old. \<not> may_account s u m')"
  shows "case choose_from s u mks chosen of
      None \<Rightarrow> \<forall>m \<in> set (old @ mks). \<not> may_account s u m
    | Some m \<Rightarrow> m \<in> set (old @ mks) \<and> may_account s u m \<and>
        (\<forall>m' \<in> set (old @ mks). may_account s u m' \<longrightarrow> marker_ts m' \<le> marker_ts m)"
  using assms
proof (induction mks arbitrary: chosen old)
  case (Cons mk mks)
  define nxt where "nxt = (if \<not> may_account s u mk then chosen
        else case chosen of None \<Rightarrow> Some mk | Some old \<Rightarrow> if marker_ts old < marker_ts mk then Some mk else chosen)"
  have "case choose_from s u mks nxt of
      None \<Rightarrow> \<forall>m \<in> set ((old @ [mk]) @ mks). \<not> may_account s u m
    | Some m \<Rightarrow> m \<in> set ((old @ [mk]) @ mks) \<and> may_account s u m \<and>
        (\<forall>m' \<in> set ((old @ [mk]) @ mks). may_account s u m' \<longrightarrow> marker_ts m' \<le> marker_ts m)"
    by (rule Cons.IH) (use Cons.prems in \<open>force simp: nxt_def split: option.splits if_splits\<close>)+
  moreover have e: "choose_from s u (mk # mks) chosen = choose_from s u mks nxt" unfolding nxt_def choose_from.simps ..
  ultimately show ?case unfolding e by (simp split: option.splits)
qed (auto split: option.splits)

text \<open>
  A row is booked to its own session. The marker chosen for a row of the status file is one of the
  candidates, has the row's pool address (or, without one, its real address), was not created at or
  after the time of the snapshot, and is the newest such marker; if none is chosen there is none.
\<close>

theorem marker_of_row:
  "case chooseMarker s cands updatedAt of
     None \<Rightarrow> list_all (\<lambda>m. \<not> may_account s updatedAt m) cands
   | Some mk \<Rightarrow> mk \<in> set cands
       \<and> (if mk_pool mk \<noteq> [] then mk_pool mk = ss_virtual s else mk_ip mk = ss_ip s \<and> mk_port mk = ss_port s)
       \<and> (updatedAt \<le> 0 \<or> marker_ts mk \<le> 0 \<or> marker_ts mk < updatedAt)
       \<and> list_all (\<lambda>m. marker_ts m \<le> marker_ts mk) (filter (may_account s updatedAt) cands)"
  using choose_from_spec [of None s updatedAt "[]" cands]
  by (auto simp: chooseMarker_def list_all_iff may_account_def split: option.splits)

subsection \<open>What a poll books\<close>

text \<open>The observations of a user's rows, in the order of the status file.\<close>

definition row_obs :: "marker list \<Rightarrow> int \<Rightarrow> Session list \<Rightarrow> obs list" where
  "row_obs cands updatedAt ss = concat (map (\<lambda>s. case accounting_id s cands updatedAt of
      None \<Rightarrow> [] | Some sid \<Rightarrow> [(sid, row_total s, False)]) ss)"

lemma record_rows_run:
  "record_rows d cn cands updatedAt ss present w = (Inr present', w') \<Longrightarrow>
   run_obs (record_opt d cn) (row_obs cands updatedAt ss) w = Some w'"
  by (induction ss arbitrary: present w)
     (auto simp: row_obs_def record_opt_def split: option.splits sum.splits prod.splits)

lemma ledger_below: "list_all (\<lambda>(i, b, c). \<not> c \<and> (i = j \<longrightarrow> unat b \<le> fst s)) os \<Longrightarrow> ledger_session os j s = s"
  by (induction os) (cases s, auto)+

lemma ledger_reaches:
  "list_all (\<lambda>(i, b, c). \<not> c) os \<Longrightarrow> \<not> snd s \<Longrightarrow> (j, b, c) \<in> set os \<Longrightarrow> unat b \<le> fst (ledger_session os j s)"
proof (induction os arbitrary: s)
  case (Cons x os)
  obtain i b' c' where x: "x = (i, b', c')" by (cases x) auto
  have c': "\<not> c'" using Cons.prems(1) x by simp
  define s1 where "s1 = (if i = j then ledger_step s (unat b', c') else s)"
  have open1: "\<not> snd s1" using Cons.prems(2) c' by (cases s) (auto simp: s1_def)
  show ?case
  proof (cases "(j, b, c) = x")
    case True
    then have "unat b \<le> fst s1" using Cons.prems(2) x by (cases s) (auto simp: s1_def)
    also have "\<dots> \<le> fst (ledger_session os j s1)" by (rule ledger_session_mono)
    finally show ?thesis using x by (simp add: s1_def)
  next
    case False
    with Cons.prems have "unat b \<le> fst (ledger_session os j s1)" by (intro Cons.IH open1) auto
    then show ?thesis using x by (simp add: s1_def)
  qed
qed simp

lemma ledger_twice:
  assumes "list_all (\<lambda>(i, b, c). \<not> c) os"
  shows "ledger_session os j (ledger_session os j s) = ledger_session os j s"
proof (cases "snd s")
  case True
  then show ?thesis by (simp add: ledger_session_closed)
next
  case False
  show ?thesis
    by (rule ledger_below) (use assms ledger_reaches [OF assms False] in \<open>fastforce simp: list_all_iff\<close>)
qed

lemma row_obs_open: "list_all (\<lambda>(i, b, c). \<not> c) (row_obs cands u ss)"
  by (auto simp: row_obs_def list_all_iff split: option.splits)

text \<open>
  C39. Polling again adds nothing. If the critical section of the poll has booked a user's rows, and
  later books rows with the same sessions and byte counts again, the user's total is what it was.
\<close>

theorem poll_adds_once:
  assumes "counter_inv d cn w" "list_all (\<lambda>(sid, _, _). ascii sid) (row_obs cands u ss)"
    and "record_rows d cn cands u ss p w = (Inr p1, w1)"
    and "record_rows d cn cands' u' ss' p' w1 = (Inr p2, w2)" "row_obs cands' u' ss' = row_obs cands u ss"
  shows "u_total (before d cn w2) = u_total (before d cn w1)"
proof -
  let ?os = "row_obs cands u ss"
  have ok: "\<And>i b c. (i, b, c) \<in> set ?os \<Longrightarrow> ascii i" using assms(2) by (auto simp: list_all_iff)
  have r1: "run_obs (record_opt d cn) ?os w = Some w1" by (rule record_rows_run [OF assms(3)])
  have r2: "run_obs (record_opt d cn) ?os w1 = Some w2" using record_rows_run [OF assms(4)] assms(5) by simp
  have inv1: "counter_inv d cn w1" by (rule fc.run_inv [OF assms(1) ok r1])
  have "session_of (before d cn w2) j = session_of (before d cn w1) j" for j
    using fc.run_session [OF inv1 ok r2, where j = j] fc.run_session [OF assms(1) ok r1, where j = j] ledger_twice [OF row_obs_open]
    by simp
  with fc.run_total [OF inv1 ok r2, where J = "fst ` set ?os"] show ?thesis by (simp add: unat_arith_simps(3))
qed

theorem poll_adds_once_witness:
  "\<exists>p1 w1 p2 w2. record_rows [''u''] ''alice'' [] 77 [sample_session] [] sample_usage = (Inr p1, w1)
     \<and> record_rows [''u''] ''alice'' [] 78 [sample_session] [] w1 = (Inr p2, w2)
     \<and> u_total (before [''u''] ''alice'' w2) = u_total (before [''u''] ''alice'' w1)"
proof -
  let ?r = "record_rows [''u''] ''alice'' [] 77 [sample_session] [] sample_usage"
  let ?q = "record_rows [''u''] ''alice'' [] 78 [sample_session] [] (snd ?r)"
  have "is_ok ?r" "is_ok ?q" by code_simp+
  note r = is_okD [OF this(1)] is_okD [OF this(2)]
  have o: "row_obs [] 78 [sample_session] = row_obs [] 77 [sample_session]"
    "list_all (\<lambda>(sid, _, _). ascii sid) (row_obs [] 77 [sample_session])" by code_simp+
  from poll_adds_once [OF counter_inv_sample o(2) r o(1)] r show ?thesis by blast
qed

subsection \<open>What a poll reports\<close>

lemma fold_add_to:
  "fmlookup (fold (\<lambda>(cn, v). add_to (f cn) v) kvs m) k =
     (let vs = map snd (filter (\<lambda>(cn, v). f cn = k) kvs) in
      if vs = [] then fmlookup m k else Some ((case fmlookup m k of None \<Rightarrow> 0 | Some x \<Rightarrow> x) + sum_list vs))"
proof (induction kvs arbitrary: m)
  case (Cons kv kvs)
  obtain cn v where kv: "kv = (cn, v)" by fastforce
  show ?case unfolding kv fold.simps comp_def prod.case Cons.IH
    by (auto simp: add_to_def Let_def add.assoc)
qed simp

lemma before_total_frame:
  assumes "frame (\<lambda>q. prefix q d \<and> look w q = None) w v" "plain w (d @ [n])"
  shows "u_total (before d n v) = u_total (before d n w)"
proof -
  have "\<not> prefix (d @ [n]) d" by (auto dest: prefix_length_le)
  then have "stored d n v = stored d n w" using stored_frame [OF assms(1) _ assms(2)] by simp
  then show ?thesis by (simp add: before_def fresh_counter_def split: sum.split option.split)
qed

lemma read_totals_before:
  "read_totals d cns w = (Inr sts, w') \<Longrightarrow> (\<And>n. n \<in> set cns \<Longrightarrow> StoreKeyRe n \<and> plain w (d @ [n])) \<Longrightarrow>
   map fst sts = cns \<and> (\<forall>(n, st) \<in> set sts. u_total st = u_total (before d n w))"
proof (induction cns arbitrary: w sts)
  case (Cons cn cns)
  then obtain st w1 sts1 where r: "ReadUsageState d cn w = (Inr st, w1)" "read_totals d cns w1 = (Inr sts1, w')" "sts = (cn, st) # sts1"
    by (auto split: prod.splits sum.splits)
  have cn: "StoreKeyRe cn" "plain w (d @ [cn])" using Cons.prems(2) by simp_all
  note f = ReadUsageState_plain(1) [OF cn r(1)] and b = ReadUsageState_before(1) [OF cn r(1)]
  have np: "\<not> prefix (d @ [n]) d" for n by (auto dest: prefix_length_le)
  have "map fst sts1 = cns \<and> (\<forall>(n, st) \<in> set sts1. u_total st = u_total (before d n w1))"
    by (rule Cons.IH [OF r(2)]) (use Cons.prems(2) plain_frame [OF f] np in auto)
  moreover have "u_total (before d n w1) = u_total (before d n w)" if "n \<in> set cns" for n
    using before_total_frame [OF f] Cons.prems(2) that by simp
  ultimately show ?case using r(3) b by (force simp: case_prod_beta)
qed simp

lemma counter_names_key: "n \<in> set (counter_names entries) \<Longrightarrow> StoreKeyRe n"
  by (auto simp: counter_names_def)

text \<open>
  The panel sees the counters and nothing else. After the rows were booked (world \<open>w1\<close>), the total
  of a name in the answer is the sum of the stored totals of the users with that name - a live row is
  never added a second time - and exactly the names with a total have an epoch.
\<close>

theorem totals_are_counters:
  assumes "UsersUsage w = (Some (Inr rep), w')"
    and "ReadStatusSnapshot w (StatusFile w) = Some (Inr snap)" "NameMap (UsersDir w) w = (names, w0)"
    and "book_snapshot snap w0 = (Inr present, w1)"
    and "os_ReadDir w1 (UsageDir w1) = Inr entries" "\<And>n. n \<in> set (counter_names entries) \<Longrightarrow> plain w1 (UsageDir w1 @ [n])"
  shows "fmlookup (ur_totals rep) name =
     (let cns = filter (\<lambda>cn. display names cn = name) (counter_names entries) in
      if cns = [] then None else Some (sum_list (map (\<lambda>cn. u_total (before (UsageDir w1) cn w1)) cns)))
   \<and> fmdom (ur_epochs rep) = fmdom (ur_totals rep)"
proof -
  obtain sts w2 where r: "read_totals (UsageDir w1) (counter_names entries) w1 = (Inr sts, w2)"
    and rep: "rep = usage_answer names (sn_sessions snap) sts"
    using assms(1) unfolding UsersUsage_def assms(2) option.case sum.case Let_def assms(3) prod.case assms(4,5)
    by (auto split: prod.splits sum.splits)
  note b = read_totals_before [OF r] counter_names_key assms(6)
  then have m: "map fst sts = counter_names entries" and t: "\<And>n st. (n, st) \<in> set sts \<Longrightarrow> u_total st = u_total (before (UsageDir w1) n w1)"
    by fastforce+
  have vs: "map snd (filter (\<lambda>(cn, v). display names cn = name) (map (\<lambda>(cn, st). (cn, u_total st)) sts))
      = map (\<lambda>cn. u_total (before (UsageDir w1) cn w1)) (filter (\<lambda>cn. display names cn = name) (counter_names entries))" for name
    unfolding m [symmetric] using t by (induction sts) (auto simp: case_prod_beta)
  have total: "fmlookup (ur_totals rep) name =
     (let cns = filter (\<lambda>cn. display names cn = name) (counter_names entries) in
      if cns = [] then None else Some (sum_list (map (\<lambda>cn. u_total (before (UsageDir w1) cn w1)) cns)))" for name
    unfolding rep usage_answer_def usage_report.simps sum_by_def fold_add_to vs by (simp add: Let_def)
  have "fmlookup (ur_totals rep) n = None \<longleftrightarrow> n \<notin> display names ` fst ` set sts" for n
    unfolding total Let_def using m by (auto simp: filter_empty_conv simp flip: m)
  moreover have "fmlookup (ur_epochs rep) n = None \<longleftrightarrow> n \<notin> display names ` fst ` set sts" for n
    unfolding rep by (auto simp: usage_answer_def fmlookup_of_list map_of_eq_None_iff image_image case_prod_beta)
  ultimately have "fmlookup (ur_epochs rep) n = None \<longleftrightarrow> fmlookup (ur_totals rep) n = None" for n by simp
  then have "fmdom (ur_epochs rep) = fmdom (ur_totals rep)" by (intro fset_eqI) (metis fmdom_notI fmdom_notD)
  with total show ?thesis by blast
qed

text \<open>A node with one counter and no live session, and one with a live session and a stale marker.\<close>

definition sample_poll :: "string \<Rightarrow> (path \<times> node) list \<Rightarrow> world" where
  "sample_poll status files = sample_world ([root_dir [''d''], root_file [''d'', ''st''] status, root_dir [''d'', ''users''],
     root_dir [''d'', ''usage''], root_file [''d'', ''usage'', ''bob''] (show_json (usage_json sample_counter)),
     root_dir [''d'', ''sessions'']] @ files)
     \<lparr>w_env := [''OVNODE_DATA_DIR'' \<mapsto> ''/d'', ''OVNODE_STATUS_FILE'' \<mapsto> ''/d/st'']\<rparr>"

definition sample_idle :: world where
  "sample_idle = sample_poll (''TIME,now,77'' @ [NL] @ ''END'' @ [NL]) []"

definition sample_snapshot :: StatusSnapshot where
  "sample_snapshot = \<lparr>sn_sessions = [], sn_updated = 77, sn_complete = True\<rparr>"

theorem totals_are_counters_witness:
  "\<exists>rep w'. UsersUsage sample_idle = (Some (Inr rep), w') \<and> fmlookup (ur_totals rep) ''bob'' = Some 9"
proof -
  have "case UsersUsage sample_idle of (Some (Inr _), _) \<Rightarrow> True | _ \<Rightarrow> False" by code_simp
  then obtain rep w' where u: "UsersUsage sample_idle = (Some (Inr rep), w')"
    by (auto split: prod.splits option.splits sum.splits)
  let ?n = "NameMap (UsersDir sample_idle) sample_idle"
  have s: "ReadStatusSnapshot sample_idle (StatusFile sample_idle) = Some (Inr sample_snapshot)" by code_simp
  have n: "?n = (fst ?n, snd ?n)" by simp
  have b: "book_snapshot sample_snapshot (snd ?n) = (Inr [], snd ?n)" by (simp add: book_snapshot_def sample_snapshot_def)
  have e: "os_ReadDir (snd ?n) (UsageDir (snd ?n)) 
      = Inr [(''bob'', snd (root_file [] (show_json (usage_json sample_counter))))]" by code_simp
  have c: "counter_names [(''bob'', snd (root_file [] (show_json (usage_json sample_counter))))] = [''bob'']"
    "display (fst ?n) ''bob'' = ''bob''" "plain (snd ?n) (UsageDir (snd ?n) @ [''bob''])"
    "u_total (before (UsageDir (snd ?n)) ''bob'' (snd ?n)) = 9" by code_simp+
  have "fmlookup (ur_totals rep) ''bob'' = Some 9"
    using totals_are_counters [OF u s n b e, of "''bob''"] c by (simp add: Let_def)
  with u show ?thesis by blast
qed

subsection \<open>The sweep of stale markers\<close>

text \<open>Index keys of two parts are unambiguous as long as the last part has no bar.\<close>

lemma bar_key:
  assumes "CHR ''|'' \<notin> set b" "CHR ''|'' \<notin> set d"
  shows "a @ CHR ''|'' # b = c @ CHR ''|'' # d \<longleftrightarrow> a = c \<and> b = d"
  using CutLast_append [OF assms(1), of a] CutLast_append [OF assms(2), of c] by (metis option.inject prod.inject)

lemma isLive_pool:
  assumes "mk_pool m \<noteq> []" "CHR ''|'' \<notin> set (mk_pool m)" "\<And>s. s \<in> set ss \<Longrightarrow> CHR ''|'' \<notin> set (ss_virtual s)"
  shows "isLive m (newLiveIndex ss) \<longleftrightarrow> (\<exists>s \<in> set ss. ss_cn s = mk_cn m \<and> ss_virtual s = mk_pool m)"
proof -
  have "mk_cn m @ CHR ''|'' # mk_pool m = ss_cn s @ CHR ''|'' # ss_virtual s \<longleftrightarrow> ss_cn s = mk_cn m \<and> ss_virtual s = mk_pool m"
    if "s \<in> set ss" for s using bar_key [OF assms(2) assms(3) [OF that]] by auto
  then show ?thesis using assms(1) by (simp add: isLive_def newLiveIndex_def image_iff cong: bex_cong)
qed

lemma sweep_markers_spec:
  "sweep_markers d cn idx ms w = (removed, w') \<Longrightarrow>
   frame (\<lambda>q. \<exists>k \<in> set removed. q = d @ [k]) w w'
   \<and> (\<forall>k \<in> set removed. \<exists>m \<in> set ms. mk_key m = k \<and> mk_cn m = cn \<and> \<not> isLive m idx)"
proof (induction ms arbitrary: w w' removed)
  case (Cons m ms)
  show ?case
  proof (cases "mk_cn m \<noteq> cn \<or> isLive m idx")
    case True
    then show ?thesis using Cons.prems Cons.IH [of w removed w'] by (auto split: if_splits)
  next
    case False
    obtain r w1 where rm: "os_Remove (d @ [mk_key m]) w = (r, w1)" by fastforce
    obtain keys w2 where sw: "sweep_markers d cn idx ms w1 = (keys, w2)" by fastforce
    note ih = Cons.IH [OF sw]
    show ?thesis
    proof (cases "r \<noteq> Inr () \<and> r \<noteq> Inl NotExist")
      case True
      then have "w1 = w" using rm by (auto simp: os_Remove_def split: if_splits option.splits)
      then show ?thesis using True False Cons.prems rm sw ih by auto
    next
      case ok: False
      then have e: "removed = mk_key m # keys" "w' = w2" using False Cons.prems rm sw by auto
      have "frame (\<lambda>q. \<exists>k \<in> set removed. q = d @ [k]) w w1" "frame (\<lambda>q. \<exists>k \<in> set removed. q = d @ [k]) w1 w2"
        using os_Remove_frame [OF rm] ih e by (auto elim: frame_mono)
      from frame_trans [OF this] e ih False show ?thesis by auto
    qed
  qed
qed simp

text \<open>
  C40. The stale sweep of a user is harmless to live sessions. With \<open>only_stale\<close> the disconnection kills
  no session, changes no file but the removed markers, and each removed marker names that user and has no
  live row in the status file that was read.
\<close>

theorem stale_sweep_safe:
  assumes "DisconnectUser P running port cn True w = (Some (removed, killed, report), w')"
  shows "killed = 0 \<and> frame (\<lambda>q. \<exists>k \<in> set removed. q = SessionsDir w @ [k]) w w'
    \<and> (\<exists>sessions. ParseSessions w (StatusFile w) = Some sessions \<and>
        (\<forall>k \<in> set removed. \<exists>m \<in> set (readMarkers w). mk_key m = k \<and> mk_cn m = cn \<and> \<not> isLive m (newLiveIndex sessions)))"
proof -
  obtain sessions where s: "ParseSessions w (StatusFile w) = Some sessions"
    and k: "killed = 0" "sweep_markers (SessionsDir w) cn (newLiveIndex sessions) (readMarkers w) w = (removed, w')"
    using assms by (auto simp: DisconnectUser_def Let_def case_prod_beta split: option.splits)
  from sweep_markers_spec [OF k(2)] s k(1) show ?thesis by blast
qed

text \<open>
  But the sweep trusts a status file it could not read: \<open>ParseSessions\<close> returns no row then, and every
  marker of the user counts as stale - the live ones too. (The purge insists on a complete snapshot.)
\<close>

lemma sweep_all:
  assumes "\<And>p. \<not> fault w OpRemove p" "\<forall>m \<in> set ms. \<forall>nd. look w (d @ [mk_key m]) = Some nd \<longrightarrow> \<not> is_dir nd"
    "\<forall>m \<in> set ms. \<not> isLive m idx"
  shows "fst (sweep_markers d cn idx ms w) = map mk_key (filter (\<lambda>m. mk_cn m = cn) ms)"
  using assms
proof (induction ms arbitrary: w)
  case (Cons m ms)
  obtain r w1 where rm: "os_Remove (d @ [mk_key m]) w = (r, w1)" by fastforce
  have r: "r = Inr () \<or> r = Inl NotExist" "w1 = w \<or> w1 = del (d @ [mk_key m]) w"
    using rm Cons.prems(1,2) by (auto simp: os_Remove_def split: option.splits if_splits)
  have "fst (sweep_markers d cn idx ms w1) = map mk_key (filter (\<lambda>m. mk_cn m = cn) ms)"
    by (rule Cons.IH) (use r(2) Cons.prems in \<open>auto simp: del_def split: if_splits\<close>)
  moreover have "fst (sweep_markers d cn idx ms w) = map mk_key (filter (\<lambda>m. mk_cn m = cn) ms)"
    by (rule Cons.IH) (use Cons.prems in auto)
  ultimately show ?case using Cons.prems(3) rm r(1) by (auto simp: case_prod_beta)
qed simp

theorem unreadable_status_sweeps_all:
  assumes "os_ReadFile w (StatusFile w) = Inl e" "\<And>p. \<not> fault w OpRemove p"
    and "\<forall>m \<in> set (readMarkers w). \<forall>nd. look w (SessionsDir w @ [mk_key m]) = Some nd \<longrightarrow> \<not> is_dir nd"
  shows "\<exists>w'. DisconnectUser P running port cn True w
    = (Some (map mk_key (filter (\<lambda>m. mk_cn m = cn) (readMarkers w)), 0, mgmt_skipped JNull ''only_stale''), w')"
proof -
  have "\<not> isLive m (newLiveIndex [])" for m by (simp add: isLive_def newLiveIndex_def)
  then have "fst (sweep_markers (SessionsDir w) cn (newLiveIndex []) (readMarkers w) w)
      = map mk_key (filter (\<lambda>m. mk_cn m = cn) (readMarkers w))"
    using sweep_all [OF assms(2,3)] by blast
  then show ?thesis using assms(1) by (simp add: DisconnectUser_def ParseSessions_def Let_def case_prod_beta)
qed

definition sample_sweep :: world where
  "sample_sweep = sample_poll sample_status
     [root_file [''d'', ''sessions'', ''bob.10.8.0.9''] (''common_name=bob'' @ [NL] @ ''ifconfig_pool_remote_ip=10.8.0.9'' @ [NL])]"

theorem stale_sweep_safe_witness:
  "\<exists>report w'. DisconnectUser silent_peer True 7505 ''bob'' True sample_sweep = (Some ([''bob.10.8.0.9''], 0, report), w')
    \<and> frame (\<lambda>q. q = SessionsDir sample_sweep @ [''bob.10.8.0.9'']) sample_sweep w'"
proof -
  have "case DisconnectUser silent_peer True 7505 ''bob'' True sample_sweep of
      (Some (removed, _), _) \<Rightarrow> removed = [''bob.10.8.0.9''] | _ \<Rightarrow> False" by code_simp
  then obtain killed report w' where d: "DisconnectUser silent_peer True 7505 ''bob'' True sample_sweep
      = (Some ([''bob.10.8.0.9''], killed, report), w')" by (auto split: prod.splits option.splits)
  from stale_sweep_safe [OF this] d show ?thesis by auto
qed

end
