(* ===== verification/Netip.thy ===== *)
theory Netip
  imports Policy
begin

text \<open>
  What \<open>policy.ValidateIP\<close> and \<open>policy.ValidatePrefix\<close> use of package \<open>net\<close>: \<open>ParseIP\<close>,
  \<open>ParseCIDR\<close> and the text of an address. An address is the list of its eight 16-bit groups; an IPv4
  address is the one in \<open>::ffff:0:0/96\<close>, as in \<open>net.IP\<close>.
\<close>

type_synonym ip = "int list"

definition ipv4_octet :: "string \<Rightarrow> int option" where
  "ipv4_octet f =
     (if \<not> all_digits f \<or> 3 < length f \<or> (1 < length f \<and> hd f = CHR ''0'') then None
      else let v = digits_int f in if v \<le> 255 then Some v else None)"

definition parse_ipv4 :: "string \<Rightarrow> (int \<times> int) option" where
  "parse_ipv4 s = (case map ipv4_octet (Split (CHR ''.'') s) of
      [Some a, Some b, Some c, Some d] \<Rightarrow> Some (a * 256 + b, c * 256 + d)
    | _ \<Rightarrow> None)"

definition hex_value :: "char \<Rightarrow> int option" where
  "hex_value c =
     (if is_digit c then Some (int (byte c) - 48)
      else if 97 \<le> byte c \<and> byte c \<le> 102 then Some (int (byte c) - 87)
      else if 65 \<le> byte c \<and> byte c \<le> 70 then Some (int (byte c) - 55)
      else None)"

definition hex_run :: "string \<Rightarrow> string" where
  "hex_run s = takeWhile (\<lambda>c. hex_value c \<noteq> None) s"

definition hex_number :: "string \<Rightarrow> int" where
  "hex_number s = foldl (\<lambda>a c. a * 16 + the (hex_value c)) 0 s"

text \<open>
  The loop of \<open>netip.parseIPv6\<close>: the groups read so far and the position of the ellipsis; the result is
  both, once the whole text has been used.
\<close>

function ipv6_loop :: "string \<Rightarrow> ip \<Rightarrow> nat option \<Rightarrow> (ip \<times> nat option) option" where
  "ipv6_loop s gs el =
     (if 8 \<le> length gs then (if s = [] then Some (gs, el) else None)
      else
        (let h = hex_run s; r = drop (length h) s in
         if h = [] \<or> 4 < length h then None
         else if r \<noteq> [] \<and> hd r = CHR ''.'' then
           (if el = None \<and> length gs \<noteq> 6 \<or> 6 < length gs then None
            else case parse_ipv4 s of None \<Rightarrow> None | Some (a, b) \<Rightarrow> Some (gs @ [a, b], el))
         else
           (let gs = gs @ [hex_number h] in
            case r of
              [] \<Rightarrow> Some (gs, el)
            | c # t \<Rightarrow>
                if c \<noteq> CHR '':'' \<or> t = [] then None
                else if hd t = CHR '':'' then
                  (if el \<noteq> None then None
                   else if tl t = [] then Some (gs, Some (length gs))
                   else ipv6_loop (tl t) gs (Some (length gs)))
                else ipv6_loop t gs el)))"
  by pat_completeness auto
termination
  by (relation "measure (\<lambda>(s, gs, el). 8 - length gs)") auto

declare ipv6_loop.simps [simp del]

definition parse_ipv6 :: "string \<Rightarrow> ip option" where
  "parse_ipv6 s =
     (if CHR ''%'' \<in> set s then None
      else
        (let (t, el) = (if HasPrefix s ''::'' then (drop 2 s, Some 0) else (s, None)) in
         if t = [] \<and> el \<noteq> None then Some (replicate 8 0)
         else case ipv6_loop t [] el of
             None \<Rightarrow> None
           | Some (gs, None) \<Rightarrow> if length gs = 8 then Some gs else None
           | Some (gs, Some k) \<Rightarrow>
               if length gs < 8 then Some (take k gs @ replicate (8 - length gs) 0 @ drop k gs) else None))"

text \<open>\<open>netip.ParseAddr\<close>: the first of the three marks decides; the flag says that it was an IPv4 text.\<close>

definition parse_addr :: "string \<Rightarrow> (bool \<times> ip) option" where
  "parse_addr s = (case dropWhile (\<lambda>c. c \<noteq> CHR ''.'' \<and> c \<noteq> CHR '':'' \<and> c \<noteq> CHR ''%'') s of
      c # _ \<Rightarrow>
        if c = CHR ''.'' then
          (case parse_ipv4 s of None \<Rightarrow> None | Some (a, b) \<Rightarrow> Some (True, [0, 0, 0, 0, 0, 0xFFFF, a, b]))
        else if c = CHR '':'' then map_option (\<lambda>ip. (False, ip)) (parse_ipv6 s)
        else None
    | [] \<Rightarrow> None)"

definition ParseIP :: "string \<Rightarrow> ip option" where
  "ParseIP s = map_option snd (parse_addr s)"

definition To4 :: "ip \<Rightarrow> (int \<times> int) option" where
  "To4 ip = (if take 6 ip = [0, 0, 0, 0, 0, 0xFFFF] then Some (ip ! 6, ip ! 7) else None)"

text \<open>The text of an address: the longest run of two or more zero groups is the ellipsis.\<close>

definition hex_char :: "int \<Rightarrow> char" where
  "hex_char n = hex_digit (nat n)"

definition hex_text :: "int \<Rightarrow> string" where
  "hex_text n =
     (if n < 0x10 then [hex_char n]
      else if n < 0x100 then [hex_char (n div 0x10), hex_char (n mod 0x10)]
      else if n < 0x1000 then [hex_char (n div 0x100), hex_char (n div 0x10 mod 0x10), hex_char (n mod 0x10)]
      else [hex_char (n div 0x1000), hex_char (n div 0x100 mod 0x10), hex_char (n div 0x10 mod 0x10), hex_char (n mod 0x10)])"

definition zero_run :: "ip \<Rightarrow> nat \<Rightarrow> nat" where
  "zero_run ip i = length (takeWhile (\<lambda>g. g = 0) (drop i ip))"

definition longest_zero :: "ip \<Rightarrow> nat \<times> nat" where
  "longest_zero ip =
     foldl (\<lambda>(s, l) i. if (i = 0 \<or> ip ! (i - 1) \<noteq> 0) \<and> 2 \<le> zero_run ip i \<and> l < zero_run ip i then (i, zero_run ip i) else (s, l))
       (0, 0) [0..<8]"

definition IP_String :: "ip \<Rightarrow> string" where
  "IP_String ip = (case To4 ip of
      Some (a, b) \<Rightarrow> Join (map Itoa [a div 256, a mod 256, b div 256, b mod 256]) ''.''
    | None \<Rightarrow>
        (case longest_zero ip of
           (s, l) \<Rightarrow>
             if l = 0 then Join (map hex_text ip) '':''
             else Join (map hex_text (take s ip)) '':'' @ ''::'' @ Join (map hex_text (drop (s + l) ip)) '':''))"

definition ValidateIP :: "string \<Rightarrow> string" where
  "ValidateIP s =
     (let ip = TrimSpace s in
      if ip = [] then [] else case ParseIP ip of None \<Rightarrow> [] | Some p \<Rightarrow> IP_String p)"

text \<open>\<open>net.ParseCIDR\<close>: the mask length is decimal; the address is cut to it.\<close>

definition mask_groups :: "int \<Rightarrow> ip \<Rightarrow> ip" where
  "mask_groups n ip = map (\<lambda>(i, g). let k = max 0 (min 16 (n - 16 * i)) in g - g mod 2 ^ nat (16 - k)) (zip [0..7] ip)"

definition ParseCIDR :: "string \<Rightarrow> (ip \<times> int) option" where
  "ParseCIDR s = (case Cut (CHR ''/'') s of
      (addr, m, ok) \<Rightarrow>
        if \<not> ok then None
        else case parse_addr addr of
            None \<Rightarrow> None
          | Some (v4, ip) \<Rightarrow>
              if \<not> all_digits m \<or> (if v4 then 32 else 128) < digits_int m then None
              else let n = digits_int m in Some (mask_groups (if v4 then 96 + n else n) ip, n))"

definition ValidatePrefix :: "string \<Rightarrow> string" where
  "ValidatePrefix s =
     (let candidate = TrimSpace s in
      if candidate = [] \<or> \<not> Contains candidate ''/'' then []
      else case ParseCIDR candidate of
          None \<Rightarrow> []
        | Some (ip, n) \<Rightarrow> if To4 ip \<noteq> None then [] else IP_String ip @ ''/'' @ Itoa n)"

lemma netip_examples:
  "ValidateIP '' 1.1.1.1 '' = ''1.1.1.1''" "ValidateIP ''1.1.1.01'' = []" "ValidateIP ''2606:4700:0:0::1111'' = ''2606:4700::1111''"
  "ValidateIP ''::ffff:1.2.3.4'' = ''1.2.3.4''" "ValidateIP ''1:2:3:4:5:6:7:8::'' = []" "ValidateIP ''::'' = ''::''"
  "ValidateIP ''fe80::1%eth0'' = []" "ValidateIP ''1:0:0:2:0:0:0:3'' = ''1:0:0:2::3''"
  "ValidatePrefix ''fd42:42:42:42::1/64'' = ''fd42:42:42:42::/64''" "ValidatePrefix ''10.0.0.0/8'' = []"
  by code_simp+

subsection \<open>What a validated address consists of\<close>

text \<open>The characters that validated values may contain: nothing that could end a line or a quoted text.\<close>

definition conf_char :: "char \<Rightarrow> bool" where
  "conf_char c \<longleftrightarrow> is_alnum c \<or> c \<in> set ''._:-/''"

definition group_ok :: "int \<Rightarrow> bool" where
  "group_ok g \<longleftrightarrow> 0 \<le> g \<and> g < 0x10000"

lemma hex_number_bound: "list_all (\<lambda>c. hex_value c \<noteq> None) s \<Longrightarrow> 0 \<le> hex_number s \<and> hex_number s < 16 ^ length s"
proof (induction s rule: rev_induct)
  case (snoc c s)
  obtain v where v: "hex_value c = Some v" "0 \<le> v" "v < 16"
    using snoc.prems by (auto simp: hex_value_def is_digit_def split: if_splits)
  have "hex_number (s @ [c]) = hex_number s * 16 + v" using v(1) by (simp add: hex_number_def)
  then show ?case using snoc v by simp
qed (simp add: hex_number_def)

lemma hex_run_group: "h = hex_run s \<Longrightarrow> length h \<le> 4 \<Longrightarrow> group_ok (hex_number h)"
proof -
  assume h: "h = hex_run s" "length h \<le> 4"
  then have "0 \<le> hex_number h" "hex_number h < 16 ^ length h"
    using hex_number_bound [of h] by (auto simp: hex_run_def list_all_iff dest: set_takeWhileD)
  moreover have "(16::int) ^ length h \<le> 16 ^ 4" by (rule power_increasing) (use h in simp_all)
  ultimately show ?thesis by (simp add: group_ok_def)
qed

lemma ipv4_octet_range: "ipv4_octet f = Some v \<Longrightarrow> 0 \<le> v \<and> v \<le> 255"
  by (auto simp: ipv4_octet_def Let_def all_digits_def digits_int split: if_splits)

lemma parse_ipv4_groups: "parse_ipv4 s = Some (a, b) \<Longrightarrow> group_ok a \<and> group_ok b"
proof -
  assume "parse_ipv4 s = Some (a, b)"
  then obtain w x y z where m: "map ipv4_octet (Split (CHR ''.'') s) = [Some w, Some x, Some y, Some z]" "a = w * 256 + x" "b = y * 256 + z"
    by (auto simp: parse_ipv4_def split: list.splits option.splits)
  then have "v \<in> {w, x, y, z} \<Longrightarrow> 0 \<le> v \<and> v \<le> 255" for v
    using ipv4_octet_range by (auto simp: map_eq_Cons_conv)
  from this [of w] this [of x] this [of y] this [of z] show ?thesis using m(2,3) by (simp add: group_ok_def)
qed

lemma ipv6_loop_groups: "ipv6_loop s gs el = Some (gs', el') \<Longrightarrow> list_all group_ok gs \<Longrightarrow> list_all group_ok gs'"
proof (induction s gs el arbitrary: gs' el' rule: ipv6_loop.induct)
  case (1 s gs el)
  let ?h = "hex_run s"
  show ?case
  proof (cases "8 \<le> length gs \<or> ?h = [] \<or> 4 < length ?h")
    case True
    then show ?thesis using "1.prems" by (subst (asm) ipv6_loop.simps) (auto simp: Let_def split: if_splits)
  next
    case False
    then have g: "list_all group_ok (gs @ [hex_number ?h])" using "1.prems"(2) hex_run_group [OF refl] by simp
    show ?thesis using "1.prems" "1.IH" [OF _ refl refl] False g
      by (subst (asm) ipv6_loop.simps)
         (auto simp: Let_def dest: parse_ipv4_groups split: if_splits option.splits list.splits prod.splits)
  qed
qed

lemma parse_addr_groups: "parse_addr s = Some (v4, ip) \<Longrightarrow> list_all group_ok ip"
proof -
  assume p: "parse_addr s = Some (v4, ip)"
  have z: "group_ok 0" "group_ok 0xFFFF" by (simp_all add: group_ok_def)
  have six: "list_all group_ok ip" if "parse_ipv6 s = Some ip" for s ip
  proof -
    have f: "list_all group_ok (take k gs)" "list_all group_ok (drop k gs)" "list_all group_ok (replicate n 0)"
      if "list_all group_ok gs" for gs k n
      using that z by (auto simp: list_all_iff dest: in_set_takeD in_set_dropD)
    have e: "list_all group_ok (replicate 8 0)" using z by (simp add: list_all_iff)
    show ?thesis using that unfolding parse_ipv6_def
      by (auto simp: Let_def f e dest!: ipv6_loop_groups split: if_splits option.splits)
  qed
  show ?thesis using p z by (auto simp: parse_addr_def dest: parse_ipv4_groups six split: list.splits if_splits option.splits)
qed

lemma alnum_conf: "is_alnum c \<Longrightarrow> conf_char c"
  by (simp add: conf_char_def)

lemma hex_char_alnum: "0 \<le> n \<Longrightarrow> n < 16 \<Longrightarrow> is_alnum (hex_char n)"
proof -
  assume "0 \<le> n" "n < 16"
  then have "nat n < 16" by simp
  moreover have "\<forall>k < 16. is_alnum (hex_digit k)"
    by (auto simp: hex_digit_def is_alnum_def is_digit_def is_lower_def is_upper_def byte_def)
  ultimately show ?thesis by (simp add: hex_char_def)
qed

lemma hex_text_alnum: "group_ok g \<Longrightarrow> list_all is_alnum (hex_text g)"
  unfolding hex_text_def group_ok_def by (auto intro!: hex_char_alnum)

lemma Itoa_conf: "list_all conf_char (Itoa i)"
proof -
  have "list_all is_digit (itoa_nat n)" for n using itoa_nat_digits [of n] by (simp add: list_all_iff)
  moreover have "is_digit c \<Longrightarrow> conf_char c" for c by (simp add: conf_char_def is_alnum_def)
  moreover have "conf_char (CHR ''-'')" by (simp add: conf_char_def)
  ultimately show ?thesis by (auto simp: Itoa_def list_all_iff)
qed

lemma Join_all: "list_all P sep \<Longrightarrow> list_all (list_all P) xs \<Longrightarrow> list_all P (Join xs sep)"
  by (induction xs sep rule: Join.induct) auto

lemma IP_String_conf: "list_all group_ok ip \<Longrightarrow> list_all conf_char (IP_String ip)"
proof -
  assume g: "list_all group_ok ip"
  have h: "list_all (list_all conf_char) (map hex_text xs)" if "set xs \<subseteq> set ip" for xs
    using that g hex_text_alnum alnum_conf by (fastforce simp: list_all_iff)
  have j: "list_all conf_char (Join (map hex_text xs) '':'')" if "set xs \<subseteq> set ip" for xs
    by (rule Join_all [OF _ h [OF that]]) (simp add: conf_char_def)
  have d: "conf_char (CHR ''.'')" "conf_char (CHR '':'')" by (simp_all add: conf_char_def)
  show ?thesis unfolding IP_String_def
    by (simp add: d j Itoa_conf set_take_subset set_drop_subset split: option.splits prod.splits)
qed

lemma ValidateIP_conf: "list_all conf_char (ValidateIP s)"
  by (auto simp: ValidateIP_def Let_def ParseIP_def dest!: parse_addr_groups intro!: IP_String_conf split: option.splits)

lemma mask_groups_ok: "list_all group_ok ip \<Longrightarrow> list_all group_ok (mask_groups n ip)"
proof -
  have m: "group_ok (g - g mod 2 ^ k)" if "group_ok g" for g :: int and k
  proof -
    have "0 \<le> g mod 2 ^ k" "g mod 2 ^ k \<le> g" using that by (simp_all add: group_ok_def zmod_le_nonneg_dividend)
    moreover have "0 \<le> g" "g < 0x10000" using that by (simp_all add: group_ok_def)
    ultimately have "0 \<le> g - g mod 2 ^ k" "g - g mod 2 ^ k < 0x10000" by linarith+
    then show ?thesis by (simp only: group_ok_def)
  qed
  assume "list_all group_ok ip"
  then show ?thesis by (auto simp: mask_groups_def list_all_iff Let_def intro!: m dest: set_zip_rightD)
qed

lemma ValidatePrefix_conf: "list_all conf_char (ValidatePrefix s)"
proof -
  have "list_all group_ok ip" if "ParseCIDR t = Some (ip, n)" for t ip n
    using that by (auto simp: ParseCIDR_def Let_def intro!: mask_groups_ok dest!: parse_addr_groups split: prod.splits if_splits option.splits)
  moreover have "conf_char (CHR ''/'')" by (simp add: conf_char_def)
  ultimately show ?thesis
    by (auto simp: ValidatePrefix_def Let_def Itoa_conf intro!: IP_String_conf split: option.splits)
qed

end
