(* ===== verification/Settings.thy ===== *)
theory Settings
  imports Policy Json Mgmt "HOL-Library.Signed_Division"
begin

text \<open>
  \<open>ovpn/settings.go\<close>, the remaining locations of \<open>fsx/paths.go\<close>, and \<open>ovpn/process.go\<close>: the settings
  of the OpenVPN server and the process that runs it.

  \<open>/proc\<close> is a part of the file system. The output of \<open>pgrep\<close> and the kernel's \<open>kill\<close> are arguments;
  so are the two permission repairs a restart runs first.
\<close>

subsection \<open>Locations\<close>

definition ClientTemplate :: "world \<Rightarrow> path" where
  "ClientTemplate w = joinRoot w [''server'', ''client-common.txt'']"

definition TLSKey :: "world \<Rightarrow> path" where
  "TLSKey w = joinRoot w [''server'', ''tls.key'']"

definition CACert :: "world \<Rightarrow> path" where
  "CACert w = PKIDir w @ [''ca.crt'']"

definition ServerCert :: "world \<Rightarrow> path" where
  "ServerCert w = PKIDir w @ [''issued'', ''server.crt'']"

definition ServerKey :: "world \<Rightarrow> path" where
  "ServerKey w = PKIDir w @ [''private'', ''server.key'']"

definition PIDFile :: "world \<Rightarrow> path" where
  "PIDFile w = joinRoot w [''server'', ''ovnode.pid'']"

text \<open>
  The argument \<open>exe\<close> is the path \<open>os.Executable\<close> returns and the one \<open>filepath.EvalSymlinks\<close> makes of
  it, each when there is one.
\<close>

type_synonym executable = "(path \<times> path option) option"

definition AgentBin :: "executable \<Rightarrow> world \<Rightarrow> path" where
  "AgentBin exe w =
     (let appDir = envOr w ''OVN_APP_DIR'' [] in
      if appDir \<noteq> [] then to_path appDir @ [''ovnode-server'']
      else let fallback = to_path ''/opt/ovnode/ovnode-server'' in
        case exe of
          None \<Rightarrow> fallback
        | Some (p, resolved) \<Rightarrow>
            if p \<noteq> [] \<and> (last p = ''ovnode-server'' \<or> last p = ''agent'' \<or> last p = ''ovnode'') then
              (case resolved of Some q \<Rightarrow> if q \<noteq> [] then q else p | None \<Rightarrow> p)
            else fallback)"

subsection \<open>settings.go\<close>

definition env_int :: "world \<Rightarrow> string \<Rightarrow> int \<Rightarrow> int" where
  "env_int w name defaultVal =
     (let v = Env w name [] in
      if v = [] then defaultVal else case Atoi v of None \<Rightarrow> defaultVal | Some n \<Rightarrow> n)"

definition ManagementPort :: "world \<Rightarrow> int" where
  "ManagementPort w =
     (let port = env_int w ''MANAGEMENT_PORT'' 7505 in if port < 1 \<or> 65535 < port then 7505 else port)"

text \<open>\<open>range\<close> over a string yields its runes; a byte that starts none is the replacement rune.\<close>

definition rune_value :: "string \<Rightarrow> nat" where
  "rune_value r = (case map byte r of
      [a] \<Rightarrow> a
    | [a, b] \<Rightarrow> (a mod 32) * 64 + b mod 64
    | [a, b, c] \<Rightarrow> (a mod 16) * 4096 + (b mod 64) * 64 + c mod 64
    | [a, b, c, d] \<Rightarrow> (a mod 8) * 262144 + (b mod 64) * 4096 + (c mod 64) * 64 + d mod 64
    | _ \<Rightarrow> 0xFFFD)"

function runes :: "string \<Rightarrow> nat list" where
  "runes s =
     (if s = [] then []
      else if utf8_len s = 0 then 0xFFFD # runes (tl s)
      else rune_value (take (utf8_len s) s) # runes (drop (utf8_len s) s))"
  by pat_completeness auto
termination
  by (relation "measure length") (auto simp: length_greater_0_conv)

declare runes.simps [simp del]

text \<open>The hash of \<open>VPNNetwork\<close>: a Go \<open>int\<close>, so it wraps at 64 bits, and \<open>%\<close> truncates toward zero.\<close>

definition net_hash :: "string \<Rightarrow> u64" where
  "net_hash s = foldl (\<lambda>h c. h * 31 + of_nat c) 0 (runes s)"

definition net_octet :: "string \<Rightarrow> int" where
  "net_octet s = sint (net_hash s) smod 253 + 1"

definition OVNodeDir_text :: "world \<Rightarrow> string" where
  "OVNodeDir_text w = envOr w ''OVNODE_DATA_DIR'' (envOr w ''DATA_DIR'' ''/var/lib/ovnode'')"

definition OpenVPNRoot_text :: "world \<Rightarrow> string" where
  "OpenVPNRoot_text w = envOr w ''OVNODE_OPENVPN_ROOT'' DefaultOpenVPNRoot"

definition VPNNetwork :: "world \<Rightarrow> string" where
  "VPNNetwork w =
     (let v = Env w ''VPN_NETWORK'' [] in
      if v \<noteq> [] then v
      else let dataDir = OVNodeDir_text w; root = OpenVPNRoot_text w in
        if dataDir = ''/var/lib/ovnode'' \<and> root = ''/etc/openvpn'' then ''10.66.0.0''
        else ''10.66.'' @ Itoa (net_octet (dataDir @ ''|'' @ root)) @ ''.0'')"

definition VPNNetmask :: "world \<Rightarrow> string" where
  "VPNNetmask w = Env w ''VPN_NETMASK'' ''255.255.255.0''"

definition VPNSubnet :: "world \<Rightarrow> string" where
  "VPNSubnet w = (let net = VPNNetwork w in if \<not> HasSuffix net ''.0'' then net @ ''/24'' else net @ ''/24'')"

definition VPNDNS :: "world \<Rightarrow> string \<times> string" where
  "VPNDNS w = (Env w ''VPN_DNS1'' ''1.1.1.1'', Env w ''VPN_DNS2'' ''8.8.8.8'')"

definition MaxClients :: "world \<Rightarrow> int" where
  "MaxClients w = (let n = env_int w ''MAX_CLIENTS'' 250 in if n < 1 then 250 else n)"

definition IPv6Enabled :: "world \<Rightarrow> bool" where
  "IPv6Enabled w = truthy (ToLower (Env w ''ENABLE_IPV6'' ''0''))"

definition IPv6Prefix :: "world \<Rightarrow> string" where
  "IPv6Prefix w = Env w ''IPV6_PREFIX'' ''fd42:42:42:42::/64''"

definition OpenVPNPort :: "world \<Rightarrow> int" where
  "OpenVPNPort w =
     (let v = EnvOr w ''OPENVPN_PORT'' [] in
      if v \<noteq> [] then (case Atoi v of Some n \<Rightarrow> n | None \<Rightarrow> 1194) else 1194)"

definition ExtraVPNPorts :: "world \<Rightarrow> int list" where
  "ExtraVPNPorts w =
     (let raw = Env w ''EXTRA_PORTS'' [];
          raw = (case w_env w ''OVNODE_EXTRA_PORTS'' of Some v \<Rightarrow> v | None \<Rightarrow> raw)
      in ParseExtraPorts w raw (OpenVPNPort w))"

subsection \<open>process.go\<close>

definition settingFile :: "world \<Rightarrow> path" where
  "settingFile w = OpenVPNRoot w @ [''server'', ''server.conf'']"

definition templateFile :: "world \<Rightarrow> path" where
  "templateFile w = OpenVPNRoot w @ [''server'', ''client-common.txt'']"

definition proc_dir :: "int \<Rightarrow> path" where
  "proc_dir pid = [''proc'', Itoa pid]"

definition proc_alive :: "world \<Rightarrow> int \<Rightarrow> bool" where
  "proc_alive w pid = (case os_Stat w (proc_dir pid) of Inr _ \<Rightarrow> True | Inl _ \<Rightarrow> False)"

definition openvpnUsesTree :: "world \<Rightarrow> int \<Rightarrow> bool" where
  "openvpnUsesTree w pid = (case os_ReadFile w (proc_dir pid @ [''cmdline'']) of
      Inl _ \<Rightarrow> False
    | Inr cmdline \<Rightarrow> Contains (ReplaceByte (CHR 0x00) (CHR '' '') cmdline) (path_text (ServerConf w)))"

definition pid_of_file :: "world \<Rightarrow> int option" where
  "pid_of_file w = (case os_ReadFile w (PIDFile w) of Inl _ \<Rightarrow> None | Inr data \<Rightarrow> Atoi (TrimSpace data))"

definition openvpnPIDs :: "string \<Rightarrow> world \<Rightarrow> int list" where
  "openvpnPIDs pgrep w =
     (case pid_of_file w of Some n \<Rightarrow> [n] | None \<Rightarrow> [])
     @ concat (map (\<lambda>t. case Atoi t of None \<Rightarrow> [] | Some n \<Rightarrow> if openvpnUsesTree w n then [n] else [])
                 (Fields pgrep))"

definition OpenVPNIsRunning :: "string \<Rightarrow> world \<Rightarrow> bool" where
  "OpenVPNIsRunning pgrep w = list_ex (proc_alive w) (openvpnPIDs pgrep w)"

definition TreeOpenVPNRunning :: "string \<Rightarrow> world \<Rightarrow> bool" where
  "TreeOpenVPNRunning pgrep w = list_ex (proc_alive w) (openvpnPIDs pgrep w)"

definition ReloadOpenVPN :: "peer \<Rightarrow> world \<Rightarrow> bool" where
  "ReloadOpenVPN p w = (case SendCommands p w (ManagementPort w) [''signal SIGHUP''] of
      Inl _ \<Rightarrow> False
    | Inr replies \<Rightarrow> list_ex (\<lambda>r. Contains r ''SUCCESS'') replies)"

text \<open>The process that \<open>RestartOpenVPNChild\<close> signals.\<close>

definition child_pid :: "world \<Rightarrow> int option" where
  "child_pid w = (case pid_of_file w of
      None \<Rightarrow> None
    | Some n \<Rightarrow> if proc_alive w n then Some n else None)"

definition RestartOpenVPNChild :: "(int \<Rightarrow> bool) \<Rightarrow> world \<Rightarrow> bool" where
  "RestartOpenVPNChild kill w = (case child_pid w of None \<Rightarrow> False | Some n \<Rightarrow> kill n)"

definition RestartOpenVPN ::
  "unit io \<Rightarrow> (world \<Rightarrow> world) \<Rightarrow> (int \<Rightarrow> bool) \<Rightarrow> peer \<Rightarrow> world \<Rightarrow> bool \<times> world" where
  "RestartOpenVPN fixPermissions secretPerms kill p w =
     (case os_Stat w (settingFile w) of
        Inl _ \<Rightarrow> (False, w)
      | Inr _ \<Rightarrow>
          (case fixPermissions w of
             (Inl _, w) \<Rightarrow> (False, w)
           | (Inr _, w) \<Rightarrow>
               (let w = secretPerms w in
                if IsInstalledTree w \<and> RestartOpenVPNChild kill w then (True, w)
                else (ReloadOpenVPN p w, w))))"

subsection \<open>The derived network\<close>

lemma smod_range: "0 < m \<Longrightarrow> - m < (x::int) smod m \<and> x smod m < m"
proof -
  assume m: "0 < m"
  define y where "y = \<bar>x\<bar> mod m"
  have "0 \<le> y" "y < m" "x smod m = sgn x * y" using m by (simp_all add: y_def signed_modulo_int_def)
  then show ?thesis using m by (auto simp: sgn_if)
qed

lemma net_octet_range: "- 251 \<le> net_octet s" "net_octet s \<le> 253"
  using smod_range [of 253 "sint (net_hash s)"] by (simp_all add: net_octet_def)

lemma net_octet_nonneg: "0 \<le> sint (net_hash s) \<Longrightarrow> 1 \<le> net_octet s"
  by (cases "sint (net_hash s) = 0") (simp_all add: net_octet_def signed_modulo_int_def)

text \<open>
  Once the hash has overflowed, the derived octet can be negative: two directories that a second
  instance plausibly uses give a network that is not an address.
\<close>

definition sample_second :: world where
  "sample_second = sample_world []
     \<lparr>w_env := [''OVNODE_DATA_DIR'' \<mapsto> ''/var/lib/ovnode2'', ''OVNODE_OPENVPN_ROOT'' \<mapsto> ''/etc/openvpn2'']\<rparr>"

lemma runes_ascii: "list_all (\<lambda>c. byte c < 128) s \<Longrightarrow> runes s = map byte s"
proof (induction s)
  case (Cons c s)
  then have "utf8_len (c # s) = 1" by (simp add: utf8_len_def)
  then show ?case using Cons by (simp add: runes.simps [of "c # s"] rune_value_def)
qed (simp add: runes.simps)

lemma net_hash_ascii:
  assumes "list_all (\<lambda>c. byte c < 128) s"
  shows "net_hash s = word_of_int (foldl (\<lambda>h c. h * 31 + int (byte c)) 0 s)"
proof -
  have "foldl (\<lambda>h c. h * 31 + of_nat c) 0 (map byte t) = (word_of_int (foldl (\<lambda>h c. h * 31 + int (byte c)) 0 t) :: u64)" for t
    by (induction t rule: rev_induct) simp_all
  with assms show ?thesis by (simp add: net_hash_def runes_ascii)
qed

theorem vpn_network_not_an_address: "VPNNetwork sample_second = ''10.66.-71.0''"
proof -
  have e: "Env sample_second ''VPN_NETWORK'' [] = []" "OVNodeDir_text sample_second = ''/var/lib/ovnode2''"
    "OpenVPNRoot_text sample_second = ''/etc/openvpn2''" by code_simp+
  have "net_octet ''/var/lib/ovnode2|/etc/openvpn2'' = - 71"
    unfolding net_octet_def by (subst net_hash_ascii) (simp_all add: byte_def signed_modulo_int_def)
  moreover have "Itoa (- 71) = ''-71''" by code_simp
  ultimately show ?thesis unfolding VPNNetwork_def Let_def e by simp
qed

subsection \<open>The server process\<close>

lemma openvpnPIDs_tree: "n \<in> set (openvpnPIDs pgrep w) \<Longrightarrow> pid_of_file w = Some n \<or> openvpnUsesTree w n"
  by (auto simp: openvpnPIDs_def split: option.splits if_splits)

lemma running_without_pid_file:
  assumes "OpenVPNIsRunning pgrep w" "pid_of_file w = None"
  obtains n where "openvpnUsesTree w n" "proc_alive w n"
  using assms openvpnPIDs_tree by (fastforce simp: OpenVPNIsRunning_def list_ex_iff)

text \<open>
  A pid file that outlives its process is trusted: the process that has the number now counts as the
  OpenVPN of this tree and receives the signal, whatever it runs.
\<close>

definition sample_recycled :: world where
  "sample_recycled = sample_world
     [root_dir [''proc''], root_dir [''proc'', ''4242''], root_file [''proc'', ''4242'', ''cmdline''] ''postgres'',
      root_dir [''etc''], root_dir [''etc'', ''openvpn''], root_dir [''etc'', ''openvpn'', ''server''],
      root_file [''etc'', ''openvpn'', ''server'', ''ovnode.pid''] ''4242'']"

theorem recycled_pid_is_signalled:
  "\<not> openvpnUsesTree sample_recycled 4242 \<and> OpenVPNIsRunning [] sample_recycled
     \<and> RestartOpenVPNChild kill sample_recycled = kill 4242"
proof (intro conjI)
  show "\<not> openvpnUsesTree sample_recycled 4242" "OpenVPNIsRunning [] sample_recycled" by code_simp+
  have "child_pid sample_recycled = Some 4242" by code_simp
  then show "RestartOpenVPNChild kill sample_recycled = kill 4242" by (simp add: RestartOpenVPNChild_def)
qed

end
