(* ===== verification/Serverconf.thy ===== *)
theory Serverconf
  imports Settings Logging
begin

text \<open>
  \<open>ovpn/serverconf.go\<close>: the management password, the generated \<open>server.conf\<close> and client template, and
  the repair of an existing \<open>server.conf\<close>, which must carry this node's hooks, settings and hardening.

  \<open>exe\<close> is the running executable, \<open>rnd\<close> the 32 bytes of \<open>crypto/rand\<close>. \<open>RemoteLines\<close> of \<open>ovpn/node.go\<close>
  is here because the template uses it.
\<close>

subsection \<open>Values and keys of directives\<close>

definition configValue :: "string \<Rightarrow> string" where
  "configValue v =
     (if list_ex (\<lambda>c. c \<in> set [CHR '' '', TAB, CR, NL, DQ, BSL]) v then go_quote v else v)"

definition directiveKey :: "string \<Rightarrow> string" where
  "directiveKey line = (case Fields line of
      [] \<Rightarrow> []
    | [f] \<Rightarrow> f
    | f # g # _ \<Rightarrow> if f = ''setenv'' then ''setenv '' @ TrimSet [DQ, SQ] g else f)"

text \<open>\<open>counts\<close> and \<open>values\<close>, as functions of the lines.\<close>

definition key_count :: "string list \<Rightarrow> string \<Rightarrow> nat" where
  "key_count ls key = length (filter (\<lambda>l. directiveKey l = key) ls)"

definition key_value :: "string list \<Rightarrow> string \<Rightarrow> string" where
  "key_value ls key = foldl (\<lambda>v l. if directiveKey l = key then TrimSpace l else v) [] ls"

definition hooksAlreadyCurrent :: "string \<Rightarrow> string list \<Rightarrow> bool" where
  "hooksAlreadyCurrent data desired =
     (let ls = Split NL data in
      list_all (\<lambda>d. key_count ls (directiveKey d) = 1 \<and> key_value ls (directiveKey d) = d) desired)"

subsection \<open>The management password\<close>

definition mgmt_gid :: "world \<Rightarrow> int res" where
  "mgmt_gid w = (if w_euid w = 0 then RuntimeGroupID w else Inr (w_egid w))"

definition read_password :: "path \<Rightarrow> world \<Rightarrow> string option" where
  "read_password p w = (case fst (read_open p w) of
      Inr data \<Rightarrow> Some data
    | Inl e \<Rightarrow> if e = NotExist then Some [] else None)"

definition new_password :: "string \<Rightarrow> path \<Rightarrow> unit io" where
  "new_password rnd p w = (case MkdirAllNoFollow (butlast p) perm_0755 w of
      (Inl e, w) \<Rightarrow> (Inl e, w)
    | (Inr _, w) \<Rightarrow> WriteFileAtomic p (hex_encode rnd @ [NL]) perm_0640 w)"

definition EnsureMgmtPassword :: "string \<Rightarrow> world \<Rightarrow> path option \<times> world" where
  "EnsureMgmtPassword rnd w =
     (let p = MgmtPassFile w in
      case mgmt_gid w of
        Inl _ \<Rightarrow> (None, w)
      | Inr gid \<Rightarrow>
          (case read_password p w of
             None \<Rightarrow> (None, w)
           | Some data \<Rightarrow>
               (case (if TrimSpace data = [] then new_password rnd p w else (Inr (), w)) of
                  (Inl _, w) \<Rightarrow> (None, w)
                | (Inr _, w) \<Rightarrow>
                    (case SetPermissions p perm_0640 (w_euid w) gid w of
                       (Inl _, w) \<Rightarrow> (None, w)
                     | (Inr _, w) \<Rightarrow> (Some p, w)))))"

definition MgmtLine :: "world \<Rightarrow> string" where
  "MgmtLine w = ''management 127.0.0.1 '' @ Itoa (ManagementPort w) @ '' '' @ configValue (path_text (MgmtPassFile w))"

subsection \<open>Directives\<close>

definition HookTargets :: "executable \<Rightarrow> world \<Rightarrow> string \<times> string" where
  "HookTargets exe w =
     (let bin = path_text (AgentBin exe w) in (bin @ '' hook connect'', bin @ '' hook disconnect''))"

definition hook_lines :: "executable \<Rightarrow> world \<Rightarrow> string list" where
  "hook_lines exe w =
     [''client-connect '' @ [DQ] @ fst (HookTargets exe w) @ [DQ],
      ''client-disconnect '' @ [DQ] @ snd (HookTargets exe w) @ [DQ]]"

definition hardening_lines :: "world \<Rightarrow> string list" where
  "hardening_lines w =
     [''tls-version-min 1.3'', ''remote-cert-tls client'', MgmtLine w, ''writepid '' @ path_text (PIDFile w),
      ''script-security 2'', ''status-version 3'']"

definition HardeningDirectives :: "string \<Rightarrow> world \<Rightarrow> string list \<times> world" where
  "HardeningDirectives rnd w = (let w = snd (EnsureMgmtPassword rnd w) in (hardening_lines w, w))"

definition hook_settings :: "Hook \<Rightarrow> world \<Rightarrow> (string \<times> string) list" where
  "hook_settings cfg w =
     [(''OVNODE_OPENVPN_ROOT'', path_text (h_root cfg)), (''OVNODE_DATA_DIR'', path_text (OVNodeDir w)),
      (''OVNODE_USERS_DIR'', path_text (h_users cfg)), (''OVNODE_SESSIONS_DIR'', path_text (h_sessions cfg)),
      (''OVNODE_USAGE_DIR'', path_text (h_usage cfg)),
      (''OVNODE_STATUS_FILE'', path_text (h_status cfg)), (''OVNODE_LOG_DIR'', path_text (h_logdir cfg)),
      (''OVNODE_LOG_FILE'', path_text (h_log cfg)),
      (''OVNODE_MANAGEMENT_HOST'', h_mgmt_host cfg), (''OVNODE_MANAGEMENT_PORT'', Itoa (h_mgmt_port cfg)),
      (''OVNODE_MGMT_PASS_FILE'', path_text (h_mgmt_pass cfg)),
      (''OVNODE_ALLOW_REMOTE_MGMT'', Env w ''ALLOW_REMOTE_MGMT'' ''0''),
      (''OVNODE_RUNTIME_USER'', RuntimeUser w), (''OVNODE_RUNTIME_GROUP'', RuntimeGroup w),
      (''OVNODE_SESSION_TTL'', Itoa (h_ttl cfg))]"

definition setenv_line :: "string \<times> string \<Rightarrow> string" where
  "setenv_line kv = ''setenv '' @ fst kv @ '' '' @ configValue (snd kv)"

definition HookEnvDirectives :: "world \<Rightarrow> string list \<times> world" where
  "HookEnvDirectives w = (let (cfg, w) = HookFromEnv w in (map setenv_line (hook_settings cfg w), w))"

definition FreshProto :: "world \<Rightarrow> string" where
  "FreshProto w =
     (let choice = ToLower (TrimSpace (Env w ''PROTO'' ''tcp'')) in if HasPrefix choice ''udp'' then ''udp'' else ''tcp'')"

text \<open>The file's own reader of the IPv6 state: the last line of a key wins.\<close>

definition ipv6_state_line :: "(string \<rightharpoonup> string) \<Rightarrow> string \<Rightarrow> (string \<rightharpoonup> string)" where
  "ipv6_state_line st line =
     (if \<not> Contains line ''='' then st
      else case Cut (CHR ''='') line of (k, v, _) \<Rightarrow> st(TrimSpace k \<mapsto> TrimSpace v))"

definition ipv6Effective :: "world \<Rightarrow> bool \<times> string" where
  "ipv6Effective w =
     (let st = (case os_ReadFile w (OVNodeDir w @ [''ipv6'']) of
                  Inl _ \<Rightarrow> (\<lambda>_. None)
                | Inr data \<Rightarrow> foldl ipv6_state_line (\<lambda>_. None) (Split NL data));
          enabled = (case st ''enabled'' of Some v \<Rightarrow> truthy (ToLower (TrimSpace v)) | None \<Rightarrow> IPv6Enabled w);
          prf = (case st ''prefix'' of Some v \<Rightarrow> if v \<noteq> [] then v else IPv6Prefix w | None \<Rightarrow> IPv6Prefix w)
      in (enabled, prf))"

definition exit_notify :: "string \<Rightarrow> string" where
  "exit_notify proto = ''explicit-exit-notify '' @ (if proto = ''udp'' then ''1'' else ''0'')"

text \<open>The generated file: the lines before and after the exported settings.\<close>

definition fresh_head :: "world \<Rightarrow> string list" where
  "fresh_head w =
     (let (dns1, dns2) = VPNDNS w; (enabled, prf) = ipv6Effective w in
      [''port '' @ Itoa (OpenVPNPort w), ''proto '' @ FreshProto w, ''dev tun'', ''topology subnet'',
       ''server '' @ VPNNetwork w @ '' '' @ VPNNetmask w,
       ''ifconfig-pool-persist '' @ path_text (OpenVPNRoot w @ [''server'', ''ipp.txt'']) @ '' 600'',
       push_redirect @ '' def1 bypass-dhcp'' @ [DQ]]
      @ map dns_push_line (DNSEffective w dns1 dns2)
      @ [''push '' @ [DQ] @ ''block-outside-dns'' @ [DQ]]
      @ (if enabled then [''tun-ipv6'', ''server-ipv6 '' @ prf, ''push '' @ [DQ] @ ''route-ipv6 2000::/3'' @ [DQ]] else [])
      @ [''keepalive 10 60'', ''ca '' @ path_text (CACert w), ''cert '' @ path_text (ServerCert w),
         ''key '' @ path_text (PKIDir w @ [''private'', ''server.key'']), ''dh none'',
         ''tls-crypt '' @ path_text (TLSKey w), ''tls-version-min 1.3'', ''remote-cert-tls client'',
         ''data-ciphers AES-256-GCM:AES-128-GCM:CHACHA20-POLY1305'', ''data-ciphers-fallback AES-256-GCM'',
         ''auth SHA256'', ''mssfix 1360'', ''tun-mtu 1500'', ''sndbuf 393216'', ''rcvbuf 393216'',
         ''allow-compression no'', ''user '' @ RuntimeUser w, ''group '' @ RuntimeGroup w])"

definition fresh_tail :: "executable \<Rightarrow> world \<Rightarrow> string list" where
  "fresh_tail exe w =
     [''persist-key'', ''persist-tun'', ''script-security 2''] @ hook_lines exe w
     @ [''client-config-dir '' @ path_text (OpenVPNRoot w @ [''ccd'']), ''crl-verify '' @ path_text (CRLFile w),
        ''status '' @ configValue (path_text (StatusFile w)) @ '' 5'', ''status-version 3'', MgmtLine w,
        ''writepid '' @ path_text (PIDFile w),
        ''log-append '' @ path_text (OpenVPNRoot w @ [''server'', ''openvpn.log'']),
        ''cd '' @ path_text (OpenVPNRoot w @ [''server''])]"

definition FreshServerConf :: "string \<Rightarrow> executable \<Rightarrow> world \<Rightarrow> string \<times> world" where
  "FreshServerConf rnd exe w =
     (case EnsureMgmtPassword rnd w of
        (None, w) \<Rightarrow> ([], w)
      | (Some _, w) \<Rightarrow>
          (let hd_lines = fresh_head w;
               (env_lines, w) = HookEnvDirectives w;
               tl_lines = fresh_tail exe w;
               (hardening, w) = HardeningDirectives rnd w
           in (Join (hd_lines @ env_lines @ tl_lines @ hardening
                     @ [''max-clients '' @ Itoa (MaxClients w), exit_notify (FreshProto w), ''duplicate-cn'']) [NL]
               @ [NL], w)))"

subsection \<open>Repairing server.conf\<close>

text \<open>The lines to add and the rewriting, on the text of the file.\<close>

definition missing_lines :: "string list \<Rightarrow> string \<Rightarrow> string list" where
  "missing_lines required data =
     (let existing = map TrimSpace (Split NL data) in filter (\<lambda>d. d \<notin> set existing) required)"

definition owned_removed :: "string list \<Rightarrow> string \<Rightarrow> string list" where
  "owned_removed desired data =
     filter (\<lambda>l. directiveKey l \<notin> set (map directiveKey desired)) (Split NL data)"

definition repaired :: "string list \<Rightarrow> string list \<Rightarrow> string list \<Rightarrow> string \<Rightarrow> string" where
  "repaired desired out toAdd data = Join (owned_removed desired data @ out @ toAdd) [NL] @ [NL]"

definition ensureServerConf :: "string \<Rightarrow> executable \<Rightarrow> bool io" where
  "ensureServerConf rnd exe w =
     (case EnsureMgmtPassword rnd w of
        (None, w) \<Rightarrow> (Inl (Err (''management password unavailable at '' @ path_text (MgmtPassFile w))), w)
      | (Some _, w) \<Rightarrow>
          (case os_Lstat w (ServerConf w) of
             Inl e \<Rightarrow>
               if e = NotExist then
                 (case FreshServerConf rnd exe w of
                    (data, w) \<Rightarrow>
                      if data = [] then (Inl (Err ''server configuration could not be generated''), w)
                      else (case WriteFileAtomic (ServerConf w) data perm_0644 w of
                          (Inl e, w) \<Rightarrow> (Inl e, w)
                        | (Inr _, w) \<Rightarrow> (Inr True, w)))
               else (Inl e, w)
           | Inr _ \<Rightarrow>
               (case os_ReadFile w (ServerConf w) of
                  Inl e \<Rightarrow> (Inl e, w)
                | Inr data \<Rightarrow>
                    (let (hardening, w) = HardeningDirectives rnd w;
                         toAdd = missing_lines
                           (hardening @ [''duplicate-cn'', ''crl-verify '' @ path_text (CRLFile w)]) data;
                         (env_lines, w) = HookEnvDirectives w;
                         runtime = [''user '' @ RuntimeUser w, ''group '' @ RuntimeGroup w];
                         desired = hook_lines exe w @ env_lines @ runtime
                     in if toAdd = [] \<and> hooksAlreadyCurrent data desired then (Inr False, w)
                        else
                          (let (env_lines, w) = HookEnvDirectives w;
                               out = hook_lines exe w @ env_lines @ runtime
                           in case WriteFileAtomic (ServerConf w) (repaired desired out toAdd data) perm_0644 w of
                                (Inl e, w) \<Rightarrow> (Inl e, w)
                              | (Inr _, w) \<Rightarrow> (Inr True, w))))))"

definition EnsureServerConf :: "string \<Rightarrow> executable \<Rightarrow> world \<Rightarrow> bool \<times> world" where
  "EnsureServerConf rnd exe w = (case ensureServerConf rnd exe w of
      (Inr changed, w) \<Rightarrow> (changed, w)
    | (Inl _, w) \<Rightarrow> (False, w))"

subsection \<open>The client template\<close>

definition RemoteLines :: "string \<Rightarrow> int \<Rightarrow> int list \<Rightarrow> string" where
  "RemoteLines tunnelAddr primaryPort extraPorts =
     Join (map (\<lambda>p. ''remote '' @ tunnelAddr @ '' '' @ Itoa p) (primaryPort # extraPorts)) [NL]"

fun remote_of_conf :: "string list \<Rightarrow> string" where
  "remote_of_conf [] = []"
| "remote_of_conf (line # rest) =
     (if HasPrefix (TrimSpace line) ''remote '' then
        (case Fields line of _ # g # _ \<Rightarrow> g | _ \<Rightarrow> remote_of_conf rest)
      else remote_of_conf rest)"

definition client_lines :: "string list" where
  "client_lines = [''resolv-retry infinite'', ''nobind'', ''persist-key'', ''persist-tun'', ''remote-cert-tls server'',
     ''tls-version-min 1.3'', ''auth SHA256'', ''data-ciphers AES-128-GCM:AES-256-GCM:CHACHA20-POLY1305'',
     ''cipher AES-128-GCM'', ''ignore-unknown-option block-outside-dns'', ''block-outside-dns'', ''mssfix 1360'',
     ''verb 3'']"

definition EnsureClientTemplate :: "unit io" where
  "EnsureClientTemplate w =
     (let template = OpenVPNRoot w @ [''server'', ''client-common.txt''] in
      case os_Lstat w template of
        Inr nd \<Rightarrow> if \<not> is_regular nd then (Inl (Err (''non-regular client template at '' @ path_text template)), w)
                   else (Inr (), w)
      | Inl e \<Rightarrow>
          if e \<noteq> NotExist then (Inl e, w)
          else (case os_MkdirAll (butlast template) perm_0755 w of
             (Inl e, w) \<Rightarrow> (Inl e, w)
           | (Inr _, w) \<Rightarrow>
               (let addr = Env w ''TUNNEL_ADDRESS'' [];
                    conf = (if addr \<noteq> [] then Inr addr
                            else case os_ReadFile w (ServerConf w) of
                                Inl e \<Rightarrow> Inl e
                              | Inr data \<Rightarrow> Inr (remote_of_conf (Split NL data)))
                in case conf of
                     Inl e \<Rightarrow> (Inl e, w)
                   | Inr a \<Rightarrow>
                       WriteFileAtomic template
                         (Join ([''client'', ''dev tun'', ''proto '' @ FreshProto w,
                                 RemoteLines (if a = [] then ''auto'' else a) (OpenVPNPort w) []] @ client_lines) [NL] @ [NL])
                         perm_0644 w)))"

subsection \<open>Fields ignore surrounding white space\<close>

lemma spaces_apart: "v \<in> set go_spaces \<Longrightarrow> w \<in> set go_spaces \<Longrightarrow> hd v \<notin> set (tl w)"
proof -
  have "list_all (\<lambda>v. list_all (\<lambda>w. hd v \<notin> set (tl w)) go_spaces) go_spaces" by code_simp
  then show "v \<in> set go_spaces \<Longrightarrow> w \<in> set go_spaces \<Longrightarrow> hd v \<notin> set (tl w)" by (auto simp: list_all_iff)
qed

lemma spaces_prefix_free: "v \<in> set go_spaces \<Longrightarrow> w \<in> set go_spaces \<Longrightarrow> prefix v w \<Longrightarrow> v = w"
proof -
  have "list_all (\<lambda>v. list_all (\<lambda>w. prefix v w \<longrightarrow> v = w) go_spaces) go_spaces" by code_simp
  then show "v \<in> set go_spaces \<Longrightarrow> w \<in> set go_spaces \<Longrightarrow> prefix v w \<Longrightarrow> v = w" by (auto simp: list_all_iff)
qed

lemma lead_space_iff: "lead_word go_spaces s = Some w \<longleftrightarrow> w \<in> set go_spaces \<and> prefix w s"
proof
  assume "w \<in> set go_spaces \<and> prefix w s"
  moreover from this have "lead_word go_spaces s \<noteq> None"
    using go_spaces_not_graph [of w] by (auto simp: lead_word_def find_None_iff)
  then obtain v where v: "lead_word go_spaces s = Some v" by auto
  moreover have "v \<in> set go_spaces" "prefix v s" using lead_word_Some [OF v] by auto
  ultimately show "lead_word go_spaces s = Some w"
    using spaces_prefix_free prefix_same_cases by metis
qed (auto dest: lead_word_Some)

lemma lead_space_append:
  assumes "t \<noteq> []" "v \<in> set go_spaces"
  shows "lead_word go_spaces (t @ v) = lead_word go_spaces t"
proof -
  have "prefix w t" if w: "w \<in> set go_spaces" "prefix w (t @ v)" for w
  proof (rule ccontr)
    assume "\<not> prefix w t"
    then obtain u where u: "w = t @ u" "prefix u v" "u \<noteq> []" using w(2) by (auto simp: prefix_append)
    then have "hd v = hd u" by (auto simp: prefix_def)
    moreover have "hd u \<in> set (tl w)" using u assms(1) by (cases t) auto
    ultimately show False using spaces_apart [OF assms(2) w(1)] by simp
  qed
  then have "lead_word go_spaces (t @ v) = Some w \<longleftrightarrow> lead_word go_spaces t = Some w" for w
    by (auto simp: lead_space_iff)
  then show ?thesis by (metis option.exhaust)
qed

lemma fields_from_trailing: "v \<in> set go_spaces \<Longrightarrow> fields_from cur (t @ v) = fields_from cur t"
proof (induction cur t rule: fields_from.induct)
  case (1 cur t)
  show ?case
  proof (cases t)
    case Nil
    have "lead_word go_spaces v = Some v" using "1.prems" by (simp add: lead_space_iff)
    then show ?thesis using Nil by (simp add: fields_from.simps [of cur v] fields_from.simps [of _ "[]"])
  next
    case (Cons c cs)
    then have l: "lead_word go_spaces (t @ v) = lead_word go_spaces t" by (intro lead_space_append "1.prems") simp
    show ?thesis
    proof (cases "lead_word go_spaces t")
      case None
      then show ?thesis using 1 Cons l
        by (simp add: fields_from.simps [of cur "c # cs @ v"] fields_from.simps [of cur "c # cs"])
    next
      case (Some w)
      then have "length w \<le> length t" by (auto dest!: lead_word_Some simp: prefix_length_le)
      then show ?thesis using 1 Some l by (simp add: fields_from.simps [of cur "t @ v"] fields_from.simps [of cur t])
    qed
  qed
qed

lemma Fields_trim_right: "Fields (rev (trim_words (map rev go_spaces) r)) = Fields (rev r)"
proof (induction "map rev go_spaces" r rule: trim_words.induct)
  case (1 r)
  show ?case
  proof (cases "lead_word (map rev go_spaces) r")
    case None
    then show ?thesis by (simp add: trim_words.simps)
  next
    case (Some w)
    then have w: "rev w \<in> set go_spaces" "prefix w r" by (auto dest!: lead_word_Some)
    then have "rev r = rev (drop (length w) r) @ rev w" by (auto simp: prefix_def)
    then have "Fields (rev r) = Fields (rev (drop (length w) r))"
      using fields_from_trailing [OF w(1), of "[]" "rev (drop (length w) r)"] by (simp add: Fields_def)
    with 1 Some show ?thesis by (simp add: trim_words.simps [of _ r])
  qed
qed

lemma Fields_trim_left: "Fields (trim_words go_spaces s) = Fields s"
proof (induction go_spaces s rule: trim_words.induct)
  case (1 s)
  then show ?case
    by (cases "lead_word go_spaces s") (simp_all add: trim_words.simps [of _ s] Fields_def fields_from.simps [of "[]" s])
qed

lemma Fields_TrimSpace [simp]: "Fields (TrimSpace s) = Fields s"
  by (simp add: TrimSpace_def Fields_trim_right Fields_trim_left)

lemma directiveKey_TrimSpace [simp]: "directiveKey (TrimSpace s) = directiveKey s"
  by (simp add: directiveKey_def)

subsection \<open>A repaired file needs no repair\<close>

text \<open>A line that survives being written and read back.\<close>

definition tidy :: "string \<Rightarrow> bool" where
  "tidy l \<longleftrightarrow> visible_ends l \<and> NL \<notin> set l"

lemma Split_text: "(\<And>l. l \<in> set ls \<Longrightarrow> NL \<notin> set l) \<Longrightarrow> ls \<noteq> [] \<Longrightarrow> Split NL (Join ls [NL] @ [NL]) = ls @ [[]]"
proof -
  assume l: "\<And>l. l \<in> set ls \<Longrightarrow> NL \<notin> set l" and n: "ls \<noteq> []"
  have "Join ls [NL] @ [NL] = concat (map (\<lambda>l. l @ [NL]) ls)"
    using n by (induction ls "[NL]" rule: Join.induct) auto
  then show ?thesis using l by (simp add: Split_lines)
qed

lemma Split_repaired:
  assumes "list_all tidy (out @ toAdd)" "out \<noteq> []"
  shows "Split NL (repaired desired out toAdd data) = owned_removed desired data @ out @ toAdd @ [[]]"
proof -
  have "NL \<notin> set l" if "l \<in> set (owned_removed desired data @ out @ toAdd)" for l
    using that assms(1) by (auto simp: owned_removed_def list_all_iff tidy_def dest: Split_pieces)
  then show ?thesis using assms(2) Split_text [of "owned_removed desired data @ out @ toAdd"] unfolding repaired_def by simp
qed

lemma missing_after_repair:
  assumes "list_all tidy (desired @ required)" "desired \<noteq> []"
    and "set (map directiveKey required) \<inter> set (map directiveKey desired) = {}"
  shows "missing_lines required (repaired desired desired (missing_lines required data) data) = []"
proof -
  let ?add = "missing_lines required data"
  have t: "list_all tidy (desired @ ?add)" using assms(1) by (auto simp: list_all_iff missing_lines_def)
  have "d \<in> TrimSpace ` set (owned_removed desired data @ desired @ ?add @ [[]])" if d: "d \<in> set required" for d
  proof (cases "d \<in> set ?add")
    case True
    moreover have "TrimSpace d = d" using assms(1) d by (simp add: list_all_iff tidy_def)
    ultimately show ?thesis by (metis Un_iff image_eqI set_append)
  next
    case False
    then obtain l where l: "l \<in> set (Split NL data)" "TrimSpace l = d" using d by (auto simp: missing_lines_def)
    then have "directiveKey l = directiveKey d" by auto
    then have "l \<in> set (owned_removed desired data)" using l(1) d assms(3) by (auto simp: owned_removed_def)
    then show ?thesis using l(2) by auto
  qed
  then have "d \<in> set (map TrimSpace (Split NL (repaired desired desired ?add data)))" if "d \<in> set required" for d
    using that by (simp only: Split_repaired [OF t assms(2)] set_map)
  then show ?thesis by (simp add: missing_lines_def filter_empty_conv Let_def)
qed

lemma key_value_append:
  "key_value (xs @ ys) k = (if \<exists>y \<in> set ys. directiveKey y = k then key_value ys k else key_value xs k)"
proof (induction ys rule: rev_induct)
  case (snoc y ys)
  then show ?case by (auto simp: key_value_def simp flip: append_assoc)
qed (simp add: key_value_def)

lemma current_after_repair:
  assumes "list_all tidy (desired @ toAdd)" "desired \<noteq> []"
    and "set (map directiveKey toAdd) \<inter> set (map directiveKey desired) = {}"
    and "distinct (map directiveKey desired)" "[] \<notin> set (map directiveKey desired)"
  shows "hooksAlreadyCurrent (repaired desired desired toAdd data) desired"
proof -
  let ?ls = "owned_removed desired data @ desired @ toAdd @ [[]]"
  have e: "directiveKey [] = []" by (simp add: directiveKey_def)
  have "key_count ?ls (directiveKey d) = 1 \<and> key_value ?ls (directiveKey d) = d" if d: "d \<in> set desired" for d
  proof
    obtain xs ys where xy: "desired = xs @ d # ys" using d by (auto simp: in_set_conv_decomp)
    have away: "\<forall>l \<in> set (owned_removed desired data) \<union> set xs \<union> set ys \<union> set toAdd \<union> {[]}. directiveKey l \<noteq> directiveKey d"
    proof (intro ballI)
      fix l assume "l \<in> set (owned_removed desired data) \<union> set xs \<union> set ys \<union> set toAdd \<union> {[]}"
      then have "directiveKey l \<notin> directiveKey ` set desired \<or> l \<in> set xs \<union> set ys \<union> set toAdd \<or> l = []"
        by (auto simp: owned_removed_def)
      moreover have "directiveKey d \<notin> directiveKey ` (set xs \<union> set ys \<union> set toAdd)" "directiveKey d \<noteq> []"
        using assms(3,4,5) d unfolding xy by auto
      moreover have "directiveKey d \<in> directiveKey ` set desired" using d by (rule imageI)
      ultimately show "directiveKey l \<noteq> directiveKey d" using e by (metis imageI)
    qed
    then have "filter (\<lambda>l. directiveKey l = directiveKey d) ?ls = [d]" using xy by (auto simp: filter_empty_conv)
    then show "key_count ?ls (directiveKey d) = 1" by (simp add: key_count_def)
    have "?ls = (owned_removed desired data @ xs @ [d]) @ (ys @ toAdd @ [[]])" using xy by simp
    moreover have "TrimSpace d = d" using assms(1) d by (simp add: list_all_iff tidy_def)
    ultimately show "key_value ?ls (directiveKey d) = d" using away
      by (simp only: key_value_append [of "owned_removed desired data @ xs @ [d]"]) (auto simp: key_value_def)
  qed
  then show ?thesis unfolding hooksAlreadyCurrent_def Let_def Split_repaired [OF assms(1,2)] by (simp add: list_all_iff)
qed

subsection \<open>The password file settles\<close>

definition owner_set :: "int \<Rightarrow> int \<Rightarrow> node \<Rightarrow> bool" where
  "owner_set uid gid nd \<longleftrightarrow> (0 \<le> uid \<longrightarrow> n_uid nd = uid) \<and> (0 \<le> gid \<longrightarrow> n_gid nd = gid)"

lemma SetPermissions_ready:
  assumes "healthy w" "dir_ready w (butlast p)" "look w p = Some nd" "is_regular nd" "n_nlink nd = 1"
  obtains nd' w' where "SetPermissions p m uid gid w = (Inr (), w')" "frame (\<lambda>q. q = p) w w'" "same_mem w w'"
    "look w' p = Some nd'" "n_kind nd' = n_kind nd" "n_nlink nd' = 1" "n_mode nd' = m" "owner_set uid gid nd'"
    "n_mode nd = m \<and> owner_set uid gid nd \<longrightarrow> w' = w"
proof -
  have "n_kind nd \<noteq> Link t" for t using assms(4) by (auto simp: is_regular_def)
  then have o: "openPathNoFollow p False 0 w = (Inr nd, w)" using assms by (intro openPathNoFollow_ready) auto
  define own where "own = (if owner_set uid gid nd then nd else nd\<lparr>n_mode := n_mode nd AND m,
      n_uid := (if 0 \<le> uid then uid else n_uid nd), n_gid := (if 0 \<le> gid then gid else n_gid nd)\<rparr>)"
  define w2 where "w2 = (if owner_set uid gid nd then w else put p own w)"
  define w' where "w' = (if n_mode own = m then w2 else put p (own\<lparr>n_mode := m\<rparr>) w2)"
  have s: "owner_set uid gid nd \<longleftrightarrow> \<not> ((0 \<le> uid \<and> n_uid nd \<noteq> uid) \<or> (0 \<le> gid \<and> n_gid nd \<noteq> gid))"
    by (auto simp: owner_set_def)
  have d: "\<not> is_dir nd" using assms(4) by (auto simp: is_dir_def is_regular_def split: kind.splits)
  have "SetPermissions p m uid gid w = (Inr (), w')"
    unfolding SetPermissions_def o w'_def w2_def own_def s
    using assms(1,4,5) d by (auto simp: Let_def put_put)
  moreover have "frame (\<lambda>q. q = p) w w'" "same_mem w w'"
    by (auto simp: w'_def w2_def put_put intro: frame_put)
  moreover have "look w' p = Some (own\<lparr>n_mode := m\<rparr>)" using assms(3) by (auto simp: w'_def w2_def own_def)
  moreover have "owner_set uid gid (own\<lparr>n_mode := m\<rparr>)" by (auto simp: own_def owner_set_def)
  moreover have "n_kind own = n_kind nd" "n_nlink own = n_nlink nd" by (simp_all add: own_def)
  moreover have "n_mode nd = m \<and> owner_set uid gid nd \<longrightarrow> w' = w" by (simp add: own_def w'_def w2_def)
  ultimately show ?thesis using assms(5) by (intro that [of w' "own\<lparr>n_mode := m\<rparr>"]) simp_all
qed

definition password_set :: "world \<Rightarrow> int \<Rightarrow> bool" where
  "password_set w gid = (case look w (MgmtPassFile w) of
      None \<Rightarrow> False
    | Some nd \<Rightarrow> (case n_kind nd of Reg c \<Rightarrow> TrimSpace c \<noteq> [] | _ \<Rightarrow> False)
        \<and> n_nlink nd = 1 \<and> n_mode nd = perm_0640 \<and> owner_set (w_euid w) gid nd)"

lemma EnsureMgmtPassword_set:
  assumes "healthy w" "dir_ready w (butlast (MgmtPassFile w))" "mgmt_gid w = Inr gid" "password_set w gid"
  shows "EnsureMgmtPassword rnd w = (Some (MgmtPassFile w), w)"
proof -
  let ?p = "MgmtPassFile w"
  obtain nd c where nd: "look w ?p = Some nd" "n_kind nd = Reg c" "TrimSpace c \<noteq> []" "n_nlink nd = 1"
      "n_mode nd = perm_0640" "owner_set (w_euid w) gid nd"
    using assms(4) by (auto simp: password_set_def split: option.splits kind.splits)
  have r: "is_regular nd" using nd by (simp add: is_regular_def)
  then have "OpenFileNoFollow ?p False 0 w = (Inr nd, w)"
    using nd assms by (intro OpenFileNoFollow_ready) (auto simp: file_ready_def)
  then have ro: "read_password ?p w = Some c" using assms(1) nd by (simp add: read_open_def read_password_def)
  from SetPermissions_ready [OF assms(1,2) nd(1) r nd(4), of perm_0640 "w_euid w" gid]
  have sp: "SetPermissions ?p perm_0640 (w_euid w) gid w = (Inr (), w)" using nd(5,6) by metis
  show ?thesis
    unfolding EnsureMgmtPassword_def Let_def ro assms(3) using nd(3) sp by simp
qed

lemma hex_visible: "rnd \<noteq> [] \<Longrightarrow> TrimSpace (hex_encode rnd @ [NL]) \<noteq> []"
proof -
  assume r: "rnd \<noteq> []"
  have "is_graph (hex_digit n)" if "n < 16" for n using that by (auto simp: hex_digit_def is_graph_def byte_def)
  moreover have "byte c div 16 < 16" for c by (simp add: byte_def less_mult_imp_div_less)
  ultimately have "visible_ends (hex_encode rnd)" by (intro visible_ends_graph) (auto simp: hex_encode_def)
  then have "TrimSpace (hex_encode rnd @ [NL]) = hex_encode rnd" by (rule TrimSpace_newline)
  then show ?thesis using r by (cases rnd) (simp_all add: hex_encode_def)
qed

lemma MgmtPassFile_env: "same_env w v \<Longrightarrow> MgmtPassFile v = MgmtPassFile w"
  by (simp add: MgmtPassFile_def envPath_def joinRoot_def OpenVPNRoot_def envOr_same)

lemma password_written:
  assumes "healthy w" "dir_ready w (butlast p)" "p = MgmtPassFile w" "look w p = Some nd" "n_kind nd = Reg c"
    "TrimSpace c \<noteq> []" "n_nlink nd = 1" "SetPermissions p perm_0640 (w_euid w) gid w = (r, w')"
  shows "r = Inr () \<and> password_set w' gid \<and> frame (\<lambda>q. q = p) w w' \<and> same_mem w w'"
proof -
  have "is_regular nd" using assms(5) by (simp add: is_regular_def)
  then obtain nd' v where v: "SetPermissions p perm_0640 (w_euid w) gid w = (Inr (), v)" "frame (\<lambda>q. q = p) w v" "same_mem w v"
      "look v p = Some nd'" "n_kind nd' = n_kind nd" "n_nlink nd' = 1" "n_mode nd' = perm_0640" "owner_set (w_euid w) gid nd'"
    by (rule SetPermissions_ready [OF assms(1,2,4) _ assms(7)])
  have e: "same_env w v" using v(2) by (simp add: frame_def)
  have "MgmtPassFile v = p" "w_euid v = w_euid w" using MgmtPassFile_env [OF e] e assms(3) by (simp_all add: same_env_def)
  with v assms(5,6,8) show ?thesis by (simp add: password_set_def)
qed

lemma read_password_ready:
  assumes "healthy w" "dir_ready w (butlast p)" "read_password p w = Some data"
  obtains "look w p = None" "data = []"
  | nd where "look w p = Some nd" "n_kind nd = Reg data" "n_nlink nd = 1"
  using assms
  by (cases "look w p")
     (auto simp: read_password_def read_open_def OpenFileNoFollow_def openPathNoFollow_def openDirectory_ready
        is_regular_def split: kind.splits if_splits)

lemma new_password_ready:
  assumes "healthy w" "dir_ready w (butlast p)" "butlast p \<noteq> []" "\<And>nd. look w p = Some nd \<Longrightarrow> \<not> is_dir nd"
  shows "new_password rnd p w = (Inr (), put p (new_file w (butlast p) perm_0640 (hex_encode rnd @ [NL])) w)"
proof -
  obtain dn where dn: "look w (butlast p) = Some dn" "is_dir dn" using dir_ready_look assms(2,3) by blast
  have "p \<noteq> []" using assms(3) by auto
  from WriteFileAtomic_ready [OF assms(1) dn this assms(4)] show ?thesis
    by (simp add: new_password_def MkdirAllNoFollow_ready [OF assms(2)])
qed

lemma password_stage:
  assumes "healthy w" "dir_ready w (butlast p)" "butlast p \<noteq> []" "rnd \<noteq> []" "read_password p w = Some data"
    and "(if TrimSpace data = [] then new_password rnd p w else (Inr (), w)) = (r, v)"
  obtains nd c where "look v p = Some nd" "n_kind nd = Reg c" "TrimSpace c \<noteq> []" "n_nlink nd = 1" "r = Inr ()"
    "frame (\<lambda>q. q = p) w v" "same_mem w v"
proof (cases "TrimSpace data = []")
  case False
  with assms(1,2,5) obtain nd where "look w p = Some nd" "n_kind nd = Reg data" "n_nlink nd = 1"
    by (auto elim: read_password_ready)
  then show ?thesis using that [of nd data] False assms(6) by auto
next
  case True
  have "\<not> is_dir nd" if "look w p = Some nd" for nd
    using assms(1,2,5) by (rule read_password_ready) (use that in \<open>auto simp: is_dir_def\<close>)
  from new_password_ready [OF assms(1,2,3) this, of rnd] True assms(6)
  have "r = Inr ()" "v = put p (new_file w (butlast p) perm_0640 (hex_encode rnd @ [NL])) w" by auto
  then show ?thesis using hex_visible [OF assms(4)]
    by (intro that [of "new_file w (butlast p) perm_0640 (hex_encode rnd @ [NL])"]) (auto simp: new_file_def intro: frame_put)
qed

lemma EnsureMgmtPassword_ok:
  assumes "healthy w" "dir_ready w (butlast p)" "p = MgmtPassFile w" "butlast p \<noteq> []" "rnd \<noteq> []"
    and "EnsureMgmtPassword rnd w = (Some q, w')"
  obtains gid where "mgmt_gid w = Inr gid" "password_set w' gid" "frame (\<lambda>q. q = p) w w'" "same_mem w w'"
proof -
  obtain gid where g: "mgmt_gid w = Inr gid" using assms(6) by (cases "mgmt_gid w") (auto simp: EnsureMgmtPassword_def)
  obtain data where d: "read_password p w = Some data"
    using assms(3,6) g by (cases "read_password p w") (auto simp: EnsureMgmtPassword_def)
  obtain r v where v: "(if TrimSpace data = [] then new_password rnd p w else (Inr (), w)) = (r, v)" by (metis prod.exhaust)
  obtain nd c where nd: "look v p = Some nd" "n_kind nd = Reg c" "TrimSpace c \<noteq> []" "n_nlink nd = 1" "r = Inr ()"
      "frame (\<lambda>q. q = p) w v" "same_mem w v"
    by (rule password_stage [OF assms(1,2,4,5) d v])
  have "EnsureMgmtPassword rnd w = (case SetPermissions p perm_0640 (w_euid v) gid v of
      (Inl _, w) \<Rightarrow> (None, w) | (Inr _, w) \<Rightarrow> (Some p, w))"
    unfolding EnsureMgmtPassword_def Let_def assms(3) [symmetric] g d v nd(5) sum.case option.case prod.case ..
  then obtain r' where s: "SetPermissions p perm_0640 (w_euid v) gid v = (r', w')"
    using assms(6) by (auto split: prod.splits sum.splits)
  have h: "healthy v" by (rule healthy_frame [OF assms(1) nd(6)])
  have "\<exists>n. p = butlast p @ [n]" using assms(4) by (metis append_butlast_last_id butlast.simps(1))
  then have dv: "dir_ready v (butlast p)" using dir_ready_children [OF nd(6), of "butlast p"] assms(2) by auto
  have pv: "p = MgmtPassFile v" using nd(6) assms(3) MgmtPassFile_env [of w v] by (simp add: frame_def)
  from password_written [OF h dv pv nd(1,2,3,4) s]
  have "password_set w' gid" "frame (\<lambda>q. q = p) v w'" "same_mem v w'" by auto
  then show ?thesis using g frame_trans [OF nd(6), of w'] same_mem_trans [OF nd(7)] by (intro that) auto
qed

subsection \<open>Settings and the environment\<close>

lemma paths_env:
  assumes "same_env w v"
  shows "OpenVPNRoot v = OpenVPNRoot w" "ServerConf v = ServerConf w" "CRLFile v = CRLFile w" "PIDFile v = PIDFile w"
    "StatusFile v = StatusFile w" "LogDir v = LogDir w" "LogFile v = LogFile w" "UsersDir v = UsersDir w"
    "SessionsDir v = SessionsDir w" "UsageDir v = UsageDir w" "OVNodeDir v = OVNodeDir w" "ManagementPort v = ManagementPort w"
  using assms
  by (simp_all add: ServerConf_def CRLFile_def PKIDir_def PIDFile_def StatusFile_def LogDir_def LogFile_def UsersDir_def
      SessionsDir_def UsageDir_def envPath_def joinRoot_def OpenVPNRoot_def OVNodeDir_env ManagementPort_def env_int_def
      Env_def envOr_same)

text \<open>The configuration alone, and when reading it logs nothing.\<close>

definition hook_config :: "world \<Rightarrow> Hook" where
  "hook_config w =
     \<lparr>h_users = UsersDir w, h_sessions = SessionsDir w, h_usage = UsageDir w,
      h_status = StatusFile w, h_logdir = LogDir w, h_log = LogFile w,
      h_mgmt_host = EnvOr w ''OVNODE_MANAGEMENT_HOST'' (EnvOr w ''OVNODE_MGMT_HOST'' ''127.0.0.1''),
      h_mgmt_port = (case Atoi (EnvOr w ''OVNODE_MANAGEMENT_PORT'' []) of
          Some p \<Rightarrow> if 1 \<le> p \<and> p \<le> 65535 then p else DefaultMgmtPort | None \<Rightarrow> DefaultMgmtPort),
      h_mgmt_pass = MgmtPassFile w, h_root = OpenVPNRoot w,
      h_ttl = (case Atoi (EnvOr w ''OVNODE_SESSION_TTL'' []) of
          Some n \<Rightarrow> if 0 < n then n else DefaultSessionTTL | None \<Rightarrow> DefaultSessionTTL)\<rparr>"

definition quiet_settings :: "world \<Rightarrow> bool" where
  "quiet_settings w \<longleftrightarrow>
     (EnvOr w ''OVNODE_MANAGEMENT_PORT'' [] \<noteq> [] \<longrightarrow>
        (case Atoi (EnvOr w ''OVNODE_MANAGEMENT_PORT'' []) of Some p \<Rightarrow> 1 \<le> p \<and> p \<le> 65535 | None \<Rightarrow> False)) \<and>
     (EnvOr w ''OVNODE_SESSION_TTL'' [] \<noteq> [] \<longrightarrow>
        (case Atoi (EnvOr w ''OVNODE_SESSION_TTL'' []) of Some n \<Rightarrow> 0 < n | None \<Rightarrow> False))"

lemma Atoi_Nil: "Atoi [] = None"
  by (simp add: Atoi_def ParseInt_def all_digits_def)

lemma HookFromEnv_quiet: "quiet_settings w \<Longrightarrow> HookFromEnv w = (hook_config w, w)"
  unfolding HookFromEnv_def hook_config_def quiet_settings_def
  by (cases "EnvOr w ''OVNODE_MANAGEMENT_PORT'' [] = []"; cases "EnvOr w ''OVNODE_SESSION_TTL'' [] = []")
     (simp_all add: Let_def Atoi_Nil split: option.splits)

lemma hook_config_env: "same_env w v \<Longrightarrow> hook_config v = hook_config w"
  by (simp add: hook_config_def EnvOr_def envOr_same paths_env MgmtPassFile_env)

lemma quiet_env: "same_env w v \<Longrightarrow> quiet_settings v = quiet_settings w"
  by (simp add: quiet_settings_def EnvOr_def envOr_same)

lemma hook_lines_env: "same_env w v \<Longrightarrow> hook_lines exe v = hook_lines exe w"
  unfolding hook_lines_def HookTargets_def AgentBin_def by (simp add: envOr_same)

lemma hardening_env: "same_env w v \<Longrightarrow> hardening_lines v = hardening_lines w"
  unfolding hardening_lines_def MgmtLine_def by (simp add: paths_env MgmtPassFile_env)

subsection \<open>The account lines\<close>

lemma runtimeDirective_ready:
  assumes "healthy w" "dir_ready w (butlast (ServerConf w))"
  shows "runtimeDirective w name fallback =
    (case look w (ServerConf w) of
       None \<Rightarrow> fallback
     | Some nd \<Rightarrow> (case n_kind nd of
           Reg data \<Rightarrow> if n_nlink nd = 1 then
               (case directive_value name (Split NL data) of Some v \<Rightarrow> v | None \<Rightarrow> fallback) else fallback
         | _ \<Rightarrow> fallback))"
  using assms
  by (auto simp: runtimeDirective_def read_open_def OpenFileNoFollow_def openPathNoFollow_def openDirectory_ready
      is_regular_def split: option.splits kind.splits)

lemma directive_value_skip:
  "name \<noteq> ''setenv'' \<Longrightarrow> (\<And>l. l \<in> set xs \<Longrightarrow> directiveKey l \<noteq> name) \<Longrightarrow>
   directive_value name (xs @ ys) = directive_value name ys"
proof (induction xs)
  case (Cons x xs)
  have "f \<noteq> name" if "Fields x = f # g # r" for f g r
    using Cons.prems(1) Cons.prems(2) [of x] that by (auto simp: directiveKey_def)
  then show ?case using Cons by (auto split: list.splits)
qed simp

text \<open>A value that is one visible word.\<close>

definition word_ok :: "string \<Rightarrow> bool" where
  "word_ok v \<longleftrightarrow> v \<noteq> [] \<and> list_all is_graph v"

lemma Fields_two: "word_ok a \<Longrightarrow> Fields (a @ CHR '' '' # b) = a # Fields b"
  by (rule Fields_word_space) (auto simp: word_ok_def list_all_iff)

lemma Fields_one: "word_ok a \<Longrightarrow> Fields a = [a]"
  by (rule Fields_word) (auto simp: word_ok_def list_all_iff)

lemma TrimSet_idem: "TrimSet cs (TrimSet cs s) = TrimSet cs s"
proof -
  have "dropWhile P (rev (dropWhile P (rev (dropWhile P s)))) = rev (dropWhile P (rev (dropWhile P s)))" for P and s :: string
  proof (cases "dropWhile P s")
    case Nil
    then show ?thesis by (simp only: Nil rev.simps dropWhile.simps)
  next
    case (Cons c t)
    then have "\<not> P c" by (metis hd_dropWhile list.discI list.sel(1))
    then have "\<exists>u. rev (dropWhile P (rev (c # t))) = c # u"
      by (simp add: dropWhile_append) (metis rev_rev_ident)
    then show ?thesis using Cons \<open>\<not> P c\<close> by auto
  qed
  moreover have "dropWhile P (dropWhile P r) = dropWhile P r" for P and r :: string by (induction r) auto
  ultimately show ?thesis by (simp add: TrimSet_def TrimRightSet_def)
qed

subsection \<open>The node's own lines\<close>

definition desired_lines :: "executable \<Rightarrow> world \<Rightarrow> string list" where
  "desired_lines exe w = hook_lines exe w @ map setenv_line (hook_settings (hook_config w) w)
     @ [''user '' @ RuntimeUser w, ''group '' @ RuntimeGroup w]"

definition required_lines :: "world \<Rightarrow> string list" where
  "required_lines w = hardening_lines w @ [''duplicate-cn'', ''crl-verify '' @ path_text (CRLFile w)]"

text \<open>Every value that the lines carry is one visible word.\<close>

definition settings_tidy :: "executable \<Rightarrow> world \<Rightarrow> bool" where
  "settings_tidy exe w \<longleftrightarrow> list_all word_ok
     ([path_text (AgentBin exe w), path_text (MgmtPassFile w), path_text (PIDFile w), path_text (CRLFile w),
       RuntimeUser w, RuntimeGroup w] @ map snd (hook_settings (hook_config w) w))"

lemma directiveKey_word: "word_ok a \<Longrightarrow> a \<noteq> ''setenv'' \<Longrightarrow> directiveKey (a @ CHR '' '' # b) = a"
  by (simp add: directiveKey_def Fields_two split: list.splits)

lemma directiveKey_setenv:
  assumes "word_ok n" "TrimSet [DQ, SQ] n = n" "Fields v = [v]"
  shows "directiveKey (''setenv '' @ n @ '' '' @ v) = ''setenv '' @ n"
proof -
  have "Fields (''setenv'' @ CHR '' '' # n @ CHR '' '' # v) = ''setenv'' # Fields (n @ CHR '' '' # v)"
    by (rule Fields_two) (simp add: word_ok_def is_graph_def byte_def)
  also have "Fields (n @ CHR '' '' # v) = n # Fields v" by (rule Fields_two [OF assms(1)])
  finally show ?thesis using assms(2) by (simp add: directiveKey_def)
qed

lemma configValue_word: "word_ok v \<Longrightarrow> word_ok (configValue v)"
proof -
  assume v: "word_ok v"
  have q: "list_all is_graph (quote_byte c)" if c: "is_graph c" for c
  proof -
    have b: "byte c \<noteq> 7" "byte c \<noteq> 8" "byte c \<noteq> 12" "byte c \<noteq> 11" "\<not> byte c < 32" "byte c \<noteq> 127"
      and n: "c \<noteq> NL" "c \<noteq> CR" "c \<noteq> TAB"
      using c by (auto simp: is_graph_def byte_def)
    have "quote_byte c = (if c = DQ \<or> c = BSL then [BSL, c] else [c])"
      unfolding quote_byte_def using b n by (simp only: if_False simp_thms)
    moreover have "is_graph BSL" by (simp add: is_graph_def byte_def)
    ultimately show ?thesis using c by simp
  qed
  have "list_all is_graph (concat (map quote_byte v))" using v q by (auto simp: word_ok_def list_all_iff)
  moreover have "is_graph DQ" by (simp add: is_graph_def byte_def)
  ultimately have "list_all is_graph (go_quote v)" by (simp add: go_quote_def)
  then show ?thesis using v by (simp add: configValue_def word_ok_def go_quote_def)
qed

lemma graph_not_NL: "list_all is_graph v \<Longrightarrow> NL \<notin> set v"
  by (auto simp: list_all_iff is_graph_def byte_def)

lemma tidy_word: "word_ok v \<Longrightarrow> tidy v"
  by (auto simp: tidy_def word_ok_def visible_ends_def list_all_iff graph_not_NL)

lemma tidy_prefix:
  "word_ok v \<Longrightarrow> a \<noteq> [] \<Longrightarrow> is_graph (hd a) \<Longrightarrow> NL \<notin> set a \<Longrightarrow> tidy (a @ v)"
  using graph_not_NL by (auto simp: tidy_def word_ok_def visible_ends_def list_all_iff)

definition setting_names :: "string list" where
  "setting_names = [''OVNODE_OPENVPN_ROOT'', ''OVNODE_DATA_DIR'', ''OVNODE_USERS_DIR'', ''OVNODE_SESSIONS_DIR'',
     ''OVNODE_USAGE_DIR'', ''OVNODE_STATUS_FILE'', ''OVNODE_LOG_DIR'', ''OVNODE_LOG_FILE'', ''OVNODE_MANAGEMENT_HOST'',
     ''OVNODE_MANAGEMENT_PORT'', ''OVNODE_MGMT_PASS_FILE'', ''OVNODE_ALLOW_REMOTE_MGMT'', ''OVNODE_RUNTIME_USER'',
     ''OVNODE_RUNTIME_GROUP'', ''OVNODE_SESSION_TTL'']"

definition own_keys :: "string list" where
  "own_keys = [''client-connect'', ''client-disconnect''] @ map (\<lambda>n. ''setenv '' @ n) setting_names @ [''user'', ''group'']"

definition required_keys :: "string list" where
  "required_keys = [''tls-version-min'', ''remote-cert-tls'', ''management'', ''writepid'', ''script-security'',
     ''status-version'', ''duplicate-cn'', ''crl-verify'']"

lemma hook_settings_names: "map fst (hook_settings cfg w) = setting_names"
  by (simp add: hook_settings_def setting_names_def)

lemma keys_apart: "distinct own_keys" "[] \<notin> set own_keys" "set required_keys \<inter> set own_keys = {}"
  by code_simp+

lemma setting_names_ok: "n \<in> set setting_names \<Longrightarrow> word_ok n \<and> TrimSet [DQ, SQ] n = n"
proof -
  have "list_all (\<lambda>n. word_ok n \<and> TrimSet [DQ, SQ] n = n) setting_names" by code_simp
  then show "n \<in> set setting_names \<Longrightarrow> word_ok n \<and> TrimSet [DQ, SQ] n = n" by (simp add: list_all_iff)
qed

lemma literal_keys:
  "directiveKey (''client-connect '' @ x) = ''client-connect''"
  "directiveKey (''client-disconnect '' @ x) = ''client-disconnect''"
  "directiveKey (''user '' @ x) = ''user''"
  "directiveKey (''group '' @ x) = ''group''"
  "directiveKey (''management 127.0.0.1 '' @ x) = ''management''"
  "directiveKey (''writepid '' @ x) = ''writepid''"
  "directiveKey (''crl-verify '' @ x) = ''crl-verify''"
  using directiveKey_word [of "''client-connect''" x] directiveKey_word [of "''client-disconnect''" x]
    directiveKey_word [of "''user''" x] directiveKey_word [of "''group''" x]
    directiveKey_word [of "''management''" "''127.0.0.1 '' @ x"] directiveKey_word [of "''writepid''" x]
    directiveKey_word [of "''crl-verify''" x]
  by (simp_all add: word_ok_def is_graph_def byte_def)

lemma setenv_keys:
  assumes "list_all word_ok (map snd kvs)" "set (map fst kvs) \<subseteq> set setting_names"
  shows "map directiveKey (map setenv_line kvs) = map (\<lambda>n. ''setenv '' @ n) (map fst kvs)"
proof -
  have "directiveKey (setenv_line kv) = ''setenv '' @ fst kv" if "kv \<in> set kvs" for kv
  proof -
    have "word_ok (snd kv)" "fst kv \<in> set setting_names" using that assms by (auto simp: list_all_iff)
    then show ?thesis unfolding setenv_line_def
      using setting_names_ok configValue_word by (intro directiveKey_setenv Fields_one) auto
  qed
  then show ?thesis unfolding map_map comp_def by (rule map_cong [OF refl])
qed

lemma desired_keys: "settings_tidy exe w \<Longrightarrow> map directiveKey (desired_lines exe w) = own_keys"
proof -
  assume "settings_tidy exe w"
  then have v: "list_all word_ok (map snd (hook_settings (hook_config w) w))" by (simp add: settings_tidy_def)
  have "map directiveKey (map setenv_line (hook_settings (hook_config w) w)) = map (\<lambda>n. ''setenv '' @ n) setting_names"
    using setenv_keys [OF v] unfolding hook_settings_names by simp
  then show ?thesis
    unfolding desired_lines_def hook_lines_def own_keys_def map_append by (simp only: list.map literal_keys)
qed

lemma required_keys: "map directiveKey (required_lines w) = required_keys"
proof -
  have "directiveKey ''tls-version-min 1.3'' = ''tls-version-min''" "directiveKey ''remote-cert-tls client'' = ''remote-cert-tls''"
    "directiveKey ''script-security 2'' = ''script-security''" "directiveKey ''status-version 3'' = ''status-version''"
    "directiveKey ''duplicate-cn'' = ''duplicate-cn''" by code_simp+
  then show ?thesis
    unfolding required_lines_def hardening_lines_def MgmtLine_def required_keys_def map_append
    by (simp add: literal_keys [simplified])
qed

lemma settings_tidyD:
  assumes "settings_tidy exe w"
  shows "word_ok (path_text (AgentBin exe w))" "word_ok (path_text (MgmtPassFile w))" "word_ok (path_text (PIDFile w))"
    "word_ok (path_text (CRLFile w))" "word_ok (RuntimeUser w)" "word_ok (RuntimeGroup w)"
    "\<And>kv. kv \<in> set (hook_settings (hook_config w) w) \<Longrightarrow> word_ok (snd kv)"
  using assms by (auto simp: settings_tidy_def list_all_iff)

lemma Itoa_NL: "NL \<notin> set (Itoa i)"
  using Itoa_graph [of NL i] by (auto simp: is_graph_def byte_def)

lemma tidy_settings: "settings_tidy exe w \<Longrightarrow> list_all tidy (desired_lines exe w @ required_lines w)"
proof -
  assume s: "settings_tidy exe w"
  note v = settings_tidyD [OF s]
  have "tidy (setenv_line kv)" if "kv \<in> set (hook_settings (hook_config w) w)" for kv
  proof -
    have "fst kv \<in> set setting_names" using that hook_settings_names by (metis imageI list.set_map)
    then have "NL \<notin> set (fst kv)" using setting_names_ok graph_not_NL by (auto simp: word_ok_def)
    then have "tidy ((''setenv '' @ fst kv @ '' '') @ configValue (snd kv))"
      using configValue_word [OF v(7) [OF that]] by (intro tidy_prefix) (simp_all add: is_graph_def byte_def)
    then show ?thesis by (simp add: setenv_line_def)
  qed
  then have e: "list_all tidy (map setenv_line (hook_settings (hook_config w) w))" by (simp add: list_all_iff)
  have "word_ok [DQ]" by (simp add: word_ok_def is_graph_def byte_def)
  then have h: "list_all tidy (hook_lines exe w)"
    using v(1) tidy_prefix [of "[DQ]" "''client-connect '' @ [DQ] @ path_text (AgentBin exe w) @ '' hook connect''"]
      tidy_prefix [of "[DQ]" "''client-disconnect '' @ [DQ] @ path_text (AgentBin exe w) @ '' hook disconnect''"] graph_not_NL
    by (simp add: hook_lines_def HookTargets_def Let_def word_ok_def is_graph_def byte_def)
  have m: "tidy (MgmtLine w)"
    using configValue_word [OF v(2)] Itoa_NL
      tidy_prefix [of "configValue (path_text (MgmtPassFile w))" "''management 127.0.0.1 '' @ Itoa (ManagementPort w) @ '' ''"]
    by (simp add: MgmtLine_def is_graph_def byte_def)
  have r: "tidy (''user '' @ RuntimeUser w)" "tidy (''group '' @ RuntimeGroup w)" "tidy (''writepid '' @ path_text (PIDFile w))"
    "tidy (''crl-verify '' @ path_text (CRLFile w))"
    by (rule tidy_prefix [OF v(5)] tidy_prefix [OF v(6)] tidy_prefix [OF v(3)] tidy_prefix [OF v(4)];
        simp add: is_graph_def byte_def)+
  have "tidy ''tls-version-min 1.3''" "tidy ''remote-cert-tls client''" "tidy ''script-security 2''" "tidy ''status-version 3''"
    "tidy ''duplicate-cn''" by code_simp+
  with e h m r show ?thesis
    unfolding desired_lines_def required_lines_def hardening_lines_def by (simp only: list_all_append list.pred_inject simp_thms)
qed

subsection \<open>The repair at the level of the file\<close>

text \<open>With the password in place and quiet settings, only the text of the file decides.\<close>

lemma ensure_existing:
  assumes "EnsureMgmtPassword rnd w = (Some q, w)" "quiet_settings w"
    and "os_Lstat w (ServerConf w) = Inr nd" "os_ReadFile w (ServerConf w) = Inr data"
    and "toAdd = missing_lines (required_lines w) data"
  shows "ensureServerConf rnd exe w =
    (if toAdd = [] \<and> hooksAlreadyCurrent data (desired_lines exe w) then (Inr False, w)
     else case WriteFileAtomic (ServerConf w) (repaired (desired_lines exe w) (desired_lines exe w) toAdd data) perm_0644 w of
         (Inl e, w) \<Rightarrow> (Inl e, w)
       | (Inr _, w) \<Rightarrow> (Inr True, w))"
proof -
  have h: "HookEnvDirectives w = (map setenv_line (hook_settings (hook_config w) w), w)"
    by (simp add: HookEnvDirectives_def HookFromEnv_quiet [OF assms(2)])
  have g: "HardeningDirectives rnd w = (hardening_lines w, w)" by (simp add: HardeningDirectives_def assms(1))
  show ?thesis
    unfolding ensureServerConf_def assms(1,3,4,5) g h Let_def prod.case option.case sum.case required_lines_def desired_lines_def ..
qed

text \<open>The account that the repaired file names is the account it was written for.\<close>

lemma directive_value_trimmed: "directive_value name ls = Some v \<Longrightarrow> TrimSet [DQ, SQ] v = v"
  by (induction ls) (auto simp: TrimSet_idem split: list.splits if_splits)

lemma runtimeDirective_trimmed: "TrimSet [DQ, SQ] f = f \<Longrightarrow> TrimSet [DQ, SQ] (runtimeDirective w name f) = runtimeDirective w name f"
  by (auto simp: runtimeDirective_def dest: directive_value_trimmed split: sum.splits option.splits)

lemma directive_value_repaired:
  assumes "word_ok name" "name \<noteq> ''setenv''" "word_ok u" "list_all tidy (D @ toAdd)"
    and "D = pre @ (name @ CHR '' '' # u) # post" "distinct (map directiveKey D)"
  shows "directive_value name (Split NL (repaired D D toAdd data)) = Some (TrimSet [DQ, SQ] u)"
proof -
  have k: "directiveKey (name @ CHR '' '' # u) = name" by (rule directiveKey_word [OF assms(1,2)])
  have n: "D \<noteq> []" using assms(5) by simp
  have m: "name \<in> set (map directiveKey D)" "name \<notin> directiveKey ` set pre" using k assms(6) by (auto simp: assms(5))
  have "directiveKey l \<noteq> name" if "l \<in> set (owned_removed D data @ pre)" for l
    using that m by (auto simp: owned_removed_def image_iff)
  then have "directive_value name ((owned_removed D data @ pre) @ (name @ CHR '' '' # u) # post @ toAdd @ [[]])
      = directive_value name ((name @ CHR '' '' # u) # post @ toAdd @ [[]])" by (intro directive_value_skip [OF assms(2)])
  also have "\<dots> = Some (TrimSet [DQ, SQ] u)" by (simp add: Fields_two [OF assms(1)] Fields_one [OF assms(3)])
  finally show ?thesis using Split_repaired [OF assms(4) n, of D data] by (simp add: assms(5))
qed

lemma runtime_stable:
  assumes "healthy w" "conf = ServerConf w" "dir_ready w (butlast conf)" "settings_tidy exe w"
    and "D = desired_lines exe w" "list_all tidy (D @ toAdd)"
    and "v = put conf (new_file w (butlast conf) perm_0644 (repaired D D toAdd data)) w"
  shows "RuntimeUser v = RuntimeUser w" "RuntimeGroup v = RuntimeGroup w"
proof -
  have conf: "conf \<noteq> []" by (simp add: assms(2) ServerConf_def joinRoot_def)
  have f: "frame (\<lambda>q. q = conf) w v" unfolding assms(7) by (rule frame_put) simp
  then have e: "same_env w v" by (simp add: frame_def)
  have c: "ServerConf v = conf" using paths_env(2) [OF e] assms(2) by simp
  have "\<exists>n. conf = butlast conf @ [n]" using conf by (metis append_butlast_last_id)
  then have d: "dir_ready v (butlast conf)" using dir_ready_children [OF f, of "butlast conf"] assms(3) by auto
  have h: "healthy v" by (rule healthy_frame [OF assms(1) f])
  let ?ls = "Split NL (repaired D D toAdd data)"
  have r: "runtimeDirective v n fb = (case directive_value n ?ls of Some x \<Rightarrow> x | None \<Rightarrow> fb)" for n fb
    using runtimeDirective_ready [OF h d [folded c], of n fb] unfolding c by (simp add: assms(7) new_file_def)
  have di: "distinct (map directiveKey D)" using desired_keys [OF assms(4)] keys_apart(1) assms(5) by simp
  note t = settings_tidyD(5,6) [OF assms(4)]
  let ?pre = "hook_lines exe w @ map setenv_line (hook_settings (hook_config w) w)"
  have "directive_value ''user'' ?ls = Some (TrimSet [DQ, SQ] (RuntimeUser w))"
    by (rule directive_value_repaired [OF _ _ t(1) assms(6) _ di, of _ ?pre "[''group '' @ RuntimeGroup w]"])
       (simp_all add: assms(5) desired_lines_def word_ok_def is_graph_def byte_def)
  moreover have "directive_value ''group'' ?ls = Some (TrimSet [DQ, SQ] (RuntimeGroup w))"
    by (rule directive_value_repaired [OF _ _ t(2) assms(6) _ di, of _ "?pre @ [''user '' @ RuntimeUser w]" "[]"])
       (simp_all add: assms(5) desired_lines_def word_ok_def is_graph_def byte_def)
  moreover have "TrimSet [DQ, SQ] (runtimeDirective w ''user'' ''nobody'') = runtimeDirective w ''user'' ''nobody''"
    "TrimSet [DQ, SQ] (runtimeDirective w ''group'' ''nogroup'') = runtimeDirective w ''group'' ''nogroup''"
    by (rule runtimeDirective_trimmed; code_simp)+
  ultimately show "RuntimeUser v = RuntimeUser w" "RuntimeGroup v = RuntimeGroup w"
    by (simp_all add: RuntimeUser_def RuntimeGroup_def Env_def envOr_same [OF e] r Let_def split: if_splits)
qed

lemma same_lines:
  assumes "same_env w v" "RuntimeUser v = RuntimeUser w" "RuntimeGroup v = RuntimeGroup w"
  shows "desired_lines exe v = desired_lines exe w" "required_lines v = required_lines w"
    "settings_tidy exe v = settings_tidy exe w" "mgmt_gid v = mgmt_gid w"
proof -
  have h: "hook_settings (hook_config v) v = hook_settings (hook_config w) w"
    by (simp add: hook_settings_def hook_config_env [OF assms(1)] paths_env [OF assms(1)] assms(2,3) Env_def envOr_same [OF assms(1)])
  have "AgentBin exe v = AgentBin exe w" by (simp add: AgentBin_def envOr_same [OF assms(1)])
  with h show "settings_tidy exe v = settings_tidy exe w"
    by (simp add: settings_tidy_def paths_env [OF assms(1)] MgmtPassFile_env [OF assms(1)] assms(2,3))
  show "desired_lines exe v = desired_lines exe w"
    by (simp add: desired_lines_def h hook_lines_env [OF assms(1)] assms(2,3))
  show "required_lines v = required_lines w"
    by (simp add: required_lines_def hardening_env [OF assms(1)] paths_env [OF assms(1)])
  have "w_groups v = w_groups w" "w_euid v = w_euid w" "w_egid v = w_egid w" using assms(1) by (simp_all add: same_env_def)
  then show "mgmt_gid v = mgmt_gid w" unfolding mgmt_gid_def RuntimeGroupID_def assms(3) by simp
qed

text \<open>Everything the repair relies on, once the password is in place.\<close>

definition conf_ready :: "int \<Rightarrow> executable \<Rightarrow> world \<Rightarrow> bool" where
  "conf_ready gid exe w \<longleftrightarrow> healthy w \<and> dir_ready w (butlast (MgmtPassFile w)) \<and> dir_ready w (butlast (ServerConf w))
     \<and> (case look w (ServerConf w) of Some nd \<Rightarrow> is_regular nd | None \<Rightarrow> False)
     \<and> quiet_settings w \<and> settings_tidy exe w \<and> mgmt_gid w = Inr gid \<and> password_set w gid"

lemma conf_ready_reads:
  assumes "conf_ready gid exe w"
  obtains data nd where "EnsureMgmtPassword rnd w = (Some (MgmtPassFile w), w)" "os_Lstat w (ServerConf w) = Inr nd"
    "os_ReadFile w (ServerConf w) = Inr data" "look w (ServerConf w) = Some nd" "n_kind nd = Reg data"
proof -
  obtain nd where nd: "look w (ServerConf w) = Some nd" "is_regular nd" using assms by (auto simp: conf_ready_def split: option.splits)
  moreover from nd obtain data where "n_kind nd = Reg data" by (auto simp: is_regular_def split: kind.splits)
  moreover have h: "healthy w" using assms by (simp add: conf_ready_def)
  moreover have "plain w (ServerConf w)" using nd by (simp add: plain_def)
  moreover have "EnsureMgmtPassword rnd w = (Some (MgmtPassFile w), w)"
    using assms unfolding conf_ready_def by (elim conjE) (rule EnsureMgmtPassword_set)
  ultimately show ?thesis using that by (simp add: os_Lstat_def plain_ReadFile)
qed

lemma conf_ready_written:
  assumes "conf_ready gid exe w" "conf = ServerConf w" "\<not> prefix conf (MgmtPassFile w)"
    and "D = desired_lines exe w" "toAdd = missing_lines (required_lines w) data"
    and "v = put conf (new_file w (butlast conf) perm_0644 (repaired D D toAdd data)) w"
  shows "conf_ready gid exe v" "desired_lines exe v = D" "required_lines v = required_lines w" "ServerConf v = conf"
proof -
  have c: "healthy w" "dir_ready w (butlast conf)" "settings_tidy exe w" using assms(1,2) by (simp_all add: conf_ready_def)
  have t: "list_all tidy (D @ toAdd)" using tidy_settings [OF c(3)] assms(4,5) by (auto simp: list_all_iff missing_lines_def)
  have f: "frame (\<lambda>q. q = conf) w v" unfolding assms(6) by (rule frame_put) simp
  then have e: "same_env w v" by (simp add: frame_def)
  have rt: "RuntimeUser v = RuntimeUser w" "RuntimeGroup v = RuntimeGroup w"
    using runtime_stable [OF c(1) assms(2) c(2,3) assms(4) t assms(6)] by auto
  note sl = same_lines [OF e rt]
  have p: "MgmtPassFile v = MgmtPassFile w" "ServerConf v = conf" using MgmtPassFile_env [OF e] paths_env(2) [OF e] assms(2) by simp_all
  have eu: "w_euid v = w_euid w" using e by (simp add: same_env_def)
  have "conf \<noteq> []" by (simp add: assms(2) ServerConf_def joinRoot_def)
  then have "dir_ready v (butlast conf)" using f c(2)
    by (subst dir_ready_children [OF f]) (auto intro: exI [of _ "last conf"])
  moreover have "dir_ready v (butlast (MgmtPassFile w)) = dir_ready w (butlast (MgmtPassFile w))"
    by (rule dir_ready_frame [OF f]) (use assms(3) in \<open>auto dest: prefix_order.trans [OF _ prefixeq_butlast]\<close>)
  moreover have "look v (MgmtPassFile w) = look w (MgmtPassFile w)" by (rule frame_look [OF f]) (use assms(3) in auto)
  moreover have "\<exists>nd. look v conf = Some nd \<and> is_regular nd" by (simp add: assms(6) new_file_def is_regular_def)
  moreover have "password_set v gid = password_set w gid"
    unfolding password_set_def p(1) calculation(3) eu ..
  ultimately show "conf_ready gid exe v"
    using assms(1) healthy_frame [OF c(1) f] quiet_env [OF e] sl p by (auto simp: conf_ready_def)
  show "desired_lines exe v = D" "required_lines v = required_lines w" "ServerConf v = conf" using sl p assms(4) by auto
qed

text \<open>One repair is enough.\<close>

lemma repair_settles:
  assumes c: "conf_ready gid exe w" and np: "\<not> prefix (ServerConf w) (MgmtPassFile w)"
    and r: "ensureServerConf rnd exe w = (Inr changed, w1)"
  shows "ensureServerConf rnd' exe w1 = (Inr False, w1)"
proof -
  have q: "quiet_settings w" "settings_tidy exe w" using c by (simp_all add: conf_ready_def)
  obtain data nd where d: "\<And>rnd. EnsureMgmtPassword rnd w = (Some (MgmtPassFile w), w)" "os_Lstat w (ServerConf w) = Inr nd"
      "os_ReadFile w (ServerConf w) = Inr data"
    using conf_ready_reads [OF c] by (metis sum.sel(2))
  let ?D = "desired_lines exe w"
  let ?A = "missing_lines (required_lines w) data"
  let ?new = "repaired ?D ?D ?A data"
  note step = ensure_existing [OF d(1) q(1) d(2,3) refl, of _ exe]
  show ?thesis
  proof (cases "?A = [] \<and> hooksAlreadyCurrent data ?D")
    case True
    then show ?thesis using r step [of rnd] step [of rnd'] by simp
  next
    case False
    then have w1: "w1 = put (ServerConf w) (new_file w (butlast (ServerConf w)) perm_0644 ?new) w"
      using r step [of rnd] by (auto dest: WriteFileAtomic_ok split: prod.splits sum.splits)
    note v = conf_ready_written [OF c refl np refl refl w1]
    have "os_ReadFile w1 (ServerConf w) = Inr ?new"
      using v(1) by (subst plain_ReadFile) (simp_all add: w1 plain_def new_file_def is_regular_def conf_ready_def)
    moreover obtain nd1 where "EnsureMgmtPassword rnd' w1 = (Some (MgmtPassFile w1), w1)" "os_Lstat w1 (ServerConf w) = Inr nd1"
      using conf_ready_reads [OF v(1)] unfolding v(4) by metis
    moreover have "quiet_settings w1" using v(1) by (simp add: conf_ready_def)
    ultimately have s1: "ensureServerConf rnd' exe w1 =
       (if missing_lines (required_lines w) ?new = [] \<and> hooksAlreadyCurrent ?new ?D then (Inr False, w1)
        else case WriteFileAtomic (ServerConf w1) (repaired ?D ?D (missing_lines (required_lines w) ?new) ?new) perm_0644 w1 of
            (Inl e, w) \<Rightarrow> (Inl e, w) | (Inr _, w) \<Rightarrow> (Inr True, w))"
      using ensure_existing [of rnd' w1 _ nd1 ?new _ exe] unfolding v(2,3,4) by blast
    have t: "list_all tidy (?D @ required_lines w)" by (rule tidy_settings [OF q(2)])
    then have tA: "list_all tidy (?D @ ?A)" by (auto simp: list_all_iff missing_lines_def)
    have k: "map directiveKey ?D = own_keys" "map directiveKey (required_lines w) = required_keys"
      using desired_keys [OF q(2)] required_keys by auto
    have n: "?D \<noteq> []" by (simp add: desired_lines_def)
    have ka: "set (map directiveKey ?A) \<inter> set (map directiveKey ?D) = {}"
      using keys_apart(3) unfolding k(1) k(2) [symmetric] by (auto simp: missing_lines_def)
    have "missing_lines (required_lines w) ?new = []"
      by (rule missing_after_repair [OF t n]) (use keys_apart(3) in \<open>simp only: k\<close>)
    moreover have "hooksAlreadyCurrent ?new ?D"
      by (rule current_after_repair [OF tA n ka]) (use keys_apart(1,2) in \<open>simp_all only: k not_False_eq_True\<close>)
    ultimately show ?thesis using s1 by simp
  qed
qed

subsection \<open>Properties\<close>

text \<open>
  C37. The repair of \<open>server.conf\<close> settles. When \<open>EnsureServerConf\<close> succeeds on an existing file, a second
  run changes nothing, in the whole file system, and reports that nothing changed: the repaired file
  carries each of the node's lines once, with the value of the settings, every hardening line, and the
  runtime account it was written for. The settings hold one visible word each, and the password file and
  the configuration do not lie under one another.
\<close>

theorem conf_repair_settles:
  assumes "healthy w" "dir_ready w (butlast (MgmtPassFile w))" "butlast (MgmtPassFile w) \<noteq> []"
    and "dir_ready w (butlast (ServerConf w))" "look w (ServerConf w) = Some nd" "is_regular nd"
    and "\<not> prefix (MgmtPassFile w) (ServerConf w)" "\<not> prefix (ServerConf w) (MgmtPassFile w)"
    and "quiet_settings w" "settings_tidy exe w" "rnd \<noteq> []"
    and "ensureServerConf rnd exe w = (Inr changed, w1)"
  shows "ensureServerConf rnd' exe w1 = (Inr False, w1)"
proof -
  obtain q wa where m: "EnsureMgmtPassword rnd w = (Some q, wa)"
    using assms(12) by (auto simp: ensureServerConf_def split: prod.splits option.splits)
  obtain gid where g: "mgmt_gid w = Inr gid" "password_set wa gid" "frame (\<lambda>q. q = MgmtPassFile w) w wa" "same_mem w wa"
    by (rule EnsureMgmtPassword_ok [OF assms(1,2) refl assms(3,11) m])
  have e: "same_env w wa" using g(3) by (simp add: frame_def)
  have p: "MgmtPassFile wa = MgmtPassFile w" "ServerConf wa = ServerConf w" using MgmtPassFile_env [OF e] paths_env(2) [OF e] by auto
  have h: "healthy wa" by (rule healthy_frame [OF assms(1) g(3)])
  have d: "dir_ready wa (butlast (MgmtPassFile w))" "dir_ready wa (butlast (ServerConf w))"
    using dir_ready_children [OF g(3), of "butlast (MgmtPassFile w)"] assms(2,3) append_butlast_last_id [of "MgmtPassFile w"]
      dir_ready_frame [OF g(3), of "butlast (ServerConf w)"] assms(4,7) prefix_order.trans [OF _ prefixeq_butlast]
    by (metis butlast.simps(1))+
  have l: "look wa (ServerConf w) = look w (ServerConf w)" by (rule frame_look [OF g(3)]) (use assms(7) in auto)
  have rd: "runtimeDirective wa n f = runtimeDirective w n f" for n f
    using runtimeDirective_ready [OF h, of n f] runtimeDirective_ready [OF assms(1,4), of n f] d(2) by (simp add: p l)
  have rt: "RuntimeUser wa = RuntimeUser w" "RuntimeGroup wa = RuntimeGroup w"
    unfolding RuntimeUser_def RuntimeGroup_def Env_def envOr_same [OF e] rd by (rule refl)+
  have c: "conf_ready gid exe wa"
    using h d l assms(5,6,9,10) same_lines [OF e rt] quiet_env [OF e] g(1,2) by (simp add: conf_ready_def p)
  have "EnsureMgmtPassword rnd wa = (Some (MgmtPassFile wa), wa)" using conf_ready_reads [OF c] by metis
  then have "ensureServerConf rnd exe wa = (Inr changed, w1)" using assms(12) by (simp add: ensureServerConf_def m)
  then show ?thesis using assms(8) by (intro repair_settles [OF c]) (simp_all add: p)
qed

text \<open>On a ready tree the repair does succeed.\<close>

lemma repair_succeeds:
  assumes c: "conf_ready gid exe w" and b: "butlast (ServerConf w) \<noteq> []"
  shows "is_ok (ensureServerConf rnd exe w)"
proof -
  have h: "healthy w" "quiet_settings w" "dir_ready w (butlast (ServerConf w))" using c by (simp_all add: conf_ready_def)
  obtain data nd where d: "EnsureMgmtPassword rnd w = (Some (MgmtPassFile w), w)" "os_Lstat w (ServerConf w) = Inr nd"
      "os_ReadFile w (ServerConf w) = Inr data" "look w (ServerConf w) = Some nd" "n_kind nd = Reg data"
    using conf_ready_reads [OF c] by blast
  obtain dn where dn: "look w (butlast (ServerConf w)) = Some dn" "is_dir dn" using dir_ready_look [OF h(3) b] by blast
  have "ServerConf w \<noteq> []" using b by auto
  from WriteFileAtomic_ready [OF h(1) dn this] have "\<exists>v. WriteFileAtomic (ServerConf w) x perm_0644 w = (Inr (), v)" for x
    using d(4,5) by (auto simp: is_dir_def)
  then obtain v where "WriteFileAtomic (ServerConf w) (repaired (desired_lines exe w) (desired_lines exe w)
      (missing_lines (required_lines w) data) data) perm_0644 w = (Inr (), v)" by blast
  then show ?thesis unfolding ensure_existing [OF d(1) h(2) d(2,3) refl] by (simp add: is_ok_def)
qed

definition sample_layout :: world where
  "sample_layout = sample_world [root_dir [''etc''], root_dir [''etc'', ''openvpn''], root_dir [''etc'', ''openvpn'', ''server''],
     root_file [''etc'', ''openvpn'', ''server'', ''server.conf''] (''port 1194'' @ [NL] @ ''user nobody'' @ [NL]),
     ([''etc'', ''openvpn'', ''server'', ''mgmt-pass''],
      \<lparr>n_kind = Reg ''secret'', n_mode = perm_0640, n_uid = 0, n_gid = 65534, n_nlink = 1\<rparr>)]
     \<lparr>w_groups := [''nogroup'' \<mapsto> ''65534'']\<rparr>"

theorem conf_repair_settles_witness:
  "is_ok (ensureServerConf ''r'' None sample_layout) \<and>
   ensureServerConf ''r'' None (snd (ensureServerConf ''r'' None sample_layout))
     = (Inr False, snd (ensureServerConf ''r'' None sample_layout))"
proof -
  let ?w = sample_layout
  have p: "MgmtPassFile ?w = [''etc'', ''openvpn'', ''server'', ''mgmt-pass'']" "ServerConf ?w = [''etc'', ''openvpn'', ''server'', ''server.conf'']"
    by code_simp+
  have h: "healthy ?w" by (simp add: healthy_def sample_layout_def sample_world_def)
  have d: "dir_ready ?w (butlast (MgmtPassFile ?w))" "butlast (MgmtPassFile ?w) \<noteq> []" "dir_ready ?w (butlast (ServerConf ?w))"
    "quiet_settings ?w" "settings_tidy None ?w" "butlast (ServerConf ?w) \<noteq> []" by code_simp+
  have "is_some (look ?w (ServerConf ?w))" "is_regular (the (look ?w (ServerConf ?w)))" by code_simp+
  then have l: "look ?w (ServerConf ?w) = Some (the (look ?w (ServerConf ?w)))" "is_regular (the (look ?w (ServerConf ?w)))"
    by (simp_all only: is_some_the [symmetric])
  have n: "\<not> prefix (MgmtPassFile ?w) (ServerConf ?w)" "\<not> prefix (ServerConf ?w) (MgmtPassFile ?w)" unfolding p by simp_all
  have g: "mgmt_gid ?w = Inr 65534" "password_set ?w 65534" by code_simp+
  have "conf_ready 65534 None ?w" unfolding conf_ready_def using h d l g by (metis option.simps(5))
  from repair_succeeds [OF this d(6)] have ok: "is_ok (ensureServerConf ''r'' None ?w)" .
  then show ?thesis
    by (rule conjI) (rule conf_repair_settles [OF h d(1,2,3) l n d(4,5) _ is_okD [OF ok]], simp)
qed

end
