(* ===== verification/Control.thy ===== *)
theory Control
  imports Netip Serverconf
begin

text \<open>
  \<open>ovpn/control.go\<close>: reading the OpenVPN settings and the panel's change of them. \<open>ChangeConfig\<close> checks
  the whole request, computes the new \<open>server.conf\<close> and client template in memory, and then writes
  them with the state files of \<open>policy\<close>, from snapshots that a failure restores.

  Arguments stand for what the agent reaches outside its files: the record \<open>outside\<close>.
\<close>

subsection \<open>Requests\<close>

text \<open>
  A decoded JSON value. A \<open>float64\<close> is given by the \<open>int\<close> that \<open>int(v)\<close> makes of it; the typed slices
  come from callers in Go.
\<close>

datatype any_value =
    ANil
  | AInt int
  | AFloat int
  | AStr string
  | AList "any_value list"
  | AFloats "int list"
  | AInts "int list"
  | AStrs "string list"
  | AOther

record ChangeConfigRequest =
  rq_port :: any_value
  rq_proto :: string
  rq_tunnel :: string
  rq_dns1 :: "string option"
  rq_dns2 :: "string option"
  rq_ipv6 :: "bool option"
  rq_prefix :: "string option"
  rq_extra :: any_value

record outside =
  o_nat :: "unit io"
  o_fix :: "unit io"
  o_secret :: "world \<Rightarrow> world"
  o_kill :: "int \<Rightarrow> bool"
  o_peer :: peer
  o_pgrep :: string
  o_hostname :: "string option"
  o_lookup :: "string list"

text \<open>\<open>node.go\<close>: the output of \<open>hostname -I\<close>, when it ran, and the addresses of the host's name.\<close>

definition public_addr :: "string \<Rightarrow> bool" where
  "public_addr a \<longleftrightarrow> \<not> HasPrefix a ''127.'' \<and> \<not> Contains a '':''"

definition NodePublicIP :: "outside \<Rightarrow> string" where
  "NodePublicIP X =
     (case find public_addr (case o_hostname X of Some out \<Rightarrow> Fields out | None \<Rightarrow> []) of
        Some a \<Rightarrow> a
      | None \<Rightarrow> (case find public_addr (o_lookup X) of Some a \<Rightarrow> a | None \<Rightarrow> ''127.0.0.1''))"

definition tunnelRe :: "string \<Rightarrow> bool" where
  "tunnelRe s \<longleftrightarrow> s \<noteq> [] \<and> list_all (\<lambda>c. is_alnum c \<or> c \<in> set ''._:-'') s"

definition normalizeProto :: "string \<Rightarrow> string option" where
  "normalizeProto p =
     (let p = ToLower (TrimSpace p) in
      if p = [] then Some ''tcp''
      else if p \<in> set [''tcp'', ''tcp4'', ''tcp6''] then Some ''tcp''
      else if p \<in> set [''udp'', ''udp4'', ''udp6''] then Some ''udp''
      else None)"

fun port_parts :: "any_value list \<Rightarrow> string list option" where
  "port_parts [] = Some []"
| "port_parts (e # es) =
     (case e of
        AFloat x \<Rightarrow> map_option (Cons (Itoa x)) (port_parts es)
      | AInt x \<Rightarrow> map_option (Cons (Itoa x)) (port_parts es)
      | AStr x \<Rightarrow> map_option (Cons (TrimSpace x)) (port_parts es)
      | _ \<Rightarrow> None)"

definition extraPortsRaw :: "any_value \<Rightarrow> string option" where
  "extraPortsRaw v = (case v of
      AStr s \<Rightarrow> Some s
    | AList es \<Rightarrow> map_option (\<lambda>ps. Join ps '','') (port_parts es)
    | AFloats ns \<Rightarrow> Some (Join (map Itoa ns) '','')
    | AInts ns \<Rightarrow> Some (Join (map Itoa ns) '','')
    | AStrs ss \<Rightarrow> Some (Join ss '','')
    | _ \<Rightarrow> None)"

definition port_value :: "any_value \<Rightarrow> int option" where
  "port_value v = (case v of AInt n \<Rightarrow> Some n | AFloat n \<Rightarrow> Some n | AStr s \<Rightarrow> Atoi (TrimSpace s) | _ \<Rightarrow> None)"

subsection \<open>Phase (a): checking the request\<close>

record change =
  ch_port :: int
  ch_proto :: string
  ch_tunnel :: string
  ch_dns1 :: "string option"
  ch_dns2 :: "string option"
  ch_ipv6 :: "(bool \<times> string) option"
  ch_extra :: "int list option"

definition check_dns :: "string option \<Rightarrow> string option option" where
  "check_dns d = (case d of
      None \<Rightarrow> Some None
    | Some s \<Rightarrow> let v = ValidateIP s in if s \<noteq> [] \<and> v = [] then None else Some (Some v))"

definition check_ipv6 :: "ChangeConfigRequest \<Rightarrow> world \<Rightarrow> (bool \<times> string) option option" where
  "check_ipv6 r w =
     (let (curEn, curPref) = IPv6Effective w (IPv6Enabled w) (IPv6Prefix w);
          en = (case rq_ipv6 r of Some b \<Rightarrow> b | None \<Rightarrow> curEn) in
      case rq_prefix r of
        None \<Rightarrow> Some (if rq_ipv6 r \<noteq> None then Some (en, curPref) else None)
      | Some p \<Rightarrow> let v = ValidatePrefix p in if v = [] then None else Some (Some (en, v)))"

definition check_extra :: "any_value \<Rightarrow> int \<Rightarrow> world \<Rightarrow> int list option option" where
  "check_extra v port w =
     (if v = ANil then Some None
      else case extraPortsRaw v of
          None \<Rightarrow> None
        | Some raw \<Rightarrow> (case ValidateExtraPorts w raw port of Inl _ \<Rightarrow> None | Inr ps \<Rightarrow> Some (Some ps)))"

definition check_request :: "ChangeConfigRequest \<Rightarrow> world \<Rightarrow> change option" where
  "check_request r w =
     (case port_value (rq_port r) of
        None \<Rightarrow> None
      | Some port \<Rightarrow>
          if port < 1 \<or> 65535 < port \<or> IsReservedPrimaryPort w port then None
          else (case normalizeProto (rq_proto r) of
             None \<Rightarrow> None
           | Some proto \<Rightarrow>
               (let tunnel = TrimSpace (rq_tunnel r) in
                if tunnel \<noteq> [] \<and> \<not> tunnelRe tunnel then None
                else (case (check_dns (rq_dns1 r), check_dns (rq_dns2 r), check_ipv6 r w, check_extra (rq_extra r) port w) of
                   (Some d1, Some d2, Some v6, Some ex) \<Rightarrow>
                     Some \<lparr>ch_port = port, ch_proto = proto, ch_tunnel = tunnel, ch_dns1 = d1, ch_dns2 = d2,
                           ch_ipv6 = v6, ch_extra = ex\<rparr>
                 | _ \<Rightarrow> None))))"

subsection \<open>Phase (b): the new texts\<close>

text \<open>
  The multi-line regular expressions: a word at the start of a line, white space (which may be a
  newline), and a run of body characters.
\<close>

definition re_space :: "char \<Rightarrow> bool" where
  "re_space c \<longleftrightarrow> c \<in> set [TAB, NL, CHR 0x0C, CR, CHR '' '']"

definition re_match :: "string \<Rightarrow> (char \<Rightarrow> bool) \<Rightarrow> string \<Rightarrow> (string \<times> string) option" where
  "re_match kw body s =
     (if \<not> prefix kw s then None
      else let t = drop (length kw) s; u = dropWhile re_space t; b = takeWhile body u in
        if u = t \<or> b = [] then None else Some (b, drop (length b) u))"

fun re_find :: "string \<Rightarrow> (char \<Rightarrow> bool) \<Rightarrow> bool \<Rightarrow> string \<Rightarrow> string option" where
  "re_find kw body bol [] = None"
| "re_find kw body bol (c # cs) =
     (case (if bol then re_match kw body (c # cs) else None) of
        Some (b, _) \<Rightarrow> Some b
      | None \<Rightarrow> re_find kw body (c = NL) cs)"

lemma re_match_shorter: "re_match kw body s = Some (b, rest) \<Longrightarrow> length rest < length s"
proof -
  assume m: "re_match kw body s = Some (b, rest)"
  let ?t = "drop (length kw) s"
  let ?u = "dropWhile re_space ?t"
  from m have b: "b = takeWhile body ?u" "b \<noteq> []" "rest = drop (length b) ?u"
    by (auto simp: re_match_def Let_def split: if_splits)
  then have "?u \<noteq> []" by (metis takeWhile.simps(1))
  with b(2,3) have "length rest < length ?u" by simp
  also have "length ?u \<le> length s" using length_dropWhile_le [of re_space ?t] by simp
  finally show ?thesis .
qed

text \<open>\<open>ReplaceAllString\<close>; the text before what is left of a match ends in a body character, not in a newline.\<close>

function re_replace :: "string \<Rightarrow> (char \<Rightarrow> bool) \<Rightarrow> string \<Rightarrow> bool \<Rightarrow> string \<Rightarrow> string" where
  "re_replace kw body repl bol s =
     (if s = [] then []
      else case (if bol then re_match kw body s else None) of
          Some (_, rest) \<Rightarrow> repl @ re_replace kw body repl False rest
        | None \<Rightarrow> hd s # re_replace kw body repl (hd s = NL) (tl s))"
  by pat_completeness auto

termination
  by (relation "measure (\<lambda>(kw, body, repl, bol, s). length s)") (auto dest: re_match_shorter split: if_splits)

declare re_replace.simps [simp del]

definition not_space :: "char \<Rightarrow> bool" where
  "not_space c \<longleftrightarrow> \<not> re_space c"

fun remote_addr :: "string list \<Rightarrow> string option" where
  "remote_addr [] = None"
| "remote_addr (line # rest) = (case Fields (TrimSpace line) of
      f0 # f1 # _ # _ \<Rightarrow> if f0 = ''remote'' then Some f1 else remote_addr rest
    | _ \<Rightarrow> remote_addr rest)"

definition is_tun6 :: "string \<Rightarrow> bool" where
  "is_tun6 l \<longleftrightarrow> TrimSpace l = ''tun-ipv6''"

definition is_server6 :: "string \<Rightarrow> bool" where
  "is_server6 t \<longleftrightarrow> HasPrefix t ''server-ipv6 ''"

fun last_index :: "(string \<Rightarrow> bool) \<Rightarrow> string list \<Rightarrow> nat option" where
  "last_index P [] = None"
| "last_index P (x # xs) = (case last_index P xs of Some i \<Rightarrow> Some (Suc i) | None \<Rightarrow> if P x then Some 0 else None)"

definition applyIPv6 :: "string \<Rightarrow> bool \<Rightarrow> string \<Rightarrow> string \<times> bool" where
  "applyIPv6 conf enabled prf =
     (let lines = Split NL conf;
          hasTun = list_ex is_tun6 lines;
          serverIdx = last_index (\<lambda>l. is_server6 (TrimSpace l)) lines in
      if \<not> enabled then
        (let out = filter (\<lambda>l. \<not> (is_tun6 l \<or> is_server6 (TrimSpace l))) lines
         in (Join out [NL], length out \<noteq> length lines))
      else
        (let lines1 = (if hasTun then lines else lines @ [''tun-ipv6'']);
             want = ''server-ipv6 '' @ prf in
         case serverIdx of
           Some i \<Rightarrow>
             if TrimSpace (lines1 ! i) \<noteq> want then (Join (lines1[i := want]) [NL], True)
             else (Join lines1 [NL], \<not> hasTun)
         | None \<Rightarrow> (Join (lines1 @ [want]) [NL], True)))"

definition new_dns :: "change \<Rightarrow> world \<Rightarrow> string list" where
  "new_dns c w =
     (let (def1, def2) = VPNDNS w;
          second = (case ch_dns2 c of Some d \<Rightarrow> if d \<noteq> [] then [d] else [] | None \<Rightarrow> []) in
      case ch_dns1 c of
        Some d \<Rightarrow> (if d \<noteq> [] then [d] else []) @ second
      | None \<Rightarrow> DNSEffective w def1 def2)"

definition dns_given :: "change \<Rightarrow> bool" where
  "dns_given c \<longleftrightarrow> ch_dns1 c \<noteq> None \<or> ch_dns2 c \<noteq> None"

definition new_config :: "change \<Rightarrow> world \<Rightarrow> string \<Rightarrow> string \<times> bool" where
  "new_config c w config =
     (let n1 = re_replace ''port'' is_digit (''port '' @ Itoa (ch_port c)) True config;
          n2 = re_replace ''proto'' not_space (''proto '' @ ch_proto c) True n1;
          n3 = re_replace ''explicit-exit-notify'' is_digit (exit_notify (ch_proto c)) True n2;
          n4 = (if dns_given c then RewritePushDNS n3 (new_dns c w) else n3) in
      case ch_ipv6 c of
        Some (en, prf) \<Rightarrow> applyIPv6 n4 en prf
      | None \<Rightarrow> (n4, False))"

definition conf_differs :: "change \<Rightarrow> string \<Rightarrow> bool" where
  "conf_differs c config =
     (let oldProto = (case re_find ''proto'' not_space True config of Some p \<Rightarrow> p | None \<Rightarrow> []);
          oldPort = (case re_find ''port'' is_digit True config of Some p \<Rightarrow> p | None \<Rightarrow> [])
      in \<not> HasPrefix oldProto (ch_proto c) \<or> oldPort \<noteq> Itoa (ch_port c))"

definition new_tunnel :: "outside \<Rightarrow> change \<Rightarrow> string \<Rightarrow> string" where
  "new_tunnel X c tmpl =
     (if ch_tunnel c \<noteq> [] then ch_tunnel c
      else let a = (case remote_addr (Split NL tmpl) of Some a \<Rightarrow> a | None \<Rightarrow> []) in
        if a = [] \<or> a = ''UPDATE_VIA_PANEL'' then NodePublicIP X else a)"

definition remote_line :: "string \<Rightarrow> int \<Rightarrow> string" where
  "remote_line addr p = ''remote '' @ addr @ '' '' @ Itoa p"

fun insert_remotes :: "string list \<Rightarrow> string list \<Rightarrow> string list" where
  "insert_remotes remotes [] = remotes"
| "insert_remotes remotes (l # ls) =
     (if HasPrefix (TrimSpace l) ''proto '' then l # remotes @ ls else l # insert_remotes remotes ls)"

definition new_template :: "outside \<Rightarrow> change \<Rightarrow> world \<Rightarrow> string \<Rightarrow> string" where
  "new_template X c w tmpl =
     (let addr = new_tunnel X c tmpl;
          extras = (case ch_extra c of Some ps \<Rightarrow> ps | None \<Rightarrow> PortsEffective w (ExtraVPNPorts w));
          kept = filter (\<lambda>l. \<not> HasPrefix (TrimSpace l) ''remote '') (Split NL tmpl);
          final = insert_remotes (map (remote_line addr) (ch_port c # extras)) kept
      in Join (map (\<lambda>l. if HasPrefix (TrimSpace l) ''proto '' then ''proto '' @ ch_proto c else l) final) [NL])"

subsection \<open>Reading the settings\<close>

record config_view =
  cv_port :: "int option"
  cv_proto :: "string option"
  cv_tunnel :: "string option"

fun scan_conf :: "string list \<Rightarrow> config_view \<Rightarrow> config_view" where
  "scan_conf [] out = out"
| "scan_conf (line # rest) out =
     (let s = TrimSpace line;
          out = (if HasPrefix s ''port '' \<and> cv_port out = None then
                   (case Fields s of _ # f # _ \<Rightarrow> (case Atoi f of Some n \<Rightarrow> out\<lparr>cv_port := Some n\<rparr> | None \<Rightarrow> out) | _ \<Rightarrow> out)
                 else if HasPrefix s ''proto '' \<and> cv_proto out = None then
                   (case Fields s of _ # f # _ \<Rightarrow> out\<lparr>cv_proto := Some f\<rparr> | _ \<Rightarrow> out)
                 else out)
      in if cv_port out \<noteq> None \<and> cv_proto out \<noteq> None then out else scan_conf rest out)"

definition ReadConfig :: "world \<Rightarrow> config_view" where
  "ReadConfig w =
     (let none = \<lparr>cv_port = None, cv_proto = None, cv_tunnel = None\<rparr>;
          out = (case os_ReadFile w (settingFile w) of Inl _ \<Rightarrow> none | Inr data \<Rightarrow> scan_conf (Split NL data) none)
      in case os_ReadFile w (templateFile w) of
           Inl _ \<Rightarrow> out
         | Inr data \<Rightarrow> out\<lparr>cv_tunnel := remote_addr (Split NL data)\<rparr>)"

subsection \<open>Snapshots\<close>

record snapshot =
  sn_path :: path
  sn_tmp :: path
  sn_existed :: bool

definition os_Rename :: "path \<Rightarrow> path \<Rightarrow> world \<Rightarrow> world" where
  "os_Rename tmp p w =
     (if fault w OpRename p \<or> (case look w p of Some nd \<Rightarrow> is_dir nd | None \<Rightarrow> False) then w
      else case look w tmp of None \<Rightarrow> w | Some nd \<Rightarrow> put p nd (del tmp w))"

definition snapshotFile :: "path \<Rightarrow> snapshot io" where
  "snapshotFile p w =
     (case os_Stat w p of
        Inl _ \<Rightarrow> (Inr \<lparr>sn_path = p, sn_tmp = [], sn_existed = False\<rparr>, w)
      | Inr st \<Rightarrow>
          (case os_ReadFile w p of
             Inl e \<Rightarrow> (Inl e, w)
           | Inr data \<Rightarrow>
               (let dir = butlast p; tmp = fresh_name ''.snap-'' (w_fs w) dir in
                if fault w OpCreateTemp p \<or> \<not> (case os_Stat w dir of Inr nd \<Rightarrow> is_dir nd | Inl _ \<Rightarrow> False)
                then (Inl (Fault OpCreateTemp), w)
                else if fault w OpWrite p
                then (Inl (Fault OpWrite), snd (os_Remove tmp (put tmp (new_file w dir perm_0600 []) w)))
                else if fault w OpClose p
                then (Inl (Fault OpClose), snd (os_Remove tmp (put tmp (new_file w dir perm_0600 data) w)))
                else (Inr \<lparr>sn_path = p, sn_tmp = tmp, sn_existed = True\<rparr>,
                      put tmp (new_file w dir (if fault w OpChmod p then perm_0600 else n_mode st AND 0x1FF) data) w))))"

text \<open>The closure \<open>snap\<close>: a failing snapshot is skipped.\<close>

definition snap :: "path \<Rightarrow> snapshot list \<times> world \<Rightarrow> snapshot list \<times> world" where
  "snap p st = (case st of (snaps, w) \<Rightarrow>
     (case os_Stat w p of
        Inr nd \<Rightarrow>
          if \<not> is_dir nd then
            (case snapshotFile p w of (Inr s, w) \<Rightarrow> (snaps @ [s], w) | (Inl _, w) \<Rightarrow> (snaps, w))
          else (snaps @ [\<lparr>sn_path = p, sn_tmp = [], sn_existed = False\<rparr>], w)
      | Inl _ \<Rightarrow> (snaps @ [\<lparr>sn_path = p, sn_tmp = [], sn_existed = False\<rparr>], w)))"

definition restore :: "snapshot \<Rightarrow> world \<Rightarrow> world" where
  "restore s w = (if sn_existed s then os_Rename (sn_tmp s) (sn_path s) w else snd (os_Remove (sn_path s) w))"

definition cleanup :: "snapshot \<Rightarrow> world \<Rightarrow> world" where
  "cleanup s w = (if sn_existed s then snd (os_Remove (sn_tmp s) w) else w)"

definition restoreSnapshots :: "snapshot list \<Rightarrow> world \<Rightarrow> world" where
  "restoreSnapshots snaps w = fold restore (rev snaps) w"

definition cleanupSnapshots :: "snapshot list \<Rightarrow> world \<Rightarrow> world" where
  "cleanupSnapshots snaps w = fold cleanup (rev snaps) w"

text \<open>\<open>filepath.Glob\<close> of the cached profiles: the users directory and the names in it that have one.\<close>

definition cached_profiles :: "world \<Rightarrow> path list" where
  "cached_profiles w = (case os_ReadDir w (UsersDir w) of
      Inl _ \<Rightarrow> []
    | Inr es \<Rightarrow> filter (\<lambda>p. case os_Lstat w p of Inr _ \<Rightarrow> True | Inl _ \<Rightarrow> False)
                  (map (\<lambda>(n, _). UsersDir w @ [n, ''client.ovpn'']) es))"

definition invalidateCachedOVPN :: "world \<Rightarrow> world" where
  "invalidateCachedOVPN w = fold (\<lambda>p w. snd (os_Remove p w)) (cached_profiles w) w"

subsection \<open>Phase (c): applying\<close>

definition dns_pair :: "change \<Rightarrow> world \<Rightarrow> string \<times> string" where
  "dns_pair c w = (let (d1, d2) = VPNDNS w in
     (case ch_dns1 c of Some d \<Rightarrow> d | None \<Rightarrow> d1, case ch_dns2 c of Some d \<Rightarrow> d | None \<Rightarrow> d2))"

definition dns_stored :: "change \<Rightarrow> world \<Rightarrow> bool" where
  "dns_stored c w = (let st = ReadDNSState w; (d1, d2) = dns_pair c w in dns_1 st = d1 \<and> dns_2 st = d2)"

definition write_if :: "bool \<Rightarrow> path \<Rightarrow> string \<Rightarrow> unit io" where
  "write_if b p text w = (if b then WriteFileAtomic p text perm_0644 w else (Inr (), w))"

definition apply_dns :: "change \<Rightarrow> world \<Rightarrow> bool \<times> world" where
  "apply_dns c w = (if dns_given c then WriteDNSState (fst (dns_pair c w)) (snd (dns_pair c w)) w else (False, w))"

definition apply_v6 :: "change \<Rightarrow> world \<Rightarrow> bool \<times> world" where
  "apply_v6 c w = (case ch_ipv6 c of Some (en, prf) \<Rightarrow> WriteIPv6State en prf w | None \<Rightarrow> (False, w))"

definition apply_ports :: "outside \<Rightarrow> change \<Rightarrow> unit io" where
  "apply_ports X c w = (case ch_extra c of
      Some ps \<Rightarrow> SyncNATConfig (o_nat X) (ch_port c) ps (snd (WritePortsState ps w))
    | None \<Rightarrow> (Inr (), w))"

text \<open>The closure behind \<open>applyErr\<close>: whether it failed, and whether DNS and IPv6 files were rewritten.\<close>

definition apply_change ::
  "outside \<Rightarrow> change \<Rightarrow> bool \<Rightarrow> string \<Rightarrow> bool \<Rightarrow> string \<Rightarrow> (bool \<times> bool) io" where
  "apply_change X c confChanged newConfig tmplChanged newTemplate w =
     (case write_if confChanged (settingFile w) newConfig w of
        (Inl e, w) \<Rightarrow> (Inl e, w)
      | (Inr _, w) \<Rightarrow>
          (case write_if tmplChanged (templateFile w) newTemplate w of
             (Inl e, w) \<Rightarrow> (Inl e, w)
           | (Inr _, w) \<Rightarrow>
               (let (dnsChanged, w) = apply_dns c w; (v6Changed, w) = apply_v6 c w in
                case apply_ports X c w of
                  (Inl e, w) \<Rightarrow> (Inl e, w)
                | (Inr _, w) \<Rightarrow>
                    if dns_given c \<and> \<not> dns_stored c w then (Inl (Err ''dns state was not written''), w)
                    else if ch_extra c \<noteq> None \<and> ps_ports (ReadPortsState w) \<noteq> the (ch_extra c)
                    then (Inl (Err ''ports state was not written''), w)
                    else (Inr (dnsChanged, v6Changed), w))))"

definition snap_paths :: "change \<Rightarrow> world \<Rightarrow> path list" where
  "snap_paths c w =
     [settingFile w, templateFile w]
     @ (if dns_given c then [DNSStatePath w] else [])
     @ (if ch_ipv6 c \<noteq> None then [IPv6StatePath w] else [])
     @ (if ch_extra c \<noteq> None then [PortsStatePath w, to_path ''/etc/default/ovnode-nat''] else [])"

text \<open>The restart or reload after a change, and whether it failed.\<close>

definition restart :: "outside \<Rightarrow> world \<Rightarrow> bool \<times> world" where
  "restart X w = RestartOpenVPN (o_fix X) (o_secret X) (o_kill X) (o_peer X) w"

definition activate :: "outside \<Rightarrow> bool \<Rightarrow> bool \<Rightarrow> world \<Rightarrow> bool \<times> world" where
  "activate X restartRequired confChanged w =
     (if restartRequired then
        (if OpenVPNIsRunning (o_pgrep X) w then (let (ok, w) = restart X w in (\<not> ok, w)) else (False, w))
      else if confChanged then
        (if OpenVPNIsRunning (o_pgrep X) w then (\<not> ReloadOpenVPN (o_peer X) w, w) else (False, w))
      else (False, w))"

record config_verdict =
  vd_ok :: bool
  vd_class :: "(bool \<times> bool) option"

definition state_changes :: "change \<Rightarrow> world \<Rightarrow> bool \<times> bool \<times> bool" where
  "state_changes c w =
     (dns_given c \<and> \<not> dns_stored c w,
      case ch_ipv6 c of Some v6 \<Rightarrow> IPv6Effective w (IPv6Enabled w) (IPv6Prefix w) \<noteq> v6 | None \<Rightarrow> False,
      case ch_extra c of Some ps \<Rightarrow> PortsEffective w (ExtraVPNPorts w) \<noteq> ps | None \<Rightarrow> False)"

text \<open>From the snapshots on; \<open>restartRequired\<close>, \<open>v6\<close> and \<open>ports\<close> are what the texts and states showed before.\<close>

definition commit ::
  "outside \<Rightarrow> change \<Rightarrow> bool \<Rightarrow> string \<Rightarrow> bool \<Rightarrow> string \<Rightarrow> bool \<Rightarrow> bool \<Rightarrow> bool \<Rightarrow> world \<Rightarrow> config_verdict \<times> world" where
  "commit X c confChanged newConfig tmplChanged newTemplate restartRequired v6 ports w =
     (let (snaps, w) = fold snap (snap_paths c w) ([], w) in
      case apply_change X c confChanged newConfig tmplChanged newTemplate w of
        (Inl _, w) \<Rightarrow> (\<lparr>vd_ok = False, vd_class = None\<rparr>, cleanupSnapshots snaps (restoreSnapshots snaps w))
      | (Inr (dnsChanged, v6Changed), w) \<Rightarrow>
          (let w = invalidateCachedOVPN w;
               class = Some (restartRequired, dnsChanged \<or> v6 \<or> v6Changed \<or> ports);
               (failed, w) = activate X restartRequired confChanged w
           in if failed then
                (let w = restoreSnapshots snaps w;
                     w = (if restartRequired then snd (restart X w) else w)
                 in (\<lparr>vd_ok = False, vd_class = class\<rparr>, cleanupSnapshots snaps w))
              else (\<lparr>vd_ok = True, vd_class = class\<rparr>, cleanupSnapshots snaps w)))"

definition ChangeConfig :: "outside \<Rightarrow> ChangeConfigRequest \<Rightarrow> world \<Rightarrow> config_verdict \<times> world" where
  "ChangeConfig X r w =
     (let no = \<lparr>vd_ok = False, vd_class = None\<rparr> in
      case check_request r w of
        None \<Rightarrow> (no, w)
      | Some c \<Rightarrow>
          (case os_ReadFile w (settingFile w) of
             Inl _ \<Rightarrow> (no, w)
           | Inr config \<Rightarrow>
               (let tmpl = (case os_ReadFile w (templateFile w) of Inl _ \<Rightarrow> [] | Inr d \<Rightarrow> d);
                    (newConfig, v6) = new_config c w config;
                    newTemplate = new_template X c w tmpl;
                    oldTunnel = (case remote_addr (Split NL tmpl) of Some a \<Rightarrow> a | None \<Rightarrow> []);
                    restartRequired = (conf_differs c config \<or> new_tunnel X c tmpl \<noteq> oldTunnel);
                    (dnsState, v6State, portsState) = state_changes c w
                in if newConfig = config \<and> newTemplate = tmpl \<and> \<not> dnsState \<and> \<not> v6State \<and> \<not> portsState
                   then (\<lparr>vd_ok = True, vd_class = Some (restartRequired, False)\<rparr>, w)
                   else commit X c (newConfig \<noteq> config) newConfig (newTemplate \<noteq> tmpl) newTemplate restartRequired
                          v6 portsState w)))"

subsection \<open>The IPv6 lines\<close>

lemma last_index_None: "last_index P xs = None \<longleftrightarrow> (\<forall>x \<in> set xs. \<not> P x)"
  by (induction xs) (auto split: option.splits)

lemma last_index_append:
  "last_index P (xs @ ys) = (case last_index P ys of Some i \<Rightarrow> Some (length xs + i) | None \<Rightarrow> last_index P xs)"
  by (induction xs) (auto split: option.splits)

lemma last_index_SomeD: "last_index P xs = Some i \<Longrightarrow> i < length xs \<and> P (xs ! i)"
  by (induction xs arbitrary: i) (auto split: option.splits if_splits)

lemma last_index_update: "last_index P xs = Some i \<Longrightarrow> P y \<Longrightarrow> last_index P (xs[i := y]) = Some i"
  by (induction xs arbitrary: i) (auto split: option.splits if_splits)

definition with_tun6 :: "string list \<Rightarrow> string list" where
  "with_tun6 ls = (if list_ex is_tun6 ls then ls else ls @ [''tun-ipv6''])"

text \<open>The lines \<open>applyIPv6\<close> leaves when IPv6 is enabled, on lines.\<close>

definition v6_lines :: "string \<Rightarrow> string list \<Rightarrow> string list" where
  "v6_lines want ls =
     (case last_index (\<lambda>l. is_server6 (TrimSpace l)) ls of
        Some i \<Rightarrow> if TrimSpace (with_tun6 ls ! i) \<noteq> want then (with_tun6 ls)[i := want] else with_tun6 ls
      | None \<Rightarrow> with_tun6 ls @ [want])"

lemma applyIPv6_enabled:
  assumes "want = ''server-ipv6 '' @ prf" "TrimSpace want = want" "ls = Split NL conf"
  shows "applyIPv6 conf True prf = (Join (v6_lines want ls) [NL], v6_lines want ls \<noteq> ls)"
proof -
  have d: "xs @ [x] \<noteq> xs" "xs @ [x, y] \<noteq> xs" "(xs @ [x])[i := y] \<noteq> xs" for xs :: "string list" and x y i
    by (auto dest: arg_cong [where f = length])
  show ?thesis
  proof (cases "last_index (\<lambda>l. is_server6 (TrimSpace l)) ls")
    case None
    then show ?thesis using d unfolding applyIPv6_def v6_lines_def assms(1,3) [symmetric] with_tun6_def Let_def by simp
  next
    case (Some i)
    then have i: "i < length ls" by (auto dest: last_index_SomeD)
    then have "TrimSpace (ls ! i) \<noteq> want \<Longrightarrow> ls[i := want] \<noteq> ls" using assms(2) by (metis nth_list_update_eq)
    then show ?thesis using Some d i unfolding applyIPv6_def v6_lines_def assms(1,3) [symmetric] with_tun6_def Let_def
      by (simp add: nth_append)
  qed
qed

lemma applyIPv6_disabled:
  assumes "ls = Split NL conf" "out = filter (\<lambda>l. \<not> is_tun6 l \<and> \<not> is_server6 (TrimSpace l)) ls"
  shows "applyIPv6 conf False prf = (Join out [NL], out \<noteq> ls)"
proof -
  have "length out \<noteq> length ls \<longleftrightarrow> out \<noteq> ls" using assms(2) by (metis length_filter_less filter_True nat_neq_iff)
  then show ?thesis unfolding applyIPv6_def assms(1) [symmetric] Let_def by (simp add: assms(2))
qed

lemma tun6_not_server6: "is_tun6 l \<Longrightarrow> \<not> is_server6 (TrimSpace l)"
  by (simp add: is_tun6_def is_server6_def HasPrefix_def)

lemma with_tun6_ex: "list_ex is_tun6 (with_tun6 ls)"
proof -
  have "is_tun6 ''tun-ipv6''" by code_simp
  then show ?thesis by (simp add: with_tun6_def)
qed

lemma with_tun6_nth: "i < length ls \<Longrightarrow> i < length (with_tun6 ls) \<and> with_tun6 ls ! i = ls ! i"
  by (simp add: with_tun6_def nth_append)

lemma with_tun6_last: "last_index (\<lambda>l. is_server6 (TrimSpace l)) (with_tun6 ls) = last_index (\<lambda>l. is_server6 (TrimSpace l)) ls"
proof -
  have "\<not> is_server6 (TrimSpace ''tun-ipv6'')" by code_simp
  then show ?thesis by (simp add: with_tun6_def last_index_append)
qed

lemma v6_lines_tun: "list_ex is_tun6 (v6_lines want ls)"
proof -
  obtain j where j: "j < length (with_tun6 ls)" "is_tun6 (with_tun6 ls ! j)"
    using with_tun6_ex [of ls] by (auto simp: list_ex_iff in_set_conv_nth)
  have "list_ex is_tun6 ((with_tun6 ls)[i := want])" if "last_index (\<lambda>l. is_server6 (TrimSpace l)) ls = Some i" for i
  proof -
    have "i \<noteq> j" using last_index_SomeD [OF that] with_tun6_nth [of i ls] tun6_not_server6 [OF j(2)] by auto
    then have "(with_tun6 ls)[i := want] ! j = with_tun6 ls ! j" by simp
    then show ?thesis using j by (metis list_ex_length length_list_update)
  qed
  then show ?thesis using with_tun6_ex [of ls] by (simp add: v6_lines_def split: option.splits)
qed

lemma v6_lines_last:
  assumes "TrimSpace want = want" "is_server6 want"
  shows "\<exists>i. last_index (\<lambda>l. is_server6 (TrimSpace l)) (v6_lines want ls) = Some i \<and> TrimSpace (v6_lines want ls ! i) = want"
proof (cases "last_index (\<lambda>l. is_server6 (TrimSpace l)) ls")
  case None
  have "last_index (\<lambda>l. is_server6 (TrimSpace l)) (with_tun6 ls @ [want]) = Some (length (with_tun6 ls))"
    using assms by (simp add: last_index_append)
  then show ?thesis using None assms(1) by (simp add: v6_lines_def)
next
  case (Some i)
  have i: "i < length (with_tun6 ls)" using last_index_SomeD [OF Some] with_tun6_nth by blast
  have u: "last_index (\<lambda>l. is_server6 (TrimSpace l)) ((with_tun6 ls)[i := want]) = Some i"
    by (rule last_index_update) (simp_all add: with_tun6_last Some assms)
  show ?thesis using Some i u assms(1) with_tun6_last [of ls] by (simp add: v6_lines_def)
qed

lemma v6_lines_idem:
  assumes "TrimSpace want = want" "is_server6 want" shows "v6_lines want (v6_lines want ls) = v6_lines want ls"
proof -
  obtain i where "last_index (\<lambda>l. is_server6 (TrimSpace l)) (v6_lines want ls) = Some i" "TrimSpace (v6_lines want ls ! i) = want"
    using v6_lines_last [OF assms] by blast
  moreover have "with_tun6 (v6_lines want ls) = v6_lines want ls" using v6_lines_tun by (simp add: with_tun6_def)
  ultimately show ?thesis by (simp add: v6_lines_def [of want "v6_lines want ls"])
qed

text \<open>
  The IPv6 rewriting settles. With IPv6 enabled the text has a \<open>tun-ipv6\<close> line and its last
  \<open>server-ipv6\<close> line, which is the one OpenVPN takes, is the wanted one; with IPv6 disabled exactly the
  other lines are left, in their order. A second rewriting with the same setting changes nothing and says
  so.
\<close>

theorem ipv6_rewrite_settles:
  assumes "word_ok prf" "new = fst (applyIPv6 conf en prf)"
  shows "applyIPv6 new en prf = (new, False) \<and>
        (if en then list_ex is_tun6 (Split NL new) \<and>
           (case last_index (\<lambda>l. is_server6 (TrimSpace l)) (Split NL new) of
              Some i \<Rightarrow> TrimSpace (Split NL new ! i) = ''server-ipv6 '' @ prf
            | None \<Rightarrow> False)
         else new = Join (filter (\<lambda>l. \<not> is_tun6 l \<and> \<not> is_server6 (TrimSpace l)) (Split NL conf)) [NL])"
proof -
  let ?want = "''server-ipv6 '' @ prf" and ?ls = "Split NL conf"
  let ?P = "\<lambda>l. \<not> is_tun6 l \<and> \<not> is_server6 (TrimSpace l)"
  have "tidy ?want" using assms(1) by (rule tidy_prefix) (simp_all add: is_graph_def byte_def)
  then have w: "TrimSpace ?want = ?want" "NL \<notin> set ?want" by (simp_all add: tidy_def)
  have s: "is_server6 ?want" by (simp add: is_server6_def HasPrefix_def)
  show ?thesis
  proof (cases en)
    case True
    have n: "new = Join (v6_lines ?want ?ls) [NL]" using assms(2) True applyIPv6_enabled [OF refl w(1) refl, of conf] by simp
    have "set (v6_lines ?want ?ls) \<subseteq> set ?ls \<union> {''tun-ipv6'', ?want}"
      using set_update_subset_insert by (fastforce simp: v6_lines_def with_tun6_def split: option.splits if_splits)
    moreover have "NL \<notin> set ''tun-ipv6''" by simp
    ultimately have nl: "NL \<notin> set l" if "l \<in> set (v6_lines ?want ?ls)" for l using that w(2) Split_pieces by blast
    have "v6_lines ?want ?ls \<noteq> []" using v6_lines_tun [of ?want ?ls] by auto
    then have l: "Split NL new = v6_lines ?want ?ls" unfolding n using nl by (rule Split_Join)
    show ?thesis
      using True applyIPv6_enabled [OF refl w(1) refl, of new] v6_lines_idem [OF w(1) s, of ?ls] v6_lines_tun [of ?want ?ls]
        v6_lines_last [OF w(1) s, of ?ls] unfolding l by (auto simp: n)
  next
    case False
    have n: "new = Join (filter ?P ?ls) [NL]" using assms(2) False applyIPv6_disabled [OF refl refl, of conf "prf"] by simp
    have "\<not> is_tun6 [] \<and> \<not> is_server6 (TrimSpace [])" by code_simp
    then have "filter ?P (Split NL new) = Split NL new"
    proof (cases "filter ?P ?ls = []")
      case False
      then have "Split NL new = filter ?P ?ls" unfolding n by (rule Split_Join) (auto dest: Split_pieces)
      then show ?thesis by simp
    qed (simp add: n)
    then show ?thesis using False n applyIPv6_disabled [OF refl refl, of new "prf"] by (simp add: Join_Split)
  qed
qed

definition sample_ipv6_conf :: string where
  "sample_ipv6_conf = ''dev tun'' @ [NL] @ ''server-ipv6 fd00::/64'' @ [NL]"

theorem ipv6_rewrite_settles_witness:
  "applyIPv6 (fst (applyIPv6 sample_ipv6_conf True ''fd42::/64'')) True ''fd42::/64''
     = (fst (applyIPv6 sample_ipv6_conf True ''fd42::/64''), False)"
proof -
  have "word_ok ''fd42::/64''" by code_simp
  from ipv6_rewrite_settles [OF this refl, of sample_ipv6_conf True] show ?thesis by blast
qed

subsection \<open>Accepted requests\<close>

lemma tunnelRe_conf: "tunnelRe s \<Longrightarrow> list_all conf_char s"
  by (auto simp: tunnelRe_def conf_char_def list_all_iff)

lemma check_request_Some:
  assumes "check_request r w = Some c"
  shows "1 \<le> ch_port c" "ch_port c \<le> 65535" "\<not> IsReservedPrimaryPort w (ch_port c)"
    "ch_proto c = ''tcp'' \<or> ch_proto c = ''udp''" "ch_tunnel c = [] \<or> tunnelRe (ch_tunnel c)"
    "check_dns (rq_dns1 r) = Some (ch_dns1 c)" "check_dns (rq_dns2 r) = Some (ch_dns2 c)"
    "check_ipv6 r w = Some (ch_ipv6 c)" "check_extra (rq_extra r) (ch_port c) w = Some (ch_extra c)"
  using assms
  by (auto simp: check_request_def Let_def normalizeProto_def split: option.splits if_splits)

lemma check_dns_conf: "check_dns d = Some (Some v) \<Longrightarrow> list_all conf_char v"
  using ValidateIP_conf by (auto simp: check_dns_def Let_def split: option.splits if_splits)

text \<open>
  C30. An accepted change is safe to write. Its port is a port and not a reserved one, the transport is
  \<open>tcp\<close> or \<open>udp\<close>, the extra ports are distinct, at most sixteen and none of them reserved; and the
  tunnel address, the DNS servers and a given IPv6 prefix, which go into configuration lines, hold only
  letters, digits and \<open>. _ : - /\<close>: no request can end a line or a quoted value.
\<close>

theorem accepted_change_safe:
  assumes "check_request r w = Some c"
  shows "1 \<le> ch_port c \<and> ch_port c \<le> 65535 \<and> \<not> IsReservedPrimaryPort w (ch_port c)
    \<and> ch_proto c \<in> {''tcp'', ''udp''}
    \<and> list_all conf_char (ch_tunnel c)
    \<and> (case ch_dns1 c of Some d \<Rightarrow> list_all conf_char d | None \<Rightarrow> True)
    \<and> (case ch_dns2 c of Some d \<Rightarrow> list_all conf_char d | None \<Rightarrow> True)
    \<and> (rq_prefix r = None \<or> (case ch_ipv6 c of Some (_, prf) \<Rightarrow> prf \<noteq> [] \<and> list_all conf_char prf | None \<Rightarrow> False))
    \<and> (case ch_extra c of Some ps \<Rightarrow> good_ports (reservedExtraPorts w (ch_port c)) ps | None \<Rightarrow> True)"
proof -
  note c = check_request_Some [OF assms]
  have t: "list_all conf_char (ch_tunnel c)" using c(5) tunnelRe_conf by auto
  have d: "case ch_dns1 c of Some d \<Rightarrow> list_all conf_char d | None \<Rightarrow> True"
    "case ch_dns2 c of Some d \<Rightarrow> list_all conf_char d | None \<Rightarrow> True"
    using c(6,7) by (auto dest: check_dns_conf split: option.splits)
  have p: "rq_prefix r = None \<or> (case ch_ipv6 c of Some (_, prf) \<Rightarrow> prf \<noteq> [] \<and> list_all conf_char prf | None \<Rightarrow> False)"
    using c(8) ValidatePrefix_conf
    by (auto simp: check_ipv6_def Let_def dest!: sym [of "Some _"] split: option.splits if_splits prod.splits)
  have e: "case ch_extra c of Some ps \<Rightarrow> good_ports (reservedExtraPorts w (ch_port c)) ps | None \<Rightarrow> True"
    using c(9) validate_ports_good
    by (auto simp: check_extra_def ValidateExtraPorts_def good_ports_def split: option.splits if_splits sum.splits)
  show ?thesis using c(1,2,3,4) t d p e by simp
qed

definition sample_change_request :: ChangeConfigRequest where
  "sample_change_request = \<lparr>rq_port = AFloat 1195, rq_proto = ''UDP4'', rq_tunnel = ''vpn.example.org'', rq_dns1 = Some ''9.9.9.9'',
     rq_dns2 = None, rq_ipv6 = None, rq_prefix = Some ''fd42::1/64'', rq_extra = AList [AFloat 8443, AStr '' 993 '']\<rparr>"

definition sample_change :: change where
  "sample_change = \<lparr>ch_port = 1195, ch_proto = ''udp'', ch_tunnel = ''vpn.example.org'', ch_dns1 = Some ''9.9.9.9'', ch_dns2 = None,
     ch_ipv6 = Some (False, ''fd42::/64''), ch_extra = Some [8443, 993]\<rparr>"

lemma sample_checked: "check_request sample_change_request sample_data = Some sample_change"
  by code_simp

theorem accepted_change_safe_witness:
  "check_request sample_change_request sample_data = Some sample_change \<and> good_ports (reservedExtraPorts sample_data 1195) [8443, 993]"
  using accepted_change_safe [OF sample_checked] sample_checked by (simp add: sample_change_def)

subsection \<open>The client template\<close>

lemma insert_remotes_filter:
  assumes "list_all P rs" "list_all (\<lambda>l. \<not> P l) ls" shows "filter P (insert_remotes rs ls) = rs"
  using assms by (induction ls) (simp_all add: list_all_iff filter_empty_conv)

lemma insert_remotes_set: "set (insert_remotes rs ls) = set rs \<union> set ls"
  by (induction ls) auto

lemma relabel_inserted:
  assumes "list_all R rs" "\<And>l. l \<in> set rs \<Longrightarrow> \<not> Q l" "list_all (\<lambda>l. \<not> R l) ls" "\<not> R pl" "\<And>l. Q l \<Longrightarrow> \<not> R l"
    and "out = map (\<lambda>l. if Q l then pl else l) (insert_remotes rs ls)"
  shows "filter R out = rs" "set (filter (\<lambda>l. \<not> R l) out) \<subseteq> set (filter (\<lambda>l. \<not> Q l) ls) \<union> {pl}"
proof -
  let ?f = "\<lambda>l. if Q l then pl else l"
  have "R (?f l) = R l" for l using assms(4,5) by auto
  then have "filter R out = map ?f (filter R (insert_remotes rs ls))" by (simp add: assms(6) filter_map comp_def)
  also have "\<dots> = map ?f rs" using insert_remotes_filter [OF assms(1,3)] by simp
  also have "\<dots> = rs" by (rule map_idI) (use assms(2) in auto)
  finally show "filter R out = rs" .
  show "set (filter (\<lambda>l. \<not> R l) out) \<subseteq> set (filter (\<lambda>l. \<not> Q l) ls) \<union> {pl}"
    using assms(1) by (auto simp: assms(6) insert_remotes_set list_all_iff)
qed

definition is_remote :: "string \<Rightarrow> bool" where
  "is_remote l \<longleftrightarrow> HasPrefix (TrimSpace l) ''remote ''"

definition is_proto :: "string \<Rightarrow> bool" where
  "is_proto l \<longleftrightarrow> HasPrefix (TrimSpace l) ''proto ''"

lemma remote_line_tidy: "word_ok addr \<Longrightarrow> tidy (remote_line addr p)"
proof -
  assume a: "word_ok addr"
  have "word_ok (Itoa p)" using Itoa_nonempty Itoa_graph by (auto simp: word_ok_def list_all_iff)
  then have "tidy ((''remote '' @ addr @ '' '') @ Itoa p)"
    using a graph_not_NL by (intro tidy_prefix) (auto simp: word_ok_def is_graph_def byte_def)
  then show ?thesis by (simp add: remote_line_def)
qed

lemma remote_line_is: "word_ok addr \<Longrightarrow> is_remote (remote_line addr p) \<and> \<not> is_proto (remote_line addr p)"
  using remote_line_tidy [of addr p] by (simp add: is_remote_def is_proto_def tidy_def remote_line_def HasPrefix_def)

text \<open>
  The rewritten client template lists the node's ports. Its \<open>remote\<close> lines are exactly one for the
  primary port and one for each extra port, in this order, all for the tunnel address; every other
  line is a line of the old template, except that the transport lines name the new transport.
\<close>

theorem template_remotes:
  assumes "word_ok (new_tunnel X c tmpl)" "word_ok (ch_proto c)"
  shows "filter is_remote (Split NL (new_template X c w tmpl))
      = map (remote_line (new_tunnel X c tmpl))
          (ch_port c # (case ch_extra c of Some ps \<Rightarrow> ps | None \<Rightarrow> PortsEffective w (ExtraVPNPorts w)))
    \<and> set (filter (\<lambda>l. \<not> is_remote l) (Split NL (new_template X c w tmpl)))
      \<subseteq> set (filter (\<lambda>l. \<not> is_remote l \<and> \<not> is_proto l) (Split NL tmpl)) \<union> {''proto '' @ ch_proto c}"
proof -
  let ?rs = "map (remote_line (new_tunnel X c tmpl))
      (ch_port c # (case ch_extra c of Some ps \<Rightarrow> ps | None \<Rightarrow> PortsEffective w (ExtraVPNPorts w)))"
  let ?pl = "''proto '' @ ch_proto c"
  let ?kept = "filter (\<lambda>l. \<not> is_remote l) (Split NL tmpl)"
  let ?f = "\<lambda>l. if is_proto l then ?pl else l"
  let ?out = "map ?f (insert_remotes ?rs ?kept)"
  have n: "new_template X c w tmpl = Join ?out [NL]"
    unfolding new_template_def Let_def is_remote_def is_proto_def by (rule refl)
  have "tidy ?pl" using assms(2) by (rule tidy_prefix) (simp_all add: is_graph_def byte_def)
  then have pl: "TrimSpace ?pl = ?pl" "NL \<notin> set ?pl" by (simp_all add: tidy_def)
  then have pr: "\<not> is_remote ?pl" by (simp add: is_remote_def HasPrefix_def)
  have rs: "list_all is_remote ?rs" "\<And>l. l \<in> set ?rs \<Longrightarrow> \<not> is_proto l" "\<And>l. l \<in> set ?rs \<Longrightarrow> NL \<notin> set l"
    using remote_line_is [OF assms(1)] remote_line_tidy [OF assms(1)] by (auto simp: list_all_iff tidy_def)
  have "NL \<notin> set l" if "l \<in> set ?out" for l
    using that rs(3) pl(2) Split_pieces by (fastforce simp: insert_remotes_set split: if_splits)
  moreover have "insert_remotes ?rs ?kept \<noteq> []" using insert_remotes_set [of ?rs ?kept] by auto
  ultimately have s: "Split NL (Join ?out [NL]) = ?out" by (intro Split_Join) auto
  have k: "list_all (\<lambda>l. \<not> is_remote l) ?kept" by (simp add: list_all_iff)
  have pq: "is_proto l \<Longrightarrow> \<not> is_remote l" for l by (auto simp: is_remote_def is_proto_def HasPrefix_def prefix_def)
  note out = relabel_inserted [OF rs(1,2) k pr pq refl]
  have kk: "filter (\<lambda>l. \<not> is_proto l) ?kept = filter (\<lambda>l. \<not> is_remote l \<and> \<not> is_proto l) (Split NL tmpl)"
    by (simp only: filter_filter)
  show ?thesis unfolding n s kk [symmetric] by (rule conjI [OF out])
qed

definition sample_outside :: outside where
  "sample_outside = \<lparr>o_nat = (\<lambda>w. (Inr (), w)), o_fix = (\<lambda>w. (Inr (), w)), o_secret = id, o_kill = (\<lambda>_. False),
     o_peer = silent_peer, o_pgrep = [], o_hostname = None, o_lookup = []\<rparr>"

theorem template_remotes_witness:
  "filter is_remote (Split NL (new_template sample_outside sample_change sample_data (''proto tcp'' @ [NL] @ ''remote old 1'')))
     = [''remote vpn.example.org 1195'', ''remote vpn.example.org 8443'', ''remote vpn.example.org 993'']"
proof -
  have "word_ok (new_tunnel sample_outside sample_change (''proto tcp'' @ [NL] @ ''remote old 1''))" "word_ok (ch_proto sample_change)"
    by code_simp+
  note t = template_remotes [OF this, of sample_data]
  have "map (remote_line (new_tunnel sample_outside sample_change (''proto tcp'' @ [NL] @ ''remote old 1'')))
      (ch_port sample_change # (case ch_extra sample_change of Some ps \<Rightarrow> ps | None \<Rightarrow> PortsEffective sample_data (ExtraVPNPorts sample_data)))
    = [''remote vpn.example.org 1195'', ''remote vpn.example.org 8443'', ''remote vpn.example.org 993'']" by code_simp
  with t show ?thesis by (simp only:)
qed

end
