(* ===== verification/Rollback.thy ===== *)
theory Rollback
  imports Control
begin

text \<open>
  The rollback of \<open>ChangeConfig\<close> (\<open>ovpn/control.go\<close>). A run may fail when the disk refuses to sync or to
  rename, when the NAT rules cannot be applied, or when OpenVPN does not restart; the files are then
  what they were.

  \<open>edits\<close> is what every write of the apply phase does: it changes only the files it is meant to change and
  scratch files of its own, and a file whose rename fails not at all.
\<close>

subsection \<open>Edits\<close>

definition scratch :: "path \<Rightarrow> bool" where
  "scratch q \<longleftrightarrow> q \<noteq> [] \<and> (prefix ''.tmp-'' (last q) \<or> prefix ''.dns-'' (last q) \<or> prefix ''.ipv6-'' (last q))"

definition snap_file :: "path \<Rightarrow> bool" where
  "snap_file q \<longleftrightarrow> q \<noteq> [] \<and> prefix ''.snap-'' (last q)"

lemma snap_not_scratch: "snap_file q \<Longrightarrow> \<not> scratch q"
  by (auto simp: snap_file_def scratch_def prefix_def)

definition kind_at :: "world \<Rightarrow> path \<Rightarrow> kind option" where
  "kind_at w p = map_option n_kind (look w p)"

definition edits :: "path set \<Rightarrow> world \<Rightarrow> world \<Rightarrow> bool" where
  "edits W w w' \<longleftrightarrow> frame (\<lambda>q. q \<in> W \<or> scratch q) w w' \<and> (\<forall>p \<in> W. (fault w OpRename p \<longrightarrow> look w' p = look w p) \<and> (kind_at w' p = Some Dir \<longrightarrow> kind_at w p = Some Dir))"

lemma edits_refl [simp]: "edits W w w"
  by (simp add: edits_def)

lemma edits_trans: "edits W u v \<Longrightarrow> edits W v w \<Longrightarrow> edits W u w"
  by (auto simp: edits_def frame_fault intro: frame_trans)

lemma edits_mono:
  assumes "edits V w w'" "V \<subseteq> W" "\<And>q. q \<in> W \<Longrightarrow> \<not> scratch q" shows "edits W w w'"
proof -
  have f: "frame (\<lambda>q. q \<in> V \<or> scratch q) w w'" using assms(1) by (simp add: edits_def)
  have "look w' p = look w p" if "p \<in> W" "p \<notin> V" for p using assms(3) that by (intro frame_look [OF f]) auto
  then have "(fault w OpRename p \<longrightarrow> look w' p = look w p) \<and> (kind_at w' p = Some Dir \<longrightarrow> kind_at w p = Some Dir)"
    if "p \<in> W" for p using that assms(1) by (cases "p \<in> V") (auto simp: edits_def kind_at_def)
  then show ?thesis using frame_mono [OF f, of "\<lambda>q. q \<in> W \<or> scratch q"] assms(2) by (auto simp: edits_def)
qed

lemma edits_env: "edits W w w' \<Longrightarrow> same_env w w'"
  by (simp add: edits_def frame_def)

lemma tmp_scratch: "tmp_path q \<Longrightarrow> scratch q"
  by (simp add: tmp_path_def scratch_def)

lemma WriteFileAtomic_edits: "WriteFileAtomic p d m w = (r, w') \<Longrightarrow> \<not> scratch p \<Longrightarrow> edits {p} w w'"
proof -
  assume r: "WriteFileAtomic p d m w = (r, w')" and p: "\<not> scratch p"
  have f: "frame (\<lambda>q. q \<in> {p} \<or> scratch q) w w'"
    by (rule frame_mono [OF WriteFileAtomic_frame [OF r]]) (use tmp_scratch in auto)
  have "look w' p = look w p" if "fault w OpRename p"
  proof (cases r)
    case (Inl e)
    then have f: "frame tmp_path w w'" using r WriteFileAtomic_err by blast
    show ?thesis by (rule frame_look [OF f]) (use p tmp_scratch in blast)
  next
    case (Inr u)
    then show ?thesis using r that by (auto simp: WriteFileAtomic_def Let_def split: if_splits)
  qed
  moreover have "kind_at w p = Some Dir" if "kind_at w' p = Some Dir"
  proof (cases r)
    case (Inl e)
    then have f: "frame tmp_path w w'" using r WriteFileAtomic_err by blast
    have "look w' p = look w p" by (rule frame_look [OF f]) (use p tmp_scratch in blast)
    then show ?thesis using that by (simp add: kind_at_def)
  next
    case (Inr u)
    then have "w' = put p (new_file w (butlast p) m d) w" using r WriteFileAtomic_ok by auto
    then show ?thesis using that by (simp add: kind_at_def new_file_def)
  qed
  ultimately show ?thesis using f by (simp add: edits_def)
qed

lemma unchecked_write_edits:
  assumes "unchecked_write pre p body w = (b, w')" "pre = ''.dns-'' \<or> pre = ''.ipv6-''" "\<not> scratch p"
    and "\<And>q. \<not> fault w OpStat q" "dir_ready w (butlast p)"
  shows "edits {p} w w'"
proof -
  have m: "snd (os_MkdirAll (butlast p) perm_0755 w) = w" using os_MkdirAll_stat [OF assms(4,5)] by simp
  let ?t = "fresh_name pre (w_fs w) (butlast p)"
  have s: "scratch ?t" using assms(2) by (auto simp: fresh_name_def scratch_def)
  then have t: "scratch ?t" "?t \<noteq> p" using assms(3) by auto
  have "frame (\<lambda>q. q \<in> {p} \<or> scratch q) w (put ?t nd w)" "frame (\<lambda>q. q \<in> {p} \<or> scratch q) w (put p nd (del ?t (put ?t nd w)))" for nd
    using t by (auto simp: frame_def same_env_def)
  moreover have "look (put ?t nd w) p = look w p" for nd using t by auto
  ultimately show ?thesis
    using assms(1) t unfolding unchecked_write_def Let_def m
    by (auto simp: edits_def kind_at_def new_file_def split: if_splits)
qed

lemma WriteDNSState_edits:
  assumes "WriteDNSState d1 d2 w = (b, w')" "\<And>q. \<not> fault w OpStat q" "dir_ready w (OVNodeDir w)"
  shows "edits {DNSStatePath w} w w'"
proof -
  have p: "butlast (DNSStatePath w) = OVNodeDir w" "\<not> scratch (DNSStatePath w)"
    by (simp_all add: DNSStatePath_def statePath_def scratch_def)
  have "edits {DNSStatePath w} w w'" if "unchecked_write ''.dns-'' (DNSStatePath w) body w = (b, w')" for body
    by (rule unchecked_write_edits [OF that]) (use assms p in auto)
  then show ?thesis using assms(1) unfolding WriteDNSState_def Let_def by (auto split: if_splits)
qed

lemma WriteIPv6State_edits:
  assumes "WriteIPv6State en prf w = (b, w')" "\<And>q. \<not> fault w OpStat q" "dir_ready w (OVNodeDir w)"
  shows "edits {IPv6StatePath w} w w'"
proof -
  have p: "butlast (IPv6StatePath w) = OVNodeDir w" "\<not> scratch (IPv6StatePath w)"
    by (simp_all add: IPv6StatePath_def statePath_def scratch_def)
  have "edits {IPv6StatePath w} w w'" if "unchecked_write ''.ipv6-'' (IPv6StatePath w) body w = (b, w')" for body
    by (rule unchecked_write_edits [OF that]) (use assms p in auto)
  then show ?thesis using assms(1) unfolding WriteIPv6State_def Let_def by (auto split: if_splits)
qed

lemma WritePortsState_edits:
  assumes "\<And>q. \<not> fault w OpStat q" "dir_ready w (OVNodeDir w)"
  shows "edits {PortsStatePath w} w (snd (WritePortsState ps w))"
proof -
  have p: "butlast (PortsStatePath w) = OVNodeDir w" "\<not> scratch (PortsStatePath w)"
    by (simp_all add: PortsStatePath_def statePath_def scratch_def)
  have m: "snd (os_MkdirAll (OVNodeDir w) perm_0755 w) = w" using os_MkdirAll_stat [OF assms] by simp
  show ?thesis using WriteFileAtomic_edits [OF _ p(2), of _ perm_0644 w]
    unfolding WritePortsState_def Let_def p(1) m by (auto split: prod.splits sum.splits)
qed

lemma SyncNATConfig_edits:
  assumes "SyncNATConfig na port ps w = (r, w')" "\<And>v. snd (na v) = v" "\<not> scratch (natConfigPath w)"
  shows "edits {natConfigPath w} w w'"
proof -
  let ?p = "natConfigPath w"
  have nv: "v' = v" if "na v = (x, v')" for v v' x using assms(2) [of v] that by simp
  have e: "edits {?p} v v'" if "WriteFileAtomic ?p d m v = (x, v')" for v v' d m x
    using that assms(3) by (rule WriteFileAtomic_edits)
  have e': "edits {?p} v (snd (WriteFileAtomic ?p d m v))" for v d m using e by (metis prod.collapse)
  have "w' = w \<or> (\<exists>r1 w1 d. WriteFileAtomic ?p d perm_0644 w = (r1, w1) \<and> (w' = w1 \<or> (\<exists>d m. w' = snd (WriteFileAtomic ?p d m w1))))"
  proof (cases "os_ReadFile w ?p")
    case (Inl e)
    then show ?thesis using assms(1) by (simp add: SyncNATConfig_def)
  next
    case (Inr data)
    obtain r1 w1 where w1: "WriteFileAtomic ?p (nat_content (nat_enabled (Split NL data) True) port ps) perm_0644 w = (r1, w1)"
      by (metis prod.exhaust)
    obtain x where x: "na w1 = (x, w1)" using nv by (metis prod.exhaust)
    have "w' = w1 \<or> (\<exists>d m. w' = snd (WriteFileAtomic ?p d m w1))"
      using assms(1) unfolding SyncNATConfig_def Let_def Inr sum.case w1 prod.case x
      by (cases r1; cases x) (auto split: if_splits)
    then show ?thesis using w1 by blast
  qed
  then show ?thesis using e e' by (metis edits_refl edits_trans)
qed

subsection \<open>The apply phase only edits\<close>

text \<open>The files a change may write: the two configuration texts, the state files, the NAT configuration.\<close>

definition change_files :: "world \<Rightarrow> path set" where
  "change_files w = {settingFile w, templateFile w, DNSStatePath w, IPv6StatePath w, PortsStatePath w, natConfigPath w}"

lemma control_paths_env:
  assumes "same_env w v"
  shows "settingFile v = settingFile w" "templateFile v = templateFile w" "DNSStatePath v = DNSStatePath w"
    "IPv6StatePath v = IPv6StatePath w" "PortsStatePath v = PortsStatePath w" "natConfigPath v = natConfigPath w"
    "change_files v = change_files w" "OVNodeDir v = OVNodeDir w" "snap_paths c v = snap_paths c w"
proof -
  have e: "w_env v = w_env w" using assms by (simp add: same_env_def)
  show p: "settingFile v = settingFile w" "templateFile v = templateFile w" "DNSStatePath v = DNSStatePath w"
    "IPv6StatePath v = IPv6StatePath w" "PortsStatePath v = PortsStatePath w" "natConfigPath v = natConfigPath w"
    "OVNodeDir v = OVNodeDir w"
    by (simp_all add: settingFile_def templateFile_def DNSStatePath_def IPv6StatePath_def PortsStatePath_def statePath_def
        natConfigPath_def paths_env [OF assms] OVNodeDir_env [OF assms] e)
  then show "change_files v = change_files w" "snap_paths c v = snap_paths c w" by (simp_all add: change_files_def snap_paths_def)
qed

lemma not_scratch_files:
  "\<not> scratch (settingFile w)" "\<not> scratch (templateFile w)" "\<not> scratch (DNSStatePath w)" "\<not> scratch (IPv6StatePath w)"
  "\<not> scratch (PortsStatePath w)"
  by (simp_all add: scratch_def settingFile_def templateFile_def DNSStatePath_def IPv6StatePath_def PortsStatePath_def statePath_def)

text \<open>What the apply phase needs: the data directory, a NAT file outside the others, and a command that changes no file.\<close>

definition apply_ready :: "outside \<Rightarrow> world \<Rightarrow> bool" where
  "apply_ready X w \<longleftrightarrow> (\<forall>q. \<not> fault w OpStat q) \<and> dir_ready w (OVNodeDir w) \<and> \<not> scratch (natConfigPath w)
     \<and> (\<forall>q \<in> change_files w. \<not> prefix q (OVNodeDir w)) \<and> (\<forall>q. prefix q (OVNodeDir w) \<longrightarrow> \<not> scratch q)
     \<and> (\<forall>v. snd (o_nat X v) = v)"

lemma apply_ready_edits: "apply_ready X w \<Longrightarrow> edits (change_files w) w v \<Longrightarrow> apply_ready X v"
proof -
  assume a: "apply_ready X w" and e: "edits (change_files w) w v"
  have f: "frame (\<lambda>q. q \<in> change_files w \<or> scratch q) w v" using e by (simp add: edits_def)
  note p = control_paths_env [OF edits_env [OF e]]
  have "dir_ready v (OVNodeDir w) = dir_ready w (OVNodeDir w)"
    by (rule dir_ready_frame [OF f]) (use a in \<open>auto simp: apply_ready_def\<close>)
  then show ?thesis using a frame_fault [OF f] by (simp add: apply_ready_def p)
qed

text \<open>One write, and one stage after another.\<close>

lemma edit_one: "apply_ready X w \<Longrightarrow> edits {p} w v \<Longrightarrow> p \<in> change_files w \<Longrightarrow> edits (change_files w) w v"
proof -
  assume a: "apply_ready X w" "edits {p} w v" "p \<in> change_files w"
  have n: "\<not> scratch q" if "q \<in> change_files w" for q
    using that a(1) not_scratch_files [of w] by (auto simp: change_files_def apply_ready_def)
  show ?thesis by (rule edits_mono [OF a(2) _ n]) (use a(3) in auto)
qed

lemma edit_then:
  assumes "edits (change_files w) w u" "apply_ready X w"
    and "apply_ready X u \<Longrightarrow> edits (change_files u) u v"
  shows "edits (change_files w) w v"
  using assms(3) [OF apply_ready_edits [OF assms(2,1)]] control_paths_env(7) [OF edits_env [OF assms(1)]]
  by (auto intro: edits_trans [OF assms(1)])

lemma write_if_edits:
  "apply_ready X w \<Longrightarrow> p \<in> change_files w \<Longrightarrow> \<not> scratch p \<Longrightarrow> edits (change_files w) w (snd (write_if b p d w))"
  using WriteFileAtomic_edits [of p d perm_0644 w] edit_one [of X w p]
  by (cases "WriteFileAtomic p d perm_0644 w") (simp add: write_if_def)

lemma apply_dns_edits: "apply_ready X w \<Longrightarrow> edits (change_files w) w (snd (apply_dns c w))"
proof -
  assume a: "apply_ready X w"
  have "edits {DNSStatePath w} w (snd (WriteDNSState d1 d2 w))" for d1 d2
    by (rule WriteDNSState_edits) (use a in \<open>auto simp: apply_ready_def intro: prod.collapse [symmetric]\<close>)
  moreover have "DNSStatePath w \<in> change_files w" by (simp add: change_files_def)
  ultimately show ?thesis by (auto simp: apply_dns_def intro: edit_one [OF a])
qed

lemma apply_v6_edits: "apply_ready X w \<Longrightarrow> edits (change_files w) w (snd (apply_v6 c w))"
proof -
  assume a: "apply_ready X w"
  have "edits {IPv6StatePath w} w (snd (WriteIPv6State en pf w))" for en pf
    by (rule WriteIPv6State_edits) (use a in \<open>auto simp: apply_ready_def intro: prod.collapse [symmetric]\<close>)
  moreover have "IPv6StatePath w \<in> change_files w" by (simp add: change_files_def)
  ultimately show ?thesis by (auto simp: apply_v6_def intro: edit_one [OF a] split: option.splits)
qed

lemma apply_ports_edits: "apply_ready X w \<Longrightarrow> edits (change_files w) w (snd (apply_ports X c w))"
proof (cases "ch_extra c")
  case (Some ps)
  assume a: "apply_ready X w"
  let ?v = "snd (WritePortsState ps w)"
  have "edits {PortsStatePath w} w ?v" by (rule WritePortsState_edits) (use a in \<open>simp_all add: apply_ready_def\<close>)
  then have ev: "edits (change_files w) w ?v" using edit_one [OF a] by (simp add: change_files_def)
  show ?thesis
  proof (rule edit_then [OF ev a])
    assume b: "apply_ready X ?v"
    have "edits {natConfigPath ?v} ?v (snd (SyncNATConfig (o_nat X) (ch_port c) ps ?v))"
      by (rule SyncNATConfig_edits) (use b in \<open>auto simp: apply_ready_def intro: prod.collapse [symmetric]\<close>)
    then show "edits (change_files ?v) ?v (snd (apply_ports X c w))"
      using edit_one [OF b] Some by (simp add: apply_ports_def change_files_def)
  qed
qed (simp add: apply_ports_def)

lemma apply_change_edits:
  assumes "apply_change X c cc nc tc nt w = (r, w')" "apply_ready X w"
  shows "edits (change_files w) w w'"
proof -
  let ?w1 = "snd (write_if cc (settingFile w) nc w)"
  let ?w2 = "snd (write_if tc (templateFile ?w1) nt ?w1)"
  let ?w3 = "snd (apply_dns c ?w2)"
  let ?w4 = "snd (apply_v6 c ?w3)"
  let ?w5 = "snd (apply_ports X c ?w4)"
  have m: "settingFile v \<in> change_files v" "templateFile v \<in> change_files v" for v by (simp_all add: change_files_def)
  have 1: "edits (change_files w) w ?w1" by (rule write_if_edits [OF assms(2) m(1) not_scratch_files(1)])
  have 2: "edits (change_files w) w ?w2" by (rule edit_then [OF 1 assms(2)]) (rule write_if_edits [OF _ m(2) not_scratch_files(2)])
  have 3: "edits (change_files w) w ?w3" by (rule edit_then [OF 2 assms(2)]) (rule apply_dns_edits)
  have 4: "edits (change_files w) w ?w4" by (rule edit_then [OF 3 assms(2)]) (rule apply_v6_edits)
  have 5: "edits (change_files w) w ?w5" by (rule edit_then [OF 4 assms(2)]) (rule apply_ports_edits)
  have "w' = ?w1 \<or> w' = ?w2 \<or> w' = ?w5"
    using assms(1) unfolding apply_change_def Let_def
    by (auto simp: case_prod_beta split: sum.splits if_splits prod.splits)
  then show ?thesis using 1 2 5 by auto
qed

subsection \<open>Snapshots and their restoration\<close>

text \<open>The snapshot \<open>s\<close> holds what the file was in \<open>w0\<close>.\<close>

definition snapshot_holds :: "world \<Rightarrow> world \<Rightarrow> snapshot \<Rightarrow> bool" where
  "snapshot_holds w0 w s \<longleftrightarrow> (if sn_existed s then snap_file (sn_tmp s) \<and> kind_at w (sn_tmp s) = kind_at w0 (sn_path s) \<and> kind_at w0 (sn_path s) \<noteq> None
     else look w0 (sn_path s) = None)"

definition taken :: "world \<Rightarrow> snapshot list \<Rightarrow> world \<Rightarrow> bool" where
  "taken w0 S w \<longleftrightarrow> frame snap_file w0 w \<and> (\<forall>s \<in> set S. snapshot_holds w0 w s) \<and> distinct (map sn_tmp (filter sn_existed S))
     \<and> (\<forall>s \<in> set S. sn_existed s \<longrightarrow> look w (sn_tmp s) \<noteq> None)"

text \<open>Only a sync or a rename may fail.\<close>

definition sync_rename_faults :: "world \<Rightarrow> bool" where
  "sync_rename_faults w \<longleftrightarrow> (\<forall>op q. fault w op q \<longrightarrow> op = OpSync \<or> op = OpRename)"

lemma sync_rename_simps:
  assumes "sync_rename_faults w"
  shows "\<not> fault w OpStat q" "\<not> fault w OpRead q" "\<not> fault w OpCreateTemp q" "\<not> fault w OpWrite q" "\<not> fault w OpClose q"
    "\<not> fault w OpChmod q" "\<not> fault w OpRemove q"
  using assms by (auto simp: sync_rename_faults_def)

lemma snap_taken:
  assumes "taken w0 S w" "sync_rename_faults w0" "plain w0 p" "\<not> snap_file p"
    and "look w0 p \<noteq> None \<Longrightarrow> \<exists>dn. look w0 (butlast p) = Some dn \<and> is_dir dn" "\<not> snap_file (butlast p)"
  obtains s w' where "snap p (S, w) = (S @ [s], w')" "taken w0 (S @ [s]) w'" "sn_path s = p"
proof -
  have f: "frame snap_file w0 w" using assms(1) by (simp add: taken_def)
  have fl: "w_fault w = w_fault w0" by (rule frame_fault [OF f])
  note nf = sync_rename_simps [OF assms(2), folded fl]
  have lp: "look w p = look w0 p" "look w (butlast p) = look w0 (butlast p)"
    using frame_look [OF f] assms(4,6) by auto
  show ?thesis
  proof (cases "look w0 p")
    case None
    then have "os_Stat w p = Inl NotExist" using nf lp by (simp add: os_Stat_def follow_max)
    then have "snap p (S, w) = (S @ [\<lparr>sn_path = p, sn_tmp = [], sn_existed = False\<rparr>], w)" by (simp add: snap_def)
    then show ?thesis using that None assms(1) by (auto simp: taken_def snapshot_holds_def)
  next
    case (Some nd)
    then obtain data where k: "n_kind nd = Reg data" using assms(3) by (auto simp: plain_def is_regular_def split: kind.splits)
    obtain dn where dn: "look w (butlast p) = Some dn" "is_dir dn" using assms(5) Some lp by auto
    let ?t = "fresh_name ''.snap-'' (w_fs w) (butlast p)"
    let ?s = "\<lparr>sn_path = p, sn_tmp = ?t, sn_existed = True\<rparr>"
    let ?w' = "put ?t (new_file w (butlast p) (n_mode nd AND 0x1FF) data) w"
    have t: "look w ?t = None" "snap_file ?t" by (rule fresh_name_fresh) (simp add: fresh_name_def snap_file_def)
    have st: "os_Stat w p = Inr nd" "os_Stat w (butlast p) = Inr dn" "os_ReadFile w p = Inr data"
      using nf lp(1) Some k dn by (auto simp: os_Stat_def os_ReadFile_def follow_max is_dir_def split: kind.splits)
    have "snap p (S, w) = (S @ [?s], ?w')"
      using st k dn(2) nf by (simp add: snap_def snapshotFile_def is_dir_def Let_def)
    moreover have "taken w0 (S @ [?s]) ?w'"
    proof -
      have "frame snap_file w0 ?w'" using frame_trans [OF f frame_put] t(2) by simp
      moreover have ne: "sn_tmp s \<noteq> ?t" if "s \<in> set S" "sn_existed s" for s
        using assms(1) that t(1) by (auto simp: taken_def)
      have "snapshot_holds w0 ?w' s" if "s \<in> set S" for s
        using assms(1) that ne [OF that] by (auto simp: taken_def snapshot_holds_def kind_at_def)
      moreover have "snapshot_holds w0 ?w' ?s" using t Some k by (simp add: snapshot_holds_def kind_at_def new_file_def)
      moreover have "?t \<notin> sn_tmp ` {s \<in> set S. sn_existed s}"
      proof
        assume "?t \<in> sn_tmp ` {s \<in> set S. sn_existed s}"
        then obtain s where "s \<in> set S" "sn_existed s" "?t = sn_tmp s" by blast
        note s = this
        show False by (rule notE [OF ne [OF s(1,2)] s(3) [symmetric]])
      qed
      ultimately show ?thesis using assms(1) ne unfolding taken_def by simp
    qed
    ultimately show ?thesis using that by simp
  qed
qed

lemma snaps_taken:
  assumes "sync_rename_faults w0"
    and "\<And>p. p \<in> set ps \<Longrightarrow> plain w0 p \<and> \<not> snap_file p \<and> \<not> snap_file (butlast p)
           \<and> (look w0 p \<noteq> None \<longrightarrow> (\<exists>dn. look w0 (butlast p) = Some dn \<and> is_dir dn))"
    and "taken w0 S w"
  obtains S' w' where "fold snap ps (S, w) = (S @ S', w')" "map sn_path S' = ps" "taken w0 (S @ S') w'"
  using assms(2,3)
proof (induction ps arbitrary: S w thesis)
  case (Cons p ps)
  obtain s w1 where s: "snap p (S, w) = (S @ [s], w1)" "taken w0 (S @ [s]) w1" "sn_path s = p"
    using snap_taken [OF Cons.prems(3) assms(1)] Cons.prems(2) [of p] by (metis list.set_intros(1))
  obtain S' w' where "fold snap ps (S @ [s], w1) = ((S @ [s]) @ S', w')" "map sn_path S' = ps" "taken w0 ((S @ [s]) @ S') w'"
    using Cons.IH [OF _ _ s(2)] Cons.prems(2) by (metis list.set_intros(2))
  then show ?case using Cons.prems(1) [of "s # S'" w'] s by simp
qed simp

definition recoverable :: "world \<Rightarrow> world \<Rightarrow> snapshot \<Rightarrow> bool" where
  "recoverable w0 w s \<longleftrightarrow> snapshot_holds w0 w s \<and> \<not> snap_file (sn_path s) \<and> \<not> fault w OpRemove (sn_path s)
     \<and> (fault w OpRename (sn_path s) \<longrightarrow> kind_at w (sn_path s) = kind_at w0 (sn_path s))
     \<and> kind_at w (sn_path s) \<noteq> Some Dir"

lemma restore_frame: "frame (\<lambda>q. q = sn_path s \<or> q = sn_tmp s \<and> sn_existed s) w (restore s w)"
  by (auto simp: restore_def os_Rename_def os_Remove_def frame_def same_env_def split: option.splits)

lemma restore_kind: "recoverable w0 w s \<Longrightarrow> kind_at (restore s w) (sn_path s) = kind_at w0 (sn_path s)"
proof -
  assume r: "recoverable w0 w s"
  have d: "\<not> is_dir nd" if "look w (sn_path s) = Some nd" for nd
    using r that by (auto simp: recoverable_def kind_at_def is_dir_def)
  show ?thesis
  proof (cases "sn_existed s")
    case True
    then obtain nd where "look w (sn_tmp s) = Some nd" "Some (n_kind nd) = kind_at w0 (sn_path s)"
      using r by (auto simp: recoverable_def snapshot_holds_def kind_at_def)
    moreover have "kind_at (put (sn_path s) nd v) (sn_path s) = Some (n_kind nd)" for v by (simp add: kind_at_def)
    ultimately show ?thesis using True r d
      by (auto simp: restore_def os_Rename_def recoverable_def split: option.splits)
  next
    case False
    then show ?thesis using r d by (auto simp: restore_def os_Remove_def recoverable_def snapshot_holds_def kind_at_def split: option.splits)
  qed
qed

lemma restores_kind:
  assumes "\<And>s. s \<in> set L \<Longrightarrow> recoverable w0 w s" "distinct (map sn_path L)" "distinct (map sn_tmp (filter sn_existed L))"
  shows "(\<forall>s \<in> set L. kind_at (fold restore L w) (sn_path s) = kind_at w0 (sn_path s))
    \<and> frame (\<lambda>q. q \<in> sn_path ` set L \<or> snap_file q) w (fold restore L w)"
  using assms
proof (induction L arbitrary: w)
  case (Cons s L)
  let ?v = "restore s w"
  have f: "frame (\<lambda>q. q = sn_path s \<or> q = sn_tmp s \<and> sn_existed s) w ?v" by (rule restore_frame)
  have rs: "recoverable w0 w s" by (rule Cons.prems(1)) simp
  have sf: "sn_existed s \<Longrightarrow> snap_file (sn_tmp s)" using rs by (simp add: recoverable_def snapshot_holds_def)
  have r: "recoverable w0 ?v t" if "t \<in> set L" for t
  proof -
    have rt: "recoverable w0 w t" using Cons.prems(1) that by simp
    have "sn_path t \<noteq> sn_path s" using Cons.prems(2) that by (metis distinct.simps(2) image_eqI list.set_map list.simps(9))
    moreover have "sn_path t \<noteq> sn_tmp s" if "sn_existed s" using rt sf [OF that] by (auto simp: recoverable_def)
    ultimately have 1: "look ?v (sn_path t) = look w (sn_path t)" by (intro frame_look [OF f]) auto
    have 2: "look ?v (sn_tmp t) = look w (sn_tmp t)" if "sn_existed t"
    proof (rule frame_look [OF f])
      have "snap_file (sn_tmp t)" using rt that by (simp add: recoverable_def snapshot_holds_def)
      moreover have "sn_tmp t \<noteq> sn_tmp s" if "sn_existed s"
        using Cons.prems(3) \<open>t \<in> set L\<close> \<open>sn_existed t\<close> that by (auto simp: image_iff)
      ultimately show "\<not> (sn_tmp t = sn_path s \<or> sn_tmp t = sn_tmp s \<and> sn_existed s)" using rs by (auto simp: recoverable_def)
    qed
    show ?thesis using rt 1 2 frame_fault [OF f] by (auto simp: recoverable_def snapshot_holds_def kind_at_def split: if_splits)
  qed
  have d: "distinct (map sn_path L)" "distinct (map sn_tmp (filter sn_existed L))" using Cons.prems(2,3) by (auto split: if_splits)
  note IH = Cons.IH [OF r d]
  have fl: "frame (\<lambda>q. q \<in> sn_path ` set L \<or> snap_file q) ?v (fold restore L ?v)" using IH by simp
  have "look (fold restore L ?v) (sn_path s) = look ?v (sn_path s)"
    by (rule frame_look [OF fl]) (use Cons.prems(2) rs in \<open>auto simp: recoverable_def\<close>)
  then have "kind_at (fold restore L ?v) (sn_path s) = kind_at w0 (sn_path s)" using restore_kind [OF rs] by (simp add: kind_at_def)
  moreover have "frame (\<lambda>q. q \<in> sn_path ` set (s # L) \<or> snap_file q) w (fold restore L ?v)"
    by (rule frame_trans [OF frame_mono [OF f] frame_mono [OF fl]]) (use sf in auto)
  ultimately show ?case using IH by auto
qed simp

lemma cleanup_frame:
  "(\<And>s. s \<in> set L \<Longrightarrow> sn_existed s \<Longrightarrow> snap_file (sn_tmp s)) \<Longrightarrow> frame snap_file w (fold cleanup L w)"
proof (induction L arbitrary: w)
  case (Cons s L)
  have "frame snap_file w (cleanup s w)"
    using Cons.prems [of s] by (auto simp: cleanup_def os_Remove_def frame_def same_env_def split: option.splits)
  then show ?case using Cons frame_trans by fastforce
qed simp

subsection \<open>A failed change leaves no trace in its files\<close>

text \<open>The permission repairs of a restart keep what the files are.\<close>

definition keeps_kinds :: "path set \<Rightarrow> (world \<Rightarrow> world) \<Rightarrow> bool" where
  "keeps_kinds P f \<longleftrightarrow> (\<forall>v. w_fault (f v) = w_fault v \<and> (\<forall>q. q \<in> P \<or> snap_file q \<longrightarrow> kind_at (f v) q = kind_at v q))"

definition change_ready :: "outside \<Rightarrow> change \<Rightarrow> world \<Rightarrow> bool" where
  "change_ready X c w \<longleftrightarrow> sync_rename_faults w \<and> apply_ready X w \<and> \<not> snap_file (natConfigPath w) \<and> (\<forall>q. prefix q (OVNodeDir w) \<longrightarrow> \<not> snap_file q)
     \<and> (\<forall>p \<in> set (snap_paths c w). plain w p \<and> (look w p \<noteq> None \<longrightarrow> (\<exists>dn. look w (butlast p) = Some dn \<and> is_dir dn)))
     \<and> keeps_kinds (set (snap_paths c w)) (\<lambda>v. snd (o_fix X v)) \<and> keeps_kinds (set (snap_paths c w)) (o_secret X)"

lemma snap_path_names:
  assumes "p \<in> set (snap_paths c w)"
  shows "last p \<in> set [''server.conf'', ''client-common.txt'', ''dns'', ''ipv6'', ''ports'', ''ovnode-nat'']" "p \<noteq> []"
    "butlast p \<in> {OpenVPNRoot w @ [''server''], OVNodeDir w, [''etc'', ''default'']}"
proof -
  have n: "to_path ''/etc/default/ovnode-nat'' = [''etc'', ''default'', ''ovnode-nat'']" by code_simp
  show "last p \<in> set [''server.conf'', ''client-common.txt'', ''dns'', ''ipv6'', ''ports'', ''ovnode-nat'']" "p \<noteq> []"
    "butlast p \<in> {OpenVPNRoot w @ [''server''], OVNodeDir w, [''etc'', ''default'']}"
    using assms unfolding snap_paths_def n
    by (auto simp: settingFile_def templateFile_def DNSStatePath_def IPv6StatePath_def PortsStatePath_def statePath_def
        butlast_append split: if_splits)
qed

lemma snap_path_plain: "p \<in> set (snap_paths c w) \<Longrightarrow> \<not> snap_file p \<and> \<not> scratch p \<and> last p \<noteq> ''client.ovpn''"
  using snap_path_names [of p c w] by (auto simp: snap_file_def scratch_def)

lemma snap_paths_distinct: "distinct (snap_paths c w)"
proof -
  have n: "to_path ''/etc/default/ovnode-nat'' = [''etc'', ''default'', ''ovnode-nat'']" by code_simp
  have "distinct (map last (snap_paths c w))"
    unfolding snap_paths_def n
    by (cases "dns_given c"; cases "ch_ipv6 c = None"; cases "ch_extra c = None")
       (auto simp: settingFile_def templateFile_def DNSStatePath_def IPv6StatePath_def PortsStatePath_def statePath_def)
  then show ?thesis by (rule distinct_map [THEN iffD1, THEN conjunct1])
qed

lemma invalidate_frame: "frame (\<lambda>q. last q = ''client.ovpn'') w (invalidateCachedOVPN w)"
proof -
  have "frame (\<lambda>q. last q = ''client.ovpn'') v (fold (\<lambda>p w. snd (os_Remove p w)) L v)" if "\<forall>p \<in> set L. last p = ''client.ovpn''" for L v
    using that
  proof (induction L arbitrary: v)
    case (Cons p L)
    have "frame (\<lambda>q. last q = ''client.ovpn'') v (snd (os_Remove p v))"
      using Cons.prems by (auto simp: os_Remove_def frame_def same_env_def split: option.splits)
    then show ?case using Cons frame_trans by fastforce
  qed simp
  moreover have "\<forall>p \<in> set (cached_profiles w). last p = ''client.ovpn''"
    by (auto simp: cached_profiles_def split: sum.splits)
  ultimately show ?thesis by (simp add: invalidateCachedOVPN_def)
qed

lemma snap_not_profile: "snap_file q \<Longrightarrow> last q \<noteq> ''client.ovpn''"
  by (auto simp: snap_file_def)

text \<open>What the rollback needs of a world between the apply phase and the restoration.\<close>

definition pending :: "world \<Rightarrow> snapshot list \<Rightarrow> world \<Rightarrow> bool" where
  "pending w0 S w \<longleftrightarrow> (\<forall>s \<in> set S. recoverable w0 w s) \<and> distinct (map sn_path S) \<and> distinct (map sn_tmp (filter sn_existed S))"

lemma pending_kinds:
  assumes "pending w0 S w" "w_fault w' = w_fault w" "\<And>q. q \<in> sn_path ` set S \<or> snap_file q \<Longrightarrow> kind_at w' q = kind_at w q"
  shows "pending w0 S w'"
proof -
  have "recoverable w0 w' s" if s: "s \<in> set S" for s
  proof -
    have r: "recoverable w0 w s" using assms(1) s by (simp add: pending_def)
    moreover have "kind_at w' (sn_path s) = kind_at w (sn_path s)" using assms(3) s by auto
    moreover have "sn_existed s \<Longrightarrow> kind_at w' (sn_tmp s) = kind_at w (sn_tmp s)"
      using r assms(3) by (simp add: recoverable_def snapshot_holds_def)
    ultimately show ?thesis using assms(2) by (auto simp: recoverable_def snapshot_holds_def)
  qed
  then show ?thesis using assms(1) by (simp add: pending_def)
qed

lemma pending_restored:
  assumes "pending w0 S w" "s \<in> set S"
  shows "kind_at (restoreSnapshots S w) (sn_path s) = kind_at w0 (sn_path s)"
proof -
  have d: "distinct (map sn_path (rev S))" "distinct (map sn_tmp (filter sn_existed (rev S)))"
    using assms(1) by (simp_all add: pending_def rev_map [symmetric] rev_filter [symmetric])
  have "recoverable w0 w s" if "s \<in> set (rev S)" for s using assms(1) that by (simp add: pending_def)
  from restores_kind [OF this d] assms(2) show ?thesis by (simp add: restoreSnapshots_def)
qed

lemma cleanup_kind:
  assumes "pending w0 S w" "s \<in> set S"
  shows "kind_at (cleanupSnapshots S v) (sn_path s) = kind_at v (sn_path s)"
proof -
  have "frame snap_file v (cleanupSnapshots S v)" unfolding cleanupSnapshots_def
    by (rule cleanup_frame) (use assms(1) in \<open>auto simp: pending_def recoverable_def snapshot_holds_def\<close>)
  moreover have "\<not> snap_file (sn_path s)" using assms by (simp add: pending_def recoverable_def)
  ultimately show ?thesis by (simp add: kind_at_def frame_look)
qed

lemma restart_kinds:
  assumes "keeps_kinds P (\<lambda>v. snd (o_fix X v))" "keeps_kinds P (o_secret X)"
  shows "keeps_kinds P (\<lambda>v. snd (restart X v))" "keeps_kinds P (\<lambda>v. snd (activate X rr cc v))"
proof -
  have "snd (restart X v) = v \<or> snd (restart X v) = snd (o_fix X v) \<or> snd (restart X v) = o_secret X (snd (o_fix X v))" for v
    unfolding restart_def RestartOpenVPN_def Let_def by (auto split: sum.splits prod.splits if_splits)
  then show r: "keeps_kinds P (\<lambda>v. snd (restart X v))"
    using assms unfolding keeps_kinds_def by (metis (no_types, lifting))
  have "snd (activate X rr cc v) = v \<or> snd (activate X rr cc v) = snd (restart X v)" for v
    unfolding activate_def Let_def by (auto split: prod.splits)
  then show "keeps_kinds P (\<lambda>v. snd (activate X rr cc v))"
    using r unfolding keeps_kinds_def by (metis (no_types, lifting))
qed

text \<open>The snapshots are taken and the apply phase leaves them recoverable.\<close>

lemma apply_pending:
  assumes "change_ready X c w" "fold snap (snap_paths c w) ([], w) = (S, w1)"
    and "apply_change X c cc nc tc nt w1 = (r, w2)"
  shows "pending w S w2" "map sn_path S = snap_paths c w"
proof -
  have c: "sync_rename_faults w" "apply_ready X w" "\<not> snap_file (natConfigPath w)" "\<And>q. prefix q (OVNodeDir w) \<Longrightarrow> \<not> snap_file q"
    using assms(1) by (simp_all add: change_ready_def)
  have t0: "taken w [] w" by (simp add: taken_def)
  have "plain w p \<and> \<not> snap_file p \<and> \<not> snap_file (butlast p) \<and> (look w p \<noteq> None \<longrightarrow> (\<exists>dn. look w (butlast p) = Some dn \<and> is_dir dn))"
    if "p \<in> set (snap_paths c w)" for p
    using that assms(1) snap_path_plain [OF that] snap_path_names(3) [OF that] c(4) [of "OVNodeDir w"]
    by (auto simp: change_ready_def) (auto simp: snap_file_def)
  from snaps_taken [OF c(1) this t0] obtain S' w' where
    "fold snap (snap_paths c w) ([], w) = ([] @ S', w')" "map sn_path S' = snap_paths c w" "taken w ([] @ S') w'" by blast
  then have S: "map sn_path S = snap_paths c w" "taken w S w1" using assms(2) by auto
  then show "map sn_path S = snap_paths c w" by simp
  have f1: "frame snap_file w w1" using S(2) by (simp add: taken_def)
  note p1 = control_paths_env [OF conjunct1 [OF f1 [unfolded frame_def]]]
  have "dir_ready w1 (OVNodeDir w) = dir_ready w (OVNodeDir w)" by (rule dir_ready_frame [OF f1 c(4)])
  then have "apply_ready X w1" using c(2) frame_fault [OF f1] by (simp add: apply_ready_def p1)
  from apply_change_edits [OF assms(3) this] have e: "edits (change_files w) w1 w2" by (simp add: p1)
  then have f2: "frame (\<lambda>q. q \<in> change_files w \<or> scratch q) w1 w2" by (simp add: edits_def)
  have fl: "w_fault w2 = w_fault w" "w_fault w1 = w_fault w" using frame_fault [OF f2] frame_fault [OF f1] by auto
  have sf: "q \<notin> change_files w" if "snap_file q" for q
    using that c(3) by (auto simp: change_files_def snap_file_def settingFile_def templateFile_def DNSStatePath_def
        IPv6StatePath_def PortsStatePath_def statePath_def)
  have "recoverable w w2 s" if s: "s \<in> set S" for s
  proof -
    have p: "sn_path s \<in> set (snap_paths c w)" using s S(1) by (metis image_eqI list.set_map)
    have pp: "\<not> snap_file (sn_path s)" "\<not> scratch (sn_path s)" using snap_path_plain [OF p] by auto
    have l1: "look w1 (sn_path s) = look w (sn_path s)" by (rule frame_look [OF f1 pp(1)])
    have h: "snapshot_holds w w1 s" using S(2) s by (simp add: taken_def)
    have "kind_at w2 (sn_tmp s) = kind_at w1 (sn_tmp s)" if "sn_existed s"
    proof -
      have "snap_file (sn_tmp s)" using h that by (simp add: snapshot_holds_def)
      then show ?thesis using sf snap_not_scratch by (simp add: kind_at_def frame_look [OF f2])
    qed
    then have 1: "snapshot_holds w w2 s" using h by (simp add: snapshot_holds_def)
    have 2: "sn_path s \<notin> change_files w \<Longrightarrow> look w2 (sn_path s) = look w (sn_path s)"
      using frame_look [OF f2] pp l1 by simp
    have 3: "kind_at w2 (sn_path s) = kind_at w (sn_path s)" if "fault w2 OpRename (sn_path s)"
      using 2 e that fl l1 by (cases "sn_path s \<in> change_files w") (auto simp: edits_def kind_at_def)
    have "kind_at w (sn_path s) \<noteq> Some Dir"
      using assms(1) p by (auto simp: change_ready_def plain_def kind_at_def is_regular_def split: option.splits)
    then have "kind_at w2 (sn_path s) \<noteq> Some Dir"
      using 2 e l1 by (cases "sn_path s \<in> change_files w") (auto simp: edits_def kind_at_def)
    with 1 3 pp show ?thesis using sync_rename_simps(7) [OF c(1)] fl by (simp add: recoverable_def)
  qed
  then show "pending w S w2"
    using S snap_paths_distinct [of c w] by (simp add: pending_def taken_def)
qed

lemma commit_rollback:
  assumes "change_ready X c w" "commit X c cc nc tc nt rr v6 po w = (vd, w')" "\<not> vd_ok vd" "p \<in> set (snap_paths c w)"
  shows "kind_at w' p = kind_at w p"
proof -
  obtain S w1 where S: "fold snap (snap_paths c w) ([], w) = (S, w1)" by (metis prod.exhaust)
  obtain r w2 where r: "apply_change X c cc nc tc nt w1 = (r, w2)" by (metis prod.exhaust)
  note pd = apply_pending [OF assms(1) S r]
  obtain s where s: "s \<in> set S" "sn_path s = p" using assms(4) pd(2) by (metis imageE list.set_map)
  have P: "sn_path ` set S = set (snap_paths c w)" using pd(2) by (metis list.set_map)
  have k: "keeps_kinds (set (snap_paths c w)) (\<lambda>v. snd (restart X v))" "keeps_kinds (set (snap_paths c w)) (\<lambda>v. snd (activate X rr cc v))"
    using assms(1) restart_kinds by (auto simp: change_ready_def)
  show ?thesis
  proof (cases r)
    case (Inl e)
    then have "w' = cleanupSnapshots S (restoreSnapshots S w2)" using assms(2) unfolding commit_def S Let_def prod.case r by simp
    then show ?thesis using cleanup_kind [OF pd(1) s(1)] pending_restored [OF pd(1) s(1)] s(2) by simp
  next
    case (Inr b)
    let ?w3 = "invalidateCachedOVPN w2"
    let ?w4 = "snd (activate X rr cc ?w3)"
    have "kind_at ?w3 q = kind_at w2 q" if "q \<in> sn_path ` set S \<or> snap_file q" for q
      using that snap_path_plain [of q c w] snap_not_profile [of q] frame_look [OF invalidate_frame [of w2], of q]
      by (auto simp: P kind_at_def)
    then have p3: "pending w S ?w3" using pending_kinds [OF pd(1)] frame_fault [OF invalidate_frame] by blast
    have p4: "pending w S ?w4" using k(2) by (intro pending_kinds [OF p3]) (auto simp: keeps_kinds_def P)
    have "w' = cleanupSnapshots S (if rr then snd (restart X (restoreSnapshots S ?w4)) else restoreSnapshots S ?w4)"
      using assms(2,3) Inr unfolding commit_def S Let_def prod.case r sum.case
      by (auto simp: case_prod_beta split: if_splits)
    moreover have "kind_at (snd (restart X v)) p = kind_at v p" for v using k(1) assms(4) by (simp add: keeps_kinds_def)
    ultimately show ?thesis using cleanup_kind [OF p4 s(1)] pending_restored [OF p4 s(1)] s(2) by (cases rr) simp_all
  qed
qed


definition sample_template :: path where
  "sample_template = [''etc'', ''openvpn'', ''server'', ''client-common.txt'']"

definition sample_failing :: world where
  "sample_failing = sample_world
     [root_dir [''etc''], root_dir [''etc'', ''openvpn''], root_dir [''etc'', ''openvpn'', ''server''],
      root_dir [''var''], root_dir [''var'', ''lib''], root_dir [''var'', ''lib'', ''ovnode''],
      root_file [''etc'', ''openvpn'', ''server'', ''server.conf''] (''port 1194'' @ [NL] @ ''proto tcp'' @ [NL]),
      root_file sample_template (''proto tcp'' @ [NL] @ ''remote vpn.example.org 1194'')]
     \<lparr>w_fault := (\<lambda>op q. op = OpRename \<and> q = sample_template)\<rparr>"

definition sample_push :: ChangeConfigRequest where
  "sample_push = \<lparr>rq_port = AFloat 1195, rq_proto = ''udp'', rq_tunnel = [], rq_dns1 = None, rq_dns2 = None,
     rq_ipv6 = None, rq_prefix = None, rq_extra = ANil\<rparr>"

lemma sample_failing_ready:
  assumes "ch_dns1 c = None" "ch_dns2 c = None" "ch_ipv6 c = None" "ch_extra c = None"
  shows "change_ready sample_outside c sample_failing"
proof -
  let ?w = sample_failing
  have p: "settingFile ?w = [''etc'', ''openvpn'', ''server'', ''server.conf'']" "templateFile ?w = sample_template"
    "OVNodeDir ?w = [''var'', ''lib'', ''ovnode'']" "natConfigPath ?w = [''etc'', ''default'', ''ovnode-nat'']"
    by code_simp+
  have s: "snap_paths c ?w = [[''etc'', ''openvpn'', ''server'', ''server.conf''], sample_template]"
    using assms by (simp add: snap_paths_def dns_given_def p)
  have f: "fault ?w op q \<longleftrightarrow> op = OpRename \<and> q = sample_template" for op q by (simp add: sample_failing_def)
  have "dir_ready ?w [''var'', ''lib'', ''ovnode'']" by code_simp
  then have "apply_ready sample_outside ?w"
    using f by (auto simp: apply_ready_def p change_files_def DNSStatePath_def IPv6StatePath_def PortsStatePath_def statePath_def
        sample_template_def sample_outside_def scratch_def prefix_Cons)
  moreover have "plain ?w [''etc'', ''openvpn'', ''server'', ''server.conf'']" "plain ?w sample_template" by code_simp+
  moreover have "(case look ?w [''etc'', ''openvpn'', ''server''] of Some dn \<Rightarrow> is_dir dn | None \<Rightarrow> False)" by code_simp
  then have "\<exists>dn. look ?w [''etc'', ''openvpn'', ''server''] = Some dn \<and> is_dir dn" by (auto split: option.splits)
  moreover have "keeps_kinds P (\<lambda>v. snd (o_fix sample_outside v))" "keeps_kinds P (o_secret sample_outside)" for P
    by (simp_all add: keeps_kinds_def sample_outside_def)
  ultimately show ?thesis
    by (auto simp: change_ready_def s p f sync_rename_faults_def snap_file_def prefix_Cons sample_template_def)
qed


end
