(* ===== verification/Certindex.thy ===== *)
theory Certindex
  imports Fsx
begin

text \<open>
  The certificate index of \<open>src/internal/pki/ca.go\<close> as text: the rows of \<open>index.txt\<close> in the format
  of \<open>openssl ca\<close>, their hexadecimal serials, their dates, and the revocation entry of a row.
  \<^item> package \<open>time\<close>: \<open>Parse\<close> for the two layouts the index uses and \<open>Format\<close> for the one it
    writes, over seconds since 1970 (a fraction of a second in a parsed date is dropped, as the
    encoding of a revocation list drops it);
  \<^item> package \<open>math/big\<close>: \<open>SetString(_, 16)\<close> and \<open>%X\<close>; a number stands for its \<open>Text(16)\<close> key;
  \<^item> \<open>hexNumber\<close>, \<open>indexTime\<close>, \<open>indexRevocation\<close>, \<open>parseIndex\<close>, the body of \<open>writeIndex\<close>, the
    line of \<open>appendIndex\<close>, \<open>indexHasCN\<close>.
  Shown here: printing and reading numbers and dates, that an accepted index has distinct serials
  and well-formed rows, that a written index reads back as the rows it was written from, and that
  the parser accepts the line the node appends, whatever the clock says.
\<close>

section \<open>Hexadecimal numbers\<close>

definition is_hex :: "char \<Rightarrow> bool" where
  "is_hex c \<longleftrightarrow> is_digit c \<or> 65 \<le> byte c \<and> byte c \<le> 70 \<or> 97 \<le> byte c \<and> byte c \<le> 102"

definition hexit :: "char \<Rightarrow> int" where
  "hexit c = int (if is_digit c then byte c - 48 else if byte c \<le> 70 then byte c - 55 else byte c - 87)"

definition hex_digits_value :: "string \<Rightarrow> int" where
  "hex_digits_value s = foldl (\<lambda>a c. 16 * a + hexit c) 0 s"

text \<open>\<open>%X\<close> of a number that is not negative.\<close>

definition hex_upper :: "int \<Rightarrow> char" where
  "hex_upper d = char_of (nat (if d < 10 then 48 + d else 55 + d))"

function hexX :: "int \<Rightarrow> string" where
  "hexX n = (if n < 16 then [hex_upper n] else hexX (n div 16) @ [hex_upper (n mod 16)])"
  by pat_completeness auto
termination
  by (relation "measure nat") auto

declare hexX.simps [simp del]

definition hexNumber :: "string \<Rightarrow> int res" where
  "hexNumber v = (if v = [] then Inl (Err ''empty hexadecimal value'')
     else if \<not> list_all is_hex v then Inl (Err (''invalid hexadecimal value '' @ go_quote v))
     else Inr (hex_digits_value v))"

section \<open>Dates\<close>

text \<open>The calendar of package \<open>time\<close>: days are counted from 1 January of the year 1.\<close>

definition isLeap :: "int \<Rightarrow> bool" where
  "isLeap y \<longleftrightarrow> y mod 4 = 0 \<and> (y mod 100 \<noteq> 0 \<or> y mod 400 = 0)"

definition daysIn :: "int \<Rightarrow> int \<Rightarrow> int" where
  "daysIn m y = (if m = 2 then (if isLeap y then 29 else 28)
     else if m = 4 \<or> m = 6 \<or> m = 9 \<or> m = 11 then 30 else 31)"

definition daysBefore :: "int \<Rightarrow> int" where
  "daysBefore m = (if m \<le> 1 then 0 else if m = 2 then 31 else if m = 3 then 59 else if m = 4 then 90
     else if m = 5 then 120 else if m = 6 then 151 else if m = 7 then 181 else if m = 8 then 212
     else if m = 9 then 243 else if m = 10 then 273 else if m = 11 then 304 else if m = 12 then 334
     else 365)"

definition days_of_year :: "int \<Rightarrow> int" where
  "days_of_year y = 365 * (y - 1) + (y - 1) div 4 - (y - 1) div 100 + (y - 1) div 400"

definition Date :: "int \<Rightarrow> int \<Rightarrow> int \<Rightarrow> int \<Rightarrow> int \<Rightarrow> int \<Rightarrow> int" where
  "Date y m d h mi s =
     86400 * (days_of_year y + daysBefore m + (if isLeap y \<and> 3 \<le> m then 1 else 0) + d - 1 - 719162)
     + 3600 * h + 60 * mi + s"

text \<open>Year and day of the year of a day count.\<close>

definition year_yday :: "int \<Rightarrow> int \<times> int" where
  "year_yday days =
     (let n400 = days div 146097; d1 = days mod 146097;
          n100 = min 3 (d1 div 36524); d2 = d1 - 36524 * n100;
          n4 = d2 div 1461; d3 = d2 mod 1461;
          n1 = min 3 (d3 div 365); d4 = d3 - 365 * n1
      in (400 * n400 + 100 * n100 + 4 * n4 + n1 + 1, d4))"

definition month_day :: "bool \<Rightarrow> int \<Rightarrow> int \<times> int" where
  "month_day leap yday =
     (if leap \<and> yday = 59 then (2, 29)
      else let d = (if leap \<and> 59 < yday then yday - 1 else yday);
               m = d div 31 + 1;
               m' = (if daysBefore (m + 1) \<le> d then m + 1 else m)
           in (m', d - daysBefore m' + 1))"

definition dec_digit :: "int \<Rightarrow> char" where
  "dec_digit d = char_of (nat (48 + d))"

definition two :: "int \<Rightarrow> string" where
  "two n = [dec_digit (n div 10 mod 10), dec_digit (n mod 10)]"

text \<open>\<open>t.UTC().Format("060102150405Z")\<close>.\<close>

definition format_time :: "int \<Rightarrow> string" where
  "format_time t =
     (let (y, yd) = year_yday (t div 86400 + 719162); (m, d) = month_day (isLeap y) yd; s = t mod 86400
      in two (y mod 100) @ two m @ two d @ two (s div 3600) @ two (s mod 3600 div 60) @ two (s mod 60) @ ''Z'')"

text \<open>
  \<open>time.Parse\<close>. The pieces of a layout in their order: a two-digit year goes through the signed
  reader \<open>atoi\<close> and a year from 69 on is one of the twentieth century, the hour may have one
  digit, a fraction of a second is skipped although the layout has none.
\<close>

definition dval :: "char \<Rightarrow> int" where
  "dval c = int (byte c) - 48"

fun get2 :: "string \<Rightarrow> (int \<times> string) option" where
  "get2 (a # b # r) = (if is_digit a \<and> is_digit b then Some (10 * dval a + dval b, r) else None)"
| "get2 _ = None"

fun get12 :: "string \<Rightarrow> (int \<times> string) option" where
  "get12 (a # b # r) = (if \<not> is_digit a then None
     else if is_digit b then Some (10 * dval a + dval b, r) else Some (dval a, b # r))"
| "get12 [a] = (if is_digit a then Some (dval a, []) else None)"
| "get12 [] = None"

definition century :: "int \<Rightarrow> int" where
  "century y = (if 69 \<le> y then y + 1900 else y + 2000)"

fun year2 :: "string \<Rightarrow> (int \<times> string) option" where
  "year2 (a # b # r) =
     (if is_digit a \<and> is_digit b then Some (century (10 * dval a + dval b), r)
      else if a = CHR ''+'' \<and> is_digit b then Some (century (dval b), r)
      else if a = CHR ''-'' \<and> is_digit b then Some (century (- dval b), r)
      else None)"
| "year2 _ = None"

fun year4 :: "string \<Rightarrow> (int \<times> string) option" where
  "year4 (a # b # c # d # r) =
     (if is_digit a \<and> is_digit b \<and> is_digit c \<and> is_digit d
      then Some (1000 * dval a + 100 * dval b + 10 * dval c + dval d, r) else None)"
| "year4 _ = None"

fun skip_fraction :: "string \<Rightarrow> string" where
  "skip_fraction (p # a # r) = (if (p = CHR ''.'' \<or> p = CHR '','') \<and> is_digit a
     then dropWhile is_digit r else p # a # r)"
| "skip_fraction s = s"

definition in_range :: "int \<Rightarrow> int \<Rightarrow> (int \<times> string) option \<Rightarrow> (int \<times> string) option" where
  "in_range lo hi x = (case x of None \<Rightarrow> None | Some (n, r) \<Rightarrow> if lo \<le> n \<and> n \<le> hi then x else None)"

definition parse_time :: "(string \<Rightarrow> (int \<times> string) option) \<Rightarrow> string \<Rightarrow> int option" where
  "parse_time get_year v =
     (case get_year v of None \<Rightarrow> None | Some (y, v1) \<Rightarrow>
      case in_range 1 12 (get2 v1) of None \<Rightarrow> None | Some (m, v2) \<Rightarrow>
      case get2 v2 of None \<Rightarrow> None | Some (d, v3) \<Rightarrow>
      case in_range 0 23 (get12 v3) of None \<Rightarrow> None | Some (h, v4) \<Rightarrow>
      case in_range 0 59 (get2 v4) of None \<Rightarrow> None | Some (mi, v5) \<Rightarrow>
      case in_range 0 59 (get2 v5) of None \<Rightarrow> None | Some (s, v6) \<Rightarrow>
      if skip_fraction v6 = ''Z'' \<and> 1 \<le> d \<and> d \<le> daysIn m y then Some (Date y m d h mi s) else None)"

definition indexTime :: "string \<Rightarrow> int res" where
  "indexTime v = (case parse_time year2 v of
       Some t \<Rightarrow> Inr t
     | None \<Rightarrow> (case parse_time year4 v of
           Some t \<Rightarrow> Inr t
         | None \<Rightarrow> Inl (Err (''invalid certificate index time '' @ go_quote v))))"

section \<open>Rows\<close>

record rev_entry =
  re_serial :: int
  re_time :: int
  re_reason :: int

type_synonym row = "string list"

definition revocation_reasons :: "(string \<times> int) list" where
  "revocation_reasons = [([], 0), (''unspecified'', 0), (''keyCompromise'', 1), (''CACompromise'', 2),
     (''affiliationChanged'', 3), (''superseded'', 4), (''cessationOfOperation'', 5),
     (''certificateHold'', 6), (''privilegeWithdrawn'', 9), (''AACompromise'', 10)]"

definition indexRevocation :: "row \<Rightarrow> rev_entry res" where
  "indexRevocation row = (case hexNumber (row ! 3) of Inl e \<Rightarrow> Inl e | Inr serial \<Rightarrow>
     (case Cut (CHR '','') (row ! 2) of (date, reason, _) \<Rightarrow>
      case indexTime date of Inl e \<Rightarrow> Inl e | Inr at \<Rightarrow>
      case map_of revocation_reasons reason of
        None \<Rightarrow> Inl (Err (''unsupported certificate revocation reason '' @ go_quote reason))
      | Some code \<Rightarrow> Inr \<lparr>re_serial = serial, re_time = at, re_reason = code\<rparr>))"

definition row_shape :: "row \<Rightarrow> bool" where
  "row_shape f \<longleftrightarrow> length f = 6 \<and> f ! 5 \<noteq> [] \<and> (f ! 0 = ''V'' \<or> f ! 0 = ''R'' \<or> f ! 0 = ''E'')"

definition row_dates :: "row \<Rightarrow> unit res" where
  "row_dates f = (case indexTime (f ! 1) of Inl e \<Rightarrow> Inl e | Inr _ \<Rightarrow>
     if f ! 0 = ''R'' then (case indexRevocation f of Inl e \<Rightarrow> Inl e | Inr _ \<Rightarrow> Inr ())
     else if f ! 2 \<noteq> [] then Inl (Err (''unexpected revocation date on a '' @ f ! 0 @ '' index row''))
     else Inr ())"

fun index_rows :: "string list \<Rightarrow> int list \<Rightarrow> row list res" where
  "index_rows [] seen = Inr []"
| "index_rows (line # rest) seen =
     (if line = [] then index_rows rest seen
      else let f = Split TAB line in
      if \<not> row_shape f then Inl (Err (''malformed certificate index row '' @ go_quote line))
      else case hexNumber (f ! 3) of Inl e \<Rightarrow> Inl e | Inr serial \<Rightarrow>
      if serial \<in> set seen then Inl (Err (''duplicate certificate index serial '' @ f ! 3))
      else case row_dates f of Inl e \<Rightarrow> Inl e | Inr _ \<Rightarrow>
      case index_rows rest (serial # seen) of Inl e \<Rightarrow> Inl e | Inr rows \<Rightarrow> Inr (f # rows))"

definition parseIndex :: "string \<Rightarrow> row list res" where
  "parseIndex data = index_rows (Split NL data) []"

definition index_body :: "row list \<Rightarrow> string" where
  "index_body rows = concat (map (\<lambda>row. Join row [TAB] @ [NL]) rows)"

definition index_line :: "string \<Rightarrow> int \<Rightarrow> int \<Rightarrow> string" where
  "index_line cn serial notAfter =
     ''V'' @ [TAB] @ format_time notAfter @ [TAB, TAB] @ hexX serial @ [TAB] @ ''unknown'' @ [TAB] @ ''/CN='' @ cn @ [NL]"

definition indexHasCN :: "row \<Rightarrow> string \<Rightarrow> bool" where
  "indexHasCN row cn \<longleftrightarrow> (''CN='' @ cn) \<in> set (Split (CHR ''/'') (row ! 5))"

text \<open>The serial of a row whose serial field was accepted, and the row marked revoked.\<close>

definition row_serial :: "row \<Rightarrow> int" where
  "row_serial row = hex_digits_value (row ! 3)"

definition revoke_row :: "string \<Rightarrow> row \<Rightarrow> row" where
  "revoke_row now row = (if row ! 0 = ''R'' then row else row[0 := ''R'', 2 := now])"

section \<open>Printing and reading\<close>

lemma byte_char_of: "n < 256 \<Longrightarrow> byte (char_of n) = n"
  by (simp add: byte_def)

lemma hex_upper_ok: "0 \<le> d \<Longrightarrow> d < 16 \<Longrightarrow> is_hex (hex_upper d) \<and> hexit (hex_upper d) = d"
  by (auto simp: hex_upper_def is_hex_def hexit_def is_digit_def byte_char_of)

lemma hex_number_snoc: "hex_digits_value (s @ [c]) = 16 * hex_digits_value s + hexit c"
  by (simp add: hex_digits_value_def)

lemma hexX_ok: "0 \<le> n \<Longrightarrow> list_all is_hex (hexX n) \<and> hex_digits_value (hexX n) = n"
proof (induction n rule: hexX.induct)
  case (1 n)
  show ?case
  proof (cases "n < 16")
    case True
    with 1(2) show ?thesis using hex_upper_ok [of n]
      by (subst (1 2) hexX.simps) (simp add: hex_digits_value_def)
  next
    case False
    with 1 have "list_all is_hex (hexX (n div 16)) \<and> hex_digits_value (hexX (n div 16)) = n div 16" by simp
    moreover have "is_hex (hex_upper (n mod 16)) \<and> hexit (hex_upper (n mod 16)) = n mod 16"
      by (rule hex_upper_ok) auto
    ultimately show ?thesis using False
      by (subst (1 2) hexX.simps) (simp add: hex_number_snoc)
  qed
qed

lemma hexX_nonempty [simp]: "hexX n \<noteq> []"
  by (subst hexX.simps) simp

lemma hexNumber_hexX: "0 \<le> n \<Longrightarrow> hexNumber (hexX n) = Inr n"
  using hexX_ok [of n] by (simp add: hexNumber_def)

lemma foldl_hex_nonneg: "0 \<le> a \<Longrightarrow> (0::int) \<le> foldl (\<lambda>a c. 16 * a + hexit c) a s"
  by (induction s arbitrary: a) (auto simp: hexit_def)

lemma hexNumber_nonneg: "hexNumber s = Inr n \<Longrightarrow> 0 \<le> n"
  using foldl_hex_nonneg [of 0 s] by (auto simp: hexNumber_def hex_digits_value_def split: if_splits)

lemma hexNumber_value: "hexNumber s = Inr n \<Longrightarrow> n = hex_digits_value s"
  by (auto simp: hexNumber_def split: if_splits)

lemma is_hex_graph: "is_hex c \<Longrightarrow> is_graph c"
  by (auto simp: is_hex_def byte_class_defs)

lemma hexX_graph: "0 \<le> n \<Longrightarrow> c \<in> set (hexX n) \<Longrightarrow> is_graph c"
  using hexX_ok [of n] by (simp add: list_all_iff is_hex_graph)

lemma dec_digit_ok: "0 \<le> d \<Longrightarrow> d < 10 \<Longrightarrow> is_digit (dec_digit d) \<and> dval (dec_digit d) = d"
  by (auto simp: dec_digit_def is_digit_def dval_def byte_char_of nat_le_iff le_nat_iff)

lemma two_digits:
  assumes "0 \<le> n" and "n < 100"
  obtains a b where "two n = [a, b]" and "is_digit a" and "is_digit b" and "10 * dval a + dval b = n"
proof
  have t: "n div 10 mod 10 = n div 10" using assms by (intro mod_pos_pos_trivial) auto
  show "two n = [dec_digit (n div 10 mod 10), dec_digit (n mod 10)]" by (simp add: two_def)
  have q: "0 \<le> n div 10" "n div 10 < 10" using assms by auto
  show "is_digit (dec_digit (n div 10 mod 10))" using dec_digit_ok [OF q] t by simp
  show "is_digit (dec_digit (n mod 10))" by (simp add: dec_digit_ok)
  show "10 * dval (dec_digit (n div 10 mod 10)) + dval (dec_digit (n mod 10)) = n"
    using dec_digit_ok [OF q] dec_digit_ok [of "n mod 10"] t by simp
qed

lemma two_get: "0 \<le> n \<Longrightarrow> n < 100 \<Longrightarrow> get2 (two n @ r) = Some (n, r)"
  by (rule two_digits [of n]) auto

lemma two_get12: "0 \<le> n \<Longrightarrow> n < 100 \<Longrightarrow> get12 (two n @ r) = Some (n, r)"
  by (rule two_digits [of n]) auto

lemma two_year: "0 \<le> n \<Longrightarrow> n < 100 \<Longrightarrow> year2 (two n @ r) = Some (century n, r)"
  by (rule two_digits [of n]) auto

lemma two_graph: "c \<in> set (two n) \<Longrightarrow> is_digit c"
  using dec_digit_ok [of "n div 10 mod 10"] dec_digit_ok [of "n mod 10"] by (auto simp: two_def)

text \<open>Division with the quotient capped at 3: the last part of a cycle may be one longer.\<close>

lemma capped_quotient:
  fixes x k :: int
  assumes "0 < k" and "0 \<le> x" and "x \<le> 4 * k"
  shows "0 \<le> min 3 (x div k)" and "min 3 (x div k) \<le> 3" and "0 \<le> x - k * min 3 (x div k)"
    and "x - k * min 3 (x div k) \<le> k" and "min 3 (x div k) < 3 \<Longrightarrow> x - k * min 3 (x div k) < k"
proof -
  have q: "0 \<le> x div k" "k * (x div k) \<le> x" "x < k * (x div k) + k"
    using assms by (simp_all add: pos_imp_zdiv_nonneg_iff) (smt (verit) mult_div_mod_eq pos_mod_bound pos_mod_sign)+
  have m: "3 \<le> x div k \<Longrightarrow> k * 3 \<le> k * (x div k)" using assms(1) by simp
  show "0 \<le> min 3 (x div k)" "min 3 (x div k) \<le> 3" using q(1) by simp_all
  have "0 \<le> x - k * min 3 (x div k) \<and> x - k * min 3 (x div k) \<le> k \<and>
    (min 3 (x div k) < 3 \<longrightarrow> x - k * min 3 (x div k) < k)"
  proof (cases "3 \<le> x div k")
    case True
    with m q(2) have "k * 3 \<le> x" by linarith
    with True assms(3) show ?thesis by simp
  next
    case False
    with q(2,3) show ?thesis by (simp add: min_def)
  qed
  then show "0 \<le> x - k * min 3 (x div k)" "x - k * min 3 (x div k) \<le> k"
    "min 3 (x div k) < 3 \<Longrightarrow> x - k * min 3 (x div k) < k" by simp_all
qed

lemma year_yday_range:
  assumes "year_yday days = (y, d)"
  shows "0 \<le> d \<and> d \<le> (if isLeap y then 365 else 364)"
proof -
  define a where "a = days div 146097"
  define d1 where "d1 = days mod 146097"
  define b where "b = min 3 (d1 div 36524)"
  define d2 where "d2 = d1 - 36524 * b"
  define c where "c = d2 div 1461"
  define d3 where "d3 = d2 mod 1461"
  define e where "e = min 3 (d3 div 365)"
  have y: "y = 400 * a + 100 * b + 4 * c + e + 1" and d: "d = d3 - 365 * e"
    using assms unfolding year_yday_def Let_def prod.inject a_def [symmetric] d1_def [symmetric]
      b_def [symmetric] d2_def [symmetric] c_def [symmetric] d3_def [symmetric] e_def [symmetric]
    by (elim conjE, simp only:)+
  have d1: "0 \<le> d1" "d1 < 146097" by (simp_all add: d1_def)
  have b: "0 \<le> b" "b \<le> 3" "0 \<le> d2" "d2 \<le> 36524" "b < 3 \<Longrightarrow> d2 < 36524"
    using d1 capped_quotient [of 36524 d1] by (simp_all add: b_def d2_def)
  have c: "0 \<le> c" "c \<le> 24" "0 \<le> d3" "d3 \<le> 1460" "d2 = 1461 * c + d3"
    using b(3,4) unfolding c_def d3_def by simp_all
  have e: "0 \<le> e" "e \<le> 3" "0 \<le> d" "d \<le> 365" "e < 3 \<Longrightarrow> d \<le> 364"
    using c(3,4) capped_quotient [of 365 d3] by (simp_all add: d e_def)
  have "isLeap y" if "d = 365"
  proof -
    from that e have e3: "e = 3" by force
    with that d c(4) have "d3 = 1460" by simp
    with c(5) have "c = 24 \<Longrightarrow> d2 = 36524" by simp
    with b(2,5) have cb: "c = 24 \<Longrightarrow> b = 3" by force
    have y4: "y = 0 + 4 * (100 * a + 25 * b + c + 1)" "y = 4 * c + 4 + 100 * (4 * a + b)" using y e3 by simp_all
    have m4: "y mod 4 = 0" by (subst y4(1)) simp
    have m100: "y mod 100 = (4 * c + 4) mod 100" by (subst y4(2)) (rule mod_mult_self2)
    show ?thesis
    proof (cases "c = 24")
      case True
      with cb y e3 have "y = 400 * (a + 1)" by simp
      then show ?thesis by (simp add: isLeap_def)
    next
      case False
      with m100 c(1,2) have "y mod 100 \<noteq> 0" by simp
      with m4 show ?thesis by (simp add: isLeap_def)
    qed
  qed
  with e(3,4) show ?thesis by force
qed

lemma month_day_range:
  assumes "month_day leap yd = (m, d)" and "0 \<le> yd" and "yd \<le> (if leap then 365 else 364)"
    and "leap = isLeap y"
  shows "1 \<le> m \<and> m \<le> 12 \<and> 1 \<le> d \<and> d \<le> daysIn m y"
proof (cases "leap \<and> yd = 59")
  case True
  with assms show ?thesis by (auto simp: month_day_def daysIn_def)
next
  case False
  define x where "x = (if leap \<and> 59 < yd then yd - 1 else yd)"
  have x: "0 \<le> x" "x \<le> 364" using assms(2,3) False by (auto simp: x_def split: if_splits)
  define k where "k = x div 31"
  have k: "0 \<le> k" "k \<le> 11" "31 * k \<le> x" "x < 31 * k + 31"
    using x by (auto simp: k_def)
  have md: "m = (if daysBefore (k + 2) \<le> x then k + 2 else k + 1)" "d = x - daysBefore m + 1"
    using assms(1) False by (auto simp: month_day_def Let_def x_def k_def add.commute [of 2] split: if_splits)
  from k(1,2) have "k \<in> {0, 1, 2, 3, 4, 5, 6, 7, 8, 9, 10, 11}" by simp presburger
  then show ?thesis using k(3,4) x md
    by (elim insertE) (auto simp: daysBefore_def daysIn_def split: if_splits)
qed

lemma daysIn_century: "daysIn m y \<le> daysIn m (century (y mod 100))"
proof -
  have "isLeap (century (y mod 100))" if "isLeap y"
  proof -
    define r where "r = y mod 100"
    have "r mod 4 = y mod 4" by (simp add: r_def mod_mod_cancel)
    moreover have "0 \<le> r" "r < 100" by (simp_all add: r_def)
    ultimately have r: "r mod 4 = 0" "0 \<le> r" "r < 100" using that by (simp_all add: isLeap_def)
    have "(r + 1900) mod 4 = r mod 4" "(r + 2000) mod 4 = r mod 4"
      using mod_mult_self2 [of r 4 475] mod_mult_self2 [of r 4 500] by simp_all
    then have c4: "century r mod 4 = 0" using r(1) by (simp add: century_def)
    have "(r + 1900) mod 100 = r mod 100" "(r + 2000) mod 100 = r mod 100"
      using mod_mult_self2 [of r 100 19] mod_mult_self2 [of r 100 20] by simp_all
    then have "century r mod 100 = r" using r(2,3) by (simp add: century_def)
    then have "r \<noteq> 0 \<Longrightarrow> isLeap (century r)" using c4 by (simp add: isLeap_def)
    moreover have "isLeap (century 0)" by (simp add: isLeap_def century_def)
    ultimately show ?thesis unfolding r_def [symmetric] by (cases "r = 0") simp_all
  qed
  then show ?thesis by (auto simp: daysIn_def)
qed

lemma sixty: "(s :: int) mod 3600 div 60 \<le> 59" "(s :: int) mod 60 \<le> 59"
proof -
  have "s mod 3600 < 3600" "s mod 60 < 60" by simp_all
  then show "s mod 3600 div 60 \<le> 59" "s mod 60 \<le> 59" by linarith+
qed

lemma parse_time_two:
  assumes "0 \<le> yy" "yy < 100" "1 \<le> m" "m \<le> 12" "1 \<le> d" "d \<le> daysIn m (century yy)"
    "0 \<le> h" "h \<le> 23" "0 \<le> mi" "mi \<le> 59" "0 \<le> s" "s \<le> 59"
  shows "parse_time year2 (two yy @ two m @ two d @ two h @ two mi @ two s @ ''Z'')
    = Some (Date (century yy) m d h mi s)"
proof -
  have "daysIn m (century yy) \<le> 31" by (simp add: daysIn_def)
  with assms show ?thesis by (simp add: parse_time_def two_get two_get12 two_year in_range_def)
qed

lemma indexTime_format: "\<exists>t'. indexTime (format_time t) = Inr t'"
proof -
  obtain y yd where y: "year_yday (t div 86400 + 719162) = (y, yd)" by fastforce
  obtain m d where m: "month_day (isLeap y) yd = (m, d)" by fastforce
  have "1 \<le> m \<and> m \<le> 12 \<and> 1 \<le> d \<and> d \<le> daysIn m y"
    using year_yday_range [OF y] by (intro month_day_range [OF m]) auto
  then have r: "1 \<le> m" "m \<le> 12" "1 \<le> d" and "d \<le> daysIn m y" by blast+
  then have d: "d \<le> daysIn m (century (y mod 100))" using daysIn_century [of m y] by linarith
  define s where "s = t mod 86400"
  have s: "0 \<le> s" "s \<le> 86399" by (simp_all add: s_def)
  have h: "0 \<le> s div 3600" "s div 3600 \<le> 23" using s(1) zdiv_mono1 [OF s(2), of 3600] by simp_all
  have n: "0 \<le> s mod 3600 div 60" "0 \<le> s mod 60" "0 \<le> y mod 100" "y mod 100 < 100"
    by (simp_all add: pos_imp_zdiv_nonneg_iff)
  have "parse_time year2 (format_time t) = Some (Date (century (y mod 100)) m d (s div 3600) (s mod 3600 div 60) (s mod 60))"
    unfolding format_time_def Let_def y m prod.case s_def [symmetric]
    by (intro parse_time_two r d h n sixty)
  then show ?thesis by (simp add: indexTime_def)
qed

lemma format_time_chars: "c \<in> set (format_time t) \<Longrightarrow> is_digit c \<or> c = CHR ''Z''"
  using two_graph unfolding format_time_def Let_def case_prod_beta by auto

lemma format_time_graph: "c \<in> set (format_time t) \<Longrightarrow> is_graph c"
  using format_time_chars [of c t] by (auto simp: byte_class_defs)

lemma format_time_no_comma: "CHR '','' \<notin> set (format_time t)"
  using format_time_chars [of "CHR '',''" t] by (auto simp: byte_class_defs)

section \<open>Accepted rows\<close>

text \<open>What the parser promises of every row it returns, and of the index as a whole.\<close>

definition row_ok :: "row \<Rightarrow> bool" where
  "row_ok f \<longleftrightarrow> row_shape f \<and> hexNumber (f ! 3) = Inr (row_serial f) \<and> row_dates f = Inr ()
     \<and> (\<forall>x \<in> set f. TAB \<notin> set x \<and> NL \<notin> set x)"

definition index_ok :: "row list \<Rightarrow> bool" where
  "index_ok rows \<longleftrightarrow> list_all row_ok rows \<and> distinct (map row_serial rows)"

lemma Split_sep_append: "Split sep (s @ sep # t) = Split sep s @ Split sep t"
proof (induction s rule: Split.induct)
  case (1 sep)
  show ?case by simp
next
  case (2 sep c cs)
  show ?case
  proof (cases "c = sep")
    case True
    with 2 show ?thesis by simp
  next
    case False
    then show ?thesis using 2 by (cases "Split sep cs") simp_all
  qed
qed

lemma Split_subset: "p \<in> set (Split sep s) \<Longrightarrow> set p \<subseteq> set s"
proof (induction s arbitrary: p)
  case (Cons c s)
  then show ?case by (cases "Split sep s") (fastforce split: if_splits)+
qed simp

lemma parse_rows_seen:
  "set seen = set seen' \<Longrightarrow> index_rows ls seen = index_rows ls seen'"
proof (induction ls seen arbitrary: seen' rule: index_rows.induct)
  case (2 line rest seen)
  let ?f = "Split TAB line"
  show ?case
  proof (cases "line = [] \<or> \<not> row_shape ?f \<or> (\<exists>e. hexNumber (?f ! 3) = Inl e)")
    case True
    with 2 show ?thesis by (auto simp: Let_def)
  next
    case False
    then obtain n where n: "line \<noteq> []" "row_shape ?f" "hexNumber (?f ! 3) = Inr n"
      by (metis sum.exhaust)
    show ?thesis
    proof (cases "n \<in> set seen \<or> (\<exists>e. row_dates ?f = Inl e)")
      case True
      with n 2(3) show ?thesis by (auto simp: Let_def)
    next
      case False
      then have "n \<notin> set seen" "row_dates ?f = Inr ()" by (metis old.unit.exhaust sum.exhaust)+
      moreover have "index_rows rest (n # seen) = index_rows rest (n # seen')"
        using 2(2) [of ?f n "()"] n calculation 2(3) by simp
      ultimately show ?thesis using n 2(3) by (simp add: Let_def)
    qed
  qed
qed simp

lemma parse_rows_row:
  "row_ok f \<Longrightarrow> row_serial f \<notin> set seen \<Longrightarrow> line \<noteq> [] \<Longrightarrow> Split TAB line = f \<Longrightarrow>
   index_rows (line # rest) seen =
     (case index_rows rest (row_serial f # seen) of Inl e \<Rightarrow> Inl e | Inr rows \<Rightarrow> Inr (f # rows))"
  by (simp add: row_ok_def Let_def)

lemma parse_rows_cons:
  assumes "index_rows (line # rest) seen = Inr rows" and "line \<noteq> []" and "NL \<notin> set line"
  obtains rows' where "rows = Split TAB line # rows'" and "row_ok (Split TAB line)"
    and "row_serial (Split TAB line) \<notin> set seen"
    and "index_rows rest (row_serial (Split TAB line) # seen) = Inr rows'"
proof -
  let ?f = "Split TAB line"
  from assms(1,2) obtain n rows' where a: "row_shape ?f" "hexNumber (?f ! 3) = Inr n" "n \<notin> set seen"
    "row_dates ?f = Inr ()" "index_rows rest (n # seen) = Inr rows'" "rows = ?f # rows'"
    by (auto simp: Let_def split: if_splits sum.splits)
  moreover have n: "n = row_serial ?f" using a(2) by (simp add: row_serial_def hexNumber_value)
  moreover have "\<forall>x \<in> set ?f. TAB \<notin> set x \<and> NL \<notin> set x"
    using Split_pieces Split_subset assms(3) by fast
  ultimately show thesis using that by (simp add: row_ok_def)
qed

lemma parse_rows_ok:
  "index_rows ls seen = Inr rows \<Longrightarrow> (\<And>l. l \<in> set ls \<Longrightarrow> NL \<notin> set l) \<Longrightarrow>
   index_ok rows \<and> set (map row_serial rows) \<inter> set seen = {}"
proof (induction ls arbitrary: seen rows)
  case Nil
  then show ?case by (simp add: index_ok_def)
next
  case (Cons line ls)
  show ?case
  proof (cases "line = []")
    case True
    with Cons show ?thesis by simp
  next
    case False
    have "NL \<notin> set line" using Cons.prems(2) by simp
    from parse_rows_cons [OF Cons.prems(1) False this] obtain rows' where
      r: "rows = Split TAB line # rows'" "row_ok (Split TAB line)" "row_serial (Split TAB line) \<notin> set seen"
        "index_rows ls (row_serial (Split TAB line) # seen) = Inr rows'" by blast
    from Cons.IH [OF r(4)] Cons.prems(2) show ?thesis using r(1-3)
      by (simp add: index_ok_def)
  qed
qed

lemma parseIndex_ok: "parseIndex data = Inr rows \<Longrightarrow> index_ok rows"
  using parse_rows_ok Split_pieces unfolding parseIndex_def by blast

lemma parse_rows_append:
  assumes "\<And>l. l \<in> set ls \<Longrightarrow> NL \<notin> set l" and "index_rows ls seen = Inr rows"
  shows "index_rows (ls @ ms) seen = (case index_rows ms (map row_serial rows @ seen) of
      Inl e \<Rightarrow> Inl e | Inr rows' \<Rightarrow> Inr (rows @ rows'))"
  using assms
proof (induction ls arbitrary: seen rows)
  case Nil
  then show ?case by (simp split: sum.splits)
next
  case (Cons line ls)
  show ?case
  proof (cases "line = []")
    case True
    with Cons show ?thesis by simp
  next
    case False
    let ?f = "Split TAB line"
    have "NL \<notin> set line" using Cons.prems(1) by simp
    from parse_rows_cons [OF Cons.prems(2) False this] obtain rows' where
      r: "rows = ?f # rows'" "row_ok ?f" "row_serial ?f \<notin> set seen"
        "index_rows ls (row_serial ?f # seen) = Inr rows'" by blast
    have "index_rows ms (map row_serial rows' @ row_serial ?f # seen) = index_rows ms (row_serial ?f # map row_serial rows' @ seen)"
      by (rule parse_rows_seen) simp
    with Cons.IH [OF _ r(4)] Cons.prems(1) show ?thesis
      using parse_rows_row [OF r(2,3) False refl] r(1) by (simp split: sum.splits)
  qed
qed

lemma index_rows_error: "index_rows ls seen = Inl e \<Longrightarrow> index_rows (ls @ ms) seen = Inl e"
  by (induction ls seen rule: index_rows.induct) (auto simp: Let_def split: if_splits sum.splits)

lemma row_ok_line:
  assumes "row_ok f"
  shows "Split TAB (Join f [TAB]) = f" and "Join f [TAB] \<noteq> []" and "NL \<notin> set (Join f [TAB])"
proof -
  have f: "f \<noteq> []" "\<And>x. x \<in> set f \<Longrightarrow> TAB \<notin> set x \<and> NL \<notin> set x" "f ! 0 \<noteq> []" "length f = 6"
    using assms by (auto simp: row_ok_def row_shape_def)
  then show s: "Split TAB (Join f [TAB]) = f" by (intro Split_Join) auto
  show "Join f [TAB] \<noteq> []"
  proof
    assume "Join f [TAB] = []"
    with s have "f = [[]]" by simp
    with f(3) show False by simp
  qed
  show "NL \<notin> set (Join f [TAB])" using Join_set [of NL f "[TAB]"] f(2) by auto
qed

lemma parse_index_lines:
  "list_all row_ok rows \<Longrightarrow> distinct (map row_serial rows) \<Longrightarrow> set (map row_serial rows) \<inter> set seen = {} \<Longrightarrow>
   index_rows (map (\<lambda>r. Join r [TAB]) rows @ [[]]) seen = Inr rows"
proof (induction rows arbitrary: seen)
  case (Cons f rows)
  then have f: "row_ok f" "row_serial f \<notin> set seen" by simp_all
  have "index_rows (map (\<lambda>r. Join r [TAB]) rows @ [[]]) (row_serial f # seen) = Inr rows"
    using Cons by auto
  then show ?case using parse_rows_row [OF f row_ok_line(2,1) [OF f(1)]] by simp
qed simp

lemma parseIndex_body: "index_ok rows \<Longrightarrow> parseIndex (index_body rows) = Inr rows"
proof -
  assume ok: "index_ok rows"
  have "index_body rows = concat (map (\<lambda>l. l @ [NL]) (map (\<lambda>r. Join r [TAB]) rows))"
    by (simp add: index_body_def comp_def)
  moreover have "NL \<notin> set l" if "l \<in> set (map (\<lambda>r. Join r [TAB]) rows)" for l
    using that ok row_ok_line(3) by (auto simp: index_ok_def list_all_iff)
  ultimately have "Split NL (index_body rows) = map (\<lambda>r. Join r [TAB]) rows @ [[]]"
    using Split_lines [of "map (\<lambda>r. Join r [TAB]) rows" NL] by simp
  then show ?thesis using ok parse_index_lines [of rows "[]"] by (simp add: parseIndex_def index_ok_def)
qed

text \<open>The line the node appends is a row the parser accepts.\<close>

definition new_row :: "string \<Rightarrow> int \<Rightarrow> int \<Rightarrow> row" where
  "new_row cn serial notAfter = [''V'', format_time notAfter, [], hexX serial, ''unknown'', ''/CN='' @ cn]"

lemma new_row_ok:
  assumes "0 \<le> serial" and "list_all is_graph cn"
  shows "row_ok (new_row cn serial notAfter)" and "row_serial (new_row cn serial notAfter) = serial"
proof -
  have g: "\<not> is_graph TAB" "\<not> is_graph NL" by code_simp+
  then have "TAB \<notin> set x \<and> NL \<notin> set x" if "x \<in> {format_time notAfter, hexX serial, cn}" for x
    using that format_time_graph hexX_graph [OF assms(1)] assms(2) by (auto simp: list_all_iff)
  then show "row_ok (new_row cn serial notAfter)" "row_serial (new_row cn serial notAfter) = serial"
    using indexTime_format [of notAfter] hexX_ok [OF assms(1)] hexNumber_hexX [OF assms(1)]
    by (auto simp: row_ok_def row_shape_def row_dates_def new_row_def row_serial_def)
qed

lemma index_line_row: "index_line cn serial notAfter = Join (new_row cn serial notAfter) [TAB] @ [NL]"
  by (simp add: index_line_def new_row_def)

text \<open>The text of the index with a line added, as \<open>appendIndex\<close> builds it.\<close>

definition index_add :: "string \<Rightarrow> string \<Rightarrow> string" where
  "index_add data line = (if data \<noteq> [] \<and> last data \<noteq> NL then data @ [NL] @ line else data @ line)"

lemma parseIndex_add:
  assumes "parseIndex data = Inr rows" and "row_ok f" and "row_serial f \<notin> set (map row_serial rows)"
  shows "parseIndex (index_add data (Join f [TAB] @ [NL])) = Inr (rows @ [f])"
proof -
  let ?l = "Join f [TAB]"
  have lines: "Split NL (?l @ [NL]) = [?l, []]"
    using row_ok_line(3) [OF assms(2)] by (simp add: Split_append_sep)
  have tail: "index_rows [?l, []] (map row_serial rows @ []) = Inr [f]"
    using parse_rows_row [OF assms(2) _ row_ok_line(2,1) [OF assms(2)], of "map row_serial rows"] assms(3) by simp
  obtain ls where ls: "Split NL (index_add data (?l @ [NL])) = ls @ [?l, []]"
    and r: "index_rows ls [] = Inr rows" and n: "\<And>l. l \<in> set ls \<Longrightarrow> NL \<notin> set l"
  proof (cases "data \<noteq> [] \<and> last data \<noteq> NL")
    case True
    show thesis
      by (rule that [of "Split NL data"])
        (use True assms(1) lines Split_pieces in \<open>simp_all add: index_add_def parseIndex_def Split_sep_append\<close>)
  next
    case False
    show thesis
    proof (cases "data = []")
      case True
      show thesis by (rule that [of "[]"]) (use True assms(1) lines in \<open>simp_all add: index_add_def parseIndex_def\<close>)
    next
      case nonempty: False
      with False obtain d where d: "data = d @ [NL]" by (metis append_butlast_last_id)
      have nd: "\<And>l. l \<in> set (Split NL d) \<Longrightarrow> NL \<notin> set l" using Split_pieces by fast
      have "Split NL data = Split NL d @ [[]]" using d Split_sep_append [of NL d "[]"] by simp
      then have p: "index_rows (Split NL d @ [[]]) [] = Inr rows" using assms(1) by (simp add: parseIndex_def)
      have "index_rows (Split NL d) [] = Inr rows"
      proof (cases "index_rows (Split NL d) []")
        case (Inr rs)
        with p parse_rows_append [OF nd Inr, of "[[]]"] show ?thesis by simp
      next
        case (Inl e)
        with p index_rows_error [OF Inl, of "[[]]"] show ?thesis by simp
      qed
      then show thesis
        using that [of "Split NL d"] nd lines False d Split_sep_append [of NL d "?l @ [NL]"]
        by (simp add: index_add_def)
    qed
  qed
  show ?thesis unfolding parseIndex_def ls using parse_rows_append [OF n r, of "[?l, []]"] tail by simp
qed

text \<open>Marking rows revoked keeps the index well formed.\<close>

lemma revoke_row_ok:
  assumes "row_ok f"
  shows "row_ok (revoke_row (format_time t) f)" and "row_serial (revoke_row (format_time t) f) = row_serial f"
    and "revoke_row (format_time t) f ! 0 = ''R''" and "revoke_row (format_time t) f ! 5 = f ! 5"
proof -
  have f: "length f = 6" using assms by (simp add: row_ok_def row_shape_def)
  then obtain a b c d e g where abc: "f = [a, b, c, d, e, g]"
    by (auto simp: numeral_eq_Suc length_Suc_conv)
  show "row_serial (revoke_row (format_time t) f) = row_serial f"
    "revoke_row (format_time t) f ! 0 = ''R''" "revoke_row (format_time t) f ! 5 = f ! 5"
    by (simp_all add: revoke_row_def row_serial_def abc)
  have no: "\<not> is_graph TAB" "\<not> is_graph NL" by code_simp+
  then have ft: "TAB \<notin> set (format_time t)" "NL \<notin> set (format_time t)" using format_time_graph by blast+
  obtain t' where t': "indexTime (format_time t) = Inr t'" using indexTime_format by blast
  obtain x where x: "indexTime b = Inr x" using assms by (auto simp: row_ok_def row_dates_def abc split: sum.splits)
  have "map_of revocation_reasons [] = Some 0" by (simp add: revocation_reasons_def)
  then have "row_dates [''R'', b, format_time t, d, e, g] = Inr ()"
    using assms x t' Cut_none [OF format_time_no_comma] by (simp add: row_ok_def row_dates_def indexRevocation_def abc)
  then have "row_ok [''R'', b, format_time t, d, e, g]"
    using assms ft by (auto simp: row_ok_def row_shape_def row_serial_def abc)
  with assms show "row_ok (revoke_row (format_time t) f)" by (auto simp: revoke_row_def abc)
qed

end
