(* ===== verification/Pki.thy ===== *)
theory Pki
  imports Settings UserStore Certindex
begin

text \<open>
  The certificate authority of \<open>src/internal/pki\<close>: loading the CA, serial numbers, the index file,
  issuing, revoking, the revocation list (\<open>ca.go\<close>, \<open>client.go\<close>, the revocation list part of
  \<open>certs.go\<close>) and the checks of pushed material (\<open>validate.go\<close>).

  The cryptography of Go's standard library is the record \<open>crypto\<close>, an argument of the
  definitions that use it: PEM and DER coding, signatures, key pairs. A certificate, a key and a
  revocation list are the fields the node reads of them, with the encoded form. What the
  theorems assume of it is \<open>crypto_laws\<close>: decoding gives back what was encoded.
\<close>

section \<open>Cryptography of the standard library\<close>

record cert =
  ct_serial :: int
  ct_cn :: string
  ct_notBefore :: int
  ct_notAfter :: int
  ct_isCA :: bool
  ct_keyUsage :: "string list"
  ct_extKeyUsage :: "string list"
  ct_dnsNames :: "string list"
  ct_ips :: "string list"
  ct_raw :: string

record pkey =
  pk_ecdsa :: bool
  pk_raw :: string

record crl =
  cl_number :: "int option"
  cl_thisUpdate :: int
  cl_nextUpdate :: int
  cl_entries :: "rev_entry list"
  cl_raw :: string

type_synonym pem_block = "string \<times> string"

text \<open>
  The operations: \<open>pem.Decode\<close> (block and rest) and \<open>pem.EncodeToMemory\<close>, the parsers and
  constructors of \<open>crypto/x509\<close>, \<open>tls.X509KeyPair\<close> (the first certificate's DER and the key, when it
  is a signer), key generation on the curve of a certificate. Errors carry the library's text.
\<close>

record crypto =
  pem_Decode :: "string \<Rightarrow> (pem_block \<times> string) option"
  pem_Encode :: "pem_block \<Rightarrow> string"
  ParseCertificate :: "string \<Rightarrow> string + cert"
  CheckSignatureFrom :: "cert \<Rightarrow> cert \<Rightarrow> string + unit"
  ParseRevocationList :: "string \<Rightarrow> string + crl"
  CRL_CheckSignatureFrom :: "crl \<Rightarrow> cert \<Rightarrow> string + unit"
  CreateRevocationList :: "crl \<Rightarrow> cert \<Rightarrow> pkey \<Rightarrow> string + string"
  X509KeyPair :: "string \<Rightarrow> string \<Rightarrow> string + string \<times> pkey option"
  ParseECPrivateKey :: "string \<Rightarrow> string + pkey"
  ParsePKCS8PrivateKey :: "string \<Rightarrow> string + pkey"
  MarshalECPrivateKey :: "pkey \<Rightarrow> string + string"
  GenerateKey :: "world \<Rightarrow> cert \<Rightarrow> string + pkey"
  CreateCertificate :: "cert \<Rightarrow> cert \<Rightarrow> pkey \<Rightarrow> pkey \<Rightarrow> string + string"

fun lib :: "string + 'a \<Rightarrow> 'a res" where
  "lib (Inl m) = Inl (Err m)"
| "lib (Inr x) = Inr x"

definition wrap :: "string \<Rightarrow> 'a res \<Rightarrow> 'a res" where
  "wrap m r = (case r of Inl e \<Rightarrow> Inl (Err (m @ '': '' @ err_text e)) | Inr x \<Rightarrow> Inr x)"

section \<open>Checks of pushed material\<close>

definition maxPEMField :: int where "maxPEMField = 16 * 1024"

definition too_long :: "string \<Rightarrow> bool" where
  "too_long s \<longleftrightarrow> maxPEMField < int (length s)"

definition single_block :: "crypto \<Rightarrow> string \<Rightarrow> pem_block res" where
  "single_block C s =
     (let s = TrimSpace s in
      if s = [] then Inl (Err ''empty PEM'')
      else if too_long s then Inl (Err (''PEM exceeds '' @ Itoa maxPEMField @ '' bytes''))
      else case pem_Decode C s of
        None \<Rightarrow> Inl (Err ''invalid PEM'')
      | Some (block, rest) \<Rightarrow>
          if TrimSpace rest \<noteq> [] then Inl (Err ''trailing garbage in PEM'') else Inr block)"

definition CleanPEM :: "crypto \<Rightarrow> string \<Rightarrow> string res" where
  "CleanPEM C s = (case single_block C s of Inl e \<Rightarrow> Inl e | Inr b \<Rightarrow> Inr (pem_Encode C b))"

definition ensureSinglePEM :: "crypto \<Rightarrow> string \<Rightarrow> unit res" where
  "ensureSinglePEM C s = (case single_block C s of Inl e \<Rightarrow> Inl e | Inr _ \<Rightarrow> Inr ())"

definition parseCert :: "crypto \<Rightarrow> int \<Rightarrow> string \<Rightarrow> cert res" where
  "parseCert C now s =
     (let s = TrimSpace s in
      if s = [] then Inl (Err ''empty certificate'')
      else if too_long s then Inl (Err (''certificate exceeds '' @ Itoa maxPEMField @ '' bytes''))
      else case pem_Decode C s of
        None \<Rightarrow> Inl (Err ''invalid certificate PEM'')
      | Some ((type, bytes), rest) \<Rightarrow>
          if type \<noteq> ''CERTIFICATE'' then Inl (Err ''invalid certificate PEM'')
          else if TrimSpace rest \<noteq> [] then Inl (Err ''trailing garbage in certificate'')
          else case lib (ParseCertificate C bytes) of
            Inl e \<Rightarrow> Inl e
          | Inr cert \<Rightarrow>
              if now < ct_notBefore cert \<or> ct_notAfter cert < now
              then Inl (Err ''certificate expired or not yet valid'') else Inr cert)"

definition ValidateCA :: "crypto \<Rightarrow> int \<Rightarrow> string \<Rightarrow> cert res" where
  "ValidateCA C now s = (case parseCert C now s of Inl e \<Rightarrow> Inl e
     | Inr cert \<Rightarrow> if \<not> ct_isCA cert then Inl (Err ''certificate is not a CA'') else Inr cert)"

definition field_too_long :: err where
  "field_too_long = Err (''field exceeds '' @ Itoa maxPEMField @ '' bytes'')"

definition ValidateServerCert :: "crypto \<Rightarrow> int \<Rightarrow> string \<Rightarrow> string \<Rightarrow> string \<Rightarrow> unit res" where
  "ValidateServerCert C now caPEM certPEM keyPEM =
     (if too_long caPEM \<or> too_long certPEM \<or> too_long keyPEM then Inl field_too_long
      else case ValidateCA C now caPEM of Inl e \<Rightarrow> Inl e | Inr ca \<Rightarrow>
      case parseCert C now certPEM of Inl e \<Rightarrow> Inl e | Inr cert \<Rightarrow>
      case ensureSinglePEM C keyPEM of Inl e \<Rightarrow> Inl e | Inr _ \<Rightarrow>
      case wrap ''key does not match certificate'' (lib (X509KeyPair C certPEM keyPEM)) of Inl e \<Rightarrow> Inl e | Inr _ \<Rightarrow>
      wrap ''certificate does not chain to CA'' (lib (CheckSignatureFrom C cert ca)))"

definition ValidateClientCert :: "crypto \<Rightarrow> int \<Rightarrow> string \<Rightarrow> string \<Rightarrow> string \<Rightarrow> string \<Rightarrow> unit res" where
  "ValidateClientCert C now cn certPEM keyPEM caPEM =
     (if too_long certPEM \<or> too_long keyPEM \<or> too_long caPEM then Inl field_too_long
      else case parseCert C now certPEM of Inl e \<Rightarrow> Inl e | Inr cert \<Rightarrow>
      case ensureSinglePEM C keyPEM of Inl e \<Rightarrow> Inl e | Inr _ \<Rightarrow>
      if ct_cn cert \<noteq> cn
      then Inl (Err (''client certificate CN '' @ go_quote (ct_cn cert) @ '' does not match '' @ go_quote cn))
      else case wrap ''key does not match certificate'' (lib (X509KeyPair C certPEM keyPEM)) of Inl e \<Rightarrow> Inl e | Inr _ \<Rightarrow>
      if caPEM = [] then Inr ()
      else case ValidateCA C now caPEM of Inl e \<Rightarrow> Inl e | Inr ca \<Rightarrow>
      wrap ''certificate does not chain to CA'' (lib (CheckSignatureFrom C cert ca)))"

section \<open>The authority\<close>

definition pki_file :: "world \<Rightarrow> string \<Rightarrow> path" where
  "pki_file w n = PKIDir w @ [n]"

definition CAKey :: "world \<Rightarrow> path" where
  "CAKey w = PKIDir w @ [''private'', ''ca.key'']"

definition loadCASigner :: "crypto \<Rightarrow> world \<Rightarrow> (cert \<times> pkey) res" where
  "loadCASigner C w =
     (case os_ReadFile w (CACert w) of Inl e \<Rightarrow> Inl e | Inr certPEM \<Rightarrow>
      case os_ReadFile w (CAKey w) of Inl e \<Rightarrow> Inl e | Inr keyPEM \<Rightarrow>
      case lib (X509KeyPair C certPEM keyPEM) of Inl e \<Rightarrow> Inl e | Inr (der, key) \<Rightarrow>
      case lib (ParseCertificate C der) of Inl e \<Rightarrow> Inl e | Inr cert \<Rightarrow>
      case key of None \<Rightarrow> Inl (Err ''CA key cannot sign'') | Some k \<Rightarrow> Inr (cert, k))"

definition loadCA :: "crypto \<Rightarrow> world \<Rightarrow> (cert \<times> pkey) res" where
  "loadCA C w = (case loadCASigner C w of Inl e \<Rightarrow> Inl e | Inr (cert, key) \<Rightarrow>
      if pk_ecdsa key then Inr (cert, key) else Inl (Err ''CA key is not ECDSA''))"

definition nextSerial :: "int io" where
  "nextSerial w =
     (case os_ReadFile w (pki_file w ''serial'') of Inl e \<Rightarrow> (Inl e, w) | Inr data \<Rightarrow>
      case hexNumber (TrimSpace data) of Inl e \<Rightarrow> (Inl e, w) | Inr n \<Rightarrow>
      case WriteFileAtomic (pki_file w ''serial'') (hexX (n + 1) @ [NL]) perm_0644 w of
        (Inl e, w) \<Rightarrow> (Inl e, w)
      | (Inr _, w) \<Rightarrow> (Inr n, w))"

definition readIndex :: "world \<Rightarrow> row list res" where
  "readIndex w = (case os_ReadFile w (pki_file w ''index.txt'') of Inl e \<Rightarrow> Inl e | Inr data \<Rightarrow> parseIndex data)"

definition writeIndex :: "row list \<Rightarrow> unit io" where
  "writeIndex rows w = WriteFileAtomic (pki_file w ''index.txt'') (index_body rows) perm_0644 w"

definition appendIndex :: "string \<Rightarrow> int \<Rightarrow> int \<Rightarrow> unit io" where
  "appendIndex cn serial notAfter w =
     (case os_ReadFile w (pki_file w ''index.txt'') of Inl e \<Rightarrow> (Inl e, w) | Inr data \<Rightarrow>
      case parseIndex data of Inl e \<Rightarrow> (Inl e, w) | Inr rows \<Rightarrow>
      if serial \<in> set (map row_serial rows)
      then (Inl (Err (''certificate serial '' @ hexX serial @ '' already exists in the index'')), w)
      else WriteFileAtomic (pki_file w ''index.txt'') (index_add data (index_line cn serial notAfter)) perm_0644 w)"

definition readCRL :: "crypto \<Rightarrow> world \<Rightarrow> crl res" where
  "readCRL C w = (case os_ReadFile w (CRLFile w) of Inl e \<Rightarrow> Inl e | Inr data \<Rightarrow>
      let bad = Inl (Err (''invalid CRL PEM at '' @ path_text (CRLFile w))) in
      case pem_Decode C data of
        None \<Rightarrow> bad
      | Some ((type, bytes), rest) \<Rightarrow>
          if type \<noteq> ''X509 CRL'' \<or> TrimSpace rest \<noteq> [] then bad
          else lib (ParseRevocationList C bytes))"

text \<open>The entries of the new list: those of the previous one, then the revoked rows not yet in it.\<close>

fun revoked_entries :: "row list \<Rightarrow> rev_entry list \<Rightarrow> rev_entry list res" where
  "revoked_entries [] acc = Inr acc"
| "revoked_entries (row # rows) acc =
     (if row ! 0 \<noteq> ''R'' then revoked_entries rows acc
      else case indexRevocation row of Inl e \<Rightarrow> Inl e | Inr entry \<Rightarrow>
        if re_serial entry \<in> set (map re_serial acc) then revoked_entries rows acc
        else revoked_entries rows (acc @ [entry]))"

definition previous_crl :: "crypto \<Rightarrow> cert \<Rightarrow> world \<Rightarrow> crl option res" where
  "previous_crl C ca w = (case readCRL C w of
       Inr list \<Rightarrow> (case wrap ''existing CRL does not match the local CA'' (lib (CRL_CheckSignatureFrom C list ca)) of
           Inl e \<Rightarrow> Inl e | Inr _ \<Rightarrow> Inr (Some list))
     | Inl e \<Rightarrow> if e = NotExist then Inr None else Inl e)"

definition crl_number :: "crl option \<Rightarrow> world \<Rightarrow> int res" where
  "crl_number previous w =
     (case (case os_ReadFile w (pki_file w ''crlnumber'') of
              Inr data \<Rightarrow> wrap ''invalid CRL number'' (hexNumber (TrimSpace data))
            | Inl e \<Rightarrow> if e = NotExist then Inr 4096 else Inl e) of
        Inl e \<Rightarrow> Inl e
      | Inr n \<Rightarrow> (case previous of
            Some list \<Rightarrow> (case cl_number list of
                Some k \<Rightarrow> if n \<le> k then Inr (k + 1) else Inr n
              | None \<Rightarrow> Inr n)
          | None \<Rightarrow> Inr n))"

definition GenerateCRL :: "crypto \<Rightarrow> unit io" where
  "GenerateCRL C w =
     (case loadCASigner C w of Inl e \<Rightarrow> (Inl e, w) | Inr (ca, key) \<Rightarrow>
      case readIndex w of Inl e \<Rightarrow> (Inl e, w) | Inr rows \<Rightarrow>
      case previous_crl C ca w of Inl e \<Rightarrow> (Inl e, w) | Inr previous \<Rightarrow>
      case revoked_entries rows (case previous of Some list \<Rightarrow> cl_entries list | None \<Rightarrow> []) of
        Inl e \<Rightarrow> (Inl e, w)
      | Inr revoked \<Rightarrow>
      case crl_number previous w of Inl e \<Rightarrow> (Inl e, w) | Inr crlNum \<Rightarrow>
      case lib (CreateRevocationList C \<lparr>cl_number = Some crlNum, cl_thisUpdate = w_now w,
                  cl_nextUpdate = w_now w + 365 * 86400, cl_entries = revoked, cl_raw = []\<rparr> ca key) of
        Inl e \<Rightarrow> (Inl e, w)
      | Inr der \<Rightarrow>
      case WriteFileAtomic (pki_file w ''crlnumber'') (hexX (crlNum + 1) @ [NL]) perm_0644 w of
        (Inl e, w) \<Rightarrow> (Inl e, w)
      | (Inr _, w) \<Rightarrow>
      case WriteFileAtomic (CRLFile w) (pem_Encode C (''X509 CRL'', der)) perm_0644 w of
        (Inl e, w) \<Rightarrow> (Inl e, w)
      | (Inr _, w) \<Rightarrow> (sync_dir (PKIDir w) w, w))"

definition RevokeCert :: "crypto \<Rightarrow> string \<Rightarrow> unit io" where
  "RevokeCert C serialHex w =
     (case hexNumber serialHex of Inl e \<Rightarrow> (Inl e, w) | Inr serial \<Rightarrow>
      case readIndex w of Inl e \<Rightarrow> (Inl e, w) | Inr rows \<Rightarrow>
      if serial \<notin> set (map row_serial rows)
      then (Inl (Err (''certificate serial '' @ serialHex @ '' is not in the local index'')), w)
      else case writeIndex (map (\<lambda>row. if row_serial row = serial then revoke_row (format_time (w_now w)) row else row) rows) w of
        (Inl e, w) \<Rightarrow> (Inl e, w)
      | (Inr _, w) \<Rightarrow> GenerateCRL C w)"

section \<open>Client certificates\<close>

definition IssuedCertPath :: "world \<Rightarrow> string \<Rightarrow> path" where
  "IssuedCertPath w cn = PKIDir w @ [''issued'', cn @ ''.crt'']"

definition ClientKeyPath :: "world \<Rightarrow> string \<Rightarrow> path" where
  "ClientKeyPath w cn = PKIDir w @ [''private'', cn @ ''.key'']"

definition InlineBundlePath :: "world \<Rightarrow> string \<Rightarrow> path" where
  "InlineBundlePath w cn = PKIDir w @ [''inline'', ''private'', cn @ ''.inline'']"

text \<open>
  \<open>os.OpenFile\<close> with \<open>O_CREATE|O_RDWR\<close>: the last component may be a symbolic link, and the file it
  leads to is created when it is missing.
\<close>

fun link_target :: "nat \<Rightarrow> fs \<Rightarrow> path \<Rightarrow> path res" where
  "link_target 0 f p = Inl (Err ''too many levels of symbolic links'')"
| "link_target (Suc k) f p = (case fmlookup f p of
      None \<Rightarrow> Inr p
    | Some nd \<Rightarrow> (case n_kind nd of Link t \<Rightarrow> link_target k f t | _ \<Rightarrow> Inr p))"

definition open_create :: "path \<Rightarrow> perm \<Rightarrow> unit io" where
  "open_create p perm w =
     (if fault w OpOpen p then (Inl (Fault OpOpen), w)
      else case link_target max_links (w_fs w) p of
        Inl e \<Rightarrow> (Inl e, w)
      | Inr q \<Rightarrow> (case look w q of
            Some nd \<Rightarrow> if is_dir nd then (Inl (Err ''is a directory''), w) else (Inr (), w)
          | None \<Rightarrow> (case look w (butlast q) of
                Some d \<Rightarrow> if is_dir d then (Inr (), put q (new_file w (butlast q) perm []) w)
                           else (Inl (Err ''not a directory''), w)
              | None \<Rightarrow> (Inl NotExist, w))))"

definition lockPKI :: "unit io" where
  "lockPKI w = (case open_create (pki_file w ''.issue.lock'') perm_0600 w of
      (Inl e, w) \<Rightarrow> (Inl e, w)
    | (Inr _, w) \<Rightarrow> if fault w OpFlock (pki_file w ''.issue.lock'') then (Inl (Fault OpFlock), w) else (Inr (), w))"

definition WithPKILock :: "'a io \<Rightarrow> 'a io" where
  "WithPKILock fn w = (case lockPKI w of (Inl e, w) \<Rightarrow> (Inl e, w) | (Inr _, w) \<Rightarrow> fn w)"

definition existing_key :: "crypto \<Rightarrow> string \<Rightarrow> pkey res" where
  "existing_key C pem =
     (case pem_Decode C pem of
        None \<Rightarrow> Inl (Err ''invalid existing client key'')
      | Some ((type, bytes), rest) \<Rightarrow>
          if TrimSpace rest \<noteq> [] then Inl (Err ''invalid existing client key'')
          else case lib (if type = ''EC PRIVATE KEY'' then ParseECPrivateKey C bytes else ParsePKCS8PrivateKey C bytes) of
            Inl e \<Rightarrow> Inl e
          | Inr key \<Rightarrow> if pk_ecdsa key then Inr key else Inl (Err ''existing client key is not ECDSA''))"

definition client_template :: "string \<Rightarrow> int \<Rightarrow> int \<Rightarrow> cert" where
  "client_template cn serial now =
     \<lparr>ct_serial = serial, ct_cn = cn, ct_notBefore = now - 3600, ct_notAfter = now + 1825 * 86400,
      ct_isCA = False, ct_keyUsage = [''DigitalSignature''], ct_extKeyUsage = [''ClientAuth''],
      ct_dnsNames = [], ct_ips = [], ct_raw = []\<rparr>"

definition issueClientCert :: "crypto \<Rightarrow> string \<Rightarrow> string option \<Rightarrow> (string \<times> string) io" where
  "issueClientCert C cn existing w =
     (case loadCA C w of Inl e \<Rightarrow> (Inl e, w) | Inr (caCert, caKey) \<Rightarrow>
      case (case existing of Some pem \<Rightarrow> existing_key C pem | None \<Rightarrow> lib (GenerateKey C w caCert)) of
        Inl e \<Rightarrow> (Inl e, w)
      | Inr key \<Rightarrow>
      case nextSerial w of (Inl e, w) \<Rightarrow> (Inl e, w) | (Inr serial, w) \<Rightarrow>
      case lib (CreateCertificate C (client_template cn serial (w_now w)) caCert key caKey) of
        Inl e \<Rightarrow> (Inl e, w)
      | Inr der \<Rightarrow>
      case lib (MarshalECPrivateKey C key) of Inl e \<Rightarrow> (Inl e, w) | Inr keyDER \<Rightarrow>
      case appendIndex cn serial (w_now w + 1825 * 86400) w of
        (Inl e, w) \<Rightarrow> (Inl e, w)
      | (Inr _, w) \<Rightarrow>
          (Inr (pem_Encode C (''CERTIFICATE'', der),
                case existing of Some pem \<Rightarrow> pem | None \<Rightarrow> pem_Encode C (''EC PRIVATE KEY'', keyDER)), w))"

definition IssueClientCert :: "crypto \<Rightarrow> string \<Rightarrow> (string \<times> string) io" where
  "IssueClientCert C cn = issueClientCert C cn None"

definition inline_bundle :: "string \<Rightarrow> string \<Rightarrow> string \<Rightarrow> string \<Rightarrow> string" where
  "inline_bundle cn certPEM keyPEM caPEM =
     ''# OVNode inline bundle'' @ [NL] @ ''# commonName: '' @ cn @ [NL, NL]
     @ ''<cert>'' @ [NL] @ TrimSpace certPEM @ [NL] @ ''</cert>'' @ [NL, NL]
     @ ''<key>'' @ [NL] @ TrimSpace keyPEM @ [NL] @ ''</key>'' @ [NL, NL]
     @ ''<ca>'' @ [NL] @ TrimSpace caPEM @ [NL] @ ''</ca>'' @ [NL]"

fun mkdirs :: "path list \<Rightarrow> perm \<Rightarrow> unit io" where
  "mkdirs [] perm w = (Inr (), w)"
| "mkdirs (d # ds) perm w = (case os_MkdirAll d perm w of (Inl e, w) \<Rightarrow> (Inl e, w) | (Inr _, w) \<Rightarrow> mkdirs ds perm w)"

text \<open>The key a tree already has for a client; a certificate without its key is refused.\<close>

definition tree_key :: "string \<Rightarrow> world \<Rightarrow> string option res" where
  "tree_key cn w =
     (case os_ReadFile w (ClientKeyPath w cn) of
        Inr data \<Rightarrow> Inr (Some data)
      | Inl e \<Rightarrow> if e \<noteq> NotExist then Inl e
          else (case os_Lstat w (IssuedCertPath w cn) of
              Inr _ \<Rightarrow> Inl (Err (''existing certificate for '' @ go_quote cn @ '' has no private key''))
            | Inl e \<Rightarrow> if e \<noteq> NotExist then Inl e else Inr None))"

definition install_client :: "string \<Rightarrow> string option \<Rightarrow> string \<Rightarrow> string \<Rightarrow> string \<Rightarrow> (string \<times> string) io" where
  "install_client cn existing certPEM keyPEM caPEM w =
     (case mkdirs [PKIDir w @ [''issued''], PKIDir w @ [''private''], PKIDir w @ [''inline'', ''private'']] perm_0700 w of
        (Inl e, w) \<Rightarrow> (Inl e, w)
      | (Inr _, w) \<Rightarrow>
      case WriteFileAtomic (IssuedCertPath w cn) certPEM perm_0600 w of
        (Inl e, w) \<Rightarrow> (Inl e, w)
      | (Inr _, w) \<Rightarrow>
      case (if existing = None then WriteFileAtomic (ClientKeyPath w cn) keyPEM perm_0600 w else (Inr (), w)) of
        (Inl e, w) \<Rightarrow> (Inl e, w)
      | (Inr _, w) \<Rightarrow>
      case WriteFileAtomic (InlineBundlePath w cn) (inline_bundle cn certPEM keyPEM caPEM) perm_0600 w of
        (Inl e, w) \<Rightarrow> (Inl e, w)
      | (Inr _, w) \<Rightarrow> (Inr (certPEM, keyPEM), w))"

definition IssueClientCertToTree :: "crypto \<Rightarrow> string \<Rightarrow> (string \<times> string) io" where
  "IssueClientCertToTree C cn w =
     (case SafeCN cn of Inl e \<Rightarrow> (Inl e, w) | Inr _ \<Rightarrow>
      WithPKILock (\<lambda>w.
        case tree_key cn w of Inl e \<Rightarrow> (Inl e, w) | Inr existing \<Rightarrow>
        case issueClientCert C cn existing w of (Inl e, w) \<Rightarrow> (Inl e, w) | (Inr (certPEM, keyPEM), w) \<Rightarrow>
        case os_ReadFile w (CACert w) of Inl e \<Rightarrow> (Inl e, w) | Inr caPEM \<Rightarrow>
        install_client cn existing certPEM keyPEM caPEM w) w)"

section \<open>Revocation\<close>

text \<open>\<open>strings.Cut\<close> at a longer separator.\<close>

fun cut_at :: "string \<Rightarrow> string \<Rightarrow> (string \<times> string) option" where
  "cut_at sep s = (if prefix sep s then Some ([], drop (length sep) s)
     else case s of [] \<Rightarrow> None | c # cs \<Rightarrow> (case cut_at sep cs of None \<Rightarrow> None | Some (a, b) \<Rightarrow> Some (c # a, b)))"

declare cut_at.simps [simp del]

definition profile_cert :: "string \<Rightarrow> string \<Rightarrow> string res" where
  "profile_cert cn data = (case cut_at ''<cert>'' data of
      None \<Rightarrow> Inl (Err (''cached profile has no certificate for '' @ go_quote cn))
    | Some (_, body) \<Rightarrow> (case cut_at ''</cert>'' body of
          None \<Rightarrow> Inl (Err (''cached profile has an incomplete certificate for '' @ go_quote cn))
        | Some (b, _) \<Rightarrow> Inr b))"

text \<open>One certificate of the user: it must be its own, signed by this CA and in this index.\<close>

definition own_cert :: "crypto \<Rightarrow> cert \<Rightarrow> int list \<Rightarrow> string \<Rightarrow> path \<Rightarrow> string \<Rightarrow> unit res" where
  "own_cert C ca serials cn p data =
     (case pem_Decode C data of
        None \<Rightarrow> Inl (Err (''invalid certificate at '' @ path_text p))
      | Some ((type, bytes), _) \<Rightarrow>
          if type \<noteq> ''CERTIFICATE'' then Inl (Err (''invalid certificate at '' @ path_text p))
          else case lib (ParseCertificate C bytes) of Inl e \<Rightarrow> Inl e | Inr cert \<Rightarrow>
          if ct_cn cert \<noteq> cn
          then Inl (Err (''certificate at '' @ path_text p @ '' does not belong to '' @ go_quote cn))
          else case wrap (''cannot revoke foreign certificate at '' @ path_text p @ '' locally'')
                      (lib (CheckSignatureFrom C cert ca)) of Inl e \<Rightarrow> Inl e | Inr _ \<Rightarrow>
          if ct_serial cert \<notin> set serials
          then Inl (Err (''certificate at '' @ path_text p @ '' is absent from the local index''))
          else Inr ())"

definition client_copies :: "world \<Rightarrow> string \<Rightarrow> (path \<times> bool) list" where
  "client_copies w cn =
     [(IssuedCertPath w cn, False), (UsersDir w @ [cn, ''cert.pem''], False), (UsersDir w @ [cn, ''client.ovpn''], True)]"

fun check_copies :: "crypto \<Rightarrow> cert \<Rightarrow> int list \<Rightarrow> string \<Rightarrow> (path \<times> bool) list \<Rightarrow> world \<Rightarrow> unit res" where
  "check_copies C ca serials cn [] w = Inr ()"
| "check_copies C ca serials cn ((p, profile) # rest) w =
     (case os_ReadFile w p of
        Inl e \<Rightarrow> if e = NotExist then check_copies C ca serials cn rest w else Inl e
      | Inr data \<Rightarrow>
          (case (if profile then profile_cert cn data else Inr data) of Inl e \<Rightarrow> Inl e | Inr pem \<Rightarrow>
           case own_cert C ca serials cn p pem of Inl e \<Rightarrow> Inl e | Inr _ \<Rightarrow>
           check_copies C ca serials cn rest w))"

definition mark_revoked :: "string \<Rightarrow> string \<Rightarrow> row list \<Rightarrow> row list" where
  "mark_revoked now cn rows = map (\<lambda>row. if indexHasCN row cn then revoke_row now row else row) rows"

definition revokeCertByCN :: "crypto \<Rightarrow> string \<Rightarrow> unit io" where
  "revokeCertByCN C cn w =
     (case loadCASigner C w of Inl e \<Rightarrow> (Inl e, w) | Inr (ca, _) \<Rightarrow>
      case readIndex w of Inl e \<Rightarrow> (Inl e, w) | Inr rows \<Rightarrow>
      let serials = map row_serial (filter (\<lambda>row. indexHasCN row cn) rows) in
      case check_copies C ca serials cn (client_copies w cn) w of Inl e \<Rightarrow> (Inl e, w) | Inr _ \<Rightarrow>
      if serials = [] then (Inl (Err (''no certificate index records for '' @ go_quote cn)), w)
      else
        let changed = (\<exists>row \<in> set rows. indexHasCN row cn \<and> row ! 0 \<noteq> ''R'') in
        case (if changed then writeIndex (mark_revoked (format_time (w_now w)) cn rows) w else (Inr (), w)) of
          (Inl e, w) \<Rightarrow> (Inl e, w)
        | (Inr _, w) \<Rightarrow>
        case GenerateCRL C w of (Inl e, w) \<Rightarrow> (Inl e, w) | (Inr _, w) \<Rightarrow>
        case readCRL C w of Inl e \<Rightarrow> (Inl e, w) | Inr list \<Rightarrow>
        case lib (CRL_CheckSignatureFrom C list ca) of Inl e \<Rightarrow> (Inl e, w) | Inr _ \<Rightarrow>
        if \<not> set serials \<subseteq> set (map re_serial (cl_entries list))
        then (Inl (Err (''persisted CRL does not cover every certificate for '' @ go_quote cn)), w)
        else (Inr (), w))"

definition RevokeCertByCN :: "crypto \<Rightarrow> string \<Rightarrow> unit io" where
  "RevokeCertByCN C cn w = (case SafeCN cn of Inl e \<Rightarrow> (Inl e, w) | Inr _ \<Rightarrow> WithPKILock (revokeCertByCN C cn) w)"

fun remove_all_there :: "path list \<Rightarrow> unit io" where
  "remove_all_there [] w = (Inr (), w)"
| "remove_all_there (p # ps) w = (case remove_if_there p w of
      (Inl e, w) \<Rightarrow> (Inl e, w) | (Inr _, w) \<Rightarrow> remove_all_there ps w)"

definition RemoveClientMaterial :: "crypto \<Rightarrow> string \<Rightarrow> unit io" where
  "RemoveClientMaterial C cn w =
     (case SafeCN cn of Inl e \<Rightarrow> (Inl e, w) | Inr _ \<Rightarrow>
      WithPKILock (\<lambda>w.
        case revokeCertByCN C cn w of (Inl e, w) \<Rightarrow> (Inl e, w) | (Inr _, w) \<Rightarrow>
        remove_all_there [IssuedCertPath w cn, ClientKeyPath w cn, InlineBundlePath w cn] w) w)"

definition Healthy :: "world \<Rightarrow> bool" where
  "Healthy w \<longleftrightarrow> list_all (\<lambda>p. \<not> isl (os_Stat w p)) [CACert w, CAKey w, ServerCert w]"

definition RegenerateCRL :: "crypto \<Rightarrow> world \<Rightarrow> bool \<times> world" where
  "RegenerateCRL C w = (case WithPKILock (GenerateCRL C) w of (r, w) \<Rightarrow> (\<not> isl r, w))"

section \<open>The state of the revocation list\<close>

definition CRLRenewThresholdDays :: int where "CRLRenewThresholdDays = 30"

text \<open>\<open>os.Chmod\<close> follows links.\<close>

definition os_Chmod :: "path \<Rightarrow> perm \<Rightarrow> unit io" where
  "os_Chmod p perm w =
     (if fault w OpChmod p then (Inl (Fault OpChmod), w)
      else case follow max_links (w_fs w) p of
        Inl e \<Rightarrow> (Inl e, w) | Inr (q, nd) \<Rightarrow> (Inr (), put q (nd\<lparr>n_mode := perm\<rparr>) w))"

text \<open>The argument \<open>easyrsa\<close> is a run of the easy-rsa script with its arguments.\<close>

definition EnsureCRLChecked :: "(string list \<Rightarrow> unit io) \<Rightarrow> crypto \<Rightarrow> unit io" where
  "EnsureCRLChecked easyrsa C w =
     (case readIndex w of Inl e \<Rightarrow> (Inl e, w) | Inr _ \<Rightarrow>
      case os_ReadFile w (CACert w) of Inl e \<Rightarrow> (Inl e, w) | Inr caPEM \<Rightarrow>
      case ValidateCA C (w_now w) caPEM of Inl e \<Rightarrow> (Inl e, w) | Inr ca \<Rightarrow>
      case readCRL C w of
        Inr list \<Rightarrow>
          (case wrap ''existing CRL does not match the CA'' (lib (CRL_CheckSignatureFrom C list ca)) of
             Inl e \<Rightarrow> (Inl e, w)
           | Inr _ \<Rightarrow> if CRLRenewThresholdDays * 86400 < cl_nextUpdate list - w_now w
                       then os_Chmod (CRLFile w) perm_0644 w else GenerateCRL C w)
      | Inl e \<Rightarrow> if e \<noteq> NotExist then (Inl e, w)
          else (case easyrsa [''gen-crl''] w of (Inl e, w) \<Rightarrow> (Inl e, w) | (Inr _, w) \<Rightarrow>
            case readCRL C w of Inl e \<Rightarrow> (Inl e, w) | Inr list \<Rightarrow>
            case lib (CRL_CheckSignatureFrom C list ca) of Inl e \<Rightarrow> (Inl e, w) | Inr _ \<Rightarrow>
            os_Chmod (CRLFile w) perm_0644 w))"

definition RefreshCRL :: "(string list \<Rightarrow> unit io) \<Rightarrow> crypto \<Rightarrow> world \<Rightarrow> bool \<times> world" where
  "RefreshCRL easyrsa C w = (case WithPKILock (EnsureCRLChecked easyrsa C) w of (r, w) \<Rightarrow> (\<not> isl r, w))"

definition CRLMatchesCA :: "crypto \<Rightarrow> world \<Rightarrow> bool" where
  "CRLMatchesCA C w =
     (case os_Stat w (CRLFile w) of
        Inl e \<Rightarrow> e = NotExist
      | Inr _ \<Rightarrow>
      (case os_ReadFile w (CRLFile w) of Inl _ \<Rightarrow> False | Inr crlPEM \<Rightarrow>
       case pem_Decode C crlPEM of None \<Rightarrow> False | Some ((_, bytes), _) \<Rightarrow>
       case ParseRevocationList C bytes of Inl _ \<Rightarrow> False | Inr list \<Rightarrow>
       case os_ReadFile w (CACert w) of Inl _ \<Rightarrow> False | Inr caPEM \<Rightarrow>
       case pem_Decode C caPEM of None \<Rightarrow> False | Some ((_, der), _) \<Rightarrow>
       case ParseCertificate C der of Inl _ \<Rightarrow> False | Inr ca \<Rightarrow>
       \<not> isl (CRL_CheckSignatureFrom C list ca)))"

definition ReadTLSCryptKey :: "world \<Rightarrow> string" where
  "ReadTLSCryptKey w = (case os_ReadFile w (TLSKey w) of Inl _ \<Rightarrow> [] | Inr data \<Rightarrow> TrimSpace data)"

end
