(* ===== verification/Revocation.thy ===== *)
theory Revocation
  imports Pki
begin

text \<open>
  What issuing, revoking and the revocation list guarantee (\<open>src/internal/pki/ca.go\<close> and
  \<open>client.go\<close>): the files each operation touches, the index after an issue, the list after
  \<open>GenerateCRL\<close>, and the state after a client was removed.
\<close>

section \<open>Paths and worlds\<close>

lemma pki_env:
  assumes "same_env w v"
  shows "PKIDir v = PKIDir w" "pki_file v n = pki_file w n" "CRLFile v = CRLFile w" "CACert v = CACert w"
    "CAKey v = CAKey w" "IssuedCertPath v cn = IssuedCertPath w cn" "ClientKeyPath v cn = ClientKeyPath w cn"
    "InlineBundlePath v cn = InlineBundlePath w cn"
proof -
  show p: "PKIDir v = PKIDir w" using envOr_same [OF assms] by (simp add: PKIDir_def joinRoot_def OpenVPNRoot_def)
  show "pki_file v n = pki_file w n" "CRLFile v = CRLFile w" "CACert v = CACert w"
    "CAKey v = CAKey w" "IssuedCertPath v cn = IssuedCertPath w cn" "ClientKeyPath v cn = ClientKeyPath w cn"
    "InlineBundlePath v cn = InlineBundlePath w cn"
    by (simp_all add: p pki_file_def CRLFile_def CACert_def CAKey_def IssuedCertPath_def ClientKeyPath_def InlineBundlePath_def)
qed

lemma frame_env: "frame P w v \<Longrightarrow> same_env w v"
  by (simp add: frame_def)

lemma put_same_env [simp]: "same_env w (put p nd w)"
  by (rule frame_env [OF frame_put [of "\<lambda>_. True"]]) simp

lemmas pki_put = pki_env [OF put_same_env]

lemma pki_names:
  "CRLFile w = pki_file w ''crl.pem''" "CACert w = pki_file w ''ca.crt''"
  "pki_file w a = pki_file w b \<longleftrightarrow> a = b"
  "pki_file w a \<noteq> IssuedCertPath w cn" "pki_file w a \<noteq> ClientKeyPath w cn" "pki_file w a \<noteq> InlineBundlePath w cn"
  "pki_file w a \<noteq> CAKey w"
  by (simp_all add: pki_file_def CRLFile_def CACert_def IssuedCertPath_def ClientKeyPath_def InlineBundlePath_def CAKey_def)

lemma tmp_path_pki: "tmp_path (pki_file w n) \<longleftrightarrow> HasPrefix n ''.tmp-''"
  by (simp add: tmp_path_def pki_file_def)

definition index_file :: "world \<Rightarrow> path" where
  "index_file w = pki_file w ''index.txt''"

lemma index_not_tmp [simp]: "\<not> tmp_path (index_file w)"
  by (simp add: index_file_def tmp_path_pki HasPrefix_def)

lemma crl_not_tmp [simp]: "\<not> tmp_path (CRLFile w)"
  by (simp add: pki_names(1) tmp_path_pki HasPrefix_def)

text \<open>Reading a file that is a regular file, with any content.\<close>

lemma read_regular:
  "look w p = Some nd \<Longrightarrow> n_kind nd = Reg c \<Longrightarrow> \<not> fault w OpRead p \<Longrightarrow> os_ReadFile w p = Inr c"
  by (simp add: os_ReadFile_def follow_max)

lemma plain_read:
  assumes "plain w p" and "os_ReadFile w p = Inr c"
  obtains nd where "look w p = Some nd" and "n_kind nd = Reg c" and "\<not> fault w OpRead p"
  using assms by (auto simp: plain_ReadFile split: if_splits option.splits kind.splits)

lemma read_no_fault: "os_ReadFile w p = Inr c \<or> os_ReadFile w p = Inl NotExist \<Longrightarrow> \<not> fault w OpRead p"
  by (auto simp: os_ReadFile_def)

lemma readIndex_frame:
  assumes "plain w (index_file w)" and "readIndex w = Inr rows" and "frame P w v" and "\<not> P (index_file w)"
  shows "plain v (index_file v)" and "readIndex v = Inr rows"
proof -
  have p: "index_file v = index_file w" using pki_env(2) [OF frame_env [OF assms(3)]] by (simp add: index_file_def)
  show "plain v (index_file v)" unfolding p using plain_frame [OF assms(3,4)] assms(1) by simp
  obtain c where c: "os_ReadFile w (index_file w) = Inr c" "parseIndex c = Inr rows"
    using assms(2) by (auto simp: readIndex_def index_file_def split: sum.splits)
  from plain_read [OF assms(1) c(1)] obtain nd where "look w (index_file w) = Some nd" "n_kind nd = Reg c"
    "\<not> fault w OpRead (index_file w)" by blast
  then have "os_ReadFile v (index_file w) = Inr c"
    using frame_look [OF assms(3,4)] frame_fault [OF assms(3)] by (intro read_regular) simp_all
  with c(2) p show "readIndex v = Inr rows" by (simp add: readIndex_def index_file_def)
qed

text \<open>The files of the authority: they are regular files, and the lock or an edit elsewhere leaves them alone.\<close>

definition ca_files_plain :: "world \<Rightarrow> bool" where
  "ca_files_plain w \<longleftrightarrow> plain w (CACert w) \<and> plain w (CAKey w)"

lemma loadCASigner_same:
  assumes "same_env w v" and "os_ReadFile v (CACert w) = os_ReadFile w (CACert w)"
    and "os_ReadFile v (CAKey w) = os_ReadFile w (CAKey w)"
  shows "loadCASigner C v = loadCASigner C w"
  unfolding loadCASigner_def pki_env [OF assms(1)] assms(2,3) ..

lemma read_frame: "plain w p \<Longrightarrow> frame P w v \<Longrightarrow> \<not> P p \<Longrightarrow> os_ReadFile v p = os_ReadFile w p"
  using plain_frame [of P w v p] frame_look [of P w v p] frame_fault [of P w v] by (simp add: plain_ReadFile)

lemma loadCASigner_frame:
  assumes "ca_files_plain w" and "frame P w v" and "\<not> P (CACert w)" and "\<not> P (CAKey w)"
  shows "loadCASigner C v = loadCASigner C w" and "ca_files_plain v"
proof -
  show "loadCASigner C v = loadCASigner C w"
    using assms by (intro loadCASigner_same frame_env [OF assms(2)] read_frame [OF _ assms(2)]) (simp_all add: ca_files_plain_def)
  show "ca_files_plain v" using assms plain_frame [OF assms(2)]
    by (simp add: ca_files_plain_def pki_env [OF frame_env [OF assms(2)]])
qed

lemma loadCASigner_there:
  assumes "ca_files_plain w" and "loadCASigner C w = Inr x"
  shows "look w (CACert w) \<noteq> None" and "look w (CAKey w) \<noteq> None"
  using assms by (auto simp: ca_files_plain_def loadCASigner_def plain_ReadFile split: sum.splits if_splits option.splits)

section \<open>The lock\<close>

lemma open_create_world:
  "open_create p m w = (r, w') \<Longrightarrow> w' = w \<or> (\<exists>q nd. look w q = None \<and> w' = put q nd w)"
  by (auto simp: open_create_def split: if_splits sum.splits option.splits)

lemma lockPKI_frame:
  assumes "lockPKI w = (r, w')"
  shows "frame (\<lambda>q. look w q = None) w w'"
proof -
  obtain r1 w1 where "open_create (pki_file w ''.issue.lock'') perm_0600 w = (r1, w1)" by fastforce
  with assms have "w' = w1" and "w1 = w \<or> (\<exists>q nd. look w q = None \<and> w1 = put q nd w)"
    using open_create_world by (auto simp: lockPKI_def split: sum.splits if_splits)
  then show ?thesis by (auto intro: frame_put)
qed

lemma WithPKILock_ok:
  assumes "WithPKILock fn w = (Inr x, w')"
  obtains v where "frame (\<lambda>q. look w q = None) w v" and "fn v = (Inr x, w')"
  using assms lockPKI_frame by (fastforce simp: WithPKILock_def split: prod.splits sum.splits)

lemma WithPKILock_cases:
  assumes "WithPKILock fn w = (r, w')"
  obtains (refused) e where "r = Inl e" and "frame (\<lambda>q. look w q = None) w w'"
    | (ran) v where "frame (\<lambda>q. look w q = None) w v" and "fn v = (r, w')"
  using assms lockPKI_frame by (fastforce simp: WithPKILock_def split: prod.splits sum.splits)

lemma readIndex_locked:
  assumes "plain w (index_file w)" and "readIndex w = Inr rows" and "frame (\<lambda>q. look w q = None) w v"
  shows "plain v (index_file v)" and "readIndex v = Inr rows"
proof -
  obtain c where "os_ReadFile w (index_file w) = Inr c"
    using assms(2) by (auto simp: readIndex_def index_file_def split: sum.splits)
  from plain_read [OF assms(1) this] have "\<not> look w (index_file w) = None" by auto
  with readIndex_frame [OF assms] show "plain v (index_file v)" "readIndex v = Inr rows" by blast+
qed

section \<open>The revocation list\<close>

definition crypto_laws :: "crypto \<Rightarrow> bool" where
  "crypto_laws C \<longleftrightarrow>
     (\<forall>t b. t \<in> {''CERTIFICATE'', ''EC PRIVATE KEY'', ''X509 CRL''} \<longrightarrow>
        pem_Decode C (pem_Encode C (t, b)) = Some ((t, b), [])) \<and>
     (\<forall>l ca key der. CreateRevocationList C l ca key = Inr der \<longrightarrow>
        (\<exists>l'. ParseRevocationList C der = Inr l' \<and> cl_number l' = cl_number l \<and> cl_entries l' = cl_entries l))"

lemma revoked_entries_prefix: "revoked_entries rows acc = Inr out \<Longrightarrow> prefix acc out"
proof (induction rows arbitrary: acc)
  case (Cons row rows)
  then show ?case
    by (auto split: if_splits sum.splits) (metis append_prefixD)
qed simp

lemma indexRevocation_serial: "indexRevocation row = Inr e \<Longrightarrow> re_serial e = row_serial row"
  by (auto simp: indexRevocation_def row_serial_def dest!: hexNumber_value split: sum.splits option.splits prod.splits)

lemma revoked_entries_cover:
  "revoked_entries rows acc = Inr out \<Longrightarrow> row \<in> set rows \<Longrightarrow> row ! 0 = ''R'' \<Longrightarrow>
   row_serial row \<in> set (map re_serial out)"
proof (induction rows arbitrary: acc)
  case (Cons r rows)
  show ?case
  proof (cases "row \<in> set rows")
    case True
    with Cons show ?thesis by (auto split: if_splits sum.splits)
  next
    case False
    with Cons.prems have r: "row = r" "r ! 0 = ''R''" by auto
    with Cons.prems(1) obtain e where e: "indexRevocation r = Inr e"
      "(if re_serial e \<in> set (map re_serial acc) then revoked_entries rows acc
        else revoked_entries rows (acc @ [e])) = Inr out" by (auto split: sum.splits)
    then have "re_serial e \<in> set (map re_serial out)"
      using revoked_entries_prefix [of rows acc out] revoked_entries_prefix [of rows "acc @ [e]" out]
      by (auto dest!: set_mono_prefix split: if_splits)
    then show ?thesis using indexRevocation_serial [OF e(1)] r by simp
  qed
qed simp

lemma crl_number_grows:
  "crl_number (Some l) w = Inr n \<Longrightarrow> cl_number l = Some k \<Longrightarrow> k < n"
  by (auto simp: crl_number_def split: sum.splits if_splits)

lemma previous_crl_read:
  "previous_crl C ca w = Inr previous \<Longrightarrow>
   (\<forall>l. readCRL C w = Inr l \<longrightarrow> previous = Some l) \<and> \<not> fault w OpRead (CRLFile w)"
  using read_no_fault [of w "CRLFile w"]
  by (auto simp: previous_crl_def readCRL_def Let_def wrap_def split: sum.splits if_splits option.splits prod.splits)

lemma GenerateCRL_ok:
  assumes "GenerateCRL C w = (Inr (), w')"
  obtains ca key rows previous revoked n der nd1 nd2 where
    "loadCASigner C w = Inr (ca, key)" and "readIndex w = Inr rows" and "previous_crl C ca w = Inr previous"
    and "revoked_entries rows (case previous of Some l \<Rightarrow> cl_entries l | None \<Rightarrow> []) = Inr revoked"
    and "crl_number previous w = Inr n"
    and "CreateRevocationList C \<lparr>cl_number = Some n, cl_thisUpdate = w_now w,
           cl_nextUpdate = w_now w + 365 * 86400, cl_entries = revoked, cl_raw = []\<rparr> ca key = Inr der"
    and "w' = put (CRLFile w) nd2 (put (pki_file w ''crlnumber'') nd1 w)"
    and "n_kind nd2 = Reg (pem_Encode C (''X509 CRL'', der))"
proof -
  from assms obtain ca key rows previous revoked n der w1 w2 where a:
    "loadCASigner C w = Inr (ca, key)" "readIndex w = Inr rows" "previous_crl C ca w = Inr previous"
    "revoked_entries rows (case previous of Some l \<Rightarrow> cl_entries l | None \<Rightarrow> []) = Inr revoked"
    "crl_number previous w = Inr n"
    "lib (CreateRevocationList C \<lparr>cl_number = Some n, cl_thisUpdate = w_now w,
           cl_nextUpdate = w_now w + 365 * 86400, cl_entries = revoked, cl_raw = []\<rparr> ca key) = Inr der"
    "WriteFileAtomic (pki_file w ''crlnumber'') (hexX (n + 1) @ [NL]) perm_0644 w = (Inr (), w1)"
    "WriteFileAtomic (CRLFile w1) (pem_Encode C (''X509 CRL'', der)) perm_0644 w1 = (Inr (), w2)"
    "w' = w2"
    unfolding GenerateCRL_def
    by (auto split: sum.splits prod.splits)
  have w1: "w1 = put (pki_file w ''crlnumber'') (new_file w (butlast (pki_file w ''crlnumber'')) perm_0644 (hexX (n + 1) @ [NL])) w"
    by (rule WriteFileAtomic_ok [OF a(7)])
  have w2: "w2 = put (CRLFile w1) (new_file w1 (butlast (CRLFile w1)) perm_0644 (pem_Encode C (''X509 CRL'', der))) w1"
    by (rule WriteFileAtomic_ok [OF a(8)])
  have "CreateRevocationList C \<lparr>cl_number = Some n, cl_thisUpdate = w_now w,
           cl_nextUpdate = w_now w + 365 * 86400, cl_entries = revoked, cl_raw = []\<rparr> ca key = Inr der"
    using a(6) by (cases "CreateRevocationList C \<lparr>cl_number = Some n, cl_thisUpdate = w_now w,
           cl_nextUpdate = w_now w + 365 * 86400, cl_entries = revoked, cl_raw = []\<rparr> ca key") simp_all
  moreover have "CRLFile w1 = CRLFile w" unfolding w1 by (rule pki_put)
  ultimately show thesis using that [OF a(1-5)] a(9) w1 w2 by (simp add: new_file_def)
qed

lemma GenerateCRL_frame:
  assumes "GenerateCRL C w = (r, w')"
  shows "frame (\<lambda>q. q = pki_file w ''crlnumber'' \<or> q = CRLFile w \<or> tmp_path q) w w'"
proof -
  let ?P = "\<lambda>q. q = pki_file w ''crlnumber'' \<or> q = CRLFile w \<or> tmp_path q"
  consider "w' = w" | r1 d where "WriteFileAtomic (pki_file w ''crlnumber'') d perm_0644 w = (r1, w')"
    | d c w1 r2 where "WriteFileAtomic (pki_file w ''crlnumber'') d perm_0644 w = (Inr (), w1)"
        "WriteFileAtomic (CRLFile w1) c perm_0644 w1 = (r2, w')"
    using assms unfolding GenerateCRL_def by (auto split: sum.splits prod.splits)
  then show ?thesis
  proof cases
    case 2
    show ?thesis by (rule frame_mono [OF WriteFileAtomic_frame [OF 2]]) blast
  next
    case 3
    have f1: "frame ?P w w1" by (rule frame_mono [OF WriteFileAtomic_frame [OF 3(1)]]) blast
    have "CRLFile w1 = CRLFile w" by (rule pki_env(3) [OF frame_env [OF f1]])
    then have "frame ?P w1 w'" by (intro frame_mono [OF WriteFileAtomic_frame [OF 3(2)]]) auto
    with f1 show ?thesis by (rule frame_trans)
  qed simp
qed

lemma index_not_crl: "\<not> (index_file w = pki_file w ''crlnumber'' \<or> index_file w = CRLFile w \<or> tmp_path (index_file w))"
  by (simp add: index_file_def pki_names tmp_path_pki HasPrefix_def)

lemma ca_not_crl:
  "\<not> (CACert w = index_file w \<or> CACert w = pki_file w ''crlnumber'' \<or> CACert w = CRLFile w \<or> tmp_path (CACert w))"
  "\<not> (CAKey w = index_file w \<or> CAKey w = pki_file w ''crlnumber'' \<or> CAKey w = CRLFile w \<or> tmp_path (CAKey w))"
  by (simp_all add: index_file_def pki_file_def CRLFile_def CACert_def CAKey_def tmp_path_def HasPrefix_def)

text \<open>The list that was just written, read back.\<close>

lemma readCRL_written:
  assumes "crypto_laws C" and "look w (CRLFile w) = Some nd" and "n_kind nd = Reg (pem_Encode C (''X509 CRL'', der))"
    and "\<not> fault w OpRead (CRLFile w)"
  shows "readCRL C w = lib (ParseRevocationList C der)"
proof -
  have "pem_Decode C (pem_Encode C (''X509 CRL'', der)) = Some ((''X509 CRL'', der), [])"
    using assms(1) by (simp add: crypto_laws_def)
  then show ?thesis using read_regular [OF assms(2-4)] by (simp add: readCRL_def)
qed

text \<open>
  C9. The revocation list only grows. When \<open>GenerateCRL\<close> succeeds, the list in the file holds every
  serial the index marks revoked; every entry of the list it replaces is kept, in order; and its
  number is greater than the number of the list it replaces, so that no client can prefer the old
  one.
\<close>

theorem crl_only_grows:
  assumes "crypto_laws C" and "GenerateCRL C w = (Inr (), w')"
  shows "\<exists>rows new. readIndex w = Inr rows \<and> readCRL C w' = Inr new \<and>
    (\<forall>row \<in> set rows. row ! 0 = ''R'' \<longrightarrow> row_serial row \<in> set (map re_serial (cl_entries new))) \<and>
    (\<forall>old. readCRL C w = Inr old \<longrightarrow> prefix (cl_entries old) (cl_entries new) \<and>
       (\<forall>k. cl_number old = Some k \<longrightarrow> (\<exists>n. cl_number new = Some n \<and> k < n)))"
proof -
  from GenerateCRL_ok [OF assms(2)] obtain ca key rows previous revoked n der nd1 nd2 where g:
    "readIndex w = Inr rows" "previous_crl C ca w = Inr previous"
    "revoked_entries rows (case previous of Some l \<Rightarrow> cl_entries l | None \<Rightarrow> []) = Inr revoked"
    "crl_number previous w = Inr n"
    "CreateRevocationList C \<lparr>cl_number = Some n, cl_thisUpdate = w_now w,
       cl_nextUpdate = w_now w + 365 * 86400, cl_entries = revoked, cl_raw = []\<rparr> ca key = Inr der"
    "w' = put (CRLFile w) nd2 (put (pki_file w ''crlnumber'') nd1 w)"
    "n_kind nd2 = Reg (pem_Encode C (''X509 CRL'', der))" by metis
  have prev: "\<And>l. readCRL C w = Inr l \<Longrightarrow> previous = Some l" "\<not> fault w OpRead (CRLFile w)"
    using previous_crl_read [OF g(2)] by blast+
  have c: "CRLFile w' = CRLFile w" unfolding g(6) by (simp add: pki_put)
  from assms(1) have law: "CreateRevocationList C l ca key = Inr der \<Longrightarrow>
      \<exists>l'. ParseRevocationList C der = Inr l' \<and> cl_number l' = cl_number l \<and> cl_entries l' = cl_entries l" for l
    unfolding crypto_laws_def by blast
  obtain new where new: "ParseRevocationList C der = Inr new" "cl_number new = Some n" "cl_entries new = revoked"
    using law [OF g(5)] by auto
  have "look w' (CRLFile w') = Some nd2" "\<not> fault w' OpRead (CRLFile w')"
    unfolding c using prev(2) by (simp_all add: g(6))
  then have "readCRL C w' = Inr new" using readCRL_written [OF assms(1) _ g(7)] new(1) by simp
  moreover have "row_serial row \<in> set (map re_serial (cl_entries new))" if "row \<in> set rows" "row ! 0 = ''R''" for row
    using revoked_entries_cover [OF g(3) that] new(3) by simp
  moreover have "prefix (cl_entries old) (cl_entries new) \<and> (\<forall>k. cl_number old = Some k \<longrightarrow> (\<exists>n. cl_number new = Some n \<and> k < n))"
    if "readCRL C w = Inr old" for old
    using prev(1) [OF that] revoked_entries_prefix [OF g(3)] crl_number_grows g(4) new by auto
  ultimately show ?thesis using g(1) by blast
qed

section \<open>Removing a client\<close>

lemma os_Remove_world: "os_Remove p w = (r, w') \<Longrightarrow> w' = w \<or> w' = del p w"
  by (auto simp: os_Remove_def split: if_splits option.splits)

lemma remove_if_there_gone:
  "remove_if_there p w = (Inr (), w') \<Longrightarrow> look w' p = None \<and> frame (\<lambda>q. q = p) w w'"
  by (auto simp: remove_if_there_def os_Remove_def frame_del split: if_splits option.splits sum.splits)

lemma remove_if_there_frame: "remove_if_there p w = (r, w') \<Longrightarrow> frame (\<lambda>q. q = p) w w'"
  by (auto simp: remove_if_there_def os_Remove_def frame_del split: if_splits option.splits sum.splits)

lemma remove_all_there_frame: "remove_all_there ps w = (r, w') \<Longrightarrow> frame (\<lambda>q. q \<in> set ps) w w'"
proof (induction ps arbitrary: w)
  case (Cons p ps)
  obtain r1 w1 where w1: "remove_if_there p w = (r1, w1)" by fastforce
  have f: "frame (\<lambda>q. q \<in> set (p # ps)) w w1" by (rule frame_mono [OF remove_if_there_frame [OF w1]]) simp
  show ?case
  proof (cases r1)
    case (Inl e)
    with Cons.prems w1 f show ?thesis by simp
  next
    case (Inr u)
    with Cons.prems w1 have "remove_all_there ps w1 = (r, w')" by simp
    from Cons.IH [OF this] have "frame (\<lambda>q. q \<in> set (p # ps)) w1 w'" by (rule frame_mono) simp
    with f show ?thesis by (rule frame_trans)
  qed
qed simp

lemma remove_all_there_gone: "remove_all_there ps w = (Inr (), w') \<Longrightarrow> p \<in> set ps \<Longrightarrow> look w' p = None"
proof (induction ps arbitrary: w)
  case (Cons q ps)
  then obtain w1 where w1: "remove_if_there q w = (Inr (), w1)" "remove_all_there ps w1 = (Inr (), w')"
    by (auto split: prod.splits sum.splits)
  show ?case
  proof (cases "p \<in> set ps")
    case True
    with Cons.IH w1(2) show ?thesis by blast
  next
    case False
    with Cons.prems(2) have "p = q" by simp
    with False frame_look [OF remove_all_there_frame [OF w1(2)]] remove_if_there_gone [OF w1(1)] show ?thesis by simp
  qed
qed simp

lemma mark_revoked_ok:
  assumes "index_ok rows"
  shows "index_ok (mark_revoked (format_time t) cn rows)"
proof -
  let ?g = "\<lambda>row. if indexHasCN row cn then revoke_row (format_time t) row else row"
  have g: "row_ok (?g row)" "row_serial (?g row) = row_serial row" if "row \<in> set rows" for row
    using that assms revoke_row_ok by (auto simp: index_ok_def list_all_iff)
  have "list_all row_ok (map ?g rows)" unfolding list_all_iff set_map using g(1) by blast
  moreover have "map row_serial (map ?g rows) = map row_serial rows" unfolding map_map comp_def using g(2) by (rule map_cong [OF refl])
  ultimately have "list_all row_ok (map ?g rows)" "map row_serial (map ?g rows) = map row_serial rows" .
  with assms show ?thesis unfolding mark_revoked_def index_ok_def by metis
qed

lemma mark_revoked_R:
  assumes "index_ok rows" and "row \<in> set (mark_revoked (format_time t) cn rows)" and "indexHasCN row cn"
  shows "row ! 0 = ''R''" and "row_serial row \<in> set (map row_serial (filter (\<lambda>row. indexHasCN row cn) rows))"
proof -
  from assms(2) obtain r where r: "r \<in> set rows" "row = (if indexHasCN r cn then revoke_row (format_time t) r else r)"
    by (auto simp: mark_revoked_def)
  then have ok: "row_ok r" using assms(1) by (simp add: index_ok_def list_all_iff)
  have h: "indexHasCN r cn" using assms(3) r(2) by (auto split: if_splits)
  then show "row ! 0 = ''R''" using revoke_row_ok(3) [OF ok] r(2) by simp
  show "row_serial row \<in> set (map row_serial (filter (\<lambda>row. indexHasCN row cn) rows))"
    using revoke_row_ok(2) [OF ok] r h by simp
qed

lemma mark_revoked_same:
  "\<not> (\<exists>row \<in> set rows. indexHasCN row cn \<and> row ! 0 \<noteq> ''R'') \<Longrightarrow> mark_revoked now cn rows = rows"
  unfolding mark_revoked_def by (rule map_idI) (auto simp: revoke_row_def)

lemma revokeCertByCN_ok:
  assumes "revokeCertByCN C cn w = (Inr (), w')" and "plain w (index_file w)"
  obtains rows ca key list where "readIndex w = Inr rows" and "loadCASigner C w = Inr (ca, key)"
    and "readIndex w' = Inr (mark_revoked (format_time (w_now w)) cn rows)"
    and "plain w' (index_file w')" and "readCRL C w' = Inr list" and "CRL_CheckSignatureFrom C list ca = Inr ()"
    and "set (map row_serial (filter (\<lambda>row. indexHasCN row cn) rows)) \<subseteq> set (map re_serial (cl_entries list))"
    and "check_copies C ca (map row_serial (filter (\<lambda>row. indexHasCN row cn) rows)) cn (client_copies w cn) w = Inr ()"
    and "frame (\<lambda>q. q = index_file w \<or> q = pki_file w ''crlnumber'' \<or> q = CRLFile w \<or> tmp_path q) w w'"
    and "is_some (look w' (CRLFile w')) \<and> plain w' (CRLFile w')"
proof -
  let ?now = "format_time (w_now w)"
  have step: "\<exists>rows ca key list w1. loadCASigner C w = Inr (ca, key) \<and> readIndex w = Inr rows \<and>
    check_copies C ca (map row_serial (filter (\<lambda>row. indexHasCN row cn) rows)) cn (client_copies w cn) w = Inr () \<and>
    (if \<exists>row \<in> set rows. indexHasCN row cn \<and> row ! 0 \<noteq> ''R'' then writeIndex (mark_revoked ?now cn rows) w else (Inr (), w)) = (Inr (), w1) \<and>
    GenerateCRL C w1 = (Inr (), w') \<and> readCRL C w' = Inr list \<and> lib (CRL_CheckSignatureFrom C list ca) = Inr () \<and>
    set (map row_serial (filter (\<lambda>row. indexHasCN row cn) rows)) \<subseteq> set (map re_serial (cl_entries list))"
  proof (cases "loadCASigner C w")
    case (Inr l)
    then obtain ca key where l: "loadCASigner C w = Inr (ca, key)" by (cases l) simp
    show ?thesis
    proof (cases "readIndex w")
      case r: (Inr rows)
      define st where "st = (if \<exists>row \<in> set rows. indexHasCN row cn \<and> row ! 0 \<noteq> ''R''
        then writeIndex (mark_revoked ?now cn rows) w else (Inr (), w))"
      show ?thesis
        using assms(1) unfolding revokeCertByCN_def Let_def l r sum.case prod.case st_def [symmetric]
        by (auto simp: r st_def [symmetric] split: sum.splits prod.splits if_splits)
    qed (use assms(1) l in \<open>simp add: revokeCertByCN_def\<close>)
  qed (use assms(1) in \<open>simp add: revokeCertByCN_def\<close>)
  then obtain rows ca key list w1 where a: "loadCASigner C w = Inr (ca, key)" "readIndex w = Inr rows"
    "check_copies C ca (map row_serial (filter (\<lambda>row. indexHasCN row cn) rows)) cn (client_copies w cn) w = Inr ()"
    "(if \<exists>row \<in> set rows. indexHasCN row cn \<and> row ! 0 \<noteq> ''R'' then writeIndex (mark_revoked ?now cn rows) w else (Inr (), w)) = (Inr (), w1)"
    "GenerateCRL C w1 = (Inr (), w')" "readCRL C w' = Inr list" "lib (CRL_CheckSignatureFrom C list ca) = Inr ()"
    "set (map row_serial (filter (\<lambda>row. indexHasCN row cn) rows)) \<subseteq> set (map re_serial (cl_entries list))"
    by blast
  obtain c where c: "os_ReadFile w (index_file w) = Inr c" "parseIndex c = Inr rows"
    using a(2) by (auto simp: readIndex_def index_file_def split: sum.splits)
  have ok: "index_ok rows" by (rule parseIndex_ok [OF c(2)])
  have nf: "\<not> fault w OpRead (index_file w)" using read_no_fault c(1) by blast
  have w1: "plain w1 (index_file w1) \<and> readIndex w1 = Inr (mark_revoked ?now cn rows) \<and> frame (\<lambda>q. q = index_file w \<or> tmp_path q) w w1"
  proof (cases "\<exists>row \<in> set rows. indexHasCN row cn \<and> row ! 0 \<noteq> ''R''")
    case True
    then have wr: "WriteFileAtomic (index_file w) (index_body (mark_revoked ?now cn rows)) perm_0644 w = (Inr (), w1)"
      using a(4) by (simp add: writeIndex_def index_file_def)
    note w1 = WriteFileAtomic_ok [OF wr]
    have i: "index_file w1 = index_file w" unfolding w1 index_file_def by (rule pki_put)
    have "os_ReadFile w1 (index_file w1) = Inr (index_body (mark_revoked ?now cn rows))"
      unfolding i by (rule read_regular [where nd = "new_file w (butlast (index_file w)) perm_0644 (index_body (mark_revoked ?now cn rows))"])
        (simp_all add: w1 nf, simp add: new_file_def)
    then have "readIndex w1 = Inr (mark_revoked ?now cn rows)"
      using parseIndex_body [OF mark_revoked_ok [OF ok]] by (simp add: readIndex_def index_file_def)
    moreover have "plain w1 (index_file w1)" unfolding i by (simp add: w1 plain_def new_file_def is_regular_def)
    ultimately show ?thesis using WriteFileAtomic_frame [OF wr] by simp
  next
    case False
    with a(4) have "w1 = w" by simp
    moreover have "mark_revoked ?now cn rows = rows" using False by (rule mark_revoked_same)
    ultimately show ?thesis using a(2) assms(2) by simp
  qed
  have e1: "same_env w w1" using w1 frame_env by blast
  note g = GenerateCRL_frame [OF a(5)]
  have "\<not> (index_file w1 = pki_file w1 ''crlnumber'' \<or> index_file w1 = CRLFile w1 \<or> tmp_path (index_file w1))"
    by (rule index_not_crl)
  with readIndex_frame [OF _ _ g] w1 have i': "plain w' (index_file w')" "readIndex w' = Inr (mark_revoked ?now cn rows)" by blast+
  have "frame (\<lambda>q. q = index_file w \<or> q = pki_file w ''crlnumber'' \<or> q = CRLFile w \<or> tmp_path q) w w1"
    by (rule frame_mono [of "\<lambda>q. q = index_file w \<or> tmp_path q"]) (use w1 in blast)+
  moreover have "frame (\<lambda>q. q = index_file w \<or> q = pki_file w ''crlnumber'' \<or> q = CRLFile w \<or> tmp_path q) w1 w'"
    using frame_mono [OF g] pki_env [OF e1] by (smt (verit, best))
  ultimately have fr: "frame (\<lambda>q. q = index_file w \<or> q = pki_file w ''crlnumber'' \<or> q = CRLFile w \<or> tmp_path q) w w'"
    by (rule frame_trans)
  obtain nd1 nd2 d where d: "w' = put (CRLFile w1) nd2 (put (pki_file w1 ''crlnumber'') nd1 w1)" "n_kind nd2 = Reg d"
    using GenerateCRL_ok [OF a(5)] by metis
  then have "CRLFile w' = CRLFile w1" by (simp add: pki_put)
  with d have pl: "is_some (look w' (CRLFile w')) \<and> plain w' (CRLFile w')" by (simp add: plain_def is_regular_def is_some_def)
  have sig: "CRL_CheckSignatureFrom C list ca = Inr ()" using a(7) by (cases "CRL_CheckSignatureFrom C list ca") simp_all
  show thesis by (rule that [OF a(2,1) i'(2,1) a(6) sig a(8,3) fr pl])
qed

lemma ca_not_client:
  assumes "cn \<noteq> ''ca''"
  shows "\<not> CACert w \<in> set [IssuedCertPath w cn, ClientKeyPath w cn, InlineBundlePath w cn]"
    and "\<not> CAKey w \<in> set [IssuedCertPath w cn, ClientKeyPath w cn, InlineBundlePath w cn]"
  using assms by (simp_all add: CACert_def CAKey_def IssuedCertPath_def ClientKeyPath_def InlineBundlePath_def)

text \<open>
  A removed client is revoked for good. When \<open>RemoveClientMaterial\<close> reports success for a name
  other than \<open>ca\<close>, the index is the old one with every row of the client's name marked revoked and
  all other rows as they were; the revocation list on disk carries the signature of this node's CA
  and lists the serial of every certificate ever issued to that name; the certificate, the key and
  the inline bundle are gone from the tree; and the CA itself is still there.
\<close>

theorem removed_client_revoked:
  assumes "RemoveClientMaterial C cn w = (Inr (), w')" and "plain w (index_file w)" and "readIndex w = Inr rows"
    and "ca_files_plain w" and "loadCASigner C w = Inr (ca, key)" and "cn \<noteq> ''ca''"
  shows "readIndex w' = Inr (mark_revoked (format_time (w_now w)) cn rows) \<and>
    (\<forall>row \<in> set (mark_revoked (format_time (w_now w)) cn rows). indexHasCN row cn \<longrightarrow> row ! 0 = ''R'') \<and>
    (\<exists>list. readCRL C w' = Inr list \<and> CRL_CheckSignatureFrom C list ca = Inr () \<and>
      (\<forall>row \<in> set rows. indexHasCN row cn \<longrightarrow> row_serial row \<in> set (map re_serial (cl_entries list)))) \<and>
    look w' (IssuedCertPath w cn) = None \<and> look w' (ClientKeyPath w cn) = None \<and> look w' (InlineBundlePath w cn) = None \<and>
    loadCASigner C w' = Inr (ca, key) \<and> plain w' (index_file w') \<and> plain w' (CRLFile w') \<and> same_env w w'"
proof -
  obtain v v' where v: "frame (\<lambda>q. look w q = None) w v" "revokeCertByCN C cn v = (Inr (), v')"
    "remove_all_there [IssuedCertPath v' cn, ClientKeyPath v' cn, InlineBundlePath v' cn] v' = (Inr (), w')"
    using assms(1) unfolding RemoveClientMaterial_def
    by (auto simp del: remove_all_there.simps split: sum.splits prod.splits elim!: WithPKILock_ok)
  have iv: "plain v (index_file v)" "readIndex v = Inr rows" by (rule readIndex_locked [OF assms(2,3) v(1)])+
  have cav: "loadCASigner C v = Inr (ca, key)" "ca_files_plain v"
    using loadCASigner_frame [OF assms(4) v(1)] loadCASigner_there [OF assms(4,5)] assms(5) by simp_all
  from revokeCertByCN_ok [OF v(2) iv(1)] obtain list where r:
    "readIndex v' = Inr (mark_revoked (format_time (w_now v)) cn rows)" "plain v' (index_file v')"
    "readCRL C v' = Inr list" "CRL_CheckSignatureFrom C list ca = Inr ()"
    "set (map row_serial (filter (\<lambda>row. indexHasCN row cn) rows)) \<subseteq> set (map re_serial (cl_entries list))"
    "frame (\<lambda>q. q = index_file v \<or> q = pki_file v ''crlnumber'' \<or> q = CRLFile v \<or> tmp_path q) v v'"
    "is_some (look v' (CRLFile v')) \<and> plain v' (CRLFile v')"
    using iv(2) cav(1) by (metis Inr_inject prod.inject)
  have now: "w_now v = w_now w" by (rule frame_now [OF v(1)])
  note rm = remove_all_there_frame [OF v(3)]
  have e: "same_env w v'" using frame_env [OF v(1)] frame_env [OF r(6)] same_env_trans by blast
  have gone: "look w' p = None" if "p \<in> {IssuedCertPath w cn, ClientKeyPath w cn, InlineBundlePath w cn}" for p
    using remove_all_there_gone [OF v(3), of p] that pki_env [OF e] by auto
  have "\<not> index_file v' \<in> set [IssuedCertPath v' cn, ClientKeyPath v' cn, InlineBundlePath v' cn]"
    by (simp add: index_file_def pki_names)
  note ir = readIndex_frame [OF r(2,1) rm this]
  have index: "readIndex w' = Inr (mark_revoked (format_time (w_now w)) cn rows)" using ir(2) by (simp add: now)
  have ok: "index_ok rows" using assms(3) parseIndex_ok by (auto simp: readIndex_def split: sum.splits)
  have ca1: "loadCASigner C v' = Inr (ca, key)" "ca_files_plain v'"
    using loadCASigner_frame [OF cav(2) r(6) ca_not_crl] cav(1) by simp_all
  have ca2: "loadCASigner C w' = Inr (ca, key)"
    using loadCASigner_frame(1) [OF ca1(2) rm ca_not_client [OF assms(6)]] ca1(1) by simp
  have "\<not> CRLFile v' \<in> set [IssuedCertPath v' cn, ClientKeyPath v' cn, InlineBundlePath v' cn]"
    by (simp add: pki_names)
  then have "os_ReadFile w' (CRLFile v') = os_ReadFile v' (CRLFile v')"
    using read_frame [OF _ rm] r(7) by blast
  then have "readCRL C w' = Inr list"
    using r(3) unfolding readCRL_def pki_env(3) [OF frame_env [OF rm]] by simp
  moreover have "plain w' (CRLFile w')"
    using plain_frame [OF rm, of "CRLFile v'"] r(7) pki_env(3) [OF frame_env [OF rm]] by (simp add: pki_names)
  moreover have "same_env w w'" by (rule same_env_trans [OF e frame_env [OF rm]])
  ultimately show ?thesis using index gone ca2 ir(1) r(4,5) mark_revoked_R(1) [OF ok] by fastforce
qed

section \<open>Issuing\<close>

lemma nextSerial_ok:
  assumes "nextSerial w = (Inr n, w')"
  obtains nd where "w' = put (pki_file w ''serial'') nd w" and "n_kind nd = Reg (hexX (n + 1) @ [NL])" and "0 \<le> n"
proof -
  from assms obtain data where d: "hexNumber (TrimSpace data) = Inr n"
    "WriteFileAtomic (pki_file w ''serial'') (hexX (n + 1) @ [NL]) perm_0644 w = (Inr (), w')"
    by (auto simp: nextSerial_def split: sum.splits prod.splits)
  show thesis using that WriteFileAtomic_ok [OF d(2)] hexNumber_nonneg [OF d(1)] by (simp add: new_file_def)
qed

lemma appendIndex_ok:
  assumes "appendIndex cn serial t w = (Inr (), w')" and "0 \<le> serial" and "list_all is_graph cn"
    and "os_ReadFile w (index_file w) = Inr data" and "parseIndex data = Inr rows"
  obtains nd where "serial \<notin> set (map row_serial rows)" and "w' = put (index_file w) nd w"
    and "n_kind nd = Reg (index_add data (index_line cn serial t))"
    and "parseIndex (index_add data (index_line cn serial t)) = Inr (rows @ [new_row cn serial t])"
proof -
  from assms have a: "serial \<notin> set (map row_serial rows)"
    "WriteFileAtomic (index_file w) (index_add data (index_line cn serial t)) perm_0644 w = (Inr (), w')"
    by (auto simp: appendIndex_def index_file_def split: if_splits)
  have "parseIndex (index_add data (index_line cn serial t)) = Inr (rows @ [new_row cn serial t])"
    unfolding index_line_row using new_row_ok [OF assms(2,3)] a(1) assms(5) by (intro parseIndex_add) simp_all
  then show thesis using that [OF a(1)] WriteFileAtomic_ok [OF a(2)] by (simp add: new_file_def)
qed

lemma mkdirs_frame: "mkdirs ds m w = (r, w') \<Longrightarrow> frame (\<lambda>q. \<exists>d \<in> set ds. prefix q d) w w'"
proof (induction ds arbitrary: w)
  case (Cons d ds)
  obtain r1 w1 where w1: "os_MkdirAll d m w = (r1, w1)" by fastforce
  have f: "frame (\<lambda>q. \<exists>e \<in> set (d # ds). prefix q e) w w1" by (rule frame_mono [OF os_MkdirAll_frame [OF w1]]) simp
  show ?case
  proof (cases r1)
    case (Inl e)
    with Cons.prems w1 f show ?thesis by simp
  next
    case (Inr u)
    with Cons.prems w1 have "mkdirs ds m w1 = (r, w')" by simp
    from Cons.IH [OF this] have "frame (\<lambda>q. \<exists>e \<in> set (d # ds). prefix q e) w1 w'" by (rule frame_mono) auto
    with f show ?thesis by (rule frame_trans)
  qed
qed simp

definition tree_dirs :: "world \<Rightarrow> path list" where
  "tree_dirs w = [PKIDir w @ [''issued''], PKIDir w @ [''private''], PKIDir w @ [''inline'', ''private'']]"

lemma install_client_ok:
  assumes "install_client cn existing certPEM keyPEM caPEM w = (Inr x, w')"
  shows "frame (\<lambda>q. (\<exists>d \<in> set (tree_dirs w). prefix q d) \<or> q = IssuedCertPath w cn \<or> q = ClientKeyPath w cn
      \<or> q = InlineBundlePath w cn \<or> tmp_path q) w w'"
    and "\<exists>nd. look w' (IssuedCertPath w cn) = Some nd \<and> n_kind nd = Reg certPEM \<and> n_mode nd = perm_0600"
    and "x = (certPEM, keyPEM)"
proof -
  from assms obtain w1 w2 w3 where a: "mkdirs (tree_dirs w) perm_0700 w = (Inr (), w1)"
    "WriteFileAtomic (IssuedCertPath w1 cn) certPEM perm_0600 w1 = (Inr (), w2)"
    "(if existing = None then WriteFileAtomic (ClientKeyPath w2 cn) keyPEM perm_0600 w2 else (Inr (), w2)) = (Inr (), w3)"
    "WriteFileAtomic (InlineBundlePath w3 cn) (inline_bundle cn certPEM keyPEM caPEM) perm_0600 w3 = (Inr (), w')"
    "x = (certPEM, keyPEM)"
    unfolding install_client_def tree_dirs_def [symmetric]
    by (auto simp del: mkdirs.simps split: sum.splits prod.splits if_splits)
  show "x = (certPEM, keyPEM)" by (rule a(5))
  let ?P = "\<lambda>q. (\<exists>d \<in> set (tree_dirs w). prefix q d) \<or> q = IssuedCertPath w cn \<or> q = ClientKeyPath w cn
      \<or> q = InlineBundlePath w cn \<or> tmp_path q"
  have f1: "frame ?P w w1" by (rule frame_mono [OF mkdirs_frame [OF a(1)]]) blast
  note p1 = pki_env [OF frame_env [OF f1]]
  note w2 = WriteFileAtomic_ok [OF a(2), unfolded p1]
  have f2: "frame ?P w1 w2" unfolding w2 by (rule frame_put) blast
  note p2 = pki_env [OF same_env_trans [OF frame_env [OF f1] frame_env [OF f2]]]
  have w3: "w3 = w2 \<or> (\<exists>nd. w3 = put (ClientKeyPath w cn) nd w2)"
    using a(3) WriteFileAtomic_ok [of "ClientKeyPath w cn" keyPEM perm_0600 w2 w3] unfolding p2
    by (cases "existing = None") auto
  then have f3: "frame ?P w2 w3" by (auto intro: frame_put)
  note p3 = pki_env [OF same_env_trans [OF same_env_trans [OF frame_env [OF f1] frame_env [OF f2]] frame_env [OF f3]]]
  note w4 = WriteFileAtomic_ok [OF a(4), unfolded p3]
  have f4: "frame ?P w3 w'" unfolding w4 by (rule frame_put) blast
  show "frame ?P w w'" by (rule frame_trans [OF frame_trans [OF frame_trans [OF f1 f2] f3] f4])
  have "IssuedCertPath w cn \<noteq> ClientKeyPath w cn" "IssuedCertPath w cn \<noteq> InlineBundlePath w cn"
    by (simp_all add: IssuedCertPath_def ClientKeyPath_def InlineBundlePath_def)
  then show "\<exists>nd. look w' (IssuedCertPath w cn) = Some nd \<and> n_kind nd = Reg certPEM \<and> n_mode nd = perm_0600"
    using w3 by (auto simp: w4 w2 new_file_def)
qed

lemma pki_not_installed:
  assumes "\<not> HasPrefix n ''.tmp-''" and "n \<notin> {''issued'', ''private'', ''inline''}"
  shows "\<not> ((\<exists>d \<in> set (tree_dirs w). prefix (pki_file w n) d) \<or> pki_file w n = IssuedCertPath w cn
      \<or> pki_file w n = ClientKeyPath w cn \<or> pki_file w n = InlineBundlePath w cn \<or> tmp_path (pki_file w n))"
  using assms by (auto simp: tree_dirs_def pki_names tmp_path_pki) (auto simp: pki_file_def)

lemma key_no_slash: "StoreKeyRe cn \<Longrightarrow> CHR ''/'' \<notin> set cn"
  using StoreKeyRe_name_ok [of cn] by (auto simp: list_all_iff name_ok_def is_alnum_def byte_class_defs)

lemma new_row_hasCN: "StoreKeyRe cn \<Longrightarrow> indexHasCN (new_row cn serial t) cn"
  using key_no_slash [of cn] by (simp add: indexHasCN_def new_row_def Split_no_sep)

text \<open>
  C10. Issuing a client certificate is recorded. When \<open>IssueClientCertToTree\<close> succeeds, the index
  parses to the rows it had before and one new valid row for the client, whose serial no row had;
  the parser accepts that row whatever the clock says; the serial file holds the next number; and
  the certificate lies in the tree, readable by its owner only.
\<close>

theorem issued_client_recorded:
  assumes "IssueClientCertToTree C cn w = (Inr (certPEM, keyPEM), w')" and "StoreKeyRe cn"
    and "plain w (index_file w)" and "readIndex w = Inr rows"
  shows "\<exists>serial. let row = new_row cn serial (w_now w + 1825 * 86400) in
    readIndex w' = Inr (rows @ [row]) \<and> row ! 0 = ''V'' \<and> indexHasCN row cn \<and> row_serial row = serial \<and>
    serial \<notin> set (map row_serial rows) \<and> index_ok (rows @ [row]) \<and>
    (\<exists>nd. look w' (pki_file w ''serial'') = Some nd \<and> n_kind nd = Reg (hexX (serial + 1) @ [NL])) \<and>
    (\<exists>nd. look w' (IssuedCertPath w cn) = Some nd \<and> n_kind nd = Reg certPEM \<and> n_mode nd = perm_0600)"
proof -
  obtain v existing u caPEM c k where v: "frame (\<lambda>q. look w q = None) w v" "issueClientCert C cn existing v = (Inr (c, k), u)"
    "install_client cn existing c k caPEM u = (Inr (certPEM, keyPEM), w')"
    using assms(1) unfolding IssueClientCertToTree_def
    by (auto split: sum.splits prod.splits elim!: WithPKILock_ok)
  have iv: "plain v (index_file v)" "readIndex v = Inr rows" by (rule readIndex_locked [OF assms(3,4) v(1)])+
  have now: "w_now v = w_now w" by (rule frame_now [OF v(1)])
  obtain serial v1 t where s: "nextSerial v = (Inr serial, v1)" "appendIndex cn serial (w_now v1 + 1825 * 86400) v1 = (Inr (), u)"
    using v(2) unfolding issueClientCert_def by (auto split: sum.splits prod.splits)
  from nextSerial_ok [OF s(1)] obtain nd where nd: "v1 = put (pki_file v ''serial'') nd v" "n_kind nd = Reg (hexX (serial + 1) @ [NL])" "0 \<le> serial" by blast
  have now1: "w_now v1 = w_now w" using now by (simp add: nd(1))
  have f1: "frame (\<lambda>q. q = pki_file v ''serial'') v v1" unfolding nd(1) by (rule frame_put) simp
  have "\<not> index_file v = pki_file v ''serial''" by (simp add: index_file_def pki_names)
  from readIndex_frame [OF iv f1 this] have i1: "plain v1 (index_file v1)" "readIndex v1 = Inr rows" by simp_all
  have graph: "list_all is_graph cn" using StoreKeyRe_name_ok [OF assms(2)] name_ok_graph by (auto simp: list_all_iff)
  let ?row = "new_row cn serial (w_now w + 1825 * 86400)"
  obtain data where d: "os_ReadFile v1 (index_file v1) = Inr data" "parseIndex data = Inr rows"
    using i1(2) by (auto simp: readIndex_def index_file_def split: sum.splits)
  from appendIndex_ok [OF s(2) nd(3) graph d, unfolded now1] obtain nd2 where a:
    "serial \<notin> set (map row_serial rows)" "u = put (index_file v1) nd2 v1"
    "n_kind nd2 = Reg (index_add data (index_line cn serial (w_now w + 1825 * 86400)))"
    "parseIndex (index_add data (index_line cn serial (w_now w + 1825 * 86400))) = Inr (rows @ [?row])" by blast
  have iu: "index_file u = index_file v1" unfolding a(2) index_file_def by (rule pki_put)
  have "os_ReadFile u (index_file u) = Inr (index_add data (index_line cn serial (w_now w + 1825 * 86400)))"
    unfolding iu using read_no_fault d(1) by (intro read_regular [where nd = nd2]) (auto simp: a(2,3))
  then have ru: "readIndex u = Inr (rows @ [?row])" using a(4) by (simp add: readIndex_def index_file_def)
  have pu: "plain u (index_file u)" unfolding iu by (simp add: a(2,3) plain_def is_regular_def)
  note ins = install_client_ok [OF v(3)]
  have "readIndex w' = Inr (rows @ [?row])"
    using readIndex_frame(2) [OF pu ru ins(1)] pki_not_installed [of "''index.txt''" u cn]
    by (simp add: index_file_def HasPrefix_def)
  moreover have eu: "same_env w u"
    using frame_env [OF v(1)] unfolding a(2) nd(1) by (simp add: same_env_def)
  note pu' = pki_env [OF eu] and pv' = pki_env [OF frame_env [OF v(1)]]
  have sf: "pki_file w ''serial'' = pki_file u ''serial''" by (rule pu'(2) [symmetric])
  have si: "IssuedCertPath w cn = IssuedCertPath u cn" by (rule pu'(6) [symmetric])
  have iv1: "index_file v1 = index_file v" unfolding nd(1) index_file_def by (rule pki_put)
  have "pki_file v ''serial'' \<noteq> index_file v" by (simp add: index_file_def pki_names)
  then have "look u (pki_file v ''serial'') = Some nd" unfolding a(2) iv1 by (simp add: nd(1))
  then have "look u (pki_file u ''serial'') = Some nd" unfolding pv'(2) pu'(2) .
  then have "look w' (pki_file w ''serial'') = Some nd"
    unfolding sf using frame_look [OF ins(1) pki_not_installed [of "''serial''"]] by (simp add: HasPrefix_def)
  moreover have "index_ok (rows @ [?row])" using parseIndex_ok [OF a(4)] .
  moreover have "?row ! 0 = ''V''" "row_serial ?row = serial" "indexHasCN ?row cn"
    using new_row_ok(2) [OF nd(3) graph] new_row_hasCN [OF assms(2)] by (simp_all add: new_row_def)
  ultimately show ?thesis using a(1) nd(2) ins(2,3) si unfolding Let_def by auto
qed

section \<open>Instances\<close>

text \<open>
  A concrete \<open>crypto\<close>: a PEM text is its type and its bytes on two lines, a certificate is its serial
  and its name, a revocation list is its numbers. It creates a list only when it can read it back.
\<close>

definition plain_Decode :: "string \<Rightarrow> (pem_block \<times> string) option" where
  "plain_Decode s = (case Cut NL s of (t, b, found) \<Rightarrow> if found then Some ((t, b), []) else None)"

definition plain_cert :: "string \<Rightarrow> string + cert" where
  "plain_cert der = (case Split (CHR '','') der of
      [h, n] \<Rightarrow> (case hexNumber h of Inl _ \<Rightarrow> Inl ''bad serial''
        | Inr k \<Rightarrow> Inr ((client_template n k 0)\<lparr>ct_notAfter := 4000000000, ct_isCA := (n = ''CA''), ct_raw := der\<rparr>))
    | _ \<Rightarrow> Inl ''bad certificate'')"

fun triples :: "int list \<Rightarrow> rev_entry list" where
  "triples (a # b # c # r) = \<lparr>re_serial = a, re_time = b, re_reason = c\<rparr> # triples r"
| "triples _ = []"

definition plain_crl :: "string \<Rightarrow> string + crl" where
  "plain_crl der = (case List.those (map ParseInt (Split (CHR '','') der)) of
      Some (n # k # r) \<Rightarrow> Inr \<lparr>cl_number = Some n, cl_thisUpdate = 0, cl_nextUpdate = k, cl_entries = triples r, cl_raw = der\<rparr>
    | _ \<Rightarrow> Inl ''bad list'')"

definition plain_list :: "crl \<Rightarrow> string" where
  "plain_list l = Join (map Itoa ((case cl_number l of Some n \<Rightarrow> [n] | None \<Rightarrow> []) @ [cl_nextUpdate l]
     @ concat (map (\<lambda>e. [re_serial e, re_time e, re_reason e]) (cl_entries l)))) '',''"

definition plain_crypto :: crypto where
  "plain_crypto = \<lparr>pem_Decode = plain_Decode, pem_Encode = (\<lambda>(t, b). t @ [NL] @ b),
     ParseCertificate = plain_cert, CheckSignatureFrom = (\<lambda>_ _. Inr ()), ParseRevocationList = plain_crl,
     CRL_CheckSignatureFrom = (\<lambda>_ _. Inr ()),
     CreateRevocationList = (\<lambda>l _ _. let d = plain_list l in case plain_crl d of
         Inl e \<Rightarrow> Inl e
       | Inr l' \<Rightarrow> if cl_number l' = cl_number l \<and> cl_entries l' = cl_entries l then Inr d else Inl ''not coded''),
     X509KeyPair = (\<lambda>c k. case plain_Decode c of None \<Rightarrow> Inl ''no pair''
       | Some ((_, der), _) \<Rightarrow> Inr (der, Some \<lparr>pk_ecdsa = True, pk_raw = k\<rparr>)),
     ParseECPrivateKey = (\<lambda>b. Inr \<lparr>pk_ecdsa = True, pk_raw = b\<rparr>),
     ParsePKCS8PrivateKey = (\<lambda>b. Inr \<lparr>pk_ecdsa = True, pk_raw = b\<rparr>),
     MarshalECPrivateKey = (\<lambda>k. Inr (pk_raw k)),
     GenerateKey = (\<lambda>_ _. Inr \<lparr>pk_ecdsa = True, pk_raw = ''new''\<rparr>),
     CreateCertificate = (\<lambda>t _ _ _. Inr (hexX (ct_serial t) @ '','' @ ct_cn t))\<rparr>"

lemma plain_crypto_laws: "crypto_laws plain_crypto"
proof -
  have "pem_Decode plain_crypto (pem_Encode plain_crypto (t, b)) = Some ((t, b), [])"
    if "t \<in> {''CERTIFICATE'', ''EC PRIVATE KEY'', ''X509 CRL''}" for t b
  proof -
    have "NL \<notin> set t" using that by auto
    then show ?thesis using Cut_append [of NL t b] by (simp add: plain_crypto_def plain_Decode_def)
  qed
  moreover have "\<exists>l'. ParseRevocationList plain_crypto der = Inr l' \<and> cl_number l' = cl_number l \<and> cl_entries l' = cl_entries l"
    if "CreateRevocationList plain_crypto l ca key = Inr der" for l ca key der
    using that by (auto simp: plain_crypto_def Let_def split: sum.splits if_splits)
  ultimately show ?thesis by (simp add: crypto_laws_def)
qed

definition pki_root :: path where
  "pki_root = [''server'', ''pki'']"

definition sample_tree :: "string \<Rightarrow> world" where
  "sample_tree index = (sample_world
     (map (\<lambda>n. root_dir (take n pki_root)) [1, 2]
      @ [root_dir (pki_root @ [''issued'']), root_dir (pki_root @ [''private'']),
         root_file (pki_root @ [''ca.crt'']) (''CERTIFICATE'' @ [NL] @ ''1,CA''),
         root_file (pki_root @ [''private'', ''ca.key'']) (''EC PRIVATE KEY'' @ [NL] @ ''secret''),
         root_file (pki_root @ [''serial'']) (''1000'' @ [NL]), root_file (pki_root @ [''index.txt'']) index]))
     \<lparr>w_env := (\<lambda>n. if n = ''OVNODE_OPENVPN_ROOT'' then Some ''/'' else None)\<rparr>"

definition sample_pki :: world where
  "sample_pki = sample_tree []"

text \<open>A tree whose index has one valid certificate of \<open>bob\<close> and a revoked one of \<open>eve\<close>.\<close>

definition bob_row :: row where
  "bob_row = [''V'', ''300101000000Z'', [], ''F'', ''unknown'', ''/CN=bob'']"

definition eve_row :: row where
  "eve_row = [''R'', ''300101000000Z'', ''250101000000Z'', ''E'', ''unknown'', ''/CN=eve'']"

definition sample_members :: world where
  "sample_members = sample_tree (index_body [bob_row, eve_row])"

lemma sample_pki_runs: "is_ok (IssueClientCertToTree plain_crypto ''bob'' sample_pki)"
  by code_simp

lemma sample_pki_facts: "StoreKeyRe ''bob''" "plain sample_pki (index_file sample_pki)" "readIndex sample_pki = Inr []"
  by code_simp+

theorem issued_client_recorded_witness:
  "\<exists>serial. let row = new_row ''bob'' serial (w_now sample_pki + 1825 * 86400) in
     readIndex (snd (IssueClientCertToTree plain_crypto ''bob'' sample_pki)) = Inr ([] @ [row]) \<and> row ! 0 = ''V'' \<and>
     row_serial row = serial"
proof -
  let ?r = "IssueClientCertToTree plain_crypto ''bob'' sample_pki"
  have "?r = (Inr (fst (projr (fst ?r)), snd (projr (fst ?r))), snd ?r)"
    using is_okD [OF sample_pki_runs] by (simp only: prod.collapse)
  from issued_client_recorded [OF this sample_pki_facts] show ?thesis unfolding Let_def by blast
qed

lemma sample_members_runs: "is_ok (RemoveClientMaterial plain_crypto ''bob'' sample_members)"
  by code_simp

lemma sample_members_crl: "is_ok (GenerateCRL plain_crypto sample_members)"
  by code_simp

definition sample_ca :: "cert \<times> pkey" where
  "sample_ca = projr (loadCASigner plain_crypto sample_members)"

lemma sample_members_facts:
  "plain sample_members (index_file sample_members)" "readIndex sample_members = Inr [bob_row, eve_row]"
  "ca_files_plain sample_members" "''bob'' \<noteq> ''ca''" "\<not> isl (loadCASigner plain_crypto sample_members)"
  by code_simp+

theorem removed_client_revoked_witness:
  "let w' = snd (RemoveClientMaterial plain_crypto ''bob'' sample_members) in
     (\<exists>list. readCRL plain_crypto w' = Inr list \<and> row_serial bob_row \<in> set (map re_serial (cl_entries list))) \<and>
     look w' (ClientKeyPath sample_members ''bob'') = None"
proof -
  let ?r = "RemoveClientMaterial plain_crypto ''bob'' sample_members"
  have r: "?r = (Inr (), snd ?r)" using is_okD [OF sample_members_runs] by simp
  have "loadCASigner plain_crypto sample_members = Inr (fst sample_ca, snd sample_ca)"
    using sample_members_facts(5) by (cases "loadCASigner plain_crypto sample_members") (simp_all add: sample_ca_def)
  note t = removed_client_revoked [OF r sample_members_facts(1-3) this sample_members_facts(4)]
  have "indexHasCN bob_row ''bob''" by code_simp
  with t show ?thesis unfolding Let_def by auto
qed

theorem crl_only_grows_witness:
  "\<exists>new. readCRL plain_crypto (snd (GenerateCRL plain_crypto sample_members)) = Inr new \<and>
     row_serial eve_row \<in> set (map re_serial (cl_entries new))"
proof -
  let ?r = "GenerateCRL plain_crypto sample_members"
  have r: "?r = (Inr (), snd ?r)" using is_okD [OF sample_members_crl] by simp
  have "eve_row ! 0 = ''R''" by code_simp
  with crl_only_grows [OF plain_crypto_laws r] sample_members_facts(2) show ?thesis by auto
qed

end
