(* ===== verification/Users.thy ===== *)
theory Users
  imports Usage Revocation
begin

text \<open>
  The user lifecycle: \<open>src/internal/ovpn/users.go\<close>, \<open>lifecycle.go\<close>, \<open>profile.go\<close> and \<open>materialExists\<close> of
  \<open>pki.go\<close>. A user is a directory with its policy, its pushed or issued certificate and its cached
  profile.

  Every operation runs under the lifecycle lock of its user. Two arguments stand for the other
  processes: \<open>rival\<close> is what they change while this one waits for the lock, and \<open>same\<close> tells whether a
  path still names the file that was opened before (\<open>os.SameFile\<close>). The management socket is \<open>P\<close>, as in
  theory \<open>Mgmt\<close>, the cryptography \<open>C\<close>, as in theory \<open>Pki\<close>. A panic is \<open>None\<close>.
\<close>

section \<open>The lifecycle lock\<close>

definition errUserGenerationChanged :: err where
  "errUserGenerationChanged = Err ''user generation was deleted or replaced''"

text \<open>\<open>O_RDONLY|O_DIRECTORY|O_NOFOLLOW\<close>.\<close>

definition open_dir :: "world \<Rightarrow> path \<Rightarrow> unit res" where
  "open_dir w p = (if fault w OpOpen p then Inl (Fault OpOpen)
     else case look w p of None \<Rightarrow> Inl NotExist
       | Some nd \<Rightarrow> if is_dir nd then Inr () else Inl (Err ''not a directory''))"

definition stat_open :: "world \<Rightarrow> path \<Rightarrow> path option res" where
  "stat_open w p = (if fault w OpStat p then Inl (Fault OpStat) else Inr (Some p))"

text \<open>The file that identifies this generation of the user: its directory, else its issued certificate.\<close>

definition generation :: "world \<Rightarrow> path \<Rightarrow> string \<Rightarrow> path option res" where
  "generation w dir cn =
     (case open_dir w dir of
        Inr _ \<Rightarrow> stat_open w dir
      | Inl e \<Rightarrow> if e \<noteq> NotExist then Inl e
          else (case fst (OpenFileNoFollow (IssuedCertPath w cn) False 0 w) of
              Inr _ \<Rightarrow> stat_open w (IssuedCertPath w cn)
            | Inl e \<Rightarrow> if e = NotExist then Inr None else Inl e))"

definition same_generation :: "(path \<Rightarrow> bool) \<Rightarrow> path option \<Rightarrow> world \<Rightarrow> unit res" where
  "same_generation same previous w = (case previous of
       None \<Rightarrow> Inr ()
     | Some p \<Rightarrow> (case os_Lstat w p of
           Inl e \<Rightarrow> if e = NotExist then Inl errUserGenerationChanged else Inl e
         | Inr _ \<Rightarrow> if same p then Inr () else Inl errUserGenerationChanged))"

definition withUserLifecycle :: "(world \<Rightarrow> world) \<Rightarrow> (path \<Rightarrow> bool) \<Rightarrow> string \<Rightarrow> 'a io \<Rightarrow> 'a io" where
  "withUserLifecycle rival same cn fn w =
     (let usersDir = UsersDir w in
      case UserDir usersDir cn of Inl e \<Rightarrow> (Inl e, w) | Inr dir \<Rightarrow>
      case generation w dir cn of Inl e \<Rightarrow> (Inl e, w) | Inr previous \<Rightarrow>
      case (if w_euid w = 0 then RuntimeGroupID w else Inr (w_egid w)) of Inl e \<Rightarrow> (Inl e, w) | Inr gid \<Rightarrow>
      case MkdirAllNoFollow usersDir perm_0750 w of (Inl e, w) \<Rightarrow> (Inl e, w) | (Inr _, w) \<Rightarrow>
      case SetPermissions usersDir perm_2750 (w_euid w) gid w of (Inl e, w) \<Rightarrow> (Inl e, w) | (Inr _, w) \<Rightarrow>
      Lock (usersDir @ [''.lifecycle.'' @ cn]) perm_0600
        (\<lambda>w. let w = rival w in
           case same_generation same previous w of Inl e \<Rightarrow> (Inl e, w) | Inr _ \<Rightarrow> fn w) w)"

section \<open>Material and profile\<close>

definition fileExists :: "world \<Rightarrow> path \<Rightarrow> bool" where
  "fileExists w p \<longleftrightarrow> \<not> isl (os_Stat w p)"

definition materialExists :: "world \<Rightarrow> path \<Rightarrow> bool res" where
  "materialExists w p = (case os_Lstat w p of
      Inl e \<Rightarrow> if e = NotExist then Inr False else Inl e
    | Inr nd \<Rightarrow> if \<not> is_regular nd then Inl (Err (''non-regular PKI material at '' @ path_text p)) else Inr True)"

definition hasCertMaterial :: "world \<Rightarrow> string \<Rightarrow> bool" where
  "hasCertMaterial w cn = (case UserDir (UsersDir w) cn of
      Inl _ \<Rightarrow> False
    | Inr dir \<Rightarrow> fileExists w (dir @ [''cert.pem'']) \<and> fileExists w (dir @ [''key.pem''])
        \<or> fileExists w (IssuedCertPath w cn) \<and> fileExists w (ClientKeyPath w cn))"

fun readFirstFile :: "world \<Rightarrow> path list \<Rightarrow> string" where
  "readFirstFile w [] = []"
| "readFirstFile w (p # ps) = (case os_ReadFile w p of Inr data \<Rightarrow> TrimSpace data | Inl _ \<Rightarrow> readFirstFile w ps)"

definition ensureTrailingNewline :: "string \<Rightarrow> string" where
  "ensureTrailingNewline s = (if HasSuffix s [NL] then s else s @ [NL])"

record Parts =
  p_cert :: string
  p_key :: string
  p_ca :: string
  p_tls :: string

definition clean_or_same :: "crypto \<Rightarrow> string \<Rightarrow> string" where
  "clean_or_same C s = (if s = [] then s else case CleanPEM C s of Inr c \<Rightarrow> c | Inl _ \<Rightarrow> s)"

definition block :: "string \<Rightarrow> string \<Rightarrow> string" where
  "block tag body = (if body = [] then []
     else [NL] @ ''<'' @ tag @ ''>'' @ [NL] @ body @ [NL] @ ''</'' @ tag @ ''>'' @ [NL])"

definition template_lines :: "string \<Rightarrow> string list" where
  "template_lines raw = filter (\<lambda>line. \<not> HasPrefix (TrimSpace line) ''#'') (Split NL raw)"

definition BuildTemplate :: "crypto \<Rightarrow> world \<Rightarrow> path \<Rightarrow> Parts \<Rightarrow> string res" where
  "BuildTemplate C w p parts = (case os_ReadFile w p of Inl e \<Rightarrow> Inl e | Inr raw \<Rightarrow>
      Inr (concat (map (\<lambda>line. line @ [NL]) (template_lines raw))
           @ block ''ca'' (clean_or_same C (p_ca parts)) @ block ''cert'' (clean_or_same C (p_cert parts))
           @ block ''key'' (clean_or_same C (p_key parts)) @ block ''tls-crypt'' (p_tls parts)))"

definition user_parts :: "world \<Rightarrow> path \<Rightarrow> string \<Rightarrow> Parts" where
  "user_parts w dir cn =
     \<lparr>p_cert = readFirstFile w [dir @ [''cert.pem''], IssuedCertPath w cn],
      p_key = readFirstFile w [dir @ [''key.pem''], ClientKeyPath w cn],
      p_ca = readFirstFile w [dir @ [''ca.pem''], CACert w],
      p_tls = ReadTLSCryptKey w\<rparr>"

definition buildUserProfileLocked :: "crypto \<Rightarrow> string \<Rightarrow> path io" where
  "buildUserProfileLocked C cn w =
     (case UserDir (UsersDir w) cn of Inl e \<Rightarrow> (Inl e, w) | Inr dir \<Rightarrow>
      let parts = user_parts w dir cn in
      if p_cert parts = [] \<or> p_key parts = []
      then (Inl (Err (''no certificate material for '' @ go_quote cn)), w)
      else case BuildTemplate C w (ClientTemplate w) parts of Inl e \<Rightarrow> (Inl e, w) | Inr text \<Rightarrow>
      case os_MkdirAll dir perm_0700 w of (Inl e, w) \<Rightarrow> (Inl e, w) | (Inr _, w) \<Rightarrow>
      case WriteFileAtomic (dir @ [''client.ovpn'']) text perm_0600 w of
        (Inl e, w) \<Rightarrow> (Inl e, w)
      | (Inr _, w) \<Rightarrow> (Inr (dir @ [''client.ovpn'']), w))"

definition BuildUserProfile :: "(world \<Rightarrow> world) \<Rightarrow> (path \<Rightarrow> bool) \<Rightarrow> crypto \<Rightarrow> string \<Rightarrow> path io" where
  "BuildUserProfile rival same C cn = withUserLifecycle rival same cn (buildUserProfileLocked C cn)"

section \<open>Creating a user\<close>

text \<open>A negative limit leaves the limit as it is; an empty name leaves the name.\<close>

definition name_arg :: "string \<Rightarrow> string option" where
  "name_arg name = (if name \<noteq> [] then Some name else None)"

definition limit_arg :: "int \<Rightarrow> int option" where
  "limit_arg n = (if 0 \<le> n then Some n else None)"

text \<open>The certificate of a user that has none: only the node's own CA can make it.\<close>

definition provide_cert :: "crypto \<Rightarrow> string \<Rightarrow> unit io" where
  "provide_cert C cn w =
     (if hasCertMaterial w cn then (Inr (), w)
      else case UserDir (UsersDir w) cn of Inl e \<Rightarrow> (Inl e, w) | Inr dir \<Rightarrow>
      if fileExists w (dir @ [''cert.pem'']) \<or> fileExists w (dir @ [''key.pem''])
      then (Inl (Err (''incomplete pushed credentials for '' @ go_quote cn)), w)
      else if \<not> fileExists w (CACert w)
      then (Inl (Err (''no PKI and no pushed certificate for '' @ go_quote cn)), w)
      else case IssueClientCertToTree C cn w of (Inl e, w) \<Rightarrow> (Inl e, w) | (Inr _, w) \<Rightarrow> (Inr (), w))"

definition createUserLocked :: "crypto \<Rightarrow> string \<Rightarrow> string \<Rightarrow> int \<Rightarrow> bool option \<Rightarrow> unit io" where
  "createUserLocked C cn name maxLogins disabled w =
     (case CreateUser (UsersDir w) cn w of (Inl e, w) \<Rightarrow> (Inl e, w) | (Inr _, w) \<Rightarrow>
      case provide_cert C cn w of (Inl e, w) \<Rightarrow> (Inl e, w) | (Inr _, w) \<Rightarrow>
      case buildUserProfileLocked C cn w of (Inl e, w) \<Rightarrow> (Inl e, w) | (Inr _, w) \<Rightarrow>
      case WriteUserPolicy (UsersDir w) cn (name_arg name) (limit_arg maxLogins) disabled w of
        (Inl e, w) \<Rightarrow> (Inl e, w)
      | (Inr _, w) \<Rightarrow> (Inr (), InvalidateNameCache w))"

definition ovpn_CreateUser ::
  "(world \<Rightarrow> world) \<Rightarrow> (path \<Rightarrow> bool) \<Rightarrow> crypto \<Rightarrow> string \<Rightarrow> string \<Rightarrow> int \<Rightarrow> bool option \<Rightarrow> unit io" where
  "ovpn_CreateUser rival same C cn name maxLogins disabled =
     withUserLifecycle rival same cn (createUserLocked C cn name maxLogins disabled)"

text \<open>The per-user CA: the pushed copy, else the one already there, else the node's own.\<close>

definition store_ca :: "path \<Rightarrow> string \<Rightarrow> unit io" where
  "store_ca dir caPEM w =
     (if caPEM \<noteq> [] then WriteFileAtomic (dir @ [''ca.pem'']) (ensureTrailingNewline caPEM) perm_0644 w
      else if fileExists w (dir @ [''ca.pem'']) then (Inr (), w)
      else case os_ReadFile w (CACert w) of
        Inl _ \<Rightarrow> (Inr (), w)
      | Inr body \<Rightarrow> (Inr (), snd (WriteFileAtomic (dir @ [''ca.pem'']) body perm_0644 w)))"

definition clean_or_kept :: "crypto \<Rightarrow> string \<Rightarrow> string" where
  "clean_or_kept C s = (case CleanPEM C s of Inr c \<Rightarrow> c | Inl _ \<Rightarrow> s)"

definition createUserWithCredentialsLocked ::
  "crypto \<Rightarrow> string \<Rightarrow> string \<Rightarrow> string \<Rightarrow> string \<Rightarrow> int option \<Rightarrow> bool option \<Rightarrow> unit io" where
  "createUserWithCredentialsLocked C cn certPEM keyPEM caPEM maxLogins disabled w =
     (if certPEM = [] \<or> keyPEM = [] then (Inl (Err ''cert_pem and key_pem are required''), w)
      else case ValidateClientCert C (w_now w) cn certPEM keyPEM caPEM of Inl e \<Rightarrow> (Inl e, w) | Inr _ \<Rightarrow>
      case UserDir (UsersDir w) cn of Inl e \<Rightarrow> (Inl e, w) | Inr dir \<Rightarrow>
      case os_MkdirAll dir perm_0700 w of (Inl e, w) \<Rightarrow> (Inl e, w) | (Inr _, w) \<Rightarrow>
      case WriteFileAtomic (dir @ [''cert.pem'']) (ensureTrailingNewline (clean_or_kept C certPEM)) perm_0644 w of
        (Inl e, w) \<Rightarrow> (Inl e, w)
      | (Inr _, w) \<Rightarrow>
      case WriteFileAtomic (dir @ [''key.pem'']) (ensureTrailingNewline (clean_or_kept C keyPEM)) perm_0600 w of
        (Inl e, w) \<Rightarrow> (Inl e, w)
      | (Inr _, w) \<Rightarrow>
      case store_ca dir (if caPEM = [] then [] else clean_or_kept C caPEM) w of (Inl e, w) \<Rightarrow> (Inl e, w) | (Inr _, w) \<Rightarrow>
      case WriteUserPolicy (UsersDir w) cn None maxLogins disabled w of (Inl e, w) \<Rightarrow> (Inl e, w) | (Inr _, w) \<Rightarrow>
      case buildUserProfileLocked C cn w of (Inl e, w) \<Rightarrow> (Inl e, w) | (Inr _, w) \<Rightarrow>
      (Inr (), InvalidateNameCache w))"

definition CreateUserWithCredentials ::
  "(world \<Rightarrow> world) \<Rightarrow> (path \<Rightarrow> bool) \<Rightarrow> crypto \<Rightarrow> string \<Rightarrow> string \<Rightarrow> string \<Rightarrow> string \<Rightarrow> int option \<Rightarrow> bool option \<Rightarrow> unit io" where
  "CreateUserWithCredentials rival same C cn certPEM keyPEM caPEM maxLogins disabled =
     withUserLifecycle rival same cn (createUserWithCredentialsLocked C cn certPEM keyPEM caPEM maxLogins disabled)"

section \<open>Deleting a user\<close>

text \<open>The node's side of the management socket: peer, whether OpenVPN runs, and its port.\<close>

record mgmt =
  mg_peer :: peer
  mg_running :: bool
  mg_port :: int

definition drop_sessions :: "mgmt \<Rightarrow> string \<Rightarrow> world \<Rightarrow> unit option \<times> world" where
  "drop_sessions M cn w = (case DisconnectUser (mg_peer M) (mg_running M) (mg_port M) cn False w of
      (None, w) \<Rightarrow> (None, w) | (Some _, w) \<Rightarrow> (Some (), w))"

text \<open>What a deletion reports: whether there was a user, and the error.\<close>

type_synonym found = "(bool \<times> err option) option"

fun any_material :: "world \<Rightarrow> path list \<Rightarrow> bool res" where
  "any_material w [] = Inr False"
| "any_material w (p # ps) = (case materialExists w p of Inl e \<Rightarrow> Inl e | Inr present \<Rightarrow>
      case any_material w ps of Inl e \<Rightarrow> Inl e | Inr others \<Rightarrow> Inr (present \<or> others))"

definition revoke_and_remove :: "crypto \<Rightarrow> string \<Rightarrow> world \<Rightarrow> found \<times> world" where
  "revoke_and_remove C cn w =
     (case RemoveClientMaterial C cn w of (Inl e, w) \<Rightarrow> (Some (True, Some e), w) | (Inr _, w) \<Rightarrow>
      case remove_if_there (OpenVPNRoot w @ [''ccd'', cn]) w of (Inl e, w) \<Rightarrow> (Some (True, Some e), w) | (Inr _, w) \<Rightarrow>
      case DeleteUser (UsersDir w) None None cn w of (Inl e, w) \<Rightarrow> (Some (True, Some e), w)
      | (Inr _, w) \<Rightarrow> (Some (True, None), InvalidateNameCache w))"

definition disable_and_drop :: "mgmt \<Rightarrow> string \<Rightarrow> (world \<Rightarrow> found \<times> world) \<Rightarrow> world \<Rightarrow> found \<times> world" where
  "disable_and_drop M cn continue w =
     (case SetDisabled (UsersDir w) cn True w of
        (Inl e, w) \<Rightarrow> (Some (True, Some e), w)
      | (Inr _, w) \<Rightarrow> (case drop_sessions M cn w of (None, w) \<Rightarrow> (None, w) | (Some _, w) \<Rightarrow> continue w))"

definition deleteUserLocked :: "mgmt \<Rightarrow> crypto \<Rightarrow> string \<Rightarrow> world \<Rightarrow> found \<times> world" where
  "deleteUserLocked M C cn w =
     (case UserDir (UsersDir w) cn of Inl e \<Rightarrow> (Some (False, Some e), w) | Inr dir \<Rightarrow>
      case any_material w [IssuedCertPath w cn, dir @ [''cert.pem''], dir @ [''client.ovpn'']] of
        Inl e \<Rightarrow> disable_and_drop M cn (\<lambda>w. (Some (True, Some e), w)) w
      | Inr True \<Rightarrow> disable_and_drop M cn (revoke_and_remove C cn) w
      | Inr False \<Rightarrow>
          (case ReadUserState w (UsersDir w) cn of
             Inl e \<Rightarrow> (Some (False, Some e), w)
           | Inr st \<Rightarrow>
               if us_disabled st then disable_and_drop M cn (revoke_and_remove C cn) w
               else (case DeleteUser (UsersDir w) None None cn w of
                   (Inl e, w) \<Rightarrow> (Some (False, Some e), w) | (Inr _, w) \<Rightarrow> (Some (False, None), w))))"

definition ovpn_DeleteUser ::
  "(world \<Rightarrow> world) \<Rightarrow> (path \<Rightarrow> bool) \<Rightarrow> mgmt \<Rightarrow> crypto \<Rightarrow> string \<Rightarrow> world \<Rightarrow> found \<times> world" where
  "ovpn_DeleteUser rival same M C cn w =
     (case withUserLifecycle rival same cn (\<lambda>w. case deleteUserLocked M C cn w of (r, w) \<Rightarrow> (Inr r, w)) w of
        (Inl e, w) \<Rightarrow> (Some (False, if e = errUserGenerationChanged then None else Some e), w)
      | (Inr r, w) \<Rightarrow> (r, w))"

section \<open>Policy and profile requests\<close>

definition applyUserPolicyLocked :: "mgmt \<Rightarrow> string \<Rightarrow> string \<Rightarrow> int \<Rightarrow> bool \<Rightarrow> unit option io" where
  "applyUserPolicyLocked M cn name maxLogins disabled w =
     (case WriteUserPolicy (UsersDir w) cn (name_arg name) (limit_arg maxLogins) (Some disabled) w of
        (Inl e, w) \<Rightarrow> (Inl e, w)
      | (Inr _, w) \<Rightarrow>
          if disabled then (case drop_sessions M cn (InvalidateNameCache w) of (r, w) \<Rightarrow> (Inr r, w))
          else (Inr (Some ()), InvalidateNameCache w))"

definition ApplyUserPolicy ::
  "(world \<Rightarrow> world) \<Rightarrow> (path \<Rightarrow> bool) \<Rightarrow> mgmt \<Rightarrow> string \<Rightarrow> string \<Rightarrow> int \<Rightarrow> bool \<Rightarrow> unit option io" where
  "ApplyUserPolicy rival same M cn name maxLogins disabled =
     withUserLifecycle rival same cn (applyUserPolicyLocked M cn name maxLogins disabled)"

definition SetUserStatus :: "(world \<Rightarrow> world) \<Rightarrow> (path \<Rightarrow> bool) \<Rightarrow> mgmt \<Rightarrow> string \<Rightarrow> string \<Rightarrow> unit option io" where
  "SetUserStatus rival same M cn status w =
     (if status = ''deactivate'' then ApplyUserPolicy rival same M cn [] (- 1) True w
      else if status = ''activate'' then ApplyUserPolicy rival same M cn [] (- 1) False w
      else (Inl (Err (''unknown status '' @ go_quote status)), w))"

text \<open>\<open>order\<close> is the order in which this run visits the name map.\<close>

definition SetUserLimit :: "(world \<Rightarrow> world) \<Rightarrow> (path \<Rightarrow> bool) \<Rightarrow> string list \<Rightarrow> string \<Rightarrow> int \<Rightarrow> unit io" where
  "SetUserLimit rival same order ident maxLogins w =
     (let (cn, w) = (if UserExists w (UsersDir w) ident then (ident, w)
                     else case CNForName order (UsersDir w) ident w of
                       (resolved, w) \<Rightarrow> (if resolved \<noteq> [] then resolved else ident, w))
      in withUserLifecycle rival same cn (\<lambda>w. WriteUserState (UsersDir w) cn (limit_arg maxLogins) None w) w)"

definition UserProfilePath :: "world \<Rightarrow> string \<Rightarrow> path res" where
  "UserProfilePath w cn = OVPNPath (UsersDir w) cn"

definition ReadUserProfile :: "(world \<Rightarrow> world) \<Rightarrow> (path \<Rightarrow> bool) \<Rightarrow> crypto \<Rightarrow> string \<Rightarrow> string io" where
  "ReadUserProfile rival same C cn = withUserLifecycle rival same cn (\<lambda>w.
     case UserProfilePath w cn of Inl e \<Rightarrow> (Inl e, w) | Inr p \<Rightarrow>
     case (case os_Stat w p of
             Inr _ \<Rightarrow> (Inr (), w)
           | Inl e \<Rightarrow> if e = NotExist then createUserLocked C cn [] (- 1) None w else (Inl e, w)) of
       (Inl e, w) \<Rightarrow> (Inl e, w)
     | (Inr _, w) \<Rightarrow> (os_ReadFile w p, w))"

end
