(* ===== verification/Deletion.thy ===== *)
theory Deletion
  imports Users
begin

text \<open>
  What the user lifecycle of theory \<open>Users\<close> guarantees: an operation that lost the race for a user
  does nothing, a deletion that fails leaves the user disabled, a deletion that succeeds leaves no
  usable credential, and which names the PKI tree shares with the node itself.
\<close>

section \<open>Where the operations write\<close>

lemma os_Remove_put_frame: "frame (\<lambda>q. q = t) w (snd (os_Remove t (put t nd w)))"
proof -
  have "frame (\<lambda>q. q = t) w (put t nd w)" by (rule frame_put) simp
  moreover have "frame (\<lambda>q. q = t) (put t nd w) (snd (os_Remove t (put t nd w)))"
    by (auto simp: os_Remove_def intro: frame_del)
  ultimately show ?thesis by (rule frame_trans)
qed

lemma WriteFileAtomic_within:
  assumes "WriteFileAtomic p data m w = (r, w')" and "prefix D (butlast p)" and "p \<noteq> []"
  shows "frame (prefix D) w w'"
proof (cases r)
  case (Inr u)
  have "prefix D p" using assms(2,3) by (metis append_butlast_last_id prefix_append)
  then show ?thesis using WriteFileAtomic_ok [of p data m w w'] assms(1) Inr by (auto intro: frame_put)
next
  case (Inl e)
  define t where "t = fresh_tmp (w_fs w) (butlast p)"
  have t: "prefix D t" using assms(2) by (simp add: t_def fresh_tmp_def fresh_name_def)
  have "frame (\<lambda>q. q = t) w w'"
    using assms(1) Inl os_Remove_put_frame [of t w] unfolding WriteFileAtomic_def Let_def t_def [symmetric]
    by (auto split: if_splits)
  then show ?thesis by (rule frame_mono) (use t in simp)
qed

lemma pki_write_within:
  "WriteFileAtomic (pki_file w n) data m w = (r, w') \<Longrightarrow> frame (prefix (PKIDir w)) w w'"
  using WriteFileAtomic_within [of "pki_file w n" data m w r w' "PKIDir w"] by (simp add: pki_file_def)

lemma PKIDir_frame: "frame P w v \<Longrightarrow> PKIDir v = PKIDir w"
  by (rule pki_env(1) [OF frame_env])

lemma GenerateCRL_within:
  assumes "GenerateCRL C w = (r, w')"
  shows "frame (prefix (PKIDir w)) w w'"
proof -
  consider "w' = w" | r1 d where "WriteFileAtomic (pki_file w ''crlnumber'') d perm_0644 w = (r1, w')"
    | d c w1 r2 where "WriteFileAtomic (pki_file w ''crlnumber'') d perm_0644 w = (Inr (), w1)"
        "WriteFileAtomic (CRLFile w1) c perm_0644 w1 = (r2, w')"
    using assms unfolding GenerateCRL_def by (auto split: sum.splits prod.splits)
  then show ?thesis
  proof cases
    case 2
    show ?thesis by (rule pki_write_within [OF 2])
  next
    case 3
    note f = pki_write_within [OF 3(1)]
    have "frame (prefix (PKIDir w)) w1 w'"
      using pki_write_within [OF 3(2) [unfolded pki_names(1)]] PKIDir_frame [OF f] by simp
    with f show ?thesis by (rule frame_trans)
  qed simp
qed

lemma revokeCertByCN_within:
  assumes "revokeCertByCN C cn w = (r, w')"
  shows "frame (prefix (PKIDir w)) w w'"
proof -
  consider "w' = w" | r1 rows where "writeIndex rows w = (r1, w')"
    | rows w1 r2 where "writeIndex rows w = (Inr (), w1) \<or> w1 = w" "GenerateCRL C w1 = (r2, w')"
    using assms unfolding revokeCertByCN_def Let_def by (auto split: sum.splits prod.splits if_splits) blast+
  then show ?thesis
  proof cases
    case 2
    then show ?thesis using pki_write_within by (simp add: writeIndex_def)
  next
    case 3
    have f: "frame (prefix (PKIDir w)) w w1" using 3(1) pki_write_within by (auto simp: writeIndex_def)
    have "frame (prefix (PKIDir w)) w1 w'" using GenerateCRL_within [OF 3(2)] PKIDir_frame [OF f] by simp
    with f show ?thesis by (rule frame_trans)
  qed simp
qed

lemma open_create_plain:
  assumes "plain w p" and "open_create p m w = (r, w')"
  shows "frame (\<lambda>q. q = p) w w'"
proof -
  have m: "max_links = Suc 39" by (simp add: max_links_def)
  have "link_target max_links (w_fs w) p = Inr p"
    using assms(1) unfolding m link_target.simps by (auto simp: plain_def is_regular_def split: option.splits kind.splits)
  then show ?thesis using assms(2) by (auto simp: open_create_def frame_put split: if_splits option.splits)
qed

definition pki_lock :: "world \<Rightarrow> path" where
  "pki_lock w = pki_file w ''.issue.lock''"

lemma lockPKI_plain:
  assumes "plain w (pki_lock w)" and "lockPKI w = (r, w')"
  shows "frame (\<lambda>q. q = pki_lock w) w w'"
  using assms open_create_plain [of w "pki_lock w" perm_0600]
  by (auto simp: lockPKI_def pki_lock_def split: sum.splits prod.splits if_splits)

lemma RemoveClientMaterial_within:
  assumes "plain w (pki_lock w)" and "RemoveClientMaterial C cn w = (r, w')"
  shows "frame (prefix (PKIDir w)) w w'"
proof (cases "SafeCN cn")
  case (Inl e)
  with assms(2) show ?thesis by (simp add: RemoveClientMaterial_def)
next
  case (Inr s)
  obtain rl w1 where l: "lockPKI w = (rl, w1)" by fastforce
  have f1: "frame (prefix (PKIDir w)) w w1"
    by (rule frame_mono [OF lockPKI_plain [OF assms(1) l]]) (simp add: pki_lock_def pki_file_def)
  show ?thesis
  proof (cases rl)
    case (Inl e)
    with assms(2) l Inr f1 show ?thesis by (simp add: RemoveClientMaterial_def WithPKILock_def)
  next
    case (Inr u)
    obtain r2 w2 where v: "revokeCertByCN C cn w1 = (r2, w2)" by fastforce
    have f2: "frame (prefix (PKIDir w)) w w2"
      using frame_trans [OF f1] revokeCertByCN_within [OF v] PKIDir_frame [OF f1] by simp
    show ?thesis
    proof (cases r2)
      case (Inl e)
      with assms(2) l v \<open>SafeCN cn = Inr s\<close> Inr f2 show ?thesis by (simp add: RemoveClientMaterial_def WithPKILock_def)
    next
      case r2: (Inr u')
      let ?ps = "[IssuedCertPath w2 cn, ClientKeyPath w2 cn, InlineBundlePath w2 cn]"
      have "remove_all_there ?ps w2 = (r, w')"
        using assms(2) l v \<open>SafeCN cn = Inr s\<close> Inr r2 by (simp add: RemoveClientMaterial_def WithPKILock_def)
      from remove_all_there_frame [OF this] have "frame (prefix (PKIDir w)) w2 w'"
        by (rule frame_mono)
          (auto simp: IssuedCertPath_def ClientKeyPath_def InlineBundlePath_def PKIDir_frame [OF f2])
      with f2 show ?thesis by (rule frame_trans)
    qed
  qed
qed

lemma RemoveClientMaterial_gone:
  assumes "RemoveClientMaterial C cn w = (Inr (), w')"
  shows "look w' (IssuedCertPath w cn) = None \<and> look w' (ClientKeyPath w cn) = None"
proof -
  obtain v v' where v: "frame (\<lambda>q. look w q = None) w v" "revokeCertByCN C cn v = (Inr (), v')"
    "remove_all_there [IssuedCertPath v' cn, ClientKeyPath v' cn, InlineBundlePath v' cn] v' = (Inr (), w')"
    using assms unfolding RemoveClientMaterial_def
    by (auto simp del: remove_all_there.simps split: sum.splits prod.splits elim!: WithPKILock_ok)
  have e: "same_env w v'"
    by (rule same_env_trans [OF frame_env [OF v(1)] frame_env [OF revokeCertByCN_within [OF v(2)]]])
  show ?thesis using remove_all_there_gone [OF v(3)] by (simp add: pki_env [OF e])
qed

lemma user_env:
  assumes "same_env w v"
  shows "UsersDir v = UsersDir w" and "OpenVPNRoot v = OpenVPNRoot w"
  using assms by (simp_all add: UsersDir_def OpenVPNRoot_def envPath_def OVNodeDir_env envOr_same Let_def)

lemma PKI_under_root: "prefix (OpenVPNRoot w) (PKIDir w)"
  by (simp add: PKIDir_def joinRoot_def)

lemma revoke_and_remove_error:
  assumes "plain w (pki_lock w)" and "revoke_and_remove C cn w = (Some (b, Some e), w')"
  shows "frame (prefix (OpenVPNRoot w)) w w'"
proof -
  obtain r1 w1 where r1: "RemoveClientMaterial C cn w = (r1, w1)" by fastforce
  have f1: "frame (prefix (OpenVPNRoot w)) w w1"
    by (rule frame_mono [OF RemoveClientMaterial_within [OF assms(1) r1]]) (use PKI_under_root prefix_order.trans in blast)
  show ?thesis
  proof (cases r1)
    case (Inl e1)
    with assms(2) r1 f1 show ?thesis by (simp add: revoke_and_remove_def)
  next
    case (Inr u)
    obtain r2 w2 where r2: "remove_if_there (OpenVPNRoot w1 @ [''ccd'', cn]) w1 = (r2, w2)" by fastforce
    have "frame (prefix (OpenVPNRoot w)) w1 w2"
      by (rule frame_mono [OF remove_if_there_frame [OF r2]]) (simp add: user_env(2) [OF frame_env [OF f1]])
    with f1 have f2: "frame (prefix (OpenVPNRoot w)) w w2" by (rule frame_trans)
    have "w' = w2"
      using assms(2) r1 r2 Inr by (auto simp: revoke_and_remove_def DeleteUser_def os_RemoveAll_def split: sum.splits if_splits)
    with f2 show ?thesis by simp
  qed
qed

section \<open>A policy update\<close>

lemma policy_locked_frame:
  assumes "policy_locked ud d cn name limit disabled v = (Inr (), w')"
  shows "frame (\<lambda>q. \<exists>n. q = d @ [n]) v w'"
proof -
  let ?P = "\<lambda>q. \<exists>n. q = d @ [n]"
  obtain m w1 where wr: "WriteFileAtomic (d @ [''state'']) (policy_body m) perm_0640 v = (Inr (), w1)"
    and rm: "remove_legacy d [''limit'', ''disabled'', ''name''] (InvalidateNameCache w1) = (Inr (), w')"
    using assms by (auto simp: policy_locked_def Let_def split: prod.splits sum.splits)
  have "frame ?P v w1" unfolding WriteFileAtomic_ok [OF wr] by (rule frame_put) blast
  moreover have "frame ?P (InvalidateNameCache w1) w'"
    using conjunct1 [OF remove_legacy_ok [OF rm]] by (rule frame_mono) blast
  ultimately show ?thesis
    using frame_trans [OF frame_trans [OF _ frame_InvalidateNameCache]] by blast
qed

lemma WriteUserPolicy_effect:
  assumes "SafeCN cn = Inr safe" and "dir_ready w (ud @ [safe])"
    and "WriteUserPolicy ud cn name limit disabled w = (Inr (), w')"
  shows "dir_ready w' (ud @ [safe])" and "same_env w w'"
    and "(\<nexists>n. q = ud @ [safe, n]) \<Longrightarrow> shape w' q = shape w q"
proof -
  let ?d = "ud @ [safe]"
  obtain w1 where c: "CreateUser ud cn w = (Inr (), w1)"
    and l: "Lock (?d @ [''.state.lock'']) perm_0600 (policy_locked ud ?d cn name limit disabled) w1 = (Inr (), w')"
    using assms(1,3) by (auto simp: WriteUserPolicy_def UserDir_def split: prod.splits sum.splits)
  have m: "mode_change w w1" by (rule CreateUser_ready [OF assms(1,2) c])
  from l obtain v where v: "policy_locked ud ?d cn name limit disabled v = (Inr (), w')"
    and f: "frame (\<lambda>q. q = ?d @ [''.state.lock'']) w1 v"
    by (cases rule: Lock_cases) auto
  have "frame (\<lambda>q. \<exists>n. q = ?d @ [n]) w1 v" using f by (rule frame_mono) blast
  from frame_trans [OF this policy_locked_frame [OF v]] have f2: "frame (\<lambda>q. \<exists>n. q = ?d @ [n]) w1 w'" .
  show "dir_ready w' ?d"
    using dir_ready_children [OF f2, of ?d] mode_change_dir_ready [OF m] assms(2) by blast
  show "same_env w w'" using m frame_env [OF f2] same_env_trans by (auto simp: mode_change_def)
  show "shape w' q = shape w q" if "\<nexists>n. q = ud @ [safe, n]"
    using frame_shape [OF f2, of q] that m by (auto simp: mode_change_def)
qed

lemma plain_shape: "shape v p = shape w p \<Longrightarrow> plain v p = plain w p"
  by (cases "look v p"; cases "look w p") (auto simp: shape_def plain_def is_regular_def)

lemma read_shape:
  assumes "plain w p" and "shape v p = shape w p" and "same_env w v"
  shows "os_ReadFile v p = os_ReadFile w p"
proof -
  have "w_fault v = w_fault w" using assms(3) by (simp add: same_env_def)
  then show ?thesis using assms(1,2) plain_shape [OF assms(2)]
    by (cases "look v p"; cases "look w p") (auto simp: shape_def plain_ReadFile)
qed

section \<open>Deletions that fail\<close>

text \<open>The tree of OpenVPN and the users live in different places.\<close>

definition apart :: "path \<Rightarrow> path \<Rightarrow> bool" where
  "apart a b \<longleftrightarrow> \<not> prefix a b \<and> \<not> prefix b a"

lemma apart_below: "apart a b \<Longrightarrow> prefix a q \<Longrightarrow> \<not> prefix b q"
  unfolding apart_def using prefix_same_cases by blast

lemma apart_users:
  assumes "apart root users"
  shows "prefix root q \<Longrightarrow> \<nexists>n. q = users @ [cn, n]" and "prefix q (users @ [cn]) \<Longrightarrow> \<not> prefix root q"
    and "\<not> prefix root (users @ [cn, n])"
proof -
  show "prefix root q \<Longrightarrow> \<nexists>n. q = users @ [cn, n]" "\<not> prefix root (users @ [cn, n])"
    using apart_below [OF assms] by fastforce+
  show "\<not> prefix root q" if "prefix q (users @ [cn])"
    using that apart_below [OF assms, of "users @ [cn]"] prefix_order.trans by fastforce
qed

lemma ReadUserState_outside:
  assumes "SafeCN cn = Inr safe" and "dir_ready w (users @ [safe])" and "frame (prefix root) w w'" and "apart root users"
  shows "ReadUserState w' users cn = ReadUserState w users cn"
proof (rule ReadUserState_cong [OF assms(1,2)])
  show "dir_ready w' (users @ [safe])"
    using dir_ready_frame [OF assms(3)] apart_users(2) [OF assms(4)] assms(2) by blast
  show "w_fault w' = w_fault w" by (rule frame_fault [OF assms(3)])
  show "shape w' (users @ [safe, n]) = shape w (users @ [safe, n])" for n
    using frame_shape [OF assms(3)] apart_users(3) [OF assms(4)] by blast
qed

lemma drop_sessions_world: "drop_sessions M cn w = (r, w') \<Longrightarrow> w' = w"
  by (auto simp: drop_sessions_def DisconnectUser_def Let_def case_prod_beta split: option.splits if_splits prod.splits)

lemma disable_and_drop_ok:
  assumes "SetDisabled (UsersDir w) cn True w = (Inr (), v)" and "disable_and_drop M cn continue w = (Some x, w')"
  shows "continue v = (Some x, w')"
  using assms drop_sessions_world [of M cn v] by (auto simp: disable_and_drop_def split: option.splits prod.splits)

lemma SetDisabled_ok:
  assumes "SafeCN cn = Inr safe" and "dir_ready w (ud @ [safe])" and "ReadUserState w ud cn = Inr cur"
    and "readable_file w (ud @ [safe, ''state''])" and "SetDisabled ud cn True w = (Inr (), v)"
  shows "\<exists>st. ReadUserState v ud cn = Inr st \<and> us_disabled st"
proof -
  have wr: "WriteUserPolicy ud cn None None (Some True) w = (Inr (), v)"
    using assms(5) by (simp add: SetDisabled_def WriteUserState_def)
  show ?thesis
    by (rule WriteUserPolicy_ok [OF assms(1-3) wr _ assms(4)])
      (auto simp: stored_policy_def merge_policy_def Let_def)
qed


section \<open>Deletions that succeed\<close>

lemma SetDisabled_of_delete:
  assumes "UserDir (UsersDir w) cn = Inr dir" and "deleteUserLocked M C cn w = (Some (True, None), w')"
  obtains v where "SetDisabled (UsersDir w) cn True w = (Inr (), v)" and "revoke_and_remove C cn v = (Some (True, None), w')"
proof -
  have d: "\<exists>v. SetDisabled (UsersDir w) cn True w = (Inr (), v) \<and> continue v = (Some (True, None), w')"
    if "disable_and_drop M cn continue w = (Some (True, None), w')" for continue
  proof -
    obtain r v where r: "SetDisabled (UsersDir w) cn True w = (r, v)" by fastforce
    with that have "r = Inr ()" by (cases r) (simp_all add: disable_and_drop_def)
    with r disable_and_drop_ok [OF _ that] show ?thesis by simp
  qed
  consider e' where "disable_and_drop M cn (\<lambda>w. (Some (True, Some e'), w)) w = (Some (True, None), w')"
    | "disable_and_drop M cn (revoke_and_remove C cn) w = (Some (True, None), w')"
    using assms by (auto simp: deleteUserLocked_def split: sum.splits bool.splits if_splits prod.splits)
  then show thesis
  proof cases
    case (1 e')
    from d [OF 1] show thesis by simp
  next
    case 2
    from d [OF 2] that show thesis by blast
  qed
qed

lemma os_RemoveAll_ok:
  assumes "os_RemoveAll p w = (Inr u, w')"
  shows "frame (prefix p) w w'" and "prefix p q \<Longrightarrow> look w' q = None"
  using assms by (auto simp: os_RemoveAll_def frame_def same_env_def split: if_splits)

lemma ccd_outside_pki: "\<not> prefix (PKIDir w) (OpenVPNRoot w @ [''ccd'', cn])"
  by (simp add: PKIDir_def joinRoot_def)

lemma remove_user_rest:
  assumes "remove_if_there (OpenVPNRoot w @ [''ccd'', cn]) w = (Inr (), w1)"
    and "DeleteUser users None None cn w1 = (Inr (), w')" and "StoreKeyRe cn" and "apart (OpenVPNRoot w) users"
  shows "frame (\<lambda>q. \<not> prefix (PKIDir w) q) w w'" and "prefix (users @ [cn]) q \<Longrightarrow> look w' q = None"
proof -
  obtain w2 where d: "os_RemoveAll (users @ [cn]) w1 = (Inr (), w2)" "w' = InvalidateNameCache w2"
    using assms(2,3) by (auto simp: DeleteUser_def UserDir_def split: sum.splits prod.splits)
  have f1: "frame (\<lambda>q. \<not> prefix (PKIDir w) q) w w1"
    by (rule frame_mono [OF remove_if_there_frame [OF assms(1)]]) (use ccd_outside_pki in auto)
  have "\<not> prefix (PKIDir w) q" if "prefix (users @ [cn]) q" for q
  proof
    assume "prefix (PKIDir w) q"
    then have "prefix (OpenVPNRoot w) q" using PKI_under_root prefix_order.trans by blast
    moreover have "prefix users q" using that append_prefixD by blast
    ultimately show False using apart_below [OF assms(4)] by blast
  qed
  then have f2: "frame (\<lambda>q. \<not> prefix (PKIDir w) q) w1 w2" by (rule frame_mono [OF os_RemoveAll_ok(1) [OF d(1)]])
  show "frame (\<lambda>q. \<not> prefix (PKIDir w) q) w w'"
    unfolding d(2) using frame_trans [OF frame_trans [OF f1 f2] frame_InvalidateNameCache] .
  show "prefix (users @ [cn]) q \<Longrightarrow> look w' q = None" using os_RemoveAll_ok(2) [OF d(1)] by (simp add: d(2))
qed

text \<open>The tree a deletion works on: regular files, and the CA loads.\<close>

definition pki_ready :: "crypto \<Rightarrow> cert \<times> pkey \<Rightarrow> row list \<Rightarrow> world \<Rightarrow> bool" where
  "pki_ready C ca rows w \<longleftrightarrow> plain w (index_file w) \<and> readIndex w = Inr rows \<and> ca_files_plain w
     \<and> loadCASigner C w = Inr ca \<and> apart (OpenVPNRoot w) (UsersDir w)"

lemma pki_ready_shape:
  assumes "pki_ready C ca rows w" and "same_env w v" and "\<And>q. prefix (OpenVPNRoot w) q \<Longrightarrow> shape v q = shape w q"
  shows "pki_ready C ca rows v"
proof -
  note p = pki_env [OF assms(2)]
  have s: "shape v (pki_file w n) = shape w (pki_file w n)" "shape v (CAKey w) = shape w (CAKey w)" for n
    by (rule assms(3); simp add: pki_file_def CAKey_def PKIDir_def joinRoot_def)+
  have pl: "plain w (pki_file w ''index.txt'')" "plain w (pki_file w ''ca.crt'')" "plain w (CAKey w)"
    using assms(1) by (simp_all add: pki_ready_def index_file_def ca_files_plain_def pki_names)
  note r = read_shape [OF pl(1) s(1) assms(2)] read_shape [OF pl(2) s(1) assms(2)] read_shape [OF pl(3) s(2) assms(2)]
  have "plain v (index_file v)" "ca_files_plain v"
    using plain_shape [OF s(1)] plain_shape [OF s(2)] pl
    by (simp_all add: index_file_def ca_files_plain_def p pki_names(2) [of w])
  moreover have "readIndex v = readIndex w" unfolding readIndex_def p r(1) ..
  moreover have "loadCASigner C v = loadCASigner C w"
    by (rule loadCASigner_same [OF assms(2)]) (simp_all add: r pki_names(2))
  ultimately show ?thesis using assms(1) user_env [OF assms(2)] by (simp add: pki_ready_def)
qed

text \<open>
  C6. A deleted user cannot come back with an old certificate. When \<open>deleteUserLocked\<close> reports that it
  deleted a user (other than \<open>ca\<close>) without an error, nothing is left of the user's directory and of
  its material in the PKI tree, the index marks every certificate of that name revoked and has the
  other rows as before, and the revocation list that OpenVPN checks carries the CA's signature and
  lists every serial ever issued to that name.
\<close>

theorem deleted_user_revoked:
  assumes "deleteUserLocked M C cn w = (Some (True, None), w')" and "StoreKeyRe cn" and "cn \<noteq> ''ca''"
    and "dir_ready w (UsersDir w @ [cn])" and "pki_ready C (ca, key) rows w"
  shows "(\<forall>q. prefix (UsersDir w @ [cn]) q \<longrightarrow> look w' q = None) \<and>
    look w' (IssuedCertPath w cn) = None \<and> look w' (ClientKeyPath w cn) = None \<and> look w' (InlineBundlePath w cn) = None \<and>
    readIndex w' = Inr (mark_revoked (format_time (w_now w)) cn rows) \<and>
    (\<forall>row \<in> set (mark_revoked (format_time (w_now w)) cn rows). indexHasCN row cn \<longrightarrow> row ! 0 = ''R'') \<and>
    (\<exists>list. readCRL C w' = Inr list \<and> CRL_CheckSignatureFrom C list ca = Inr () \<and>
      (\<forall>row \<in> set rows. indexHasCN row cn \<longrightarrow> row_serial row \<in> set (map re_serial (cl_entries list))))"
proof -
  have cn: "SafeCN cn = Inr cn" "UserDir (UsersDir w) cn = Inr (UsersDir w @ [cn])" using assms(2) by (simp_all add: UserDir_def)
  from SetDisabled_of_delete [OF cn(2) assms(1)] obtain v where v: "SetDisabled (UsersDir w) cn True w = (Inr (), v)"
    "revoke_and_remove C cn v = (Some (True, None), w')" by blast
  have wr: "WriteUserPolicy (UsersDir w) cn None None (Some True) w = (Inr (), v)"
    using v(1) by (simp add: SetDisabled_def WriteUserState_def)
  note ef = WriteUserPolicy_effect [OF cn(1) assms(4) wr]
  have ap: "apart (OpenVPNRoot w) (UsersDir w)" using assms(5) by (simp add: pki_ready_def)
  have rv: "pki_ready C (ca, key) rows v"
    by (rule pki_ready_shape [OF assms(5) ef(2)]) (use ef(3) apart_users(1) [OF ap] in blast)
  from v(2) obtain x y z where s: "RemoveClientMaterial C cn v = (Inr (), x)"
    "remove_if_there (OpenVPNRoot x @ [''ccd'', cn]) x = (Inr (), y)"
    "DeleteUser (UsersDir y) None None cn y = (Inr (), z)" "w' = InvalidateNameCache z"
    by (auto simp: revoke_and_remove_def split: sum.splits prod.splits)
  have now: "w_now v = w_now w" using ef(2) by (simp add: same_env_def)
  have rc: "readIndex x = Inr (mark_revoked (format_time (w_now w)) cn rows) \<and>
    (\<forall>row \<in> set (mark_revoked (format_time (w_now w)) cn rows). indexHasCN row cn \<longrightarrow> row ! 0 = ''R'') \<and>
    (\<exists>list. readCRL C x = Inr list \<and> CRL_CheckSignatureFrom C list ca = Inr () \<and>
      (\<forall>row \<in> set rows. indexHasCN row cn \<longrightarrow> row_serial row \<in> set (map re_serial (cl_entries list)))) \<and>
    look x (IssuedCertPath v cn) = None \<and> look x (ClientKeyPath v cn) = None \<and> look x (InlineBundlePath v cn) = None \<and>
    loadCASigner C x = Inr (ca, key) \<and> plain x (index_file x) \<and> plain x (CRLFile x) \<and> same_env v x"
    using removed_client_revoked [OF s(1) _ _ _ _ assms(3), of rows ca key] rv unfolding now pki_ready_def by blast
  have ex: "same_env w x" using rc same_env_trans [OF ef(2)] by blast
  note px = pki_env [OF ex] and pv = pki_env [OF ef(2)] and ux = user_env [OF ex]
  have ey: "same_env x y" by (rule frame_env [OF remove_if_there_frame [OF s(2)]])
  have uy: "UsersDir y = UsersDir w" using user_env(1) [OF ey] ux(1) by simp
  note rest = remove_user_rest [OF s(2) s(3) [unfolded uy] assms(2) ap [folded ux(2)]]
  have fz: "frame (\<lambda>q. \<not> prefix (PKIDir x) q) x w'"
    unfolding s(4) by (rule frame_trans [OF rest(1) frame_InvalidateNameCache])
  have gone: "look w' q = None" if "prefix (UsersDir w @ [cn]) q" for q using rest(2) [OF that] by (simp add: s(4))
  have keep: "look w' q = look x q" if "prefix (PKIDir w) q" for q
    using frame_look [OF fz] that px(1) by simp
  have "look w' (IssuedCertPath w cn) = None \<and> look w' (ClientKeyPath w cn) = None \<and> look w' (InlineBundlePath w cn) = None"
    using rc keep unfolding pv by (simp add: IssuedCertPath_def ClientKeyPath_def InlineBundlePath_def)
  moreover have "readIndex w' = Inr (mark_revoked (format_time (w_now w)) cn rows)"
    by (rule readIndex_frame(2) [OF _ _ fz]) (use rc in \<open>simp_all add: index_file_def pki_file_def\<close>)
  moreover have "readCRL C w' = readCRL C x"
  proof -
    have "os_ReadFile w' (CRLFile x) = os_ReadFile x (CRLFile x)"
      by (rule read_frame [OF _ fz]) (use rc in \<open>simp_all add: CRLFile_def\<close>)
    then show ?thesis unfolding readCRL_def pki_env(3) [OF frame_env [OF fz]] by simp
  qed
  ultimately show ?thesis using rc gone by simp
qed

section \<open>Losing the race\<close>

lemma Lock_uniform:
  "(\<exists>e v. \<forall>fn :: 'a io. Lock p m fn w = (Inl e, v)) \<or> (\<exists>v. \<forall>fn :: 'a io. Lock p m fn w = fn v)"
proof (cases "OpenFileNoFollow p True m w")
  case (Pair a w1)
  show ?thesis
  proof (cases a)
    case (Inl e)
    with Pair show ?thesis by (simp add: Lock_def)
  next
    case (Inr nd)
    consider "fault w1 OpFlock p \<or> fault w1 OpStat p \<or> n_mode nd \<noteq> m \<and> fault w1 OpChmod p"
      | "\<not> fault w1 OpFlock p" "\<not> fault w1 OpStat p" "n_mode nd = m"
      | "\<not> fault w1 OpFlock p" "\<not> fault w1 OpStat p" "n_mode nd \<noteq> m" "\<not> fault w1 OpChmod p" by blast
    then show ?thesis
    proof cases
      case 1
      then have "\<exists>e. \<forall>fn :: 'a io. Lock p m fn w = (Inl e, w1)" using Pair Inr by (auto simp: Lock_def)
      then show ?thesis by blast
    next
      case 2
      then have "\<forall>fn :: 'a io. Lock p m fn w = fn w1" using Pair Inr by (simp add: Lock_def)
      then show ?thesis by blast
    next
      case 3
      then have "\<forall>fn :: 'a io. Lock p m fn w = fn (put p (nd\<lparr>n_mode := m\<rparr>) w1)" using Pair Inr by (simp add: Lock_def)
      then show ?thesis by blast
    qed
  qed
qed

text \<open>Either the call is refused before it waits for the lock, or it runs after the rival, if at all.\<close>

lemma withUserLifecycle_cases:
  assumes "UserDir (UsersDir w) cn = Inr dir" and "generation w dir cn = Inr previous"
  shows "(\<exists>e v. \<forall>rival (fn :: 'a io). withUserLifecycle rival same cn fn w = (Inl e, v)) \<or>
    (\<exists>v. \<forall>rival (fn :: 'a io). withUserLifecycle rival same cn fn w =
       (case same_generation same previous (rival v) of Inl e \<Rightarrow> (Inl e, rival v) | Inr _ \<Rightarrow> fn (rival v)))"
proof (cases "if w_euid w = 0 then RuntimeGroupID w else Inr (w_egid w)")
  case (Inl e)
  then show ?thesis using assms by (simp add: withUserLifecycle_def)
next
  case (Inr gid)
  obtain r1 w1 where r1: "MkdirAllNoFollow (UsersDir w) perm_0750 w = (r1, w1)" by fastforce
  obtain r2 w2 where r2: "SetPermissions (UsersDir w) perm_2750 (w_euid w1) gid w1 = (r2, w2)" by fastforce
  show ?thesis
  proof (cases "isl r1 \<or> isl r2")
    case True
    then show ?thesis using assms Inr r1 r2 by (cases r1; cases r2) (simp_all add: withUserLifecycle_def)
  next
    case False
    then have u: "withUserLifecycle rival same cn fn w = Lock (UsersDir w @ [''.lifecycle.'' @ cn]) perm_0600
        (\<lambda>w. let w = rival w in case same_generation same previous w of Inl e \<Rightarrow> (Inl e, w) | Inr _ \<Rightarrow> fn w) w2"
      for rival and fn :: "'a io"
      using assms Inr r1 r2 by (cases r1; cases r2) (simp_all add: withUserLifecycle_def)
    from Lock_uniform [of "UsersDir w @ [''.lifecycle.'' @ cn]" perm_0600 w2] show ?thesis
    proof
      assume "\<exists>e v. \<forall>fn :: 'a io. Lock (UsersDir w @ [''.lifecycle.'' @ cn]) perm_0600 fn w2 = (Inl e, v)"
      then show ?thesis unfolding u by blast
    next
      assume "\<exists>v. \<forall>fn :: 'a io. Lock (UsersDir w @ [''.lifecycle.'' @ cn]) perm_0600 fn w2 = fn v"
      then obtain v where "\<And>fn :: 'a io. Lock (UsersDir w @ [''.lifecycle.'' @ cn]) perm_0600 fn w2 = fn v" by blast
      then show ?thesis unfolding u Let_def by auto
    qed
  qed
qed

text \<open>
  C8. An operation on a user that another process deleted or replaced does nothing. Suppose the
  user's directory is there when the operation starts, and by the time it holds the lifecycle lock
  the directory is gone or is another one. Then no operation runs: the call ends in an error that
  does not depend on what was to be done, and leaves either what the other process left or, when it
  was refused before it could wait, a world that does not depend on the other process.
\<close>

theorem lost_race_does_nothing:
  assumes "StoreKeyRe cn" and "open_dir w (UsersDir w @ [cn]) = Inr ()"
    and "\<not> same (UsersDir w @ [cn]) \<or> (\<forall>v. look (rival v) (UsersDir w @ [cn]) = None)"
  shows "\<exists>e w'. (\<forall>fn :: 'a io. withUserLifecycle rival same cn fn w = (Inl e, w')) \<and>
    ((\<exists>v. w' = rival v) \<or> (\<forall>rival' (fn :: 'a io). withUserLifecycle rival' same cn fn w = (Inl e, w')))"
proof -
  let ?d = "UsersDir w @ [cn]"
  have d: "UserDir (UsersDir w) cn = Inr ?d" using assms(1) by (simp add: UserDir_def)
  have g: "generation w ?d cn = stat_open w ?d" using assms(2) by (simp add: generation_def)
  show ?thesis
  proof (cases "stat_open w ?d")
    case (Inl e)
    then show ?thesis using d g by (simp add: withUserLifecycle_def)
  next
    case (Inr previous)
    then have p: "previous = Some ?d" by (simp add: stat_open_def split: if_splits)
    have lost: "\<exists>e. same_generation same previous (rival v) = Inl e" for v
      using assms(3) by (auto simp: p same_generation_def os_Lstat_def split: sum.splits option.splits)
    from withUserLifecycle_cases [OF d g [unfolded Inr], of same] show ?thesis
    proof
      assume "\<exists>e v. \<forall>rival (fn :: 'a io). withUserLifecycle rival same cn fn w = (Inl e, v)"
      then show ?thesis by blast
    next
      assume "\<exists>v. \<forall>rival (fn :: 'a io). withUserLifecycle rival same cn fn w =
        (case same_generation same previous (rival v) of Inl e \<Rightarrow> (Inl e, rival v) | Inr _ \<Rightarrow> fn (rival v))"
      then obtain v where v: "withUserLifecycle rival same cn fn w =
        (case same_generation same previous (rival v) of Inl e \<Rightarrow> (Inl e, rival v) | Inr _ \<Rightarrow> fn (rival v))" for fn :: "'a io" by blast
      from lost [of v] v show ?thesis by auto
    qed
  qed
qed

section \<open>Names the tree shares\<close>

text \<open>
  C32. Two user names lead to the node's own keys. The names \<open>ca\<close> and \<open>server\<close> pass the validation of
  user names; the client key of \<open>ca\<close> is the private key of the CA, and the certificate and key of
  \<open>server\<close> are those of the VPN server. So, when such a user has no pushed key of its own, the key
  that goes into its profile is the key of the CA or of the server, and the deletion of \<open>server\<close>
  removes the certificate and the key of the server.
\<close>

theorem reserved_names_share_keys:
  assumes "os_ReadFile w (dir @ [''key.pem'']) = Inl e"
  shows "SafeCN ''ca'' = Inr ''ca'' \<and> SafeCN ''server'' = Inr ''server'' \<and>
    (os_ReadFile w (CAKey w) = Inr k \<longrightarrow> p_key (user_parts w dir ''ca'') = TrimSpace k) \<and>
    (os_ReadFile w (ServerKey w) = Inr k \<longrightarrow> p_key (user_parts w dir ''server'') = TrimSpace k) \<and>
    (RemoveClientMaterial C ''server'' w = (Inr (), w') \<longrightarrow> look w' (ServerCert w) = None \<and> look w' (ServerKey w) = None)"
proof -
  have "StoreKeyRe ''ca''" "StoreKeyRe ''server''" by code_simp+
  moreover have "ClientKeyPath w ''ca'' = CAKey w" "ClientKeyPath w ''server'' = ServerKey w" "IssuedCertPath w ''server'' = ServerCert w"
    by (simp_all add: ClientKeyPath_def CAKey_def ServerKey_def IssuedCertPath_def ServerCert_def)
  moreover have "look w' (IssuedCertPath w ''server'') = None \<and> look w' (ClientKeyPath w ''server'') = None"
    if "RemoveClientMaterial C ''server'' w = (Inr (), w')"
    by (rule RemoveClientMaterial_gone [OF that])
  ultimately show ?thesis using assms by (simp add: user_parts_def)
qed

section \<open>Instances\<close>

definition quiet_mgmt :: mgmt where
  "quiet_mgmt = \<lparr>mg_peer = silent_peer, mg_running = False, mg_port = 7505\<rparr>"

definition sample_vars :: "string \<Rightarrow> string option" where
  "sample_vars = [''OVNODE_OPENVPN_ROOT'' \<mapsto> ''/o'', ''OVNODE_USERS_DIR'' \<mapsto> ''/v'', ''OVNODE_RUNTIME_GROUP'' \<mapsto> ''7'']"

text \<open>A node with the user \<open>bob\<close>, once with and once without the key of the CA.\<close>

definition bob_node :: "bool \<Rightarrow> world" where
  "bob_node with_key = (sample_world
     ([root_dir [''v''], root_dir [''v'', ''bob''], root_dir [''o''], root_dir [''o'', ''server''],
       root_dir [''o'', ''server'', ''pki''],
       root_file [''o'', ''server'', ''pki'', ''ca.crt''] (''CERTIFICATE'' @ [NL] @ ''1,CA''),
       root_file [''o'', ''server'', ''pki'', ''index.txt''] (index_body [bob_row, eve_row]),
       root_file [''v'', ''bob'', ''cert.pem''] (''CERTIFICATE'' @ [NL] @ ''F,bob'')]
      @ (if with_key then [root_dir [''o'', ''server'', ''pki'', ''private''],
           root_file [''o'', ''server'', ''pki'', ''private'', ''ca.key''] ''secret''] else [])))\<lparr>w_env := sample_vars\<rparr>"

definition deletion :: "bool \<Rightarrow> found \<times> world" where
  "deletion with_key = deleteUserLocked quiet_mgmt plain_crypto ''bob'' (bob_node with_key)"

lemma deletion_succeeds: "fst (deletion True) = Some (True, None)"
  by code_simp

lemma deletion_fails: "fst (deletion False) = Some (True, Some NotExist)"
  by code_simp

lemma bob_node_dirs:
  "UsersDir (bob_node True) = [''v'']" "UsersDir (bob_node False) = [''v'']"
  "apart (OpenVPNRoot (bob_node True)) [''v'']" "apart (OpenVPNRoot (bob_node False)) [''v'']"
  by code_simp+

lemma bob_node_facts:
  "StoreKeyRe ''bob''" "''bob'' \<noteq> ''ca''" "UsersDir (bob_node b) = [''v'']" "apart (OpenVPNRoot (bob_node b)) [''v'']"
proof -
  show "StoreKeyRe ''bob''" by code_simp
  show "''bob'' \<noteq> ''ca''" by simp
  show "UsersDir (bob_node b) = [''v'']" "apart (OpenVPNRoot (bob_node b)) [''v'']"
    using bob_node_dirs by (cases b; simp)+
qed

lemma bob_node_ready: "dir_ready (bob_node True) [''v'', ''bob'']" "dir_ready (bob_node False) [''v'', ''bob'']"
  by code_simp+

lemma bob_node_state: "ReadUserState (bob_node False) [''v''] ''bob'' = Inr no_state"
  "readable_file (bob_node False) [''v'', ''bob'', ''state'']" "plain (bob_node False) (pki_lock (bob_node False))"
  "is_ok (SetDisabled [''v''] ''bob'' True (bob_node False))"
  by code_simp+

definition node_ca :: "cert \<times> pkey" where
  "node_ca = projr (loadCASigner plain_crypto (bob_node True))"

lemma bob_node_pki: "pki_ready plain_crypto (fst node_ca, snd node_ca) [bob_row, eve_row] (bob_node True)"
proof -
  have "\<not> isl (loadCASigner plain_crypto (bob_node True))" by code_simp
  then have "loadCASigner plain_crypto (bob_node True) = Inr (fst node_ca, snd node_ca)"
    by (cases "loadCASigner plain_crypto (bob_node True)") (simp_all add: node_ca_def)
  moreover have "plain (bob_node True) (index_file (bob_node True))" "ca_files_plain (bob_node True)"
    "readIndex (bob_node True) = Inr [bob_row, eve_row]" by code_simp+
  ultimately show ?thesis using bob_node_facts(3,4) by (simp add: pki_ready_def)
qed


theorem deleted_user_revoked_witness:
  "look (snd (deletion True)) [''v'', ''bob''] = None \<and>
   (\<exists>list. readCRL plain_crypto (snd (deletion True)) = Inr list \<and> row_serial bob_row \<in> set (map re_serial (cl_entries list)))"
proof -
  let ?w = "bob_node True"
  have d: "deleteUserLocked quiet_mgmt plain_crypto ''bob'' ?w = (Some (True, None), snd (deletion True))"
    using deletion_succeeds unfolding deletion_def [symmetric] by (metis prod.collapse)
  have "indexHasCN bob_row ''bob''" by code_simp
  then show ?thesis
    using deleted_user_revoked [OF d bob_node_facts(1,2) _ bob_node_pki] bob_node_ready(1)
    unfolding bob_node_facts(3) by auto
qed

text \<open>The directory of \<open>bob\<close> is deleted while a request waits.\<close>

theorem lost_race_does_nothing_witness:
  "\<exists>e w'. \<forall>fn :: unit io. withUserLifecycle (del [''v'', ''bob'']) (\<lambda>_. True) ''bob'' fn (bob_node True) = (Inl e, w')"
proof -
  have o: "open_dir (bob_node True) (UsersDir (bob_node True) @ [''bob'']) = Inr ()"
    unfolding bob_node_facts(3) by code_simp
  have "\<forall>v. look (del [''v'', ''bob''] v) (UsersDir (bob_node True) @ [''bob'']) = None"
    unfolding bob_node_facts(3) by simp
  with lost_race_does_nothing [OF bob_node_facts(1) o, of "\<lambda>_. True" "del [''v'', ''bob'']"] show ?thesis by blast
qed

theorem reserved_names_share_keys_witness:
  "p_key (user_parts (bob_node True) [''v'', ''ca''] ''ca'') = ''secret''"
proof -
  have r: "os_ReadFile (bob_node True) ([''v'', ''ca''] @ [''key.pem'']) = Inl NotExist" by code_simp
  have k: "os_ReadFile (bob_node True) (CAKey (bob_node True)) = Inr ''secret''" by code_simp
  have "TrimSpace ''secret'' = ''secret''" by code_simp
  with reserved_names_share_keys [OF r, of "''secret''"] k show ?thesis by simp
qed

end
