(* ===== verification/Pkisetup.thy ===== *)
theory Pkisetup
  imports Users Netip Serverconf
begin

text \<open>
  Setting up the PKI of a node: \<open>src/internal/pki/easyrsa.go\<close>, \<open>setup.go\<close>, the server certificate
  (\<open>RenewServerCertificateNative\<close> of \<open>ca.go\<close>, \<open>RenewServerCert\<close> and \<open>CertExpiry\<close> of \<open>client.go\<close>) and
  \<open>InitPKI\<close> of \<open>src/internal/ovpn/pki.go\<close>.

  Programs are arguments: \<open>run\<close> is a run of the easy-rsa script with its arguments (killed after its
  timeout), \<open>openvpn\<close> a run of OpenVPN, \<open>dpkg\<close> the output of \<open>dpkg -L easy-rsa\<close>. The theorems hold for
  every such program.
\<close>

section \<open>Package os and filepath\<close>

text \<open>\<open>os.WriteFile\<close>: follows links, truncates an existing file and keeps its mode.\<close>

definition write_opened :: "path \<Rightarrow> node \<Rightarrow> path \<Rightarrow> string \<Rightarrow> unit io" where
  "write_opened q nd p data w =
     (if fault w OpWrite p then (Inl (Fault OpWrite), put q (nd\<lparr>n_kind := Reg []\<rparr>) w)
      else if fault w OpClose p then (Inl (Fault OpClose), put q (nd\<lparr>n_kind := Reg data\<rparr>) w)
      else (Inr (), put q (nd\<lparr>n_kind := Reg data\<rparr>) w))"

definition os_WriteFile :: "path \<Rightarrow> string \<Rightarrow> perm \<Rightarrow> unit io" where
  "os_WriteFile p data perm w =
     (if fault w OpOpen p then (Inl (Fault OpOpen), w)
      else case link_target max_links (w_fs w) p of
        Inl e \<Rightarrow> (Inl e, w)
      | Inr q \<Rightarrow> (case look w q of
            Some nd \<Rightarrow> if is_dir nd then (Inl (Err ''is a directory''), w) else write_opened q nd p data w
          | None \<Rightarrow> (case look w (butlast q) of
                Some d \<Rightarrow> if is_dir d then write_opened q (new_file w (butlast q) perm []) p data w
                           else (Inl (Err ''not a directory''), w)
              | None \<Rightarrow> (Inl NotExist, w))))"

text \<open>
  \<open>filepath.Walk\<close>: the callback gets the path, what \<open>lstat\<close> said, and the error. No callback of the
  program returns \<open>SkipDir\<close>. A path of more than 4095 components is longer than Linux allows.
\<close>

type_synonym visit = "path \<Rightarrow> node option \<Rightarrow> err option \<Rightarrow> unit io"

definition max_depth :: nat where "max_depth = 4095"

definition walk_lstat :: "world \<Rightarrow> path \<Rightarrow> string \<Rightarrow> node res" where
  "walk_lstat w p n = (if max_depth \<le> length p then Inl (Err ''file name too long'') else os_Lstat w (p @ [n]))"

function walk :: "visit \<Rightarrow> path \<Rightarrow> node \<Rightarrow> unit io"
  and walk_names :: "visit \<Rightarrow> path \<Rightarrow> string list \<Rightarrow> unit io" where
  "walk visit p nd w =
     (if \<not> is_dir nd then visit p (Some nd) None w
      else case os_ReadDir w p of
        Inl e \<Rightarrow> visit p (Some nd) (Some e) w
      | Inr entries \<Rightarrow> (case visit p (Some nd) None w of
            (Inl e, w) \<Rightarrow> (Inl e, w)
          | (Inr _, w) \<Rightarrow> walk_names visit p (map fst entries) w))"
| "walk_names visit p [] w = (Inr (), w)"
| "walk_names visit p (n # ns) w =
     (case walk_lstat w p n of
        Inl e \<Rightarrow> (case visit (p @ [n]) None (Some e) w of
            (Inl e, w) \<Rightarrow> (Inl e, w)
          | (Inr _, w) \<Rightarrow> walk_names visit p ns w)
      | Inr nd \<Rightarrow> (case walk visit (p @ [n]) nd w of
            (Inl e, w) \<Rightarrow> (Inl e, w)
          | (Inr _, w) \<Rightarrow> walk_names visit p ns w))"
  by pat_completeness auto
termination
  by (relation "measures [\<lambda>x. case x of Inl (_, p, _, _) \<Rightarrow> 2 * (max_depth - length p) + 1
                                | Inr (_, p, _, _) \<Rightarrow> 2 * (max_depth - length p),
                          \<lambda>x. case x of Inl _ \<Rightarrow> 0 | Inr (_, _, ns, _) \<Rightarrow> length ns]")
     (auto simp: walk_lstat_def split: if_splits)

declare walk.simps [simp del]

definition Walk :: "visit \<Rightarrow> path \<Rightarrow> unit io" where
  "Walk visit root w = (case os_Lstat w root of
      Inl e \<Rightarrow> visit root None (Some e) w
    | Inr nd \<Rightarrow> walk visit root nd w)"

section \<open>easyrsa.go\<close>

definition EasyRSADir :: "world \<Rightarrow> path" where
  "EasyRSADir w = joinRoot w [''server'', ''easy-rsa'']"

definition runEasyRSAWithTimeout :: "(path \<Rightarrow> string list \<Rightarrow> unit io) \<Rightarrow> path \<Rightarrow> string list \<Rightarrow> unit io" where
  "runEasyRSAWithTimeout run pkiDir args w =
     (let bin = EasyRSADir w @ [''easyrsa'']; lock = pkiDir @ [''.easyrsa.lock''] in
      case os_Stat w bin of Inl e \<Rightarrow> (Inl e, w) | Inr _ \<Rightarrow>
      case open_create lock perm_0600 w of (Inl e, w) \<Rightarrow> (Inl e, w) | (Inr _, w) \<Rightarrow>
      if fault w OpFlock lock then (Inl (Fault OpFlock), w)
      else case run bin ((''--pki-dir='' @ path_text pkiDir) # args) w of
        (Inl e, w) \<Rightarrow> (Inl (Err (''easyrsa ['' @ Join args '' '' @ '']: '' @ err_text e)), w)
      | (Inr _, w) \<Rightarrow> (Inr (), w))"

definition RunEasyRSAChecked :: "(path \<Rightarrow> string list \<Rightarrow> unit io) \<Rightarrow> string list \<Rightarrow> unit io" where
  "RunEasyRSAChecked run args w = runEasyRSAWithTimeout run (PKIDir w) args w"

definition pki_subdirs :: "(string list \<times> perm) list" where
  "pki_subdirs =
     [([''private''], perm_0700), ([''issued''], perm_0755), ([''reqs''], perm_0755),
      ([''certs_by_serial''], perm_0755), ([''index.txt.attrs''], perm_0755),
      ([''inline'', ''private''], perm_0700), ([''revoked'', ''certs_by_serial''], perm_0755),
      ([''revoked'', ''private''], perm_0700), ([''revoked'', ''reqs''], perm_0755),
      ([''revoked'', ''issued''], perm_0755)]"

fun make_subdirs :: "(string list \<times> perm) list \<Rightarrow> unit io" where
  "make_subdirs [] w = (Inr (), w)"
| "make_subdirs ((sd, perm) # rest) w = (case os_MkdirAll (PKIDir w @ sd) perm w of
      (Inl e, w) \<Rightarrow> (Inl e, w)
    | (Inr _, w) \<Rightarrow> make_subdirs rest w)"

definition pki_file_names :: "string list" where
  "pki_file_names = [''index.txt'', ''index.txt.attr'', ''serial'', ''serial.old'', ''crlnumber'', ''crlnumber.old'']"

definition start_number :: string where "start_number = ''1000'' @ [NL]"

text \<open>A file of the authority is created only when it is missing, and the index never beside a CA.\<close>

definition new_pki_file :: "string \<Rightarrow> unit io" where
  "new_pki_file fname w =
     (let p = pki_file w fname in
      case OpenFileNoFollow p True perm_0644 w of (Inl e, w) \<Rightarrow> (Inl e, w) | (Inr nd, w) \<Rightarrow>
      if fname = ''serial'' \<or> fname = ''crlnumber'' then write_opened p nd p start_number w
      else if fault w OpClose p then (Inl (Fault OpClose), w) else (Inr (), w))"

definition ensure_pki_file :: "string \<Rightarrow> unit io" where
  "ensure_pki_file fname w =
     (let p = pki_file w fname in
      case os_Lstat w p of
        Inr nd \<Rightarrow> if \<not> is_regular nd then (Inl (Err (''non-regular PKI file at '' @ path_text p)), w) else (Inr (), w)
      | Inl e \<Rightarrow>
          if e \<noteq> NotExist then (Inl e, w)
          else if fname = ''index.txt''
          then (case os_Lstat w (CACert w) of
              Inr _ \<Rightarrow> (Inl (Err ''certificate index is missing for an existing CA''), w)
            | Inl e \<Rightarrow> if e \<noteq> NotExist then (Inl e, w) else new_pki_file fname w)
          else new_pki_file fname w)"

fun ensure_pki_files :: "string list \<Rightarrow> unit io" where
  "ensure_pki_files [] w = (Inr (), w)"
| "ensure_pki_files (n # ns) w = (case ensure_pki_file n w of
      (Inl e, w) \<Rightarrow> (Inl e, w)
    | (Inr _, w) \<Rightarrow> ensure_pki_files ns w)"

definition EnsureDirTree :: "unit io" where
  "EnsureDirTree w =
     (case os_MkdirAll (PKIDir w) perm_0755 w of (Inl e, w) \<Rightarrow> (Inl e, w) | (Inr _, w) \<Rightarrow>
      case make_subdirs pki_subdirs w of (Inl e, w) \<Rightarrow> (Inl e, w) | (Inr _, w) \<Rightarrow>
      ensure_pki_files pki_file_names w)"

text \<open>The callback of \<open>EnsureSecretPerms\<close>: keys become readable by their owner only, links are left alone.\<close>

definition secret_perms :: visit where
  "secret_perms p info er w = (case (info, er) of
      (Some nd, None) \<Rightarrow>
        if is_dir nd \<or> \<not> is_regular nd then (Inr (), w)
        else let w = (if last p = ''ca.key'' \<or> HasSuffix (last p) ''.key'' then snd (SetPermissions p perm_0600 (-1) (-1) w) else w);
                 w = (if last p = ''tls.key'' then snd (SetPermissions p perm_0600 (-1) (-1) w) else w)
             in (Inr (), w)
    | _ \<Rightarrow> (Inr (), w))"

definition EnsureSecretPerms :: "world \<Rightarrow> world" where
  "EnsureSecretPerms w =
     (let w = snd (SetPermissions (PKIDir w @ [''private'']) perm_0700 (-1) (-1) w);
          w = snd (Walk secret_perms (PKIDir w) w)
      in snd (SetPermissions (TLSKey w) perm_0600 (-1) (-1) w))"

definition GenTLSKey :: "(string list \<Rightarrow> unit io) \<Rightarrow> unit io" where
  "GenTLSKey openvpn w =
     (let p = TLSKey w in
      case os_Lstat w p of
        Inr nd \<Rightarrow>
          if \<not> is_regular nd \<or> n_kind nd = Reg [] then (Inl (Err (''invalid TLS key at '' @ path_text p)), w)
          else (case os_ReadFile w p of Inl e \<Rightarrow> (Inl e, w) | Inr _ \<Rightarrow> (Inr (), w))
      | Inl e \<Rightarrow>
          if e \<noteq> NotExist then (Inl e, w)
          else case os_MkdirAll (butlast p) perm_0755 w of (Inl e, w) \<Rightarrow> (Inl e, w) | (Inr _, w) \<Rightarrow>
          case (case openvpn [''--genkey'', ''secret'', path_text p] w of
                  (Inl _, w) \<Rightarrow> openvpn [''--genkey'', ''--secret'', path_text p] w
                | (Inr _, w) \<Rightarrow> (Inr (), w)) of
            (Inl e, w) \<Rightarrow> (Inl e, w)
          | (Inr _, w) \<Rightarrow> os_Chmod p perm_0600 w)"

section \<open>setup.go\<close>

definition vars_content :: string where
  "vars_content = concat (map (\<lambda>l. l @ [NL])
     [''# Generated by OVNode - ECDSA defaults (safe to edit)'',
      ''set_var EASYRSA_ALGO \"ec\"'', ''set_var EASYRSA_CURVE \"prime256v1\"'', ''set_var EASYRSA_BATCH \"1\"'',
      ''set_var EASYRSA_NO_PASS \"1\"'', ''set_var EASYRSA_CA_EXPIRE \"3650\"'', ''set_var EASYRSA_CERT_EXPIRE \"1825\"'',
      ''set_var EASYRSA_CRL_DAYS \"365\"'', ''# EASYRSA_REQ_CN is intentionally unset: easy-rsa only allows it'',
      ''# for build-ca. Each server/client cert sets its CN positionally.''])"

definition writeEasyRSAVars :: "path \<Rightarrow> unit io" where
  "writeEasyRSAVars varsPath w =
     (case os_Lstat w varsPath of
        Inr nd \<Rightarrow> if \<not> is_regular nd then (Inl (Err (''non-regular easy-rsa vars at '' @ path_text varsPath)), w) else (Inr (), w)
      | Inl e \<Rightarrow> if e \<noteq> NotExist then (Inl e, w)
          else case os_WriteFile varsPath vars_content perm_0644 w of
            (Inl e, w) \<Rightarrow> (Inl (Err (''failed to write vars file: '' @ err_text e)), w)
          | (Inr _, w) \<Rightarrow> (Inr (), w))"

definition copyFile :: "path \<Rightarrow> path \<Rightarrow> unit io" where
  "copyFile src dst w = (case os_ReadFile w src of Inl e \<Rightarrow> (Inl e, w) | Inr data \<Rightarrow> os_WriteFile dst data perm_0644 w)"

definition copy_visit :: "path \<Rightarrow> path \<Rightarrow> visit" where
  "copy_visit src dst p info er w = (case (info, er) of
      (Some nd, None) \<Rightarrow>
        let dstPath = dst @ drop (length src) p in
        if is_dir nd then os_MkdirAll dstPath (n_mode nd) w else copyFile p dstPath w
    | (_, Some e) \<Rightarrow> (Inl e, w)
    | (None, None) \<Rightarrow> (Inr (), w))"

definition copyDir :: "path \<Rightarrow> path \<Rightarrow> unit io" where
  "copyDir src dst w = Walk (copy_visit src dst) src w"

definition system_easyrsa :: path where "system_easyrsa = [''usr'', ''share'', ''easy-rsa'']"

definition easyrsa_source :: "string res \<Rightarrow> world \<Rightarrow> path" where
  "easyrsa_source dpkg w =
     (case os_Stat w system_easyrsa of
        Inr _ \<Rightarrow> system_easyrsa
      | Inl _ \<Rightarrow> (case dpkg of
            Inl _ \<Rightarrow> system_easyrsa
          | Inr output \<Rightarrow> if \<exists>line \<in> set (Split NL output). HasPrefix line ''/usr/share/easy-rsa/''
                           then system_easyrsa else system_easyrsa))"

definition SetupEasyRSA :: "string res \<Rightarrow> unit io" where
  "SetupEasyRSA dpkg w =
     (let dir = EasyRSADir w; bin = dir @ [''easyrsa'']; varsPath = dir @ [''vars''] in
      case os_Lstat w bin of
        Inr nd \<Rightarrow> if \<not> is_regular nd then (Inl (Err (''non-regular easy-rsa executable at '' @ path_text bin)), w)
                   else writeEasyRSAVars varsPath w
      | Inl e \<Rightarrow>
          if e \<noteq> NotExist then (Inl e, w)
          else let src = easyrsa_source dpkg w in
          case os_Stat w src of Inl _ \<Rightarrow> (Inl (Err (''easy-rsa not found at '' @ path_text src)), w) | Inr _ \<Rightarrow>
          case copyDir src dir w of
            (Inl e, w) \<Rightarrow> (Inl (Err (''failed to copy easy-rsa: '' @ err_text e)), w)
          | (Inr _, w) \<Rightarrow>
          case os_Chmod bin perm_0755 w of
            (Inl e, w) \<Rightarrow> (Inl (Err (''failed to make easyrsa executable: '' @ err_text e)), w)
          | (Inr _, w) \<Rightarrow> writeEasyRSAVars varsPath w)"

section \<open>The certificate of the server\<close>

text \<open>\<open>addr\<close> is the answer of \<open>primaryIP\<close>, \<open>p256\<close> the key generator on that curve.\<close>

definition server_template :: "string \<Rightarrow> int \<Rightarrow> int \<Rightarrow> cert" where
  "server_template addr serial now =
     \<lparr>ct_serial = serial, ct_cn = ''server'', ct_notBefore = now - 3600, ct_notAfter = now + 1825 * 86400,
      ct_isCA = False, ct_keyUsage = [''DigitalSignature'', ''KeyEncipherment''], ct_extKeyUsage = [''ServerAuth''],
      ct_dnsNames = [''server'', ''localhost''],
      ct_ips = (case ParseIP addr of None \<Rightarrow> [] | Some ip \<Rightarrow> [IP_String ip]), ct_raw = []\<rparr>"

definition archive_server :: "world \<Rightarrow> world" where
  "archive_server w = (case os_ReadFile w (ServerCert w) of
      Inl _ \<Rightarrow> w
    | Inr oldCert \<Rightarrow>
        let dir = PKIDir w @ [''renewed'']; w = snd (os_MkdirAll dir perm_0755 w)
        in snd (WriteFileAtomic (dir @ [''server.crt.bak'']) oldCert perm_0644 w))"

definition server_key :: "crypto \<Rightarrow> string + pkey \<Rightarrow> cert \<Rightarrow> world \<Rightarrow> pkey res" where
  "server_key C p256 caCert w = (case GenerateKey C w caCert of Inr key \<Rightarrow> Inr key | Inl _ \<Rightarrow> lib p256)"

definition install_server :: "string \<Rightarrow> string \<Rightarrow> int \<Rightarrow> unit io" where
  "install_server certPEM keyPEM serial w =
     (let w = snd (os_MkdirAll (butlast (ServerCert w)) perm_0700 w);
          w = snd (os_MkdirAll (butlast (ServerKey w)) perm_0700 w) in
      case WriteFileAtomic (ServerKey w) keyPEM perm_0600 w of (Inl e, w) \<Rightarrow> (Inl e, w) | (Inr _, w) \<Rightarrow>
      case WriteFileAtomic (ServerCert w) certPEM perm_0644 w of (Inl e, w) \<Rightarrow> (Inl e, w) | (Inr _, w) \<Rightarrow>
      appendIndex ''server'' serial (w_now w + 1825 * 86400) w)"

definition RenewServerCertificateNative :: "crypto \<Rightarrow> string + pkey \<Rightarrow> string \<Rightarrow> unit io" where
  "RenewServerCertificateNative C p256 addr w =
     (case loadCA C w of Inl e \<Rightarrow> (Inl e, w) | Inr (caCert, caKey) \<Rightarrow>
      let w = archive_server w in
      case server_key C p256 caCert w of Inl e \<Rightarrow> (Inl e, w) | Inr key \<Rightarrow>
      case nextSerial w of (Inl e, w) \<Rightarrow> (Inl e, w) | (Inr serial, w) \<Rightarrow>
      case lib (CreateCertificate C (server_template addr serial (w_now w)) caCert key caKey) of
        Inl e \<Rightarrow> (Inl e, w)
      | Inr certDER \<Rightarrow>
      let certPEM = pem_Encode C (''CERTIFICATE'', certDER);
          keyDER = (case MarshalECPrivateKey C key of Inl _ \<Rightarrow> [] | Inr d \<Rightarrow> d);
          keyPEM = pem_Encode C (''EC PRIVATE KEY'', keyDER) in
      case lib (X509KeyPair C certPEM keyPEM) of Inl e \<Rightarrow> (Inl e, w) | Inr _ \<Rightarrow>
      install_server certPEM keyPEM serial w)"

definition RenewServerCertificate :: "(path \<Rightarrow> string list \<Rightarrow> unit io) \<Rightarrow> world \<Rightarrow> bool \<times> world" where
  "RenewServerCertificate run w = (case os_Stat w (ServerCert w) of
      Inl _ \<Rightarrow> (False, w)
    | Inr _ \<Rightarrow> (case RunEasyRSAChecked run [''renew'', ''server'', ''nopass''] w of (r, w) \<Rightarrow> (\<not> isl r, w)))"

definition RenewServerCert :: "(path \<Rightarrow> string list \<Rightarrow> unit io) \<Rightarrow> crypto \<Rightarrow> string + pkey \<Rightarrow> string \<Rightarrow> unit io" where
  "RenewServerCert run C p256 addr =
     WithPKILock (\<lambda>w. case RenewServerCertificateNative C p256 addr w of
        (Inr _, w) \<Rightarrow> (Inr (), w)
      | (Inl _, w) \<Rightarrow> (case RenewServerCertificate run w of
            (True, w) \<Rightarrow> (Inr (), w)
          | (False, w) \<Rightarrow> (Inl (Err ''server certificate renewal failed''), w)))"

subsection \<open>CertExpiry\<close>

text \<open>\<open>t.UTC().Format("2006-01-02")\<close>.\<close>

definition format_date :: "int \<Rightarrow> string" where
  "format_date t =
     (let (y, yd) = year_yday (t div 86400 + 719162); (m, d) = month_day (isLeap y) yd; digits = Itoa \<bar>y\<bar>
      in (if y < 0 then ''-'' else []) @ replicate (4 - length digits) (CHR ''0'') @ digits @ ''-'' @ two m @ ''-'' @ two d)"

text \<open>The loop over the blocks of the file; not returning is \<open>None\<close>.\<close>

partial_function (option) expiry_loop :: "crypto \<Rightarrow> string \<Rightarrow> string option" where
  [code]: "expiry_loop C data = (case pem_Decode C data of
      None \<Rightarrow> Some []
    | Some (blk, rest) \<Rightarrow>
        if fst blk \<noteq> ''CERTIFICATE'' then expiry_loop C rest
        else Some (case ParseCertificate C (snd blk) of Inl _ \<Rightarrow> [] | Inr cert \<Rightarrow> format_date (ct_notAfter cert)))"

definition CertExpiry :: "crypto \<Rightarrow> path \<Rightarrow> world \<Rightarrow> string option" where
  "CertExpiry C p w = (case os_ReadFile w p of Inl _ \<Rightarrow> Some [] | Inr data \<Rightarrow> expiry_loop C data)"

section \<open>InitPKI\<close>

fun dirs_empty :: "string list \<Rightarrow> world \<Rightarrow> unit res" where
  "dirs_empty [] w = Inr ()"
| "dirs_empty (sd # rest) w = (case os_ReadDir w (PKIDir w @ [sd]) of
      Inl e \<Rightarrow> Inl e
    | Inr entries \<Rightarrow> if entries \<noteq> [] then Inl (Err (''missing CA identity with existing '' @ sd @ '' material''))
                      else dirs_empty rest w)"

definition material_dirs :: "string list" where
  "material_dirs = [''private'', ''issued'', ''reqs'', ''certs_by_serial'']"

definition build_ca :: "(path \<Rightarrow> string list \<Rightarrow> unit io) \<Rightarrow> unit io" where
  "build_ca run w =
     (case dirs_empty material_dirs w of Inl e \<Rightarrow> (Inl e, w) | Inr _ \<Rightarrow>
      case os_ReadFile w (pki_file w ''index.txt'') of Inl e \<Rightarrow> (Inl e, w) | Inr index \<Rightarrow>
      if TrimSpace index \<noteq> [] then (Inl (Err ''missing CA identity with an existing certificate index''), w)
      else RunEasyRSAChecked run [''build-ca'', ''nopass''] w)"

definition ensure_ca :: "(path \<Rightarrow> string list \<Rightarrow> unit io) \<Rightarrow> unit io" where
  "ensure_ca run w =
     (case materialExists w (CACert w) of Inl e \<Rightarrow> (Inl e, w) | Inr caCert \<Rightarrow>
      case materialExists w (CAKey w) of Inl e \<Rightarrow> (Inl e, w) | Inr caKey \<Rightarrow>
      if caCert \<noteq> caKey then (Inl (Err ''incomplete CA identity: restore the missing certificate or key''), w)
      else if \<not> caCert then build_ca run w else (Inr (), w))"

definition build_server_args :: "string list" where
  "build_server_args = [''--subject-alt-name=DNS:server,DNS:localhost'', ''build-server-full'', ''server'', ''nopass'']"

definition ensure_server :: "(path \<Rightarrow> string list \<Rightarrow> unit io) \<Rightarrow> unit io" where
  "ensure_server run w =
     (case materialExists w (ServerCert w) of Inl e \<Rightarrow> (Inl e, w) | Inr serverCert \<Rightarrow>
      case materialExists w (ServerKey w) of Inl e \<Rightarrow> (Inl e, w) | Inr serverKey \<Rightarrow>
      if serverCert \<noteq> serverKey then (Inl (Err ''incomplete server identity: restore the missing certificate or key''), w)
      else if \<not> serverCert then RunEasyRSAChecked run build_server_args w else (Inr (), w))"

definition check_identity :: "crypto \<Rightarrow> world \<Rightarrow> unit res" where
  "check_identity C w =
     (case os_ReadFile w (CACert w) of Inl e \<Rightarrow> Inl e | Inr ca \<Rightarrow>
      case os_ReadFile w (ServerCert w) of Inl e \<Rightarrow> Inl e | Inr cert \<Rightarrow>
      case os_ReadFile w (ServerKey w) of Inl e \<Rightarrow> Inl e | Inr key \<Rightarrow>
      wrap ''invalid existing PKI identity'' (ValidateServerCert C (w_now w) ca cert key))"

definition init_identity :: "(path \<Rightarrow> string list \<Rightarrow> unit io) \<Rightarrow> crypto \<Rightarrow> unit io" where
  "init_identity run C w =
     (case ensure_ca run w of (Inl e, w) \<Rightarrow> (Inl e, w) | (Inr _, w) \<Rightarrow>
      case ensure_server run w of (Inl e, w) \<Rightarrow> (Inl e, w) | (Inr _, w) \<Rightarrow>
      case check_identity C w of Inl e \<Rightarrow> (Inl e, w) | Inr _ \<Rightarrow>
      EnsureCRLChecked (RunEasyRSAChecked run) C w)"

definition finish_pki :: "(string list \<Rightarrow> unit io) \<Rightarrow> string \<Rightarrow> executable \<Rightarrow> unit io" where
  "finish_pki openvpn rnd exe w =
     (case GenTLSKey openvpn w of (Inl e, w) \<Rightarrow> (Inl e, w) | (Inr _, w) \<Rightarrow>
      case ensureServerConf rnd exe w of (Inl e, w) \<Rightarrow> (Inl e, w) | (Inr _, w) \<Rightarrow>
      case EnsureClientTemplate w of (Inl e, w) \<Rightarrow> (Inl e, w) | (Inr _, w) \<Rightarrow>
      (Inr (), EnsureSecretPerms w))"

definition InitPKI :: "(path \<Rightarrow> string list \<Rightarrow> unit io) \<Rightarrow> (string list \<Rightarrow> unit io) \<Rightarrow> string res \<Rightarrow> crypto
    \<Rightarrow> string \<Rightarrow> executable \<Rightarrow> unit io" where
  "InitPKI run openvpn dpkg C rnd exe w =
     (case mkdirs (RequiredDirs w @ [OVNodeDir w]) perm_0755 w of (Inl e, w) \<Rightarrow> (Inl e, w) | (Inr _, w) \<Rightarrow>
      case SetupEasyRSA dpkg w of (Inl e, w) \<Rightarrow> (Inl e, w) | (Inr _, w) \<Rightarrow>
      case EnsureDirTree w of (Inl e, w) \<Rightarrow> (Inl e, w) | (Inr _, w) \<Rightarrow>
      case WithPKILock (init_identity run C) w of (Inl e, w) \<Rightarrow> (Inl e, w) | (Inr _, w) \<Rightarrow>
      finish_pki openvpn rnd exe w)"

section \<open>Setting up never removes anything\<close>

text \<open>
  \<open>grows\<close>: every path that exists keeps existing, as a directory, a file or a link as before. It holds
  for everything \<open>InitPKI\<close> does before it looks for the CA.
\<close>

definition grows :: "world \<Rightarrow> world \<Rightarrow> bool" where
  "grows w w' \<longleftrightarrow> same_env w w' \<and>
     (\<forall>p nd. look w p = Some nd \<longrightarrow>
        (\<exists>nd'. look w' p = Some nd' \<and> is_dir nd' = is_dir nd \<and> is_regular nd' = is_regular nd))"

named_theorems grows_intros \<open>operations that remove nothing\<close>

lemma grows_refl [simp]: "grows w w"
  by (simp add: grows_def)

lemma grows_trans: "grows u v \<Longrightarrow> grows v w \<Longrightarrow> grows u w"
  unfolding grows_def using same_env_trans by blast

lemma grows_there: "grows w w' \<Longrightarrow> look w p \<noteq> None \<Longrightarrow> look w' p \<noteq> None"
  unfolding grows_def by blast

lemma grows_env: "grows w w' \<Longrightarrow> same_env w w'"
  by (simp add: grows_def)

lemma grows_put:
  assumes "\<And>nd'. look w p = Some nd' \<Longrightarrow> is_dir nd = is_dir nd' \<and> is_regular nd = is_regular nd'"
  shows "grows w (put p nd w)"
  using assms unfolding grows_def by auto

lemma grows_fresh: "look w p = None \<Longrightarrow> grows w (put p nd w)"
  by (rule grows_put) simp

lemma grows_frame: "frame (\<lambda>q. look w q = None) w w' \<Longrightarrow> grows w w'"
  unfolding grows_def frame_def by fastforce

lemma grows_bind [intro]:
  assumes "grows w (snd r)" and "\<And>x w1. r = (Inr x, w1) \<Longrightarrow> grows w1 (snd (g x w1))"
  shows "grows w (snd (case r of (Inl e, w1) \<Rightarrow> (Inl (h e), w1) | (Inr x, w1) \<Rightarrow> g x w1))"
proof (cases r)
  case (Pair a w1)
  then show ?thesis using assms grows_trans by (cases a) auto
qed

lemma grows_MkdirAll [grows_intros]: "grows w (snd (os_MkdirAll p m w))"
proof -
  have "grows w (snd (mkdir_parts cur ps m w))" for cur ps
  proof (induction ps arbitrary: cur w)
    case (Cons part rest)
    have "grows w (snd (mkdir_parts (cur @ [part]) rest m (put (cur @ [part]) (new_dir w cur m) w)))"
      if "look w (cur @ [part]) = None"
      by (rule grows_trans [OF grows_fresh [OF that] Cons])
    with Cons show ?case by (simp add: Let_def split: sum.splits)
  qed simp
  then show ?thesis by (simp add: os_MkdirAll_def)
qed

lemma grows_mkdirs [grows_intros]: "grows w (snd (mkdirs ds m w))"
proof (induction ds arbitrary: w)
  case (Cons d ds)
  show ?case unfolding mkdirs.simps by (rule grows_bind [OF grows_MkdirAll Cons])
qed simp

lemma link_target_end:
  "link_target k f p = Inr q \<Longrightarrow> fmlookup f q = Some nd \<Longrightarrow> \<not> is_dir nd \<Longrightarrow> is_regular nd"
  by (induction k arbitrary: p) (auto simp: is_dir_def is_regular_def split: option.splits kind.splits)

lemma grows_write_opened:
  assumes "\<And>nd'. look w q = Some nd' \<Longrightarrow> is_regular nd'"
  shows "grows w (snd (write_opened q nd p d w))"
proof -
  have "grows w (put q (nd\<lparr>n_kind := Reg c\<rparr>) w)" for c
  proof (rule grows_put)
    fix nd' assume "look w q = Some nd'"
    from assms [OF this] show "is_dir (nd\<lparr>n_kind := Reg c\<rparr>) = is_dir nd' \<and> is_regular (nd\<lparr>n_kind := Reg c\<rparr>) = is_regular nd'"
      by (simp add: is_dir_def is_regular_def split: kind.splits)
  qed
  then show ?thesis by (simp add: write_opened_def)
qed

lemma grows_WriteFile [grows_intros]: "grows w (snd (os_WriteFile p d m w))"
proof -
  have written: "grows w (snd (write_opened q nd p d w))"
    if "link_target max_links (w_fs w) p = Inr q" "\<And>nd'. look w q = Some nd' \<Longrightarrow> \<not> is_dir nd'" for q nd
    by (rule grows_write_opened) (use that link_target_end in blast)
  show ?thesis by (auto simp: os_WriteFile_def intro!: written split: sum.splits option.splits)
qed

lemma grows_open_create [grows_intros]: "grows w (snd (open_create p m w))"
  using open_create_world [of p m w] by (metis grows_fresh grows_refl prod.collapse)

lemma grows_Chmod [grows_intros]: "grows w (snd (os_Chmod p m w))"
proof -
  have "look w q = Some nd" if "follow k (w_fs w) p = Inr (q, nd)" for k p q nd
    using that by (induction k arbitrary: p) (auto split: option.splits kind.splits)
  then have "grows w (put q (nd\<lparr>n_mode := m\<rparr>) w)" if "follow max_links (w_fs w) p = Inr (q, nd)" for q nd
    using that by (intro grows_put) (auto simp: is_dir_def is_regular_def)
  then show ?thesis by (simp add: os_Chmod_def split: sum.splits prod.splits)
qed

lemma grows_walk:
  assumes "\<And>p i e w. grows w (snd (visit p i e w))"
  shows "grows w (snd (walk visit p nd w))" and "grows w (snd (walk_names visit p ns w))"
  using assms
proof (induction visit p nd w and visit p ns w rule: walk_walk_names.induct)
  case (1 visit p nd w)
  then show ?case
    by (subst walk.simps) (auto split: sum.splits prod.splits intro: grows_trans; metis grows_trans snd_conv)
next
  case (3 visit p n ns w)
  then show ?case
    by (subst walk_names.simps) (auto split: sum.splits prod.splits intro: grows_trans; metis grows_trans snd_conv)
qed simp

lemma grows_Walk: "(\<And>p i e w. grows w (snd (visit p i e w))) \<Longrightarrow> grows w (snd (Walk visit root w))"
  by (simp add: Walk_def grows_walk split: sum.splits)

lemma grows_SetupEasyRSA: "grows w (snd (SetupEasyRSA dpkg w))"
proof -
  have vars: "grows w (snd (writeEasyRSAVars p w))" for p w
    by (auto simp: writeEasyRSAVars_def grows_WriteFile split: sum.splits)
  have "grows w (snd (copy_visit src dst p i e w))" for src dst p i e w
    by (simp add: copy_visit_def copyFile_def Let_def grows_WriteFile grows_MkdirAll split: option.splits sum.splits)
  then have copy: "grows w (snd (copyDir src dst w))" for src dst w by (simp add: copyDir_def grows_Walk)
  show ?thesis
    by (simp add: SetupEasyRSA_def Let_def vars split: sum.splits)
       (intro impI allI conjI grows_bind copy grows_Chmod vars)
qed

lemma grows_new_pki_file:
  assumes "look w (pki_file w n) = None"
  shows "grows w (snd (new_pki_file n w))"
proof -
  let ?p = "pki_file w n"
  obtain r w1 where o: "OpenFileNoFollow ?p True perm_0644 w = (r, w1)" by fastforce
  have w1: "grows w w1" "\<And>nd. look w1 ?p = Some nd \<Longrightarrow> is_regular nd"
    using OpenFileNoFollow_world [OF o] assms by (auto intro: grows_fresh simp: new_file_def is_regular_def)
  have "grows w1 (snd (write_opened ?p nd ?p d w1))" for nd d
    by (rule grows_write_opened) (rule w1(2))
  with o w1(1) grows_trans show ?thesis by (fastforce simp: new_pki_file_def Let_def split: sum.splits)
qed

lemma Lstat_missing: "os_Lstat w p = Inl NotExist \<Longrightarrow> look w p = None"
  by (simp add: os_Lstat_def split: if_splits option.splits)

lemma grows_EnsureDirTree: "grows w (snd (EnsureDirTree w))"
proof -
  have one: "grows w (snd (ensure_pki_file n w))" for n w
    by (auto simp: ensure_pki_file_def Let_def intro!: grows_new_pki_file dest!: Lstat_missing split: sum.splits)
  have files: "grows w (snd (ensure_pki_files ns w))" for ns w
  proof (induction ns arbitrary: w)
    case (Cons n ns)
    show ?case unfolding ensure_pki_files.simps by (rule grows_bind [OF one Cons])
  qed simp
  have dirs: "grows w (snd (make_subdirs sds w))" for sds w
  proof (induction sds arbitrary: w)
    case (Cons sd sds)
    obtain d m where sd: "sd = (d, m)" by fastforce
    show ?case unfolding sd make_subdirs.simps by (rule grows_bind [OF grows_MkdirAll Cons])
  qed simp
  show ?thesis unfolding EnsureDirTree_def by (intro grows_bind grows_MkdirAll dirs files)
qed

lemma grows_lockPKI: "lockPKI w = (r, w') \<Longrightarrow> grows w w'"
  by (rule grows_frame [OF lockPKI_frame])

section \<open>An existing identity is never built over\<close>

text \<open>The traces of an identity: the certificate or the key of a CA, or material of one.\<close>

definition has_identity :: "world \<Rightarrow> bool" where
  "has_identity w \<longleftrightarrow> look w (CACert w) \<noteq> None \<or> look w (CAKey w) \<noteq> None \<or>
     (\<exists>sd n d. sd \<in> set material_dirs \<and> look w (PKIDir w @ [sd]) = Some d \<and> is_dir d \<and>
        look w (PKIDir w @ [sd, n]) \<noteq> None)"

lemma grows_identity: assumes "grows w w'" and "has_identity w" shows "has_identity w'"
proof -
  note env = pki_env [OF grows_env [OF assms(1)]]
  have "\<exists>d'. look w' p = Some d' \<and> is_dir d'" if "look w p = Some d" "is_dir d" for p d
    using assms(1) that unfolding grows_def by blast
  with assms(2) grows_there [OF assms(1)] show ?thesis
    unfolding has_identity_def env by blast
qed

lemma ReadDir_child:
  assumes "look w p = Some d" and "is_dir d" and "look w (p @ [n]) \<noteq> None" and "os_ReadDir w p = Inr entries"
  shows "entries \<noteq> []"
proof -
  have "p @ [n] |\<in>| ffilter (\<lambda>q. q \<noteq> [] \<and> butlast q = p) (fmdom (w_fs w))"
    using assms(3) by (simp add: fmlookup_dom_iff)
  then have "last (p @ [n]) |\<in>| last |`| ffilter (\<lambda>q. q \<noteq> [] \<and> butlast q = p) (fmdom (w_fs w))"
    by (rule fimageI)
  then have "n \<in> set (child_names (w_fs w) p)" by (simp add: child_names_def)
  with assms show ?thesis by (auto simp: os_ReadDir_def is_dir_def follow_max split: if_splits)
qed

lemma identity_not_empty:
  assumes "has_identity w" and "look w (CACert w) = None" and "look w (CAKey w) = None"
  shows "\<exists>e. dirs_empty material_dirs w = Inl e"
proof -
  from assms obtain sd n d where m: "sd \<in> set material_dirs" "look w (PKIDir w @ [sd]) = Some d" "is_dir d"
    "look w ((PKIDir w @ [sd]) @ [n]) \<noteq> None" unfolding has_identity_def by auto
  have "\<exists>e. dirs_empty sds w = Inl e" if "sd \<in> set sds" for sds
    using that
  proof (induction sds)
    case (Cons s sds)
    with ReadDir_child [OF m(2-4)] show ?case by (auto split: sum.splits)
  qed simp
  with m(1) show ?thesis by blast
qed

definition agree_but_ca :: "(path \<Rightarrow> string list \<Rightarrow> unit io) \<Rightarrow> (path \<Rightarrow> string list \<Rightarrow> unit io) \<Rightarrow> bool" where
  "agree_but_ca run run' \<longleftrightarrow> (\<forall>bin args. ''build-ca'' \<notin> set args \<longrightarrow> run bin args = run' bin args)"

lemma agree_run:
  assumes "agree_but_ca run run'" and "''build-ca'' \<notin> set args"
  shows "RunEasyRSAChecked run args = RunEasyRSAChecked run' args"
proof
  fix w
  have "''build-ca'' \<notin> set ((''--pki-dir='' @ path_text (PKIDir w)) # args)" using assms(2) by simp
  with assms(1) have eq: "run bin ((''--pki-dir='' @ path_text (PKIDir w)) # args) = run' bin ((''--pki-dir='' @ path_text (PKIDir w)) # args)"
    for bin unfolding agree_but_ca_def by blast
  show "RunEasyRSAChecked run args w = RunEasyRSAChecked run' args w"
    unfolding RunEasyRSAChecked_def runEasyRSAWithTimeout_def Let_def eq ..
qed

lemma build_ca_refused:
  "dirs_empty material_dirs w = Inl e \<Longrightarrow> build_ca run w = (Inl e, w)"
  by (simp add: build_ca_def)

lemma ensure_ca_same:
  assumes "has_identity w"
  shows "ensure_ca run w = ensure_ca run' w"
proof (cases "look w (CACert w) = None \<and> look w (CAKey w) = None")
  case True
  then obtain e where "dirs_empty material_dirs w = Inl e" using identity_not_empty [OF assms] by blast
  then have refused: "build_ca f w = (Inl e, w)" for f by (rule build_ca_refused)
  show ?thesis unfolding ensure_ca_def refused ..
next
  case False
  have "materialExists w p = Inr False \<Longrightarrow> look w p = None" for p
    by (auto simp: materialExists_def dest!: Lstat_missing split: sum.splits if_splits)
  with False show ?thesis by (auto simp: ensure_ca_def split: sum.splits)
qed

lemma init_identity_same:
  assumes "agree_but_ca run run'" and "has_identity w"
  shows "init_identity run C w = init_identity run' C w"
proof -
  have gen: "RunEasyRSAChecked run [''gen-crl''] = RunEasyRSAChecked run' [''gen-crl'']"
    and srv: "RunEasyRSAChecked run build_server_args = RunEasyRSAChecked run' build_server_args"
    by (rule agree_run [OF assms(1)]; simp add: build_server_args_def)+
  have server: "ensure_server run v = ensure_server run' v" for v unfolding ensure_server_def srv ..
  have list: "EnsureCRLChecked (RunEasyRSAChecked run) C v = EnsureCRLChecked (RunEasyRSAChecked run') C v" for v
    unfolding EnsureCRLChecked_def gen ..
  show ?thesis unfolding init_identity_def ensure_ca_same [OF assms(2), of run run'] server list ..
qed

lemma WithPKILock_same:
  assumes "\<And>v. grows w v \<Longrightarrow> f v = g v"
  shows "WithPKILock f w = WithPKILock g w"
  using assms grows_lockPKI [of w] by (auto simp: WithPKILock_def split: prod.splits sum.splits)


text \<open>Two scripts that differ on \<open>build-ca\<close> only, on a tree with a CA.\<close>

definition build_nothing :: "path \<Rightarrow> string list \<Rightarrow> unit io" where
  "build_nothing bin args w = (Inl (Err ''exit status 1''), w)"

definition build_only_ca :: "path \<Rightarrow> string list \<Rightarrow> unit io" where
  "build_only_ca bin args w = (if ''build-ca'' \<in> set args
     then (Inr (), put (CACert w) (new_file w (PKIDir w) perm_0600 ''other'') w) else (Inl (Err ''exit status 1''), w))"


section \<open>CertExpiry returns\<close>

text \<open>The blocks before a point of the file are all of other types.\<close>

inductive skips :: "crypto \<Rightarrow> string \<Rightarrow> string \<Rightarrow> bool" for C where
  here: "skips C data data"
| other: "pem_Decode C data = Some (blk, rest) \<Longrightarrow> fst blk \<noteq> ''CERTIFICATE'' \<Longrightarrow> skips C rest d \<Longrightarrow> skips C data d"

text \<open>\<open>pem.Decode\<close> finds the next block and returns the remainder of its input, without that block.\<close>

definition pem_progress :: "crypto \<Rightarrow> bool" where
  "pem_progress C \<longleftrightarrow> (\<forall>data blk rest. pem_Decode C data = Some (blk, rest) \<longrightarrow> length rest < length data)"

definition no_cert_here :: "crypto \<Rightarrow> string \<Rightarrow> bool" where
  "no_cert_here C d \<longleftrightarrow> (case pem_Decode C d of None \<Rightarrow> True
     | Some (blk, _) \<Rightarrow> fst blk = ''CERTIFICATE'' \<and> isl (ParseCertificate C (snd blk)))"

lemma expiry_loop_returns:
  assumes "pem_progress C"
  shows "\<exists>d. skips C data d \<and>
    (no_cert_here C d \<and> expiry_loop C data = Some [] \<or>
     (\<exists>b rest cert. pem_Decode C d = Some ((''CERTIFICATE'', b), rest) \<and> ParseCertificate C b = Inr cert \<and>
        expiry_loop C data = Some (format_date (ct_notAfter cert))))"
proof (induction data rule: length_induct)
  case (1 data)
  show ?case
  proof (cases "pem_Decode C data")
    case None
    then show ?thesis by (subst expiry_loop.simps) (auto intro: skips.here simp: no_cert_here_def)
  next
    case (Some x)
    obtain t b rest where x: "pem_Decode C data = Some ((t, b), rest)" using Some by (cases x) auto
    show ?thesis
    proof (cases "t = ''CERTIFICATE''")
      case True
      then show ?thesis using x
        by (intro exI [of _ data] conjI skips.here, subst (1 2) expiry_loop.simps)
           (cases "ParseCertificate C b"; simp add: no_cert_here_def)
    next
      case False
      have "length rest < length data" using assms x unfolding pem_progress_def by blast
      moreover have "expiry_loop C data = expiry_loop C rest" using x False by (subst expiry_loop.simps) simp
      moreover have "skips C rest d \<Longrightarrow> skips C data d" for d by (rule skips.other [OF x]) (use False in simp_all)
      ultimately show ?thesis using 1 by metis
    qed
  qed
qed

text \<open>
  C13. Reading the expiry of a certificate always returns. With the documented behaviour of
  \<open>pem.Decode\<close> that the rest is shorter than its input, the loop of \<open>CertExpiry\<close> ends on every file, and
  its answer is the date of the first certificate of the file, or nothing when the file cannot be
  read, has no certificate, or its first one cannot be parsed.
\<close>

theorem cert_expiry_returns:
  assumes "pem_progress C"
  shows "\<exists>s. CertExpiry C p w = Some s \<and>
    (case os_ReadFile w p of
       Inl _ \<Rightarrow> s = []
     | Inr data \<Rightarrow> \<exists>d. skips C data d \<and>
         (no_cert_here C d \<and> s = [] \<or>
          (\<exists>b rest cert. pem_Decode C d = Some ((''CERTIFICATE'', b), rest) \<and> ParseCertificate C b = Inr cert \<and>
             s = format_date (ct_notAfter cert))))"
  using expiry_loop_returns [OF assms] by (fastforce simp: CertExpiry_def split: sum.splits)

lemma plain_progress: "pem_progress plain_crypto"
proof -
  have "found \<Longrightarrow> d \<noteq> []" if "Cut NL d = (t, b, found)" for d t b found
    using that by (cases d) (auto simp: Cut_def)
  then show ?thesis
    by (auto simp: pem_progress_def plain_crypto_def plain_Decode_def split: prod.splits if_splits)
qed

theorem cert_expiry_returns_witness:
  "pem_progress plain_crypto \<and> (\<exists>s. CertExpiry plain_crypto (CACert sample_pki) sample_pki = Some s) \<and>
   CertExpiry plain_crypto (CACert sample_pki) sample_pki = Some ''2096-10-02''"
proof -
  have "\<exists>s. CertExpiry plain_crypto (CACert sample_pki) sample_pki = Some s"
    using cert_expiry_returns [OF plain_progress, of "CACert sample_pki" sample_pki] by blast
  moreover have "CertExpiry plain_crypto (CACert sample_pki) sample_pki = Some ''2096-10-02''" by code_simp
  ultimately show ?thesis using plain_progress by blast
qed

section \<open>Renewing the server certificate\<close>

definition pair_in_place :: "crypto \<Rightarrow> world \<Rightarrow> bool" where
  "pair_in_place C w \<longleftrightarrow> (\<exists>cert key nd nk x. look w (ServerCert w) = Some nd \<and> n_kind nd = Reg cert \<and>
     look w (ServerKey w) = Some nk \<and> n_kind nk = Reg key \<and> n_mode nk = perm_0600 \<and> X509KeyPair C cert key = Inr x)"

lemma lib_Inr: "lib x = Inr y \<longleftrightarrow> x = Inr y"
  by (cases x) simp_all

lemma server_env: assumes "same_env w v" shows "ServerCert v = ServerCert w" "ServerKey v = ServerKey w"
  using pki_env(1) [OF assms] by (simp_all add: ServerCert_def ServerKey_def)

lemma server_paths:
  "\<not> tmp_path (ServerCert w)" "\<not> tmp_path (ServerKey w)" "ServerCert w \<noteq> ServerKey w"
  "ServerCert w \<noteq> pki_file w n" "ServerKey w \<noteq> pki_file w n"
  "\<not> prefix (ServerCert w) (PKIDir w @ [d])" "ServerCert w \<noteq> PKIDir w @ [''renewed'', n]"
  by (simp_all add: ServerCert_def ServerKey_def pki_file_def tmp_path_def HasPrefix_def)

lemma server_dirs: "butlast (ServerCert w) = PKIDir w @ [''issued'']" "butlast (ServerKey w) = PKIDir w @ [''private'']"
  by (simp_all add: ServerCert_def ServerKey_def butlast_append)

lemma nextSerial_frame: "nextSerial w = (r, w') \<Longrightarrow> frame (\<lambda>q. q = pki_file w ''serial'' \<or> tmp_path q) w w'"
  by (auto simp: nextSerial_def split: sum.splits prod.splits dest: WriteFileAtomic_frame)

lemma appendIndex_frame: "appendIndex cn s t w = (r, w') \<Longrightarrow> frame (\<lambda>q. q = pki_file w ''index.txt'' \<or> tmp_path q) w w'"
  by (auto simp: appendIndex_def split: sum.splits if_splits dest: WriteFileAtomic_frame)

lemma mkdir_not_cert:
  assumes "PKIDir v = PKIDir w"
  shows "frame (\<lambda>q. q \<noteq> ServerCert w) v (snd (os_MkdirAll (PKIDir v @ [d]) m v))"
  by (rule frame_mono [OF os_MkdirAll_frame [OF prod.collapse [symmetric]]]) (use server_paths(6) assms in metis)

lemma archive_server_frame: "frame (\<lambda>q. q \<noteq> ServerCert w) w (archive_server w)"
proof (cases "os_ReadFile w (ServerCert w)")
  case (Inr d)
  define w1 where "w1 = snd (os_MkdirAll (PKIDir w @ [''renewed'']) perm_0755 w)"
  obtain r2 w2 where a: "WriteFileAtomic (PKIDir w @ [''renewed'', ''server.crt.bak'']) d perm_0644 w1 = (r2, w2)" by fastforce
  have "frame (\<lambda>q. q \<noteq> ServerCert w) w w1" unfolding w1_def by (rule mkdir_not_cert) simp
  moreover have "frame (\<lambda>q. q \<noteq> ServerCert w) w1 w2"
    by (rule frame_mono [OF WriteFileAtomic_frame [OF a]]) (use server_paths(1,7) in metis)
  ultimately have "frame (\<lambda>q. q \<noteq> ServerCert w) w w2" by (rule frame_trans)
  then show ?thesis using a Inr by (simp add: archive_server_def Let_def w1_def)
qed (simp add: archive_server_def)

lemma install_server_result:
  assumes "X509KeyPair C certPEM keyPEM = Inr x" and "install_server certPEM keyPEM serial w = (r, w')"
  shows "same_env w w' \<and> (pair_in_place C w' \<or> isl r \<and> look w' (ServerCert w) = look w (ServerCert w))"
proof -
  let ?P = "\<lambda>q. q \<noteq> ServerCert w"
  define v1 where "v1 = snd (os_MkdirAll (butlast (ServerCert w)) perm_0700 w)"
  define v where "v = snd (os_MkdirAll (butlast (ServerKey v1)) perm_0700 v1)"
  have "frame ?P w v1" unfolding v1_def server_dirs by (rule mkdir_not_cert) simp
  moreover from this have e: "PKIDir v1 = PKIDir w" using pki_env(1) frame_env by blast
  have "frame ?P v1 v" unfolding v_def server_dirs by (rule mkdir_not_cert) (simp add: e)
  ultimately have fv: "frame ?P w v" by (rule frame_trans)
  note sv = server_env [OF frame_env [OF fv]]
  obtain r1 w1 where k: "WriteFileAtomic (ServerKey w) keyPEM perm_0600 v = (r1, w1)" by fastforce
  have f1: "frame ?P w w1"
    by (rule frame_trans [OF fv frame_mono [OF WriteFileAtomic_frame [OF k]]]) (use server_paths(1,3) [of w] in auto)
  note s1 = server_env [OF frame_env [OF f1]]
  obtain r2 w2 where c: "WriteFileAtomic (ServerCert w) certPEM perm_0644 w1 = (r2, w2)" by fastforce
  have step: "install_server certPEM keyPEM serial w = (case r1 of Inl e \<Rightarrow> (Inl e, w1) | Inr _ \<Rightarrow>
      (case r2 of Inl e \<Rightarrow> (Inl e, w2) | Inr _ \<Rightarrow> appendIndex ''server'' serial (w_now w2 + 1825 * 86400) w2))"
    unfolding install_server_def Let_def v1_def [symmetric] v_def [symmetric] sv k
    by (cases r1) (simp_all add: s1 c split: sum.splits)
  consider (key) e where "r1 = Inl e" | (cert) e where "r1 = Inr ()" "r2 = Inl e" | (both) "r1 = Inr ()" "r2 = Inr ()"
    by (cases r1; cases r2) auto
  then show ?thesis
  proof cases
    case key
    then show ?thesis using step assms(2) f1 frame_look [OF f1] frame_env [OF f1] by auto
  next
    case cert
    then have "w' = w2" "isl r" using step assms(2) by auto
    moreover have t: "frame tmp_path w1 w2"
      using WriteFileAtomic_err [of "ServerCert w" certPEM perm_0644 w1 e w2] c cert by simp
    have "frame ?P w w2"
      by (rule frame_trans [OF f1 frame_mono [OF t]]) (use server_paths(1) [of w] in auto)
    from frame_look [OF this, of "ServerCert w"] frame_env [OF this] calculation show ?thesis by simp
  next
    case both
    then have a: "appendIndex ''server'' serial (w_now w2 + 1825 * 86400) w2 = (r, w')" using step assms(2) by simp
    from both k c have w1: "w1 = put (ServerKey w) (new_file v (butlast (ServerKey w)) perm_0600 keyPEM) v"
      and w2: "w2 = put (ServerCert w) (new_file w1 (butlast (ServerCert w)) perm_0644 certPEM) w1"
      using WriteFileAtomic_ok by simp_all
    note f = appendIndex_frame [OF a]
    have e2: "same_env w w2" unfolding w2 by (rule same_env_trans [OF frame_env [OF f1]]) simp
    have e': "same_env w w'" by (rule same_env_trans [OF e2 frame_env [OF f]])
    have keep: "look w' q = look w2 q" if "q = ServerCert w \<or> q = ServerKey w" for q
      using that server_paths(1,2,4,5) [of w] pki_env(2) [OF e2] by (intro frame_look [OF f]) auto
    show ?thesis unfolding pair_in_place_def server_env [OF e']
      using keep assms(1) e' server_paths(3) [of w] server_paths(3) [of w, symmetric] by (auto simp: w2 w1 new_file_def)
  qed
qed

text \<open>
  C12. Renewing the server certificate never leaves a new certificate without its key. When
  \<open>RenewServerCertificateNative\<close> reports success, the two files hold a certificate and a key that belong
  together, the key readable by its owner only; when it reports an error, either that holds as well
  (only the index could not be written) or the certificate file is as it was.
\<close>

theorem renewal_keeps_pair:
  assumes "RenewServerCertificateNative C p256 addr w = (r, w')"
  shows "pair_in_place C w' \<or> isl r \<and> look w' (ServerCert w) = look w (ServerCert w)"
proof -
  let ?v = "archive_server w"
  obtain r1 w1 where n: "nextSerial ?v = (r1, w1)" by fastforce
  have fv: "frame (\<lambda>q. q \<noteq> ServerCert w) w ?v" by (rule archive_server_frame)
  have "frame (\<lambda>q. q \<noteq> ServerCert w) ?v w1"
    by (rule frame_mono [OF nextSerial_frame [OF n]])
       (use server_paths(1,4) [of w] pki_env(2) [OF frame_env [OF fv]] in metis)
  with fv have f1: "frame (\<lambda>q. q \<noteq> ServerCert w) w w1" by (rule frame_trans)
  consider "isl r" "w' = w" | "isl r" "w' = ?v" | "isl r" "w' = w1"
    | c k x serial where "X509KeyPair C c k = Inr x" "install_server c k serial w1 = (r, w')"
    using assms n unfolding RenewServerCertificateNative_def Let_def
    by (auto split: sum.splits prod.splits simp: lib_Inr)
  then show ?thesis
  proof cases
    case 4
    from install_server_result [OF 4] server_env(1) [OF frame_env [OF f1]] frame_look [OF f1, of "ServerCert w"]
    show ?thesis by auto
  qed (use frame_look [OF fv] frame_look [OF f1] in auto)
qed

definition renewal_run :: "unit res \<times> world" where
  "renewal_run = RenewServerCertificateNative plain_crypto (Inl ''no key'') ''node'' sample_pki"

theorem renewal_keeps_pair_witness:
  "\<not> isl (loadCA plain_crypto sample_pki) \<and>
   (pair_in_place plain_crypto (snd renewal_run) \<or>
    isl (fst renewal_run) \<and> look (snd renewal_run) (ServerCert sample_pki) = look sample_pki (ServerCert sample_pki))"
proof -
  have "\<not> isl (loadCA plain_crypto sample_pki)" by code_simp
  moreover have "RenewServerCertificateNative plain_crypto (Inl ''no key'') ''node'' sample_pki = (fst renewal_run, snd renewal_run)"
    by (simp add: renewal_run_def)
  note renewal_keeps_pair [OF this]
  ultimately show ?thesis by blast
qed

end
