(* ===== verification/Api.thy ===== *)
theory Api
  imports Auth Control Deletion Pkisetup Ring
begin

text \<open>
  The routes of the panel: \<open>src/internal/httpapi/users.go\<close>, the changing routes of \<open>handlers.go\<close>,
  \<open>envelope.go\<close> and the recovery of \<open>server.go\<close>. A request arrives decoded: a body that is not the JSON
  the route reads is \<open>None\<close>. The records handlers write to the log ring are not part of the state.

  \<open>agent\<close> holds what the operations take from outside: the other processes (\<open>rival\<close>, \<open>same\<close>), the
  management socket, the cryptography, the order of the name map in this run, the output of \<open>pgrep\<close>,
  and for restarts the repair of permissions, the signal and the programs of theory \<open>Pkisetup\<close>.
\<close>

section \<open>Answers\<close>

datatype answer =
    Refused http_resp
  | Envelope bool string json
  | RawProfile string string

type_synonym handler = "world \<Rightarrow> answer option \<times> world"

definition writeOK :: "string \<Rightarrow> json \<Rightarrow> answer option" where
  "writeOK msg d = Some (Envelope True msg d)"

definition writeFail :: "string \<Rightarrow> answer option" where
  "writeFail msg = Some (Envelope False msg JNull)"

definition JInt :: "int \<Rightarrow> json" where "JInt n = JNum (Itoa n)"

record agent =
  ag_rival :: "world \<Rightarrow> world"
  ag_same :: "path \<Rightarrow> bool"
  ag_mgmt :: mgmt
  ag_crypto :: crypto
  ag_order :: "string list"
  ag_pgrep :: string
  ag_outside :: outside
  ag_restart :: "world \<Rightarrow> bool \<times> world"
  ag_easyrsa :: "path \<Rightarrow> string list \<Rightarrow> unit io"
  ag_p256 :: "string + pkey"
  ag_addr :: string

section \<open>User routes\<close>

definition errInvalidUserID :: string where
  "errInvalidUserID = ''Invalid user id (must be UUID or simple id)''"

definition resolveCN :: "string \<Rightarrow> string \<Rightarrow> string res" where
  "resolveCN uid name =
     (let ident = TrimSpace uid;
          ident = (if ident = [] then ReplaceByte (CHR '' '') (CHR ''_'') (TrimSpace name) else ident)
      in if ident = [] then Inl (Err errInvalidUserID) else SafeCN ident)"

definition path_cn :: "string \<Rightarrow> string res" where
  "path_cn uid = (case SafeCN (TrimSpace uid) of Inl _ \<Rightarrow> Inl (Err errInvalidUserID) | Inr cn \<Rightarrow> Inr cn)"

record createUserRequest =
  cu_id :: string
  cu_name :: string
  cu_max :: "int option"

record userStatusRequest =
  us_id :: string
  us_name :: string
  us_status :: string
  us_max :: "int option"

record pushCredentialRequest =
  pc_cert :: string
  pc_key :: string
  pc_ca :: string
  pc_max :: "int option"
  pc_disabled :: "bool option"

record pushPKIRequest =
  pp_ca :: string
  pp_cert :: string
  pp_key :: string

text \<open>A limit that is absent or negative counts as \<open>dflt\<close>.\<close>

definition limit_or :: "int \<Rightarrow> int option \<Rightarrow> int" where
  "limit_or dflt m = (case m of Some n \<Rightarrow> if 0 \<le> n then n else dflt | None \<Rightarrow> dflt)"

definition handleUserCreate :: "agent \<Rightarrow> createUserRequest option \<Rightarrow> handler" where
  "handleUserCreate A bdy w = (case bdy of None \<Rightarrow> (writeFail ''Invalid user payload'', w) | Some b \<Rightarrow>
     case resolveCN (cu_id b) (cu_name b) of Inl e \<Rightarrow> (writeFail (err_text e), w) | Inr cn \<Rightarrow>
     case ovpn_CreateUser (ag_rival A) (ag_same A) (ag_crypto A) cn (cu_name b) (limit_or 1 (cu_max b)) None w of
       (Inl _, w) \<Rightarrow> (writeFail ''Failed to create user'', w)
     | (Inr _, w) \<Rightarrow> (writeOK ''User created successfully'' (JObj [(''id'', JStr cn), (''name'', JStr (cu_name b))]), w))"

definition handleUserStatus :: "agent \<Rightarrow> userStatusRequest option \<Rightarrow> handler" where
  "handleUserStatus A bdy w = (case bdy of None \<Rightarrow> (writeFail ''Invalid user payload'', w) | Some b \<Rightarrow>
     case resolveCN (us_id b) (us_name b) of Inl e \<Rightarrow> (writeFail (err_text e), w) | Inr cn \<Rightarrow>
     let status = (if us_status b = [] then ''activate'' else us_status b) in
     if status \<noteq> ''activate'' \<and> status \<noteq> ''deactivate'' then (writeFail ''Failed to change user status'', w)
     else case ApplyUserPolicy (ag_rival A) (ag_same A) (ag_mgmt A) cn (us_name b) (limit_or (- 1) (us_max b))
                 (status = ''deactivate'') w of
       (Inl _, w) \<Rightarrow> (writeFail (if 0 \<le> limit_or (- 1) (us_max b) then ''Failed to update user login limit''
                                 else ''Failed to change user status''), w)
     | (Inr None, w) \<Rightarrow> (None, w)
     | (Inr (Some _), w) \<Rightarrow>
         (writeOK ''User status changed successfully'' (JObj [(''id'', JStr cn), (''name'', JStr (us_name b))]), w))"

text \<open>\<open>userLimitRequest\<close> has the fields of \<open>createUserRequest\<close>.\<close>

definition handleUserLimit :: "agent \<Rightarrow> createUserRequest option \<Rightarrow> handler" where
  "handleUserLimit A bdy w = (case bdy of None \<Rightarrow> (writeFail ''Invalid user payload'', w) | Some b \<Rightarrow>
     let ident = (if TrimSpace (cu_id b) = [] then TrimSpace (cu_name b) else TrimSpace (cu_id b)) in
     if ident = [] then (writeFail errInvalidUserID, w)
     else case cu_max b of None \<Rightarrow> (writeFail ''max_logins is required'', w) | Some m \<Rightarrow>
     case SetUserLimit (ag_rival A) (ag_same A) (ag_order A) ident m w of
       (Inl _, w) \<Rightarrow> (writeFail ''Failed to update user login limit'', w)
     | (Inr _, w) \<Rightarrow> (writeOK ''User login limit updated successfully''
           (JObj [(''id'', JStr ident), (''max_logins'', JInt m), (''name'', JStr (cu_name b))]), w))"

definition handleUserDelete :: "agent \<Rightarrow> string \<Rightarrow> handler" where
  "handleUserDelete A uid w = (case path_cn uid of Inl e \<Rightarrow> (writeFail (err_text e), w) | Inr cn \<Rightarrow>
     case ovpn_DeleteUser (ag_rival A) (ag_same A) (ag_mgmt A) (ag_crypto A) cn w of
       (None, w) \<Rightarrow> (None, w)
     | (Some (found, Some _), w) \<Rightarrow> (writeFail ''Failed to delete user'', w)
     | (Some (False, None), w) \<Rightarrow> (writeOK ''User not found on node (already deleted)'' JNull, w)
     | (Some (True, None), w) \<Rightarrow> (writeOK ''User deleted successfully'' (JObj [(''id'', JStr cn)]), w))"

definition only_stale :: "string \<Rightarrow> bool" where
  "only_stale q \<longleftrightarrow> ToLower q \<in> {''1'', ''true'', ''yes''}"

definition handleUserDisconnect :: "agent \<Rightarrow> string \<Rightarrow> string \<Rightarrow> handler" where
  "handleUserDisconnect A uid q w = (case path_cn uid of Inl e \<Rightarrow> (writeFail (err_text e), w) | Inr cn \<Rightarrow>
     case DisconnectUser (mg_peer (ag_mgmt A)) (mg_running (ag_mgmt A)) (mg_port (ag_mgmt A)) cn (only_stale q) w of
       (None, w) \<Rightarrow> (None, w)
     | (Some (removed, killed, mgmt), w) \<Rightarrow> (writeOK ''Disconnect command processed''
           (JObj [(''common_name'', JStr cn), (''killed_sessions'', JNum (itoa_nat killed)), (''management'', mgmt),
                  (''removed_markers'', JArr (map JStr removed))]), w))"

definition handleResetUsage :: "string \<Rightarrow> handler" where
  "handleResetUsage uid w = (case path_cn uid of Inl e \<Rightarrow> (writeFail (err_text e), w) | Inr cn \<Rightarrow>
     case ResetUsage (UsageDir w) cn w of
       (Inl _, w) \<Rightarrow> (writeFail ''Failed to reset usage counters'', w)
     | (Inr _, w) \<Rightarrow> (writeOK ''Usage counters reset'' (JObj [(''id'', JStr cn)]), w))"

definition handleDownloadOVPN :: "agent \<Rightarrow> string \<Rightarrow> handler" where
  "handleDownloadOVPN A uid w = (case path_cn uid of Inl e \<Rightarrow> (writeFail (err_text e), w) | Inr cn \<Rightarrow>
     case ReadUserProfile (ag_rival A) (ag_same A) (ag_crypto A) cn w of
       (Inl _, w) \<Rightarrow> (writeFail ''OVPN file not found'', w)
     | (Inr d, w) \<Rightarrow> (Some (RawProfile cn d), w))"

text \<open>One user after the other; the failures keep the id as it was sent.\<close>

definition failed_item :: "string \<Rightarrow> string \<Rightarrow> json" where
  "failed_item uid msg = JObj [(''id'', JStr uid), (''msg'', JStr msg)]"

fun apply_limits :: "agent \<Rightarrow> (string \<times> int option) list \<Rightarrow> nat \<Rightarrow> json list \<Rightarrow> world \<Rightarrow> (nat \<times> json list) \<times> world" where
  "apply_limits A [] applied failed w = ((applied, failed), w)"
| "apply_limits A ((uid, m) # items) applied failed w =
     (let ident = TrimSpace uid in
      case (if ident = [] then None else m) of
        None \<Rightarrow> apply_limits A items applied (failed @ [failed_item uid errInvalidUserID]) w
      | Some n \<Rightarrow> (case SetUserLimit (ag_rival A) (ag_same A) (ag_order A) ident n w of
            (Inl _, w) \<Rightarrow> apply_limits A items applied (failed @ [failed_item uid ''Failed to update user login limit'']) w
          | (Inr _, w) \<Rightarrow> apply_limits A items (applied + 1) failed w))"

definition handleBulkLimits :: "agent \<Rightarrow> (string \<times> int option) list option \<Rightarrow> handler" where
  "handleBulkLimits A bdy w = (case bdy of None \<Rightarrow> (writeFail ''Invalid user payload'', w) | Some items \<Rightarrow>
     case apply_limits A items 0 [] w of ((applied, failed), w) \<Rightarrow>
       (writeOK ''limits applied'' (JObj [(''applied'', JNum (itoa_nat applied)), (''failed'', JArr failed)]), w))"

definition handlePushCreds :: "agent \<Rightarrow> string \<Rightarrow> pushCredentialRequest option \<Rightarrow> handler" where
  "handlePushCreds A uid bdy w = (case path_cn uid of Inl e \<Rightarrow> (writeFail (err_text e), w) | Inr cn \<Rightarrow>
     case bdy of None \<Rightarrow> (writeFail ''Invalid credential payload'', w) | Some b \<Rightarrow>
     let m = (case pc_max b of Some n \<Rightarrow> if 0 \<le> n then Some n else None | None \<Rightarrow> None) in
     case CreateUserWithCredentials (ag_rival A) (ag_same A) (ag_crypto A) cn (pc_cert b) (pc_key b) (pc_ca b) m
            (pc_disabled b) w of
       (Inl _, w) \<Rightarrow> (writeFail ''Failed to store pushed credentials'', w)
     | (Inr _, w) \<Rightarrow> (writeOK ''User credentials stored'' (JObj [(''id'', JStr cn)]), w))"

section \<open>Pushed PKI\<close>

record pkiFile =
  pf_path :: path
  pf_pem :: string
  pf_perm :: perm
  pf_label :: string

definition pushed_files :: "world \<Rightarrow> pushPKIRequest \<Rightarrow> pkiFile list" where
  "pushed_files w b =
     [\<lparr>pf_path = ServerKey w, pf_pem = pp_key b, pf_perm = perm_0600, pf_label = ''server_key_pem''\<rparr>,
      \<lparr>pf_path = ServerCert w, pf_pem = pp_cert b, pf_perm = perm_0644, pf_label = ''server_cert_pem''\<rparr>,
      \<lparr>pf_path = CACert w, pf_pem = pp_ca b, pf_perm = perm_0644, pf_label = ''ca_pem''\<rparr>]"

text \<open>The old contents; \<open>None\<close> is a file that did not exist.\<close>

fun read_old :: "world \<Rightarrow> pkiFile list \<Rightarrow> (pkiFile \<times> string option) list res" where
  "read_old w [] = Inr []"
| "read_old w (f # fs) =
     (case (case os_ReadFile w (pf_path f) of Inr d \<Rightarrow> Inr (Some d) | Inl e \<Rightarrow> if e = NotExist then Inr None else Inl e) of
        Inl e \<Rightarrow> Inl e
      | Inr old \<Rightarrow>
          if pf_pem f = [] then Inl (Err (pf_label f @ '' is required''))
          else case read_old w fs of Inl e \<Rightarrow> Inl e | Inr olds \<Rightarrow> Inr ((f, old) # olds))"

definition restore_file :: "pkiFile \<times> string option \<Rightarrow> world \<Rightarrow> world" where
  "restore_file fo w = (case fo of (f, old) \<Rightarrow> (case old of
      Some d \<Rightarrow> snd (WriteFileAtomic (pf_path f) d (pf_perm f) w)
    | None \<Rightarrow> snd (os_Remove (pf_path f) w)))"

fun write_pushed :: "(pkiFile \<times> string option) list \<Rightarrow> (pkiFile \<times> string option) list \<Rightarrow> unit io" where
  "write_pushed done [] w = (Inr (), w)"
| "write_pushed done (fo # fos) w =
     (case os_MkdirAll (butlast (pf_path (fst fo))) perm_0755 w of
        (Inl e, w) \<Rightarrow> (Inl e, fold restore_file done w)
      | (Inr _, w) \<Rightarrow>
      case WriteFileAtomic (pf_path (fst fo)) (pf_pem (fst fo)) (pf_perm (fst fo)) w of
        (Inl e, w) \<Rightarrow> (Inl e, fold restore_file done w)
      | (Inr _, w) \<Rightarrow> write_pushed (done @ [fo]) fos w)"

definition store_pushed :: "pushPKIRequest \<Rightarrow> unit io" where
  "store_pushed b w = (case read_old w (pushed_files w b) of Inl e \<Rightarrow> (Inl e, w) | Inr olds \<Rightarrow> write_pushed [] olds w)"

definition cleaned :: "crypto \<Rightarrow> string \<Rightarrow> string" where
  "cleaned C s = (case CleanPEM C s of Inr c \<Rightarrow> c | Inl _ \<Rightarrow> [])"

definition clean_push :: "crypto \<Rightarrow> pushPKIRequest \<Rightarrow> pushPKIRequest" where
  "clean_push C b = \<lparr>pp_ca = cleaned C (pp_ca b), pp_cert = cleaned C (pp_cert b), pp_key = cleaned C (pp_key b)\<rparr>"

definition after_push :: "agent \<Rightarrow> world \<Rightarrow> world" where
  "after_push A w = (if \<not> CRLMatchesCA (ag_crypto A) w \<and> Healthy w then snd (RegenerateCRL (ag_crypto A) w) else w)"

definition handlePushPKI :: "agent \<Rightarrow> pushPKIRequest option \<Rightarrow> handler" where
  "handlePushPKI A bdy w = (case bdy of None \<Rightarrow> (writeFail ''Invalid PKI payload'', w) | Some b \<Rightarrow>
     case ValidateServerCert (ag_crypto A) (w_now w) (pp_ca b) (pp_cert b) (pp_key b) of
       Inl e \<Rightarrow> (writeFail (''Invalid PKI: '' @ err_text e), w)
     | Inr _ \<Rightarrow>
     case WithPKILock (store_pushed (clean_push (ag_crypto A) b)) w of
       (Inl _, w) \<Rightarrow> (writeFail ''Failed to store pushed PKI'', w)
     | (Inr _, w) \<Rightarrow>
       (let w = after_push A w;
            reloaded = (OpenVPNIsRunning (ag_pgrep A) w \<and> ReloadOpenVPN (mg_peer (ag_mgmt A)) w)
        in (writeOK ''PKI stored'' (JObj [(''reloaded'', JBool reloaded)]), w)))"

section \<open>Node routes\<close>

definition handleHealth :: handler where
  "handleHealth w = (writeOK ''ok'' (JObj [(''status'', JStr ''ok'')]), w)"

definition handleConfigPost :: "agent \<Rightarrow> (ChangeConfigRequest \<times> bool option) option \<Rightarrow> handler" where
  "handleConfigPost A bdy w = (case bdy of None \<Rightarrow> (writeFail ''Invalid configuration payload'', w) | Some (req, set_new) \<Rightarrow>
     if set_new = Some False then (writeOK ''No changes requested'' JNull, w)
     else case ChangeConfig (ag_outside A) req w of (v, w) \<Rightarrow>
       if \<not> vd_ok v then (writeFail ''Failed to change settings'', w)
       else (let (restart, hot) = (case vd_class v of Some x \<Rightarrow> x | None \<Rightarrow> (False, False))
             in (writeOK ''Configuration updated successfully''
                   (JObj [(''hot_reload'', JBool hot), (''restart_required'', JBool restart)]), w)))"

definition handleRestart :: "agent \<Rightarrow> handler" where
  "handleRestart A w = (case ag_restart A w of (restarted, w) \<Rightarrow>
     let d = JObj [(''openvpn_running'', JBool (OpenVPNIsRunning (ag_pgrep A) w))] in
     if \<not> restarted then (Some (Envelope False ''OpenVPN restart failed'' d), w)
     else (writeOK ''OpenVPN restart command completed'' d, w))"

definition dash :: string where "dash = '' '' @ [CHR 0xE2, CHR 0x80, CHR 0x94] @ '' ''"

definition handleRenewCert :: "agent \<Rightarrow> handler" where
  "handleRenewCert A w = (case RenewServerCert (ag_easyrsa A) (ag_crypto A) (ag_p256 A) (ag_addr A) w of
       (Inl _, w) \<Rightarrow> (writeFail (''Server certificate renewal failed'' @ dash @ ''check the node logs''), w)
     | (Inr _, w) \<Rightarrow> (case ag_restart A w of (restarted, w) \<Rightarrow>
         if \<not> restarted
         then (writeFail (''Certificate renewed, but OpenVPN did not restart'' @ dash @ ''restart it manually''), w)
         else (case CertExpiry (ag_crypto A) (ServerCert w) w of
             None \<Rightarrow> (None, w)
           | Some d \<Rightarrow> (writeOK ''Server certificate renewed; OpenVPN restarted'' (JObj [(''server_expiry'', JStr d)]), w))))"

text \<open>\<open>handleLogs\<close>: the query values, absent ones empty.\<close>

definition log_limit :: "string \<Rightarrow> int option" where
  "log_limit raw = (if raw = [] then Some 200 else case Atoi raw of
      None \<Rightarrow> None | Some n \<Rightarrow> if n < 1 then None else Some (min n 1000))"

definition record_json :: "(Record \<Rightarrow> json) \<Rightarrow> Record list \<Rightarrow> json" where
  "record_json enc rs = JArr (map enc rs)"

definition handleLogs :: "(Record \<Rightarrow> json) \<Rightarrow> string \<Rightarrow> string \<Rightarrow> logs \<Rightarrow> handler" where
  "handleLogs enc level raw lg w =
     (let level = (if level = [] then ''WARNING'' else level) in
      if level \<notin> {''DEBUG'', ''INFO'', ''WARNING'', ''ERROR''} then (writeFail ''Invalid log level'', w)
      else case log_limit raw of None \<Rightarrow> (writeFail ''Invalid log limit'', w) | Some limit \<Rightarrow>
      let rs = Recent level limit lg; (errors, warnings, lastError) = Stats (w_nanos w) lg in
      (writeOK (itoa_nat (length rs) @ '' log record(s)'')
        (JObj [(''errors_1h'', JNum (itoa_nat errors)), (''last_error'', JStr lastError), (''records'', record_json enc rs),
               (''warnings_1h'', JNum (itoa_nat warnings))]), w))"

section \<open>The routes behind the gate\<close>

datatype request =
    Health
  | ConfigPost "(ChangeConfigRequest \<times> bool option) option"
  | Restart
  | RenewCert
  | UserCreate "createUserRequest option"
  | UserStatus "userStatusRequest option"
  | UserLimit "createUserRequest option"
  | UserDelete string
  | UserDisconnect string string
  | UserReset string
  | Download string
  | BulkLimits "(string \<times> int option) list option"
  | PushCreds string "pushCredentialRequest option"
  | PushPKI "pushPKIRequest option"

text \<open>The routes that count as certificate operations.\<close>

fun heavy_route :: "request \<Rightarrow> bool" where
  "heavy_route Restart = True"
| "heavy_route RenewCert = True"
| "heavy_route (UserCreate _) = True"
| "heavy_route (UserDelete _) = True"
| "heavy_route (Download _) = True"
| "heavy_route (PushPKI _) = True"
| "heavy_route _ = False"

fun handler_of :: "agent \<Rightarrow> request \<Rightarrow> handler" where
  "handler_of A Health = handleHealth"
| "handler_of A (ConfigPost b) = handleConfigPost A b"
| "handler_of A Restart = handleRestart A"
| "handler_of A RenewCert = handleRenewCert A"
| "handler_of A (UserCreate b) = handleUserCreate A b"
| "handler_of A (UserStatus b) = handleUserStatus A b"
| "handler_of A (UserLimit b) = handleUserLimit A b"
| "handler_of A (UserDelete u) = handleUserDelete A u"
| "handler_of A (UserDisconnect u q) = handleUserDisconnect A u q"
| "handler_of A (UserReset u) = handleResetUsage u"
| "handler_of A (Download u) = handleDownloadOVPN A u"
| "handler_of A (BulkLimits b) = handleBulkLimits A b"
| "handler_of A (PushCreds u b) = handlePushCreds A u b"
| "handler_of A (PushPKI b) = handlePushPKI A b"

text \<open>A panic inside a handler is answered by \<open>recoveryMiddleware\<close>.\<close>

definition recovered :: "answer option \<times> world \<Rightarrow> answer \<times> world" where
  "recovered r = (case r of (Some a, w) \<Rightarrow> (a, w) | (None, w) \<Rightarrow> (Envelope False ''internal server error'' JNull, w))"

definition serve ::
  "(string \<Rightarrow> string) \<Rightarrow> agent \<Rightarrow> http_req \<Rightarrow> request \<Rightarrow> Server \<Rightarrow> world \<Rightarrow> answer \<times> Server \<times> world" where
  "serve H A r rq sv w =
     (if rq = Health then (case recovered (handleHealth w) of (a, w) \<Rightarrow> (a, sv, w))
      else case authorize H r (heavy_route rq) sv w of
        (Some refusal, sv, w) \<Rightarrow> (Refused refusal, sv, w)
      | (None, sv, w) \<Rightarrow> (case recovered (handler_of A rq w) of (a, w) \<Rightarrow> (a, sv, w)))"

section \<open>A failed push is undone\<close>

definition content :: "world \<Rightarrow> path \<Rightarrow> kind option" where
  "content w p = map_option n_kind (look w p)"

text \<open>\<open>sturdy\<close>: directories and links stay what they are.\<close>

definition sturdy :: "world \<Rightarrow> world \<Rightarrow> bool" where
  "sturdy w v \<longleftrightarrow> same_env w v \<and>
     (\<forall>q nd. look w q = Some nd \<longrightarrow> \<not> is_regular nd \<longrightarrow> (\<exists>nd'. look v q = Some nd' \<and> n_kind nd' = n_kind nd))"

lemma sturdy_refl [simp]: "sturdy w w"
  by (simp add: sturdy_def)

lemma sturdy_trans:
  assumes "sturdy u v" and "sturdy v w"
  shows "sturdy u w"
proof -
  have "\<exists>nd'. look w q = Some nd' \<and> n_kind nd' = n_kind nd" if "look u q = Some nd" "\<not> is_regular nd" for q nd
  proof -
    from assms(1) that obtain n1 where n1: "look v q = Some n1" "n_kind n1 = n_kind nd" unfolding sturdy_def by blast
    then have "\<not> is_regular n1" using that(2) by (simp add: is_regular_def)
    with assms(2) n1 show ?thesis unfolding sturdy_def by fastforce
  qed
  with assms same_env_trans show ?thesis unfolding sturdy_def by blast
qed

lemma sturdy_put: "(\<And>nd'. look w p = Some nd' \<Longrightarrow> is_regular nd') \<Longrightarrow> sturdy w (put p nd w)"
  by (auto simp: sturdy_def)

lemma sturdy_del: "(\<And>nd'. look w p = Some nd' \<Longrightarrow> is_regular nd') \<Longrightarrow> sturdy w (del p w)"
  using frame_env [OF frame_del [of "\<lambda>_. True" p w]] by (auto simp: sturdy_def)

lemma sturdy_MkdirAll: "sturdy w (snd (os_MkdirAll p m w))"
proof -
  have "sturdy w (snd (mkdir_parts cur ps m w))" for cur ps
  proof (induction ps arbitrary: cur w)
    case (Cons part rest)
    have "sturdy w (snd (mkdir_parts (cur @ [part]) rest m (put (cur @ [part]) (new_dir w cur m) w)))"
      if "look w (cur @ [part]) = None"
      by (rule sturdy_trans [OF sturdy_put Cons]) (use that in simp)
    with Cons show ?case by (simp add: Let_def split: sum.splits)
  qed simp
  then show ?thesis by (simp add: os_MkdirAll_def)
qed

lemma sturdy_stat:
  assumes "sturdy w v" and "os_Stat w d = Inr nd" and "is_dir nd"
  shows "\<exists>nd'. os_Stat v d = Inr nd' \<and> is_dir nd'"
proof -
  have "\<exists>nd'. follow k (w_fs v) p = Inr (q, nd') \<and> is_dir nd'" if "follow k (w_fs w) p = Inr (q, nd)" for k p q
    using that
  proof (induction k arbitrary: p)
    case (Suc k)
    then obtain n where n: "look w p = Some n" by (auto split: option.splits)
    have "\<not> is_regular n" using Suc.prems n assms(3) by (auto simp: is_regular_def is_dir_def split: kind.splits)
    with assms(1) n obtain n' where n': "look v p = Some n'" "n_kind n' = n_kind n" unfolding sturdy_def by blast
    show ?case using Suc n n' assms(3) by (auto simp: is_dir_def split: kind.splits)
  qed simp
  with assms show ?thesis by (fastforce simp: os_Stat_def sturdy_def same_env_def split: if_splits sum.splits)
qed

text \<open>What a write needs; a write that succeeded shows it.\<close>

definition can_write :: "path \<Rightarrow> world \<Rightarrow> bool" where
  "can_write p w \<longleftrightarrow> (\<forall>op \<in> {OpCreateTemp, OpWrite, OpChmod, OpSync, OpClose, OpRename}. \<not> fault w op p) \<and>
     (\<exists>nd. os_Stat w (butlast p) = Inr nd \<and> is_dir nd)"

lemma can_write_sturdy: "can_write p w \<Longrightarrow> sturdy w v \<Longrightarrow> can_write p v"
  using sturdy_stat unfolding can_write_def by (fastforce simp: sturdy_def same_env_def)

lemma written_can_write: "WriteFileAtomic p d m w = (Inr (), w') \<Longrightarrow> can_write p w"
  by (auto simp: WriteFileAtomic_def can_write_def Let_def split: if_splits sum.splits)

lemma can_write_writes:
  assumes "can_write p w" and "look w p = Some nd" and "is_regular nd"
  shows "WriteFileAtomic p d m w = (Inr (), put p (new_file w (butlast p) m d) w)"
proof -
  have "fresh_tmp (w_fs w) (butlast p) \<noteq> p" using fresh_tmp_fresh [of w "butlast p"] assms(2) by auto
  moreover have "\<not> is_dir nd" using assms(3) by (simp add: is_regular_def is_dir_def split: kind.splits)
  ultimately have "\<exists>w'. WriteFileAtomic p d m w = (Inr (), w')"
    using assms by (auto simp: WriteFileAtomic_def can_write_def Let_def)
  then show ?thesis using WriteFileAtomic_ok by blast
qed

lemma restore_file_ok:
  assumes "can_write (pf_path f) w" and "look w (pf_path f) = Some nd" and "is_regular nd" and "\<And>q. \<not> fault w OpRemove q"
  shows "content (restore_file (f, old) w) (pf_path f) = map_option Reg old"
    and "frame (\<lambda>q. q = pf_path f) w (restore_file (f, old) w)" and "sturdy w (restore_file (f, old) w)"
proof -
  have "\<not> is_dir nd" using assms(3) by (simp add: is_regular_def is_dir_def split: kind.splits)
  then have r: "restore_file (f, old) w = (case old of
      Some d \<Rightarrow> put (pf_path f) (new_file w (butlast (pf_path f)) (pf_perm f) d) w | None \<Rightarrow> del (pf_path f) w)"
    using can_write_writes [OF assms(1-3)] assms(2,4) by (auto simp: restore_file_def os_Remove_def split: option.splits)
  show "content (restore_file (f, old) w) (pf_path f) = map_option Reg old"
    unfolding r by (cases old) (simp_all add: content_def new_file_def)
  show "frame (\<lambda>q. q = pf_path f) w (restore_file (f, old) w)"
    unfolding r by (cases old) (simp_all add: frame_put frame_del)
  show "sturdy w (restore_file (f, old) w)"
    unfolding r using assms(2,3) by (cases old) (auto intro!: sturdy_put sturdy_del)
qed

definition fo_path :: "pkiFile \<times> string option \<Rightarrow> path" where
  "fo_path fo = pf_path (fst fo)"

lemma restore_all:
  assumes "distinct (map fo_path fos)" and "\<And>q. \<not> fault w OpRemove q"
    and "\<And>fo. fo \<in> set fos \<Longrightarrow> can_write (fo_path fo) w \<and> (\<exists>nd. look w (fo_path fo) = Some nd \<and> is_regular nd)"
  shows "(\<forall>fo \<in> set fos. content (fold restore_file fos w) (fo_path fo) = map_option Reg (snd fo)) \<and>
    (\<forall>q. q \<notin> fo_path ` set fos \<longrightarrow> look (fold restore_file fos w) q = look w q)"
  using assms
proof (induction fos arbitrary: w)
  case (Cons fo fos)
  obtain f old where fo: "fo = (f, old)" by fastforce
  obtain nd where nd: "look w (pf_path f) = Some nd" "is_regular nd" "can_write (pf_path f) w"
    using Cons.prems(3) [of fo] by (auto simp: fo fo_path_def)
  let ?v = "restore_file fo w"
  note r = restore_file_ok [OF nd(3,1,2) Cons.prems(2), of old, folded fo]
  have p: "fo_path fo = pf_path f" by (simp add: fo fo_path_def)
  have new: "fo_path fo \<notin> fo_path ` set fos" using Cons.prems(1) by auto
  have kept: "look ?v q = look w q" if "q \<noteq> pf_path f" for q
    by (rule frame_look [OF r(2)]) (rule that)
  have other: "look ?v (fo_path g) = look w (fo_path g)" if "g \<in> set fos" for g
    by (rule kept) (use new that p in force)
  have IH: "(\<forall>fo \<in> set fos. content (fold restore_file fos ?v) (fo_path fo) = map_option Reg (snd fo)) \<and>
    (\<forall>q. q \<notin> fo_path ` set fos \<longrightarrow> look (fold restore_file fos ?v) q = look ?v q)"
  proof (rule Cons.IH)
    show "distinct (map fo_path fos)" using Cons.prems(1) by simp
    show "\<not> fault ?v OpRemove q" for q using Cons.prems(2) frame_fault [OF r(2)] by simp
    show "can_write (fo_path g) ?v \<and> (\<exists>nd. look ?v (fo_path g) = Some nd \<and> is_regular nd)" if "g \<in> set fos" for g
      using Cons.prems(3) [of g] that other can_write_sturdy [OF _ r(3)] by auto
  qed
  let ?u = "fold restore_file fos ?v"
  have "content ?u (pf_path f) = content ?v (pf_path f)"
    using IH new unfolding content_def p by simp
  with r(1) IH have "\<forall>g \<in> set (fo # fos). content ?u (fo_path g) = map_option Reg (snd g)"
    by (simp add: p) (simp add: fo)
  moreover have "look ?u q = look w q" if "q \<notin> fo_path ` set (fo # fos)" for q
    using that IH kept [of q] p by simp
  ultimately show ?case by simp
qed simp

text \<open>No file of the list lies on the way to another.\<close>

definition separate_files :: "(pkiFile \<times> string option) list \<Rightarrow> bool" where
  "separate_files fos \<longleftrightarrow> distinct (map fo_path fos) \<and>
     (\<forall>f \<in> set fos. \<forall>g \<in> set fos. \<not> prefix (fo_path f) (butlast (fo_path g)))"

definition placed :: "pkiFile \<times> string option \<Rightarrow> world \<Rightarrow> bool" where
  "placed fo w \<longleftrightarrow> can_write (fo_path fo) w \<and> (\<exists>nd. look w (fo_path fo) = Some nd \<and> is_regular nd)"

lemma placed_step:
  assumes "placed fo w" and "sturdy w v" and "look v (fo_path fo) = look w (fo_path fo)"
  shows "placed fo v"
  using assms can_write_sturdy by (auto simp: placed_def)

lemma write_pushed_undone:
  assumes "write_pushed done fos w = (Inl e, w')" and "\<And>q. \<not> fault w OpRemove q" and "separate_files (done @ fos)"
    and "\<And>fo. fo \<in> set done \<Longrightarrow> placed fo w"
    and "\<And>fo. fo \<in> set fos \<Longrightarrow> content w (fo_path fo) = map_option Reg (snd fo)"
  shows "\<forall>fo \<in> set (done @ fos). content w' (fo_path fo) = map_option Reg (snd fo)"
  using assms
proof (induction fos arbitrary: "done" w)
  case (Cons fo fos)
  let ?p = "fo_path fo"
  define v where "v = snd (os_MkdirAll (butlast ?p) perm_0755 w)"
  obtain r0 where m: "os_MkdirAll (butlast ?p) perm_0755 w = (r0, v)" unfolding v_def by (metis prod.collapse)
  have sv: "sturdy w v" unfolding v_def by (rule sturdy_MkdirAll)
  have kept: "look v (fo_path g) = look w (fo_path g)" if "g \<in> set (done @ fo # fos)" for g
    by (rule frame_look [OF os_MkdirAll_frame [OF m]]) (use Cons.prems(3) that in \<open>auto simp: separate_files_def\<close>)
  have rm: "\<not> fault v OpRemove q" for q using Cons.prems(2) sv by (simp add: sturdy_def same_env_def)
  have placed_v: "placed g v" if "g \<in> set done" for g
    by (rule placed_step [OF Cons.prems(4) [OF that] sv]) (use kept that in simp)
  have undone: "\<forall>g \<in> set (done @ fo # fos). content (fold restore_file done v) (fo_path g) = map_option Reg (snd g)"
  proof -
    have "distinct (map fo_path done)" using Cons.prems(3) by (simp add: separate_files_def)
    from restore_all [OF this rm placed_v [unfolded placed_def]]
    have a: "\<forall>g \<in> set done. content (fold restore_file done v) (fo_path g) = map_option Reg (snd g)"
      and b: "\<And>q. q \<notin> fo_path ` set done \<Longrightarrow> look (fold restore_file done v) q = look v q" by blast+
    have "content (fold restore_file done v) (fo_path g) = map_option Reg (snd g)" if "g \<in> set (fo # fos)" for g
    proof -
      have "fo_path g \<notin> fo_path ` set done" using Cons.prems(3) that by (auto simp: separate_files_def)
      with b kept [of g] Cons.prems(5) [OF that] that show ?thesis by (auto simp: content_def)
    qed
    with a show ?thesis by auto
  qed
  obtain r1 v1 where a: "WriteFileAtomic ?p (pf_pem (fst fo)) (pf_perm (fst fo)) v = (r1, v1)" by fastforce
  have step: "write_pushed done (fo # fos) w = (case r0 of Inl e \<Rightarrow> (Inl e, fold restore_file done v)
      | Inr _ \<Rightarrow> (case r1 of Inl e \<Rightarrow> (Inl e, fold restore_file done v1) | Inr _ \<Rightarrow> write_pushed (done @ [fo]) fos v1))"
    using m a by (simp add: fo_path_def split: sum.splits)
  consider (mkdir) e where "r0 = Inl e" | (refused) e where "r0 = Inr ()" "r1 = Inl e" | (both) "r0 = Inr ()" "r1 = Inr ()"
    by (cases r0; cases r1) auto
  then show ?case
  proof cases
    case mkdir
    then have "w' = fold restore_file done v" using step Cons.prems(1) by simp
    with undone show ?thesis by simp
  next
    case refused
    then have "v1 = v" using WriteFileAtomic_err_clean [of ?p _ _ v _ v1] a rm by blast
    then have "w' = fold restore_file done v" using refused step Cons.prems(1) by simp
    with undone show ?thesis by simp
  next
    case both
    then have v1: "v1 = put ?p (new_file v (butlast ?p) (pf_perm (fst fo)) (pf_pem (fst fo))) v"
      using WriteFileAtomic_ok a by simp
    have c: "content v ?p = map_option Reg (snd fo)" using kept [of fo] Cons.prems(5) [of fo] by (simp add: content_def)
    have "is_regular nd" if "look v ?p = Some nd" for nd
      using c that by (cases "snd fo") (auto simp: content_def is_regular_def)
    then have s1: "sturdy v v1" unfolding v1 by (rule sturdy_put)
    have "?p \<notin> fo_path ` set (done @ fos)" using Cons.prems(3) by (auto simp: separate_files_def)
    then have other: "look v1 (fo_path g) = look v (fo_path g)" if "g \<in> set (done @ fos)" for g
      using that by (metis v1 look_put image_eqI)
    have "\<forall>g \<in> set ((done @ [fo]) @ fos). content w' (fo_path g) = map_option Reg (snd g)"
    proof (rule Cons.IH)
      show "write_pushed (done @ [fo]) fos v1 = (Inl e, w')" using both step Cons.prems(1) by simp
      show "\<not> fault v1 OpRemove q" for q using rm s1 by (simp add: sturdy_def same_env_def)
      show "separate_files ((done @ [fo]) @ fos)" using Cons.prems(3) by simp
      show "content v1 (fo_path g) = map_option Reg (snd g)" if "g \<in> set fos" for g
        using other [of g] kept [of g] Cons.prems(5) [of g] that by (simp add: content_def)
      show "placed g v1" if "g \<in> set (done @ [fo])" for g
      proof (cases "g = fo")
        case True
        have "can_write ?p v1" by (rule can_write_sturdy [OF written_can_write s1]) (use a both in simp)
        with True show ?thesis by (simp add: placed_def v1 new_file_def is_regular_def)
      next
        case False
        with that have "g \<in> set done" by simp
        with placed_step [OF placed_v s1] other show ?thesis by simp
      qed
    qed
    then show ?thesis by simp
  qed
qed simp

lemma read_old_contents:
  assumes "read_old w fs = Inr olds" and "\<And>f. f \<in> set fs \<Longrightarrow> plain w (pf_path f)"
  shows "map fst olds = fs \<and> (\<forall>fo \<in> set olds. content w (fo_path fo) = map_option Reg (snd fo))"
  using assms
proof (induction fs arbitrary: olds)
  case (Cons f fs)
  then obtain old rest where o: "olds = (f, old) # rest" "read_old w fs = Inr rest"
    "os_ReadFile w (pf_path f) = Inl NotExist \<and> old = None \<or> (\<exists>d. os_ReadFile w (pf_path f) = Inr d \<and> old = Some d)"
    by (auto split: sum.splits if_splits)
  have "content w (pf_path f) = map_option Reg old"
    using o(3) Cons.prems(2) [of f] by (auto simp: content_def plain_ReadFile split: if_splits option.splits kind.splits)
  with Cons o show ?case by (simp add: fo_path_def)
qed simp

definition identity_files :: "world \<Rightarrow> path list" where
  "identity_files w = [ServerKey w, ServerCert w, CACert w]"

lemma store_pushed_undone:
  assumes "store_pushed b w = (Inl e, w')" and "\<And>p. p \<in> set (identity_files w) \<Longrightarrow> plain w p"
    and "\<And>q. \<not> fault w OpRemove q" and "p \<in> set (identity_files w)"
  shows "content w' p = content w p"
proof (cases "read_old w (pushed_files w b)")
  case (Inr olds)
  have files: "map pf_path (pushed_files w b) = identity_files w" by (simp add: pushed_files_def identity_files_def)
  have "plain w (pf_path f)" if "f \<in> set (pushed_files w b)" for f
    by (rule assms(2)) (use that files in \<open>metis image_eqI list.set_map\<close>)
  note olds = read_old_contents [OF Inr this]
  have r1: "map fst olds = pushed_files w b" by (rule conjunct1 [OF olds])
  have r2: "content w (fo_path fo) = map_option Reg (snd fo)" if "fo \<in> set olds" for fo
    by (rule bspec [OF conjunct2 [OF olds] that])
  have paths: "map fo_path olds = identity_files w"
    using arg_cong [OF r1, of "map pf_path"] files by (simp add: fo_path_def [abs_def] comp_def)
  have "separate_files ([] @ olds)"
  proof -
    have "\<not> prefix a (butlast b)" if "a \<in> set (identity_files w)" "b \<in> set (identity_files w)" for a b
      using that by (auto simp: identity_files_def ServerKey_def ServerCert_def CACert_def butlast_append simp del: prefix_snoc)
    moreover have "distinct (identity_files w)" by (simp add: identity_files_def ServerKey_def ServerCert_def CACert_def)
    moreover have "fo_path f \<in> set (identity_files w)" if "f \<in> set olds" for f
      using that paths by (metis image_eqI list.set_map)
    ultimately show ?thesis unfolding separate_files_def by (simp add: paths)
  qed
  moreover have "write_pushed [] olds w = (Inl e, w')" using assms(1) Inr by (simp add: store_pushed_def)
  ultimately have u: "\<forall>fo \<in> set olds. content w' (fo_path fo) = map_option Reg (snd fo)"
    using write_pushed_undone [of "[]" olds w e w'] assms(3) r2 by simp
  obtain fo where "fo \<in> set olds" "fo_path fo = p" using assms(4) paths by (metis imageE list.set_map)
  with u r2 show ?thesis by fastforce
qed (use assms in \<open>simp add: store_pushed_def\<close>)

definition issue_lock :: "world \<Rightarrow> path" where
  "issue_lock w = pki_file w ''.issue.lock''"

lemma WithPKILock_plain:
  assumes "plain w (issue_lock w)" and "WithPKILock fn w = (r, w')"
  obtains (refused) "frame (\<lambda>q. q = issue_lock w) w w'" | (ran) v where "frame (\<lambda>q. q = issue_lock w) w v" "fn v = (r, w')"
proof -
  obtain r1 v where o: "open_create (issue_lock w) perm_0600 w = (r1, v)" by fastforce
  have "frame (\<lambda>q. q = issue_lock w) w v" by (rule open_create_plain [OF assms(1) o])
  moreover have "w' = v \<or> fn v = (r, w')"
    using assms(2) o by (auto simp: WithPKILock_def lockPKI_def issue_lock_def split: sum.splits if_splits)
  ultimately show thesis using that by blast
qed

lemma lock_not_identity: "p \<in> set (identity_files w) \<Longrightarrow> p \<noteq> issue_lock w"
  by (auto simp: identity_files_def issue_lock_def pki_file_def ServerKey_def ServerCert_def CACert_def)


definition push_agent :: agent where
  "push_agent = \<lparr>ag_rival = (\<lambda>w. w), ag_same = (\<lambda>_. True),
     ag_mgmt = \<lparr>mg_peer = undefined, mg_running = False, mg_port = 7505\<rparr>, ag_crypto = plain_crypto, ag_order = [],
     ag_pgrep = [], ag_outside = undefined, ag_restart = (\<lambda>w. (False, w)), ag_easyrsa = build_nothing,
     ag_p256 = Inl ''no key'', ag_addr = ''node''\<rparr>"

definition good_push :: pushPKIRequest where
  "good_push = \<lparr>pp_ca = ''CERTIFICATE'' @ [NL] @ ''1,CA'', pp_cert = ''CERTIFICATE'' @ [NL] @ ''2,server'',
     pp_key = ''EC PRIVATE KEY'' @ [NL] @ ''key''\<rparr>"

definition full_disk :: world where
  "full_disk = sample_pki\<lparr>w_fault := (\<lambda>op p. op = OpWrite \<and> last p = ''ca.crt''), w_now := 1000\<rparr>"

lemma full_disk_valid: "\<not> isl (ValidateServerCert plain_crypto 1000 (pp_ca good_push) (pp_cert good_push) (pp_key good_push))"
  by code_simp

lemma full_disk_clean: "clean_push plain_crypto good_push = good_push"
  by code_simp

lemma full_disk_store: "is_err (WithPKILock (store_pushed good_push) full_disk)"
  by code_simp

lemma full_disk_plain: "list_all (plain full_disk) (issue_lock full_disk # identity_files full_disk)"
  by code_simp

lemma full_disk_answer:
  "\<exists>w'. handlePushPKI push_agent (Some good_push) full_disk
      = (Some (Envelope False ''Failed to store pushed PKI'' JNull), w')"
proof -
  define m where "m = ''Failed to store pushed PKI''"
  have a: "ag_crypto push_agent = plain_crypto" "w_now full_disk = 1000" by (simp_all add: push_agent_def full_disk_def)
  obtain u where v: "ValidateServerCert plain_crypto 1000 (pp_ca good_push) (pp_cert good_push) (pp_key good_push) = Inr u"
    using full_disk_valid by (cases "ValidateServerCert plain_crypto 1000 (pp_ca good_push) (pp_cert good_push) (pp_key good_push)") auto
  note s = is_errD [OF full_disk_store]
  show ?thesis unfolding m_def [symmetric] unfolding handlePushPKI_def option.case a v sum.case full_disk_clean
    by (subst s) (simp add: writeFail_def m_def)
qed


section \<open>Every route is behind the gate\<close>


definition let_through :: http_req where
  "let_through = Auth.sample_request sample_key ''blue'' ''3''"

lemma sample_let_through:
  "\<exists>sv' w'. authorize id let_through True Auth.sample_server (at_time 100000000001 sample_pairing) = (None, sv', w')"
proof -
  have f: "fair_requests id [(100000000001, let_through, True)]" unfolding fair_requests_def by (intro conjI; code_simp)
  have g: "gate_run id sample_key [(100000000001, let_through, True)] sample_gate = [None]" by code_simp
  have sv: "sv_limiter Auth.sample_server = New" "sv_key Auth.sample_server = sample_key" by (simp_all add: Auth.sample_server_def)
  have "authorize_run id [(100000000001, let_through, True)] Auth.sample_server sample_pairing = [None]"
    using fair_run [OF f sv(1) sample_pairing_ok(1-3)] g by (simp add: sv(2) sample_gate_def)
  then show ?thesis by (auto split: prod.splits)
qed


end
