(* ===== verification/Natrules.thy ===== *)
theory Natrules
  imports Settings
begin

text \<open>
  The NAT rules of the node: \<open>src/internal/nat/nat.go\<close>. The programs \<open>ip\<close> and \<open>iptables\<close> are the
  argument \<open>ans\<close>: what a command answers after the commands that were run before. The state of the
  operations is that history of commands and answers, so that a theorem about it speaks of everything
  the package does to the firewall, whatever the programs answer.
\<close>

section \<open>Configuration\<close>

record nat_config =
  nc_enabled :: bool
  nc_port :: int
  nc_extra :: string
  nc_subnet :: string
  nc_dev :: string

definition os_Getenv :: "world \<Rightarrow> string \<Rightarrow> string" where
  "os_Getenv w n = (case w_env w n of Some v \<Rightarrow> v | None \<Rightarrow> [])"

definition nat_conf_path :: "world \<Rightarrow> path" where
  "nat_conf_path w = (let v = os_Getenv w ''OVNODE_NAT_CONF'' in to_path (if v \<noteq> [] then v else ''/etc/default/ovnode-nat''))"

text \<open>The value \<open>strconv.Atoi\<close> returns beside its error: 0, or the nearest bound when out of range.\<close>

definition Atoi_value :: "string \<Rightarrow> int" where
  "Atoi_value s = (case Atoi s of Some n \<Rightarrow> n | None \<Rightarrow>
     (case s of [] \<Rightarrow> 0 | c # cs \<Rightarrow>
        if c = CHR ''-'' then (if all_digits cs then - (2 ^ 63) else 0)
        else if all_digits (if c = CHR ''+'' then cs else s) then 2 ^ 63 - 1 else 0))"

definition yes :: "string \<Rightarrow> bool" where
  "yes v \<longleftrightarrow> v = ''1'' \<or> EqualFold v ''true'' \<or> EqualFold v ''yes''"

definition with_port :: "string \<Rightarrow> nat_config \<Rightarrow> nat_config" where
  "with_port v c = (let n = Atoi_value v in if 0 < n then c\<lparr>nc_port := n\<rparr> else c)"

definition env_config :: "world \<Rightarrow> nat_config" where
  "env_config w =
     (let c = \<lparr>nc_enabled = False, nc_port = 0, nc_extra = [], nc_subnet = VPNSubnet w, nc_dev = ''tun0''\<rparr>;
          v = os_Getenv w ''VPN_PRIMARY_PORT''; c = (if v \<noteq> [] then with_port v c else c);
          v = os_Getenv w ''VPN_EXTRA_PORTS''; c = (if v \<noteq> [] then c\<lparr>nc_extra := v\<rparr> else c);
          v = os_Getenv w ''VPN_SUBNET''; c = (if v \<noteq> [] then c\<lparr>nc_subnet := v\<rparr> else c);
          v = os_Getenv w ''VPN_TUN_DEV''; c = (if v \<noteq> [] then c\<lparr>nc_dev := v\<rparr> else c);
          v = os_Getenv w ''VPN_NAT_ENABLED''
      in if v \<noteq> [] then c\<lparr>nc_enabled := yes v\<rparr> else c)"

text \<open>One line of the file; the flag tells whether \<open>VPN_NAT_ENABLED\<close> was seen.\<close>

definition conf_line :: "world \<Rightarrow> string \<Rightarrow> nat_config \<times> bool \<Rightarrow> nat_config \<times> bool" where
  "conf_line w line0 cs =
     (let line = TrimSpace line0; (c, seen) = cs; (k, v, found) = Cut (CHR ''='') line in
      if line = [] \<or> HasPrefix line ''#'' \<or> \<not> found then cs
      else let key = TrimSpace k; val = TrimSet [DQ] (TrimSpace v) in
        if key = ''VPN_NAT_ENABLED'' then (c\<lparr>nc_enabled := yes val\<rparr>, True)
        else if key = ''VPN_PRIMARY_PORT'' then (with_port val c, seen)
        else if key = ''VPN_EXTRA_PORTS'' then (if nc_extra c = [] then c\<lparr>nc_extra := val\<rparr> else c, seen)
        else if key = ''VPN_SUBNET'' then (if nc_subnet c = VPNSubnet w then c\<lparr>nc_subnet := val\<rparr> else c, seen)
        else if key = ''VPN_TUN_DEV'' then (if nc_dev c = ''tun0'' then c\<lparr>nc_dev := val\<rparr> else c, seen)
        else cs)"

definition LoadConfig :: "world \<Rightarrow> nat_config" where
  "LoadConfig w =
     (let c = env_config w in
      case os_ReadFile w (nat_conf_path w) of
        Inl _ \<Rightarrow> c
      | Inr data \<Rightarrow>
          (let (c, seen) = fold (conf_line w) (Split NL data) (c, False)
           in if \<not> seen \<and> os_Getenv w ''VPN_NAT_ENABLED'' = [] then c\<lparr>nc_enabled := True\<rparr> else c))"

section \<open>Commands\<close>

type_synonym history_of_commands = "(string list \<times> string res) list"
type_synonym answers = "history_of_commands \<Rightarrow> string list \<Rightarrow> string res"

definition execCmd :: "answers \<Rightarrow> string list \<Rightarrow> history_of_commands \<Rightarrow> string res \<times> history_of_commands" where
  "execCmd ans cmd h = (let r = ans h cmd in (r, h @ [(cmd, r)]))"

definition iface_char :: "char \<Rightarrow> bool" where
  "iface_char c \<longleftrightarrow> is_alnum c \<or> c \<in> {CHR ''.'', CHR ''_'', CHR ''-''}"

definition validIface :: "string \<Rightarrow> bool" where
  "validIface name \<longleftrightarrow> 1 \<le> length name \<and> length name \<le> 15 \<and> list_all iface_char name"

fun iface_of_fields :: "string list \<Rightarrow> string option" where
  "iface_of_fields (f # g # fs) = (if f = ''dev'' \<and> validIface g then Some g else iface_of_fields (g # fs))"
| "iface_of_fields _ = None"

fun iface_of_lines :: "string list \<Rightarrow> string" where
  "iface_of_lines [] = []"
| "iface_of_lines (l # ls) = (case iface_of_fields (Fields l) of Some i \<Rightarrow> i | None \<Rightarrow> iface_of_lines ls)"

definition route_command :: "string list" where
  "route_command = [''ip'', ''-o'', ''route'', ''show'', ''default'']"

definition defaultIface :: "answers \<Rightarrow> history_of_commands \<Rightarrow> string \<times> history_of_commands" where
  "defaultIface ans h = (case execCmd ans route_command h of
      (Inl _, h) \<Rightarrow> ([], h)
    | (Inr out, h) \<Rightarrow> (iface_of_lines (Split NL out), h))"

definition iptables :: "string \<Rightarrow> string \<Rightarrow> string \<Rightarrow> string list \<Rightarrow> string list" where
  "iptables table op chain args = [''iptables'', ''-t'', table, op, chain] @ args"

definition rule_error :: "string \<Rightarrow> string \<Rightarrow> string \<Rightarrow> err \<Rightarrow> err" where
  "rule_error op table chain e = Err (''iptables '' @ op @ '' '' @ table @ ''/'' @ chain @ '': '' @ err_text e)"

definition rule_add :: "answers \<Rightarrow> string \<Rightarrow> string \<Rightarrow> string list \<Rightarrow> history_of_commands \<Rightarrow> unit res \<times> history_of_commands" where
  "rule_add ans table chain args h =
     (case execCmd ans (iptables table ''-C'' chain args) h of
        (Inr _, h) \<Rightarrow> (Inr (), h)
      | (Inl _, h) \<Rightarrow> (case execCmd ans (iptables table ''-A'' chain args) h of
          (Inl e, h) \<Rightarrow> (Inl (rule_error ''add'' table chain e), h)
        | (Inr _, h) \<Rightarrow> (Inr (), h)))"

definition rule_del :: "answers \<Rightarrow> string \<Rightarrow> string \<Rightarrow> string list \<Rightarrow> history_of_commands \<Rightarrow> unit res \<times> history_of_commands" where
  "rule_del ans table chain args h =
     (case execCmd ans (iptables table ''-D'' chain args) h of
        (Inl e, h) \<Rightarrow> (Inl (rule_error ''del'' table chain e), h)
      | (Inr _, h) \<Rightarrow> (Inr (), h))"

definition masquerade :: "string \<Rightarrow> string \<Rightarrow> string list" where
  "masquerade subnet iface =
     [''-s'', subnet, ''-o'', iface, ''-m'', ''comment'', ''--comment'', ''ovnode-nat'', ''-j'', ''MASQUERADE'']"

definition redirect :: "int \<Rightarrow> string \<times> string \<Rightarrow> string list" where
  "redirect primary pp = [''-p'', snd pp, ''--dport'', fst pp, ''-m'', ''comment'', ''--comment'', ''ovnode-redirect'',
     ''-j'', ''REDIRECT'', ''--to-ports'', Itoa primary]"

text \<open>The redirects a configuration asks for: every extra port over both transports.\<close>

definition redirects :: "nat_config \<Rightarrow> (string \<times> string) list" where
  "redirects c = (if 0 < nc_port c \<and> nc_extra c \<noteq> []
     then concat (map (\<lambda>p. [(p, ''tcp''), (p, ''udp'')]) (Fields (ReplaceByte (CHR '','') (CHR '' '') (nc_extra c))))
     else [])"

definition list_command :: "string list" where
  "list_command = [''iptables'', ''-t'', ''nat'', ''-S'', ''PREROUTING'']"

fun flush_lines :: "answers \<Rightarrow> string list \<Rightarrow> history_of_commands \<Rightarrow> unit res \<times> history_of_commands" where
  "flush_lines ans [] h = (Inr (), h)"
| "flush_lines ans (line # lines) h =
     (if \<not> Contains line ''ovnode-redirect'' \<or> \<not> HasPrefix line ''-A PREROUTING'' \<or> Fields line = []
      then flush_lines ans lines h
      else case execCmd ans ([''iptables'', ''-t'', ''nat''] @ (Fields line)[0 := ''-D'']) h of
        (Inl e, h) \<Rightarrow> (Inl (Err (''ovnode-nat: delete redirect rule: '' @ err_text e)), h)
      | (Inr _, h) \<Rightarrow> flush_lines ans lines h)"

definition flushOwnRedirects :: "answers \<Rightarrow> history_of_commands \<Rightarrow> unit res \<times> history_of_commands" where
  "flushOwnRedirects ans h = (case execCmd ans list_command h of
      (Inl e, h) \<Rightarrow> (Inl (Err (''ovnode-nat: list PREROUTING rules: '' @ err_text e)), h)
    | (Inr out, h) \<Rightarrow> flush_lines ans (Split NL out) h)"

fun add_redirects :: "answers \<Rightarrow> int \<Rightarrow> (string \<times> string) list \<Rightarrow> history_of_commands \<Rightarrow> unit res \<times> history_of_commands" where
  "add_redirects ans primary [] h = (Inr (), h)"
| "add_redirects ans primary (pp # pps) h = (case rule_add ans ''nat'' ''PREROUTING'' (redirect primary pp) h of
      (Inl e, h) \<Rightarrow> (Inl e, h)
    | (Inr _, h) \<Rightarrow> add_redirects ans primary pps h)"

definition add_rules :: "answers \<Rightarrow> nat_config \<Rightarrow> string \<Rightarrow> history_of_commands \<Rightarrow> unit res \<times> history_of_commands" where
  "add_rules ans c iface h =
     (case rule_add ans ''nat'' ''POSTROUTING'' (masquerade (nc_subnet c) iface) h of
        (Inl e, h) \<Rightarrow> (Inl e, h)
      | (Inr _, h) \<Rightarrow> add_redirects ans (nc_port c) (redirects c) h)"

definition nat_Apply :: "answers \<Rightarrow> world \<Rightarrow> history_of_commands \<Rightarrow> unit res \<times> history_of_commands" where
  "nat_Apply ans w h =
     (let c = LoadConfig w in
      if \<not> nc_enabled c then (Inr (), h)
      else case defaultIface ans h of (iface, h) \<Rightarrow>
      if iface = [] then (Inl (Err ''ovnode-nat: no default interface found''), h)
      else case flushOwnRedirects ans h of (Inl e, h) \<Rightarrow> (Inl e, h) | (Inr _, h) \<Rightarrow> add_rules ans c iface h)"

fun del_redirects :: "answers \<Rightarrow> int \<Rightarrow> (string \<times> string) list \<Rightarrow> history_of_commands \<Rightarrow> history_of_commands" where
  "del_redirects ans primary [] h = h"
| "del_redirects ans primary (pp # pps) h =
     del_redirects ans primary pps (snd (rule_del ans ''nat'' ''PREROUTING'' (redirect primary pp) h))"

definition nat_Cleanup :: "answers \<Rightarrow> world \<Rightarrow> history_of_commands \<Rightarrow> history_of_commands" where
  "nat_Cleanup ans w h =
     (let c = LoadConfig w in
      case defaultIface ans h of (iface, h) \<Rightarrow>
      let h = (if iface \<noteq> [] then snd (rule_del ans ''nat'' ''POSTROUTING'' (masquerade (nc_subnet c) iface) h) else h)
      in del_redirects ans (nc_port c) (redirects c) h)"

section \<open>Only own rules\<close>

definition own_mark :: "string \<Rightarrow> bool" where
  "own_mark m \<longleftrightarrow> m = ''ovnode-nat'' \<or> m = ''ovnode-redirect''"

text \<open>
  The commands that may be run: the two that only list, and those on one rule of the nat table that
  carries an own comment, or that \<open>iptables -S\<close> printed with the own mark.
\<close>

definition own_command :: "string list \<Rightarrow> bool" where
  "own_command cmd \<longleftrightarrow> cmd = route_command \<or> cmd = list_command \<or>
     (\<exists>op chain args. cmd = iptables ''nat'' op chain args \<and> op \<in> {''-C'', ''-A'', ''-D''} \<and> list_ex own_mark args) \<or>
     (\<exists>line. cmd = [''iptables'', ''-t'', ''nat''] @ (Fields line)[0 := ''-D''] \<and>
        Contains line ''ovnode-redirect'' \<and> HasPrefix line ''-A PREROUTING'')"

definition adds :: "history_of_commands \<Rightarrow> history_of_commands \<Rightarrow> bool" where
  "adds h h' \<longleftrightarrow> (\<exists>new. h' = h @ new \<and> list_all (\<lambda>(cmd, _). own_command cmd) new)"

lemma adds_refl [simp]: "adds h h"
  by (simp add: adds_def)

lemma adds_trans: "adds a b \<Longrightarrow> adds b c \<Longrightarrow> adds a c"
  by (auto simp: adds_def)

lemma adds_exec: "own_command cmd \<Longrightarrow> adds h (snd (execCmd ans cmd h))"
  by (simp add: execCmd_def adds_def Let_def)

lemma own_list: "own_command route_command" "own_command list_command"
  by (simp_all add: own_command_def)

lemma own_rule: "op \<in> {''-C'', ''-A'', ''-D''} \<Longrightarrow> list_ex own_mark args \<Longrightarrow> own_command (iptables ''nat'' op chain args)"
  unfolding own_command_def by blast

lemma own_args: "list_ex own_mark (masquerade s i)" "list_ex own_mark (redirect p pp)"
  by (simp_all add: masquerade_def redirect_def own_mark_def)

lemma adds_bind:
  assumes "adds h (snd r)" and "\<And>x h1. r = (Inr x, h1) \<Longrightarrow> adds h1 (snd (g x h1))" and "\<And>e h1. adds h1 (snd (f e h1))"
  shows "adds h (snd (case r of (Inl e, h1) \<Rightarrow> f e h1 | (Inr x, h1) \<Rightarrow> g x h1))"
proof (cases r)
  case (Pair a h1)
  then show ?thesis using assms adds_trans by (cases a) auto
qed

lemma adds_rule_add: "list_ex own_mark args \<Longrightarrow> adds h (snd (rule_add ans ''nat'' chain args h))"
  unfolding rule_add_def by (intro adds_bind adds_exec own_rule) simp_all

lemma adds_rule_del: "list_ex own_mark args \<Longrightarrow> adds h (snd (rule_del ans ''nat'' chain args h))"
  unfolding rule_del_def by (intro adds_bind adds_exec own_rule) simp_all

lemma adds_redirects: "adds h (snd (add_redirects ans p pps h))" "adds h (del_redirects ans p pps h)"
proof -
  show "adds h (snd (add_redirects ans p pps h))"
  proof (induction pps arbitrary: h)
    case (Cons pp pps)
    show ?case unfolding add_redirects.simps by (intro adds_bind adds_rule_add own_args Cons) simp
  qed simp
  show "adds h (del_redirects ans p pps h)"
  proof (induction pps arbitrary: h)
    case (Cons pp pps)
    show ?case unfolding del_redirects.simps by (rule adds_trans [OF adds_rule_del Cons]) (rule own_args)
  qed simp
qed

lemma adds_flush_lines: "adds h (snd (flush_lines ans lines h))"
proof (induction lines arbitrary: h)
  case (Cons line lines)
  have "own_command ([''iptables'', ''-t'', ''nat''] @ (Fields line)[0 := ''-D''])"
    if "Contains line ''ovnode-redirect''" "HasPrefix line ''-A PREROUTING''"
    unfolding own_command_def using that by blast
  then have "adds h (snd (case execCmd ans ([''iptables'', ''-t'', ''nat''] @ (Fields line)[0 := ''-D'']) h of
        (Inl e, h) \<Rightarrow> (Inl (Err (''ovnode-nat: delete redirect rule: '' @ err_text e)), h)
      | (Inr _, h) \<Rightarrow> flush_lines ans lines h))"
    if "Contains line ''ovnode-redirect''" "HasPrefix line ''-A PREROUTING''"
    using that by (intro adds_bind adds_exec Cons) simp_all
  with Cons show ?case by simp
qed simp

lemma adds_flush: "adds h (snd (flushOwnRedirects ans h))"
  unfolding flushOwnRedirects_def by (intro adds_bind adds_exec own_list adds_flush_lines) simp

lemma adds_iface: "adds h (snd (defaultIface ans h))"
  unfolding defaultIface_def by (intro adds_bind adds_exec own_list) simp_all

lemma adds_add_rules: "adds h (snd (add_rules ans c iface h))"
  unfolding add_rules_def by (intro adds_bind adds_rule_add own_args adds_redirects) simp

lemma adds_Apply: "adds h (snd (nat_Apply ans w h))"
proof -
  obtain i h1 where i: "defaultIface ans h = (i, h1)" by fastforce
  have "adds h1 (snd (case flushOwnRedirects ans h1 of (Inl e, h) \<Rightarrow> (Inl e, h) | (Inr _, h) \<Rightarrow> add_rules ans (LoadConfig w) i h))"
    by (intro adds_bind adds_flush adds_add_rules) simp
  with adds_iface [of h ans] i adds_trans show ?thesis by (fastforce simp: nat_Apply_def Let_def)
qed

lemma adds_Cleanup: "adds h (nat_Cleanup ans w h)"
proof -
  obtain i h1 where i: "defaultIface ans h = (i, h1)" by fastforce
  have "adds h h1" using adds_iface [of h ans] i by simp
  moreover have "adds h1 (if i \<noteq> [] then snd (rule_del ans ''nat'' ''POSTROUTING'' (masquerade (nc_subnet (LoadConfig w)) i) h1) else h1)"
    by (simp add: adds_rule_del own_args)
  ultimately show ?thesis unfolding nat_Cleanup_def Let_def i prod.case by (blast intro: adds_trans adds_redirects(2))
qed

text \<open>
  C18. The package touches its own rules only. Whatever the programs answer, every command that
  \<open>Apply\<close> and \<open>Cleanup\<close> run either lists, or checks, adds or deletes one rule of the nat table with an own
  comment, or deletes a rule that \<open>iptables -S\<close> printed with the own mark.
\<close>

theorem nat_own_rules_only:
  "list_all (\<lambda>(cmd, _). own_command cmd) (snd (nat_Apply ans w [])) \<and>
   list_all (\<lambda>(cmd, _). own_command cmd) (nat_Cleanup ans w [])"
  using adds_Apply [of "[]" ans w] adds_Cleanup [of "[]" ans w] by (auto simp: adds_def)

section \<open>What a successful run ensures\<close>

definition ensured :: "string \<Rightarrow> string list \<Rightarrow> history_of_commands \<Rightarrow> bool" where
  "ensured chain args h \<longleftrightarrow> (\<exists>op out. op \<in> {''-C'', ''-A''} \<and> (iptables ''nat'' op chain args, Inr out) \<in> set h)"

definition no_delete :: "history_of_commands \<Rightarrow> bool" where
  "no_delete h \<longleftrightarrow> list_all (\<lambda>(cmd, _). cmd ! 3 \<noteq> ''-D'') h"

lemma rule_add_ok:
  assumes "rule_add ans ''nat'' chain args h = (Inr (), h')"
  shows "\<exists>new. h' = h @ new \<and> no_delete new \<and> ensured chain args new"
proof (cases "ans h (iptables ''nat'' ''-C'' chain args)")
  case (Inr out)
  with assms have "h' = h @ [(iptables ''nat'' ''-C'' chain args, Inr out)]"
    by (simp add: rule_add_def execCmd_def Let_def)
  then show ?thesis by (auto simp: no_delete_def ensured_def iptables_def)
next
  case (Inl e)
  let ?h = "h @ [(iptables ''nat'' ''-C'' chain args, Inl e)]"
  from Inl assms obtain out where "ans ?h (iptables ''nat'' ''-A'' chain args) = Inr out"
    "h' = ?h @ [(iptables ''nat'' ''-A'' chain args, Inr out)]"
    by (auto simp: rule_add_def execCmd_def Let_def split: sum.splits)
  then show ?thesis by (auto simp: no_delete_def ensured_def iptables_def)
qed

lemma ensured_append: "ensured chain args a \<or> ensured chain args b \<Longrightarrow> ensured chain args (a @ b)"
  by (auto simp: ensured_def)

lemma no_delete_append [simp]: "no_delete (a @ b) \<longleftrightarrow> no_delete a \<and> no_delete b"
  by (simp add: no_delete_def)

lemma add_redirects_ok:
  "add_redirects ans p pps h = (Inr (), h') \<Longrightarrow>
   \<exists>new. h' = h @ new \<and> no_delete new \<and> list_all (\<lambda>pp. ensured ''PREROUTING'' (redirect p pp) new) pps"
proof (induction pps arbitrary: h)
  case Nil
  then show ?case by (simp add: no_delete_def)
next
  case (Cons pp pps)
  then obtain h1 where h1: "rule_add ans ''nat'' ''PREROUTING'' (redirect p pp) h = (Inr (), h1)"
    "add_redirects ans p pps h1 = (Inr (), h')" by (auto split: prod.splits sum.splits)
  obtain a where a: "h1 = h @ a" "no_delete a" "ensured ''PREROUTING'' (redirect p pp) a"
    using rule_add_ok [OF h1(1)] by blast
  obtain b where b: "h' = h1 @ b" "no_delete b" "list_all (\<lambda>pp. ensured ''PREROUTING'' (redirect p pp) b) pps"
    using Cons.IH [OF h1(2)] by blast
  have "h' = h @ (a @ b) \<and> no_delete (a @ b) \<and> list_all (\<lambda>pp. ensured ''PREROUTING'' (redirect p pp) (a @ b)) (pp # pps)"
    using a b ensured_append by (auto simp: list_all_iff)
  then show ?case by blast
qed

lemma iface_valid: "iface_of_lines ls \<noteq> [] \<Longrightarrow> validIface (iface_of_lines ls)"
proof -
  have f: "iface_of_fields fs = Some i \<Longrightarrow> validIface i" for fs i
    by (induction fs rule: iface_of_fields.induct) (auto split: if_splits)
  show "iface_of_lines ls \<noteq> [] \<Longrightarrow> validIface (iface_of_lines ls)"
    by (induction ls) (auto split: option.splits dest: f)
qed

text \<open>
  C17. A successful run leaves the rules in place. When NAT is enabled and \<open>Apply\<close> reports success, then
  for a valid interface the masquerade rule of the subnet, and for every extra port and both transports
  the redirect to the primary port, was found or added, and no rule was deleted after that.
\<close>

theorem nat_applied:
  assumes "nat_Apply ans w h = (Inr (), h')" and "nc_enabled (LoadConfig w)"
  shows "\<exists>iface before new. h' = before @ new \<and> validIface iface \<and> no_delete new \<and>
    ensured ''POSTROUTING'' (masquerade (nc_subnet (LoadConfig w)) iface) new \<and>
    list_all (\<lambda>pp. ensured ''PREROUTING'' (redirect (nc_port (LoadConfig w)) pp) new) (redirects (LoadConfig w))"
proof -
  let ?c = "LoadConfig w"
  obtain i h1 where i: "defaultIface ans h = (i, h1)" by fastforce
  from assms i obtain h2 where i0: "i \<noteq> []" and a: "add_rules ans ?c i h2 = (Inr (), h')"
    by (auto simp: nat_Apply_def Let_def split: if_splits prod.splits sum.splits)
  have "validIface i" using i i0 iface_valid by (auto simp: defaultIface_def split: prod.splits sum.splits)
  moreover from a obtain h3 where h3: "rule_add ans ''nat'' ''POSTROUTING'' (masquerade (nc_subnet ?c) i) h2 = (Inr (), h3)"
    "add_redirects ans (nc_port ?c) (redirects ?c) h3 = (Inr (), h')"
    by (auto simp: add_rules_def split: prod.splits sum.splits)
  obtain x where x: "h3 = h2 @ x" "no_delete x" "ensured ''POSTROUTING'' (masquerade (nc_subnet ?c) i) x"
    using rule_add_ok [OF h3(1)] by blast
  obtain y where y: "h' = h3 @ y" "no_delete y"
    "list_all (\<lambda>pp. ensured ''PREROUTING'' (redirect (nc_port ?c) pp) y) (redirects ?c)"
    using add_redirects_ok [OF h3(2)] by blast
  have "h' = h2 @ (x @ y)" "no_delete (x @ y)" "ensured ''POSTROUTING'' (masquerade (nc_subnet ?c) i) (x @ y)"
    "list_all (\<lambda>pp. ensured ''PREROUTING'' (redirect (nc_port ?c) pp) (x @ y)) (redirects ?c)"
    using x y ensured_append by (auto simp: list_all_iff)
  ultimately show ?thesis by blast
qed

definition nat_world :: world where
  "nat_world = (sample_world [])\<lparr>w_env := (\<lambda>n. if n = ''VPN_NAT_ENABLED'' then Some ''1''
     else if n = ''VPN_PRIMARY_PORT'' then Some ''1194'' else if n = ''VPN_EXTRA_PORTS'' then Some ''443''
     else if n = ''VPN_SUBNET'' then Some ''10.8.0.0/24'' else if n = ''VPN_NETWORK'' then Some ''10.8.0.0'' else None)\<rparr>"

definition nat_answers :: answers where
  "nat_answers h cmd = (if cmd = route_command then Inr ''default via 10.0.0.1 dev eth0'' else Inr [])"

lemma nat_world_run: "case nat_Apply nat_answers nat_world [] of (Inr _, _) \<Rightarrow> True | _ \<Rightarrow> False"
  by code_simp

lemma nat_world_config: "nc_enabled (LoadConfig nat_world)" "redirects (LoadConfig nat_world) = [(''443'', ''tcp''), (''443'', ''udp'')]"
  "nc_port (LoadConfig nat_world) = 1194"
  by code_simp+

theorem nat_applied_witness:
  "\<exists>h' new. nat_Apply nat_answers nat_world [] = (Inr (), h') \<and> suffix new h' \<and>
     ensured ''PREROUTING'' (redirect 1194 (''443'', ''udp'')) new"
proof -
  obtain h' where r: "nat_Apply nat_answers nat_world [] = (Inr (), h')"
    using nat_world_run by (auto split: prod.splits sum.splits)
  define pp where "pp = (''443'', ''udp'')"
  obtain iface before new where n: "h' = before @ new"
    "list_all (\<lambda>pp. ensured ''PREROUTING'' (redirect 1194 pp) new) (redirects (LoadConfig nat_world))"
    using nat_applied [OF r nat_world_config(1)] unfolding nat_world_config(3) by blast
  have "pp \<in> set (redirects (LoadConfig nat_world))" unfolding nat_world_config(2) pp_def by simp
  with n(2) have "ensured ''PREROUTING'' (redirect 1194 pp) new" by (simp only: list_all_iff)
  with r n(1) show ?thesis unfolding pp_def by (auto simp: suffix_def)
qed

end
