(* ===== verification/Updater.thy ===== *)
theory Updater
  imports Pkisetup
begin

text \<open>
  The self-update: \<open>src/internal/updater/updater.go\<close>. The start of the installer is the argument
  \<open>start\<close> (its command line, working directory and environment), \<open>locked\<close> tells whether another
  process holds the update lock, and \<open>update_ended\<close> is the goroutine that waits for the installer. The
  real user id is taken to be the effective one.
\<close>

section \<open>Operations\<close>

definition validVersion :: "string \<Rightarrow> bool" where
  "validVersion v \<longleftrightarrow> (let parts = Split (CHR ''.'') v in
     length parts = 3 \<and> list_all (\<lambda>p. p \<noteq> [] \<and> list_all is_digit p) parts)"

record command =
  cmd_args :: "string list"
  cmd_dir :: path
  cmd_env :: "string list"

definition update_command :: "path \<Rightarrow> string \<Rightarrow> command" where
  "update_command appDir version =
     \<lparr>cmd_args = [''bash'', path_text (appDir @ [''install.sh'']), ''update''], cmd_dir = appDir,
      cmd_env = [''PATH=/usr/local/sbin:/usr/local/bin:/usr/sbin:/usr/bin:/sbin:/bin'', ''HOME=/root'',
        ''APP_DIR='' @ path_text appDir, ''OVN_APP_DIR='' @ path_text appDir]
        @ (if version \<noteq> [] then [''OVN_VERSION='' @ version] else [])\<rparr>"

definition set_marker :: "path \<Rightarrow> string \<Rightarrow> world \<Rightarrow> world" where
  "set_marker appDir s w = snd (os_WriteFile (appDir @ [''.update-status'']) (s @ [NL]) perm_0600 w)"

definition installer_trusted :: "world \<Rightarrow> path \<Rightarrow> unit res" where
  "installer_trusted w appDir =
     (case os_Stat w (appDir @ [''install.sh'']) of
        Inl e \<Rightarrow> Inl e
      | Inr nd \<Rightarrow>
          if n_mode nd AND perm_0022 \<noteq> 0 then Inl (Err ''install.sh is group/world-writable: refusing update'')
          else if w_euid w = 0 \<and> n_uid nd \<noteq> 0 then Inl (Err ''install.sh is not root-owned: refusing update'')
          else Inr ())"

definition TriggerUpdate :: "(command \<Rightarrow> unit io) \<Rightarrow> bool \<Rightarrow> path \<Rightarrow> string \<Rightarrow> unit io" where
  "TriggerUpdate start locked appDir version w =
     (if version \<noteq> [] \<and> \<not> validVersion version then (Inl (Err (''invalid target version '' @ go_quote version)), w)
      else case installer_trusted w appDir of Inl e \<Rightarrow> (Inl e, w) | Inr _ \<Rightarrow>
      case open_create (appDir @ [''.update.lock'']) perm_0600 w of (Inl e, w) \<Rightarrow> (Inl e, w) | (Inr _, w) \<Rightarrow>
      if locked \<or> fault w OpFlock (appDir @ [''.update.lock'']) then (Inl (Err ''update already running''), w)
      else case start (update_command appDir version) (set_marker appDir ''running'' w) of
        (Inl e, w) \<Rightarrow> (Inl e, set_marker appDir ''failed'' w)
      | (Inr _, w) \<Rightarrow> (Inr (), w))"

definition update_ended :: "path \<Rightarrow> bool \<Rightarrow> world \<Rightarrow> world" where
  "update_ended appDir ok w = set_marker appDir (if ok then ''completed'' else ''failed'') w"

definition open_existing :: "path \<Rightarrow> world \<Rightarrow> unit res" where
  "open_existing p w = (if fault w OpOpen p then Inl (Fault OpOpen)
     else case follow max_links (w_fs w) p of
       Inl e \<Rightarrow> Inl e
     | Inr (_, nd) \<Rightarrow> if is_dir nd then Inl (Err ''is a directory'') else Inr ())"

definition UpdateStatus :: "bool \<Rightarrow> path \<Rightarrow> world \<Rightarrow> string" where
  "UpdateStatus locked appDir w =
     (case os_ReadFile w (appDir @ [''.update-status'']) of
        Inl _ \<Rightarrow> ''idle''
      | Inr data \<Rightarrow>
          (let status = TrimSpace data in
           if status = ''running'' then
             (case open_existing (appDir @ [''.update.lock'']) w of
                Inl _ \<Rightarrow> ''running''
              | Inr _ \<Rightarrow> if \<not> locked \<and> \<not> fault w OpFlock (appDir @ [''.update.lock'']) then ''interrupted'' else ''running'')
           else take 32 status))"

section \<open>Only a trusted installer runs\<close>

definition trusted_installer :: "world \<Rightarrow> path \<Rightarrow> bool" where
  "trusted_installer w appDir \<longleftrightarrow> (\<exists>nd. os_Stat w (appDir @ [''install.sh'']) = Inr nd \<and>
     n_mode nd AND perm_0022 = 0 \<and> (w_euid w = 0 \<longrightarrow> n_uid nd = 0))"

lemma installer_trusted_iff: "installer_trusted w appDir = Inr () \<longleftrightarrow> trusted_installer w appDir"
  by (auto simp: installer_trusted_def trusted_installer_def split: sum.splits)

text \<open>
  C19. An update runs only a trusted installer, once, with a plain version. Unless the installer is not
  writable for group and world, belongs to root when the node runs as root, the target version is empty
  or three numbers, and no other update holds the lock, \<open>TriggerUpdate\<close> does the same whatever starting a
  program would do: it starts none.
\<close>

theorem update_guarded:
  "trusted_installer w appDir \<and> (version = [] \<or> validVersion version) \<and> \<not> locked \<or>
   TriggerUpdate start locked appDir version w = TriggerUpdate start' locked appDir version w"
proof (cases "installer_trusted w appDir")
  case (Inl e)
  then show ?thesis by (simp add: TriggerUpdate_def)
next
  case (Inr u)
  then have "trusted_installer w appDir" using installer_trusted_iff by auto
  then show ?thesis by (cases locked) (auto simp: TriggerUpdate_def Inr split: prod.splits sum.splits)
qed

definition start_any :: "command \<Rightarrow> unit io" where
  "start_any c w = (Inr (), put (cmd_dir c @ [''ran'']) (new_file w (cmd_dir c) perm_0600 []) w)"

definition start_none :: "command \<Rightarrow> unit io" where
  "start_none c w = (Inl (Err ''not started''), w)"

text \<open>An installer that its group may write: nothing is started.\<close>

definition writable_installer :: world where
  "writable_installer = sample_world [root_dir [''app''],
     ([''app'', ''install.sh''], (snd (root_file [''app'', ''install.sh''] []))\<lparr>n_mode := perm_0660\<rparr>)]"

theorem update_guarded_witness:
  "\<not> trusted_installer writable_installer [''app''] \<and>
   TriggerUpdate start_any False [''app''] [] writable_installer = TriggerUpdate start_none False [''app''] [] writable_installer"
proof -
  have "isl (installer_trusted writable_installer [''app''])" by code_simp
  then have "\<not> trusted_installer writable_installer [''app'']" by (auto simp: installer_trusted_iff [symmetric])
  with update_guarded [of writable_installer "[''app'']" "[]" False start_any start_none] show ?thesis by blast
qed

section \<open>The reported status\<close>

text \<open>Writing the marker file; it must be a plain file in a directory, and the calls must succeed.\<close>

definition marker_ready :: "world \<Rightarrow> path \<Rightarrow> bool" where
  "marker_ready w appDir \<longleftrightarrow> (let p = appDir @ [''.update-status''] in plain w p \<and>
     \<not> fault w OpOpen p \<and> \<not> fault w OpWrite p \<and> \<not> fault w OpRead p \<and> \<not> fault w OpClose p \<and>
     (\<exists>d. look w appDir = Some d \<and> is_dir d))"

lemma set_marker_read:
  assumes "marker_ready w appDir"
  shows "os_ReadFile (set_marker appDir s w) (appDir @ [''.update-status'']) = Inr (s @ [NL])"
    and "frame (\<lambda>q. q = appDir @ [''.update-status'']) w (set_marker appDir s w)"
proof -
  let ?p = "appDir @ [''.update-status'']"
  have m: "max_links = Suc 39" by (simp add: max_links_def)
  have pl: "plain w ?p" and fl: "\<not> fault w OpOpen ?p" "\<not> fault w OpWrite ?p" "\<not> fault w OpRead ?p" "\<not> fault w OpClose ?p"
    and d: "\<exists>d. look w appDir = Some d \<and> is_dir d" using assms by (simp_all add: marker_ready_def Let_def)
  have "link_target max_links (w_fs w) ?p = Inr ?p"
    using pl unfolding m link_target.simps by (auto simp: plain_def is_regular_def split: option.splits kind.splits)
  moreover have "\<not> is_dir nd" if "look w ?p = Some nd" for nd
    using pl that by (auto simp: plain_def is_regular_def is_dir_def split: kind.splits)
  ultimately obtain nd where w: "set_marker appDir s w = put ?p nd w" and k: "n_kind nd = Reg (s @ [NL])"
    using fl d by (cases "look w ?p") (auto simp: set_marker_def os_WriteFile_def write_opened_def)
  show "os_ReadFile (set_marker appDir s w) ?p = Inr (s @ [NL])"
    unfolding w using k fl by (intro read_regular [of _ ?p nd]) simp_all
  show "frame (\<lambda>q. q = ?p) w (set_marker appDir s w)" unfolding w by (rule frame_put) simp
qed

lemma status_words: "TrimSpace (''running'' @ [NL]) = ''running''" "TrimSpace (''completed'' @ [NL]) = ''completed''"
  "TrimSpace (''failed'' @ [NL]) = ''failed''"
  by code_simp+

text \<open>
  The status tells how the update went. After the installer was started the status is \<open>running\<close> as
  long as the lock is held, and \<open>interrupted\<close> when the lock is free although no end was recorded; after
  its end the status is \<open>completed\<close> or \<open>failed\<close>, whatever the lock says.
\<close>

theorem update_status_true:
  assumes "marker_ready w appDir" and "look w (appDir @ [''.update.lock'']) = Some nd" and "is_regular nd"
    and "\<not> fault w OpOpen (appDir @ [''.update.lock''])" and "\<not> fault w OpFlock (appDir @ [''.update.lock''])"
  shows "UpdateStatus locked appDir (set_marker appDir ''running'' w) = (if locked then ''running'' else ''interrupted'') \<and>
    UpdateStatus locked appDir (update_ended appDir ok w) = (if ok then ''completed'' else ''failed'')"
proof -
  let ?m = "appDir @ [''.update-status'']" and ?l = "appDir @ [''.update.lock'']" and ?v = "set_marker appDir ''running'' w"
  note f = set_marker_read(2) [OF assms(1), of "''running''"]
  have "look ?v ?l = Some nd" using frame_look [OF f, of ?l] assms(2) by simp
  then have "open_existing ?l ?v = Inr ()"
    using assms(3,4) frame_fault [OF f]
    by (auto simp: open_existing_def follow_max is_regular_def is_dir_def split: kind.splits)
  then have r: "UpdateStatus locked appDir ?v = (if locked then ''running'' else ''interrupted'')"
    using set_marker_read(1) [OF assms(1), of "''running''"] assms(5) frame_fault [OF f] status_words(1)
    by (simp add: UpdateStatus_def)
  have "UpdateStatus locked appDir (update_ended appDir ok w) = (if ok then ''completed'' else ''failed'')"
    using set_marker_read(1) [OF assms(1), of "''completed''"] set_marker_read(1) [OF assms(1), of "''failed''"] status_words
    by (simp add: UpdateStatus_def update_ended_def)
  with r show ?thesis by simp
qed

definition update_world :: world where
  "update_world = sample_world [root_dir [''app''], root_file [''app'', ''.update.lock''] []]"

lemma update_world_facts: "look update_world ([''app''] @ [''.update.lock'']) = Some (the (look update_world [''app'', ''.update.lock'']))"
  "is_regular (the (look update_world [''app'', ''.update.lock'']))"
  "look update_world ([''app''] @ [''.update-status'']) = None" "look update_world [''app''] = Some (the (look update_world [''app'']))"
  "is_dir (the (look update_world [''app'']))"
  by code_simp+

theorem update_status_true_witness:
  "UpdateStatus True [''app''] (set_marker [''app''] ''running'' update_world) = ''running'' \<and>
   UpdateStatus False [''app''] (set_marker [''app''] ''running'' update_world) = ''interrupted'' \<and>
   UpdateStatus False [''app''] (update_ended [''app''] True update_world) = ''completed''"
proof -
  have h: "healthy update_world" by (simp add: update_world_def)
  have m: "marker_ready update_world [''app'']"
    using update_world_facts(3) h exI [of "\<lambda>d. look update_world [''app''] = Some d \<and> is_dir d", OF conjI [OF update_world_facts(4,5)]]
    unfolding marker_ready_def Let_def plain_def by simp
  note t = update_status_true [OF m update_world_facts(1,2) healthy_fault [OF h] healthy_fault [OF h]]
  show ?thesis using t [of True True] t [of False True] by simp
qed

end
