(* ===== verification/Runtimeperms.thy ===== *)
theory Runtimeperms
  imports Pkisetup
begin

text \<open>
  The repair of the managed tree and the migration of old trees: \<open>FixRuntimePermissions\<close> and
  \<open>MigrateLegacy\<close> of \<open>src/internal/store/users.go\<close>.

  The repair walks the tree with \<open>filepath.Walk\<close> of theory \<open>Pkisetup\<close>; what it guarantees for the private
  keys of the node and of the users is shown at the end.
\<close>

section \<open>Migration\<close>

text \<open>\<open>os.Rename\<close> of something that is not a directory.\<close>

definition rename_file :: "path \<Rightarrow> path \<Rightarrow> unit io" where
  "rename_file src dst w =
     (if fault w OpRename dst then (Inl (Fault OpRename), w)
      else case look w src of
        None \<Rightarrow> (Inl NotExist, w)
      | Some nd \<Rightarrow>
          if \<not> (case os_Stat w (butlast dst) of Inr d \<Rightarrow> is_dir d | Inl _ \<Rightarrow> False) then (Inl NotExist, w)
          else if (case look w dst of Some d \<Rightarrow> is_dir d | None \<Rightarrow> False) then (Inl (Err ''file exists''), w)
          else (Inr (), put dst nd (del src w)))"

definition moveFile :: "path \<Rightarrow> path \<Rightarrow> world \<Rightarrow> world" where
  "moveFile src dst w = (case rename_file src dst w of
      (Inr _, w) \<Rightarrow> w
    | (Inl _, w) \<Rightarrow> (case os_ReadFile w src of
          Inl _ \<Rightarrow> w
        | Inr data \<Rightarrow> (case WriteFileAtomic dst data perm_0644 w of
              (Inr _, w) \<Rightarrow> snd (os_Remove src w)
            | (Inl _, w) \<Rightarrow> w)))"

text \<open>One entry of a directory of old files; \<open>ext\<close> is cut from its name, \<open>file\<close> is its new name.\<close>

definition move_entry :: "path \<Rightarrow> path \<Rightarrow> string \<Rightarrow> string \<Rightarrow> string \<times> node \<Rightarrow> world \<Rightarrow> world" where
  "move_entry srcDir usersDir ext file e w =
     (let (name, nd) = e; cn = (if ext = [] then name else take (length name - length ext) name);
          src = srcDir @ [name]; dst = usersDir @ [cn, file] in
      if is_dir nd \<or> (ext \<noteq> [] \<and> \<not> HasSuffix name ext) \<or> \<not> StoreKeyRe cn then w
      else case os_Stat w src of
        Inl _ \<Rightarrow> w
      | Inr fi \<Rightarrow> if is_dir fi then w
          else case os_Stat w dst of Inl _ \<Rightarrow> moveFile src dst w | Inr _ \<Rightarrow> snd (os_Remove src w))"

definition stat_is_dir :: "world \<Rightarrow> path \<Rightarrow> bool" where
  "stat_is_dir w p = (case os_Stat w p of Inr nd \<Rightarrow> is_dir nd | Inl _ \<Rightarrow> False)"

definition dir_entries :: "world \<Rightarrow> path \<Rightarrow> (string \<times> node) list" where
  "dir_entries w p = (case os_ReadDir w p of Inr es \<Rightarrow> es | Inl _ \<Rightarrow> [])"

definition moveDir :: "path \<Rightarrow> path \<Rightarrow> string \<Rightarrow> string \<Rightarrow> world \<Rightarrow> world" where
  "moveDir srcDir usersDir ext file w =
     (if \<not> stat_is_dir w srcDir then w
      else snd (os_Remove srcDir (fold (move_entry srcDir usersDir ext file) (dir_entries w srcDir) w)))"

text \<open>
  \<open>json.Unmarshal\<close> into a map of strings: a member that is no string is an error, \<open>null\<close> is the empty
  string, a later member replaces an earlier one. The members are visited in the order of their names;
  each writes a file of its own.
\<close>

fun string_members :: "(string \<times> json) list \<Rightarrow> (string, string) fmap \<Rightarrow> (string, string) fmap option" where
  "string_members [] m = Some m"
| "string_members ((k, v) # kvs) m = (case v of
      JStr s \<Rightarrow> string_members kvs (fmupd k s m)
    | JNull \<Rightarrow> string_members kvs (fmupd k [] m)
    | _ \<Rightarrow> None)"

definition string_map :: "string \<Rightarrow> (string, string) fmap option" where
  "string_map data = (case unmarshal_value data of
      Some (JObj kvs) \<Rightarrow> string_members kvs fmempty
    | Some JNull \<Rightarrow> Some fmempty
    | _ \<Rightarrow> None)"

definition migrate_name :: "path \<Rightarrow> (string, string) fmap \<Rightarrow> string \<Rightarrow> world \<Rightarrow> world" where
  "migrate_name usersDir m uid w =
     (if \<not> StoreKeyRe uid then w
      else case os_Stat w (usersDir @ [uid, ''name'']) of
        Inr _ \<Rightarrow> w
      | Inl _ \<Rightarrow> snd (WriteFileAtomic (usersDir @ [uid, ''name'']) (the (fmlookup m uid) @ [NL]) perm_0600
                   (snd (os_MkdirAll (usersDir @ [uid]) perm_0755 w))))"

definition migrate_names :: "path \<Rightarrow> path \<Rightarrow> world \<Rightarrow> world" where
  "migrate_names uidMap usersDir w =
     (case os_Stat w uidMap of
        Inl _ \<Rightarrow> w
      | Inr nd \<Rightarrow> if is_dir nd then w
          else let data = (case os_ReadFile w uidMap of Inr d \<Rightarrow> d | Inl _ \<Rightarrow> []);
                   w = (case string_map data of None \<Rightarrow> w
                        | Some m \<Rightarrow> fold (migrate_name usersDir m) (sorted_list_of_fset (fmdom m)) w)
               in snd (os_Remove uidMap w))"

definition move_marker :: "path \<Rightarrow> path \<Rightarrow> string \<times> node \<Rightarrow> world \<Rightarrow> world" where
  "move_marker src dst e w =
     (if is_dir (snd e) then w
      else case os_Stat w (dst @ [fst e]) of
        Inr _ \<Rightarrow> w
      | Inl _ \<Rightarrow> snd (rename_file (src @ [fst e]) (dst @ [fst e]) w))"

definition migrate_markers :: "path \<Rightarrow> path \<Rightarrow> world \<Rightarrow> world" where
  "migrate_markers active sessionsDir w =
     (if \<not> stat_is_dir w active then w
      else snd (os_Remove active (fold (move_marker active sessionsDir) (dir_entries w active) w)))"

definition old_hooks :: "string list" where
  "old_hooks = [''ovnode-client-connect.sh'', ''ovnode-client-disconnect.sh'', ''ovnode-mlogin.env'']"

definition MigrateLegacy :: "path \<Rightarrow> world \<Rightarrow> world" where
  "MigrateLegacy root w =
     (let users = root @ [''ovnode'', ''users''];
          w = migrate_names (root @ [''clients'', ''uid_map.json'']) users w;
          w = moveDir (root @ [''clients'']) users ''.ovpn'' ''client.ovpn'' w;
          w = moveDir (root @ [''limits'']) users [] ''limit'' w;
          w = moveDir (root @ [''disabled'']) users [] ''disabled'' w;
          w = migrate_markers (root @ [''ovnode-active'']) (root @ [''ovnode'', ''sessions'']) w;
          w = fold (\<lambda>f w. snd (os_Remove (root @ [''scripts'', f]) w)) old_hooks w
      in snd (os_Remove (root @ [''scripts'']) w))"

definition EnsureLayout :: "path \<Rightarrow> world \<Rightarrow> world" where
  "EnsureLayout root w = MigrateLegacy root
     (fold (\<lambda>d w. snd (os_MkdirAll (root @ [''ovnode'', d]) perm_0755 w))
        [''users'', ''sessions'', ''usage'', ''scripts'', ''state''] w)"

section \<open>Repair of permissions\<close>

definition repairRuntimeDir :: "path \<Rightarrow> perm \<Rightarrow> int \<Rightarrow> unit io" where
  "repairRuntimeDir p perm gid w = (case MkdirAllNoFollow p perm_0750 w of
      (Inl e, w) \<Rightarrow> (Inl e, w)
    | (Inr _, w) \<Rightarrow> SetPermissions p perm 0 gid w)"

fun repair_dirs :: "path list \<Rightarrow> perm \<Rightarrow> int \<Rightarrow> unit io" where
  "repair_dirs [] perm gid w = (Inr (), w)"
| "repair_dirs (d # ds) perm gid w = (case repairRuntimeDir d perm gid w of
      (Inl e, w) \<Rightarrow> (Inl e, w)
    | (Inr _, w) \<Rightarrow> repair_dirs ds perm gid w)"

text \<open>\<open>SetPermissions\<close> of a path that may have gone meanwhile.\<close>

definition set_if_there :: "path \<Rightarrow> perm \<Rightarrow> int \<Rightarrow> unit io" where
  "set_if_there p perm gid w = (case SetPermissions p perm 0 gid w of
      (Inl e, w) \<Rightarrow> if e = NotExist then (Inr (), w) else (Inl e, w)
    | (Inr _, w) \<Rightarrow> (Inr (), w))"

text \<open>The frame of the three callbacks: paths that vanished and temporary files are skipped.\<close>

definition is_temp :: "path \<Rightarrow> node \<Rightarrow> bool" where
  "is_temp p nd \<longleftrightarrow> is_regular nd \<and> HasPrefix (last p) ''.tmp-''"

definition repair_visit :: "(path \<Rightarrow> node \<Rightarrow> unit io) \<Rightarrow> visit" where
  "repair_visit act p info er w = (case er of
      Some e \<Rightarrow> if e = NotExist then (Inr (), w) else (Inl e, w)
    | None \<Rightarrow> (case info of
        None \<Rightarrow> (Inr (), w)
      | Some nd \<Rightarrow> if is_temp p nd then (Inr (), w) else act p nd w))"

definition is_ext :: "string \<Rightarrow> path \<Rightarrow> bool" where
  "is_ext ext p \<longleftrightarrow> HasSuffix (last p) ext"

definition legacy_perm :: "string \<Rightarrow> path \<Rightarrow> node \<Rightarrow> perm" where
  "legacy_perm name p nd =
     (if is_dir nd then perm_2750
      else if name = ''limits'' \<or> name = ''disabled'' then perm_0640
      else if name = ''clients'' then perm_0600
      else if is_ext ''.ovpn'' p \<or> is_ext ''.key'' p then perm_0600
      else n_mode nd)"

definition user_perm :: "path \<Rightarrow> node \<Rightarrow> perm" where
  "user_perm p nd =
     (if is_dir nd then perm_2750
      else if last p \<in> {''state'', ''limit'', ''disabled'', ''name''} then perm_0640
      else if last p \<in> {''cert.pem'', ''ca.pem''} then perm_0644
      else perm_0600)"

definition is_private :: "path \<Rightarrow> bool" where
  "is_private p \<longleftrightarrow> Contains (path_text p @ ''/'') ''/private/''"

definition pki_act :: "int \<Rightarrow> path \<Rightarrow> node \<Rightarrow> unit io" where
  "pki_act gid p nd w =
     (if is_dir nd then set_if_there p (if is_private p then perm_0700 else perm_2750) gid w
      else if is_private p \<or> is_ext ''.key'' p then set_if_there p perm_0600 0 w
      else if \<not> is_regular nd then (Inl (Err (''unexpected PKI symlink '' @ path_text p)), w)
      else if last p \<noteq> ''crl.pem'' \<and> last p \<noteq> ''ca.crt'' then (Inr (), w)
      else set_if_there p perm_0644 gid w)"

fun repair_legacy :: "path \<Rightarrow> int \<Rightarrow> string list \<Rightarrow> unit io" where
  "repair_legacy root gid [] w = (Inr (), w)"
| "repair_legacy root gid (name # names) w =
     (let source = root @ [name] in
      case os_Lstat w source of
        Inl e \<Rightarrow> if e = NotExist then repair_legacy root gid names w else (Inl e, w)
      | Inr _ \<Rightarrow>
        (case repairRuntimeDir source perm_2750 gid w of (Inl e, w) \<Rightarrow> (Inl e, w) | (Inr _, w) \<Rightarrow>
         case Walk (repair_visit (\<lambda>p nd. set_if_there p (legacy_perm name p nd) gid)) source w of
           (Inl e, w) \<Rightarrow> (Inl e, w)
         | (Inr _, w) \<Rightarrow> repair_legacy root gid names w))"

fun repair_users :: "int \<Rightarrow> path list \<Rightarrow> unit io" where
  "repair_users gid [] w = (Inr (), w)"
| "repair_users gid (d # ds) w =
     (case repairRuntimeDir d perm_2750 gid w of (Inl e, w) \<Rightarrow> (Inl e, w) | (Inr _, w) \<Rightarrow>
      case Walk (repair_visit (\<lambda>p nd. set_if_there p (user_perm p nd) gid)) d w of
        (Inl e, w) \<Rightarrow> (Inl e, w)
      | (Inr _, w) \<Rightarrow> repair_users gid ds w)"

fun repair_entries :: "path \<Rightarrow> int \<Rightarrow> (string \<times> node) list \<Rightarrow> unit io" where
  "repair_entries d gid [] w = (Inr (), w)"
| "repair_entries d gid ((n, nd) # es) w =
     (if is_regular nd \<and> HasPrefix n ''.tmp-'' then repair_entries d gid es w
      else if is_dir nd then (Inl (Err (''unexpected runtime directory '' @ path_text (d @ [n]))), w)
      else case set_if_there (d @ [n]) perm_0660 gid w of
        (Inl e, w) \<Rightarrow> (Inl e, w)
      | (Inr _, w) \<Rightarrow> repair_entries d gid es w)"

fun repair_runtime :: "int \<Rightarrow> path list \<Rightarrow> unit io" where
  "repair_runtime gid [] w = (Inr (), w)"
| "repair_runtime gid (d # ds) w =
     (case repairRuntimeDir d perm_2770 gid w of (Inl e, w) \<Rightarrow> (Inl e, w) | (Inr _, w) \<Rightarrow>
      case os_ReadDir w d of Inl e \<Rightarrow> (Inl e, w) | Inr es \<Rightarrow>
      case repair_entries d gid es w of (Inl e, w) \<Rightarrow> (Inl e, w) | (Inr _, w) \<Rightarrow> repair_runtime gid ds w)"

definition rotated :: "path \<Rightarrow> path list" where
  "rotated p = concat (map (\<lambda>i. map (\<lambda>s. butlast p @ [last p @ ''.'' @ Itoa i @ s]) [[], ''.gz'']) [1..7])"

fun repair_rotated :: "int \<Rightarrow> path list \<Rightarrow> unit io" where
  "repair_rotated gid [] w = (Inr (), w)"
| "repair_rotated gid (p # ps) w = (case set_if_there p perm_0640 gid w of
      (Inl e, w) \<Rightarrow> (Inl e, w)
    | (Inr _, w) \<Rightarrow> repair_rotated gid ps w)"

definition repair_log :: "int \<Rightarrow> unit io" where
  "repair_log gid w =
     (case (if LogDir w = to_path ''/var/log/ovnode'' then repairRuntimeDir (LogDir w) perm_2770 gid w else (Inr (), w)) of
        (Inl e, w) \<Rightarrow> (Inl e, w)
      | (Inr _, w) \<Rightarrow>
      case MkdirAllNoFollow (butlast (LogFile w)) perm_0755 w of (Inl e, w) \<Rightarrow> (Inl e, w) | (Inr _, w) \<Rightarrow>
      case OpenFileNoFollow (LogFile w) True perm_0660 w of (Inl e, w) \<Rightarrow> (Inl e, w) | (Inr _, w) \<Rightarrow>
      if fault w OpClose (LogFile w) then (Inl (Fault OpClose), w)
      else case SetPermissions (LogFile w) perm_0660 0 gid w of (Inl e, w) \<Rightarrow> (Inl e, w) | (Inr _, w) \<Rightarrow>
      repair_rotated gid (rotated (LogFile w)) w)"

fun repair_secrets :: "int \<Rightarrow> path list \<Rightarrow> unit io" where
  "repair_secrets gid [] w = (Inr (), w)"
| "repair_secrets gid (p # ps) w =
     (case os_Lstat w p of
        Inl e \<Rightarrow> if e = NotExist then repair_secrets gid ps w else (Inl e, w)
      | Inr _ \<Rightarrow> (case SetPermissions p (if p = MgmtPassFile w then perm_0640 else perm_0600) 0
                        (if p = MgmtPassFile w then gid else 0) w of
            (Inl e, w) \<Rightarrow> (Inl e, w)
          | (Inr _, w) \<Rightarrow> repair_secrets gid ps w))"

definition repair_tail :: "path \<Rightarrow> path \<Rightarrow> int \<Rightarrow> unit io" where
  "repair_tail root pkiDir gid w =
     (case Walk (repair_visit (pki_act gid)) pkiDir w of (Inl e, w) \<Rightarrow> (Inl e, w) | (Inr _, w) \<Rightarrow>
      repair_secrets gid [root @ [''server'', ''tls.key''], MgmtPassFile w] w)"

definition repair_stores :: "path \<Rightarrow> path \<Rightarrow> int \<Rightarrow> unit io" where
  "repair_stores root pkiDir gid w =
     (case repair_users gid [root @ [''ovnode'', ''users''], UsersDir w] w of (Inl e, w) \<Rightarrow> (Inl e, w) | (Inr _, w) \<Rightarrow>
      case repair_runtime gid [SessionsDir w, UsageDir w] w of (Inl e, w) \<Rightarrow> (Inl e, w) | (Inr _, w) \<Rightarrow>
      case repair_log gid w of (Inl e, w) \<Rightarrow> (Inl e, w) | (Inr _, w) \<Rightarrow>
      repair_tail root pkiDir gid w)"

definition repair_tree :: "path \<Rightarrow> path \<Rightarrow> int \<Rightarrow> unit io" where
  "repair_tree root pkiDir gid w =
     (case repair_dirs [root, root @ [''server''], pkiDir, root @ [''ccd''], root @ [''ovnode''], OVNodeDir w] perm_2750 gid w of
        (Inl e, w) \<Rightarrow> (Inl e, w)
      | (Inr _, w) \<Rightarrow>
      case repair_dirs (map (\<lambda>n. root @ [''ovnode'', n]) [''users'', ''sessions'', ''usage'', ''scripts'', ''state'']) perm_2750 gid w of
        (Inl e, w) \<Rightarrow> (Inl e, w)
      | (Inr _, w) \<Rightarrow>
      case repair_legacy root gid [''clients'', ''limits'', ''disabled'', ''ovnode-active'', ''scripts''] w of
        (Inl e, w) \<Rightarrow> (Inl e, w)
      | (Inr _, w) \<Rightarrow> repair_stores root pkiDir gid (MigrateLegacy root w))"

definition lstat_error :: "node res \<Rightarrow> err option" where
  "lstat_error r = (case r of Inl e \<Rightarrow> if e \<noteq> NotExist then Some e else None | Inr _ \<Rightarrow> None)"

definition FixRuntimePermissions :: "path \<Rightarrow> unit io" where
  "FixRuntimePermissions root w =
     (if os_Lstat w (root @ [''server'', ''pki'']) = Inl NotExist \<and>
         os_Lstat w (root @ [''server'', ''server.conf'']) = Inl NotExist then (Inr (), w)
      else case lstat_error (os_Lstat w (root @ [''server'', ''pki''])) of
        Some e \<Rightarrow> (Inl e, w)
      | None \<Rightarrow> (case lstat_error (os_Lstat w (root @ [''server'', ''server.conf''])) of
            Some e \<Rightarrow> (Inl e, w)
          | None \<Rightarrow> (case RuntimeGroupID w of
                Inl e \<Rightarrow> (Inl e, w)
              | Inr gid \<Rightarrow> repair_tree root (root @ [''server'', ''pki'']) gid w)))"

section \<open>Setting permissions\<close>

lemma SetPermissions_ok:
  assumes "SetPermissions p m u g w = (Inr (), w')" and "0 \<le> u" and "0 \<le> g"
  shows "\<exists>x. look w' p = Some x \<and> n_mode x = m \<and> n_uid x = u \<and> n_gid x = g"
proof (cases "openPathNoFollow p False 0 w")
  case (Pair a w1)
  then have w1: "w1 = w" by (rule openPathNoFollow_noop)
  show ?thesis
  proof (cases a)
    case (Inr nd)
    have "look w p = Some nd" using openPathNoFollow_ok [OF Pair [unfolded Inr]] by simp
    then show ?thesis using assms Pair Inr w1 unfolding SetPermissions_def
      by (auto simp: Let_def split: if_splits sum.splits)
  qed (use assms Pair in \<open>simp add: SetPermissions_def\<close>)
qed

lemma SetPermissions_frame:
  assumes "SetPermissions p m u g w = (r, w')"
  shows "frame (\<lambda>q. q = p) w w'"
proof (cases "openPathNoFollow p False 0 w")
  case (Pair a w1)
  then have w1: "w1 = w" by (rule openPathNoFollow_noop)
  have pp: "frame (\<lambda>q. q = p) w (put p nd w)" for nd by (rule frame_put) simp
  show ?thesis
  proof (cases a)
    case (Inl e)
    with assms Pair w1 show ?thesis by (simp add: SetPermissions_def)
  next
    case (Inr nd)
    show ?thesis using assms Pair Inr w1 unfolding SetPermissions_def
      by (auto simp: Let_def pp split: if_splits sum.splits)
  qed
qed

text \<open>A path that is there is not reported missing.\<close>

lemma SetPermissions_there:
  assumes "SetPermissions p m u g w = (Inl NotExist, w')" and "dir_ready w (butlast p)"
    and "look w p = Some nd" and "n_nlink nd = 1"
  shows False
proof -
  have o: "openDirectory (butlast p) False 0 w = (Inr (), w)" by (rule openDirectory_ready [OF assms(2)])
  show False using assms(1,3,4) unfolding SetPermissions_def openPathNoFollow_def o
    by (auto simp: Let_def split: if_splits sum.splits kind.splits)
qed

lemma set_if_there_ok:
  assumes "set_if_there p m g w = (Inr (), w')"
  shows "mode_change w w'" and "frame (\<lambda>q. q = p) w w'"
    and "0 \<le> g \<Longrightarrow> dir_ready w (butlast p) \<Longrightarrow> look w p = Some nd \<Longrightarrow> n_nlink nd = 1 \<Longrightarrow>
      \<exists>x. look w' p = Some x \<and> n_mode x = m \<and> n_uid x = 0 \<and> n_gid x = g"
proof -
  obtain r v where s: "SetPermissions p m 0 g w = (r, v)" by fastforce
  then have v: "w' = v" "r = Inr () \<or> r = Inl NotExist" using assms by (auto simp: set_if_there_def split: sum.splits if_splits)
  show "mode_change w w'" "frame (\<lambda>q. q = p) w w'"
    using SetPermissions_modes [OF s] SetPermissions_frame [OF s] v(1) by simp_all
  show "0 \<le> g \<Longrightarrow> dir_ready w (butlast p) \<Longrightarrow> look w p = Some nd \<Longrightarrow> n_nlink nd = 1 \<Longrightarrow>
      \<exists>x. look w' p = Some x \<and> n_mode x = m \<and> n_uid x = 0 \<and> n_gid x = g"
    using SetPermissions_ok [of p m 0 g w w'] SetPermissions_there [of p m 0 g w v nd] s v by auto
qed

section \<open>A walk that repairs\<close>

text \<open>
  The contract of a callback of \<open>filepath.Walk\<close> that repairs one path at a time: it changes modes and
  owners of that path only, it leaves a path that is there in the state \<open>good\<close>, and it does not swallow
  errors. A walk that succeeds then leaves every path of the tree in that state.
\<close>

definition reach :: "world \<Rightarrow> path \<Rightarrow> path \<Rightarrow> bool" where
  "reach w p q \<longleftrightarrow> prefix p q \<and> dir_ready w (butlast q) \<and> look w q \<noteq> None"

lemma dir_ready_prefix: "dir_ready w (p @ r) \<Longrightarrow> dir_ready w p"
  using dirs_ok_append [of w "[]" p r] by (simp add: dir_ready_def)

lemma reach_same: "mode_change w w' \<Longrightarrow> reach w' p q = reach w p q"
  using mode_change_dir_ready [of w w' "butlast q"]
  by (auto simp: reach_def mode_change_def shape_def) (metis map_option_eq_Some option.distinct(1))+

lemma reach_child:
  assumes "reach w p q" and "p \<noteq> []" and "q \<noteq> p"
  obtains n where "reach w (p @ [n]) q" and "look w (p @ [n]) \<noteq> None" and "\<exists>nd. look w p = Some nd \<and> is_dir nd"
proof -
  obtain r where r: "q = p @ r" using assms(1) by (auto simp: reach_def prefix_def)
  then obtain n r' where n: "r = n # r'" using assms(3) by (cases r) auto
  have b: "dir_ready w (p @ butlast r)" using assms(1) r n by (simp add: reach_def butlast_append)
  have d: "dir_ready w p" by (rule dir_ready_prefix [OF b])
  have "look w (p @ [n]) \<noteq> None"
  proof (cases r')
    case Nil
    with assms(1) r n show ?thesis by (simp add: reach_def)
  next
    case (Cons m r'')
    then have "dir_ready w ((p @ [n]) @ butlast r')" using b n by simp
    from dir_ready_look [OF dir_ready_prefix [OF this]] show ?thesis by auto
  qed
  moreover have "reach w (p @ [n]) q" using assms(1) r n by (simp add: reach_def)
  ultimately show thesis using that dir_ready_look [OF d assms(2)] by blast
qed

lemma ReadDir_names:
  assumes "look w p = Some d" and "is_dir d" and "os_ReadDir w p = Inr entries" and "look w (p @ [n]) \<noteq> None"
  shows "n \<in> set (map fst entries)"
proof -
  have "p @ [n] |\<in>| ffilter (\<lambda>q. q \<noteq> [] \<and> butlast q = p) (fmdom (w_fs w))"
    using assms(4) by (simp add: fmlookup_dom_iff)
  then have "last (p @ [n]) |\<in>| last |`| ffilter (\<lambda>q. q \<noteq> [] \<and> butlast q = p) (fmdom (w_fs w))"
    by (rule fimageI)
  then have "n \<in> set (child_names (w_fs w) p)" by (simp add: child_names_def)
  moreover have "entries = map (\<lambda>n. (n, the (look w (p @ [n])))) (child_names (w_fs w) p)"
    using assms(1-3) by (auto simp: os_ReadDir_def follow_max is_dir_def split: if_splits)
  ultimately show ?thesis by (simp add: comp_def)
qed

locale repairing_walk =
  fixes visit :: visit and good :: "path \<Rightarrow> node \<Rightarrow> bool"
  assumes changes: "visit p (Some nd) None w = (Inr (), w') \<Longrightarrow> mode_change w w' \<and> frame (\<lambda>q. q = p) w w'"
    and repairs: "visit p (Some nd) None w = (Inr (), w') \<Longrightarrow> dir_ready w (butlast p) \<Longrightarrow> look w p = Some nd0 \<Longrightarrow>
      n_kind nd0 = n_kind nd \<Longrightarrow> look w' p = Some x \<Longrightarrow> good p x"
    and reports: "visit p i (Some e) w = (Inr (), w') \<Longrightarrow> e = NotExist \<and> w' = w"
begin

definition settled :: "world \<Rightarrow> path \<Rightarrow> bool" where
  "settled w q \<longleftrightarrow> (\<forall>x. look w q = Some x \<longrightarrow> good q x)"

text \<open>From \<open>w\<close> to \<open>w'\<close> nothing settled is lost, and the paths in \<open>Q\<close> are settled.\<close>

definition settles :: "(path \<Rightarrow> bool) \<Rightarrow> world \<Rightarrow> world \<Rightarrow> bool" where
  "settles Q w w' \<longleftrightarrow> mode_change w w' \<and>
     (\<forall>q. (settled w q \<or> Q q) \<and> dir_ready w (butlast q) \<longrightarrow> settled w' q)"

lemma settles_refl: "settles (\<lambda>_. False) w w"
  by (simp add: settles_def)

lemma settles_trans: "settles Q u v \<Longrightarrow> settles R v w \<Longrightarrow> settles (\<lambda>q. Q q \<or> R q) u w"
  using mode_change_dir_ready [of u v] mode_change_trans [of u v w] unfolding settles_def by blast

lemma settles_weaken: "settles Q w w' \<Longrightarrow> (\<And>q. R q \<Longrightarrow> dir_ready w (butlast q) \<Longrightarrow> Q q) \<Longrightarrow> settles R w w'"
  unfolding settles_def by blast

lemma visit_settles:
  assumes "visit p (Some nd) None w = (Inr (), w')" and "look w p = Some nd0" and "n_kind nd0 = n_kind nd"
  shows "settles (\<lambda>q. q = p) w w'"
proof -
  note c = changes [OF assms(1)]
  have "settled w' q" if "settled w q \<or> q = p" "dir_ready w (butlast q)" for q
  proof (cases "q = p")
    case True
    then show ?thesis using repairs [OF assms(1) _ assms(2,3)] that(2) by (simp add: settled_def)
  next
    case False
    then show ?thesis using that(1) frame_look [OF conjunct2 [OF c], of q] by (simp add: settled_def)
  qed
  with c show ?thesis by (simp add: settles_def)
qed

lemma kind_kept: "mode_change w w' \<Longrightarrow> look w p = Some nd \<Longrightarrow> \<exists>nd'. look w' p = Some nd' \<and> n_kind nd' = n_kind nd"
proof -
  assume m: "mode_change w w'" and l: "look w p = Some nd"
  then have "shape w' p = Some (n_kind nd, n_nlink nd)" by (simp add: mode_change_def shape_def)
  then show ?thesis by (auto simp: shape_def)
qed

lemma walk_settles:
  "v = visit \<Longrightarrow> walk v p nd w = (Inr (), w') \<Longrightarrow> look w p = Some nd0 \<Longrightarrow> n_kind nd0 = n_kind nd \<Longrightarrow> p \<noteq> [] \<Longrightarrow>
     settles (reach w p) w w'"
  "v = visit \<Longrightarrow> walk_names v p ns w = (Inr (), w') \<Longrightarrow> settles (\<lambda>q. \<exists>n \<in> set ns. reach w (p @ [n]) q) w w'"
proof (induction v p nd w and v p ns w arbitrary: w' nd0 and w' rule: walk_walk_names.induct)
  case (1 v p nd w)
  note [simp] = 1(2)
  show ?case
  proof (cases "is_dir nd")
    case False
    then have "visit p (Some nd) None w = (Inr (), w')" using 1(3) by (simp add: walk.simps)
    from visit_settles [OF this 1(4,5)] show ?thesis
    proof (rule settles_weaken)
      fix q assume "reach w p q"
      with reach_child [OF this 1(6)] 1(4,5) False show "q = p" by (force simp: is_dir_def)
    qed
  next
    case True
    obtain entries where es: "os_ReadDir w p = Inr entries"
    proof (cases "os_ReadDir w p")
      case (Inl e)
      then have "visit p (Some nd) (Some e) w = (Inr (), w')" using 1(3) True by (simp add: walk.simps)
      with reports have "e = NotExist" by blast
      with Inl 1(4,5) True show thesis by (auto simp: os_ReadDir_def follow_max is_dir_def split: if_splits)
    qed (use that in blast)
    obtain w1 where w1: "visit p (Some nd) None w = (Inr (), w1)" "walk_names visit p (map fst entries) w1 = (Inr (), w')"
      using 1(3) True es by (auto simp: walk.simps split: prod.splits sum.splits)
    have IH: "settles (\<lambda>q. \<exists>n \<in> set (map fst entries). reach w1 (p @ [n]) q) w1 w'"
      by (rule 1(1) [OF _ es, of "Inr ()" w1 "()"]) (use True w1 in simp_all)
    note v1 = visit_settles [OF w1(1) 1(4,5)]
    then have m: "mode_change w w1" by (simp add: settles_def)
    show ?thesis
    proof (rule settles_weaken [OF settles_trans [OF v1 IH]])
      fix q assume r: "reach w p q"
      show "q = p \<or> (\<exists>n \<in> set (map fst entries). reach w1 (p @ [n]) q)"
      proof (cases "q = p")
        case False
        from reach_child [OF r 1(6) False] obtain n where n: "reach w (p @ [n]) q" "look w (p @ [n]) \<noteq> None" by blast
        have "is_dir nd0" using True 1(5) by (simp add: is_dir_def)
        then have "n \<in> set (map fst entries)"
          using ReadDir_names [OF 1(4) _ es n(2)] by blast
        with n(1) reach_same [OF m] show ?thesis by blast
      qed simp
    qed
  qed
next
  case (2 v p w)
  then show ?case by (simp add: settles_refl)
next
  case (3 v p n ns w)
  note [simp] = 3(4)
  show ?case
  proof (cases "walk_lstat w p n")
    case (Inl e)
    then obtain w1 where w1: "visit (p @ [n]) None (Some e) w = (Inr (), w1)" "walk_names visit p ns w1 = (Inr (), w')"
      using 3(5) by (auto split: prod.splits sum.splits)
    from reports [OF w1(1)] have e: "e = NotExist" "w1 = w" by simp_all
    then have "look w (p @ [n]) = None" using Inl by (auto simp: walk_lstat_def dest: Lstat_missing split: if_splits)
    have no: "\<not> reach w (p @ [n]) q" for q
    proof
      assume r: "reach w (p @ [n]) q"
      with \<open>look w (p @ [n]) = None\<close> have "q \<noteq> p @ [n]" by (auto simp: reach_def)
      with reach_child [OF r] \<open>look w (p @ [n]) = None\<close> show False by auto
    qed
    have "settles (\<lambda>q. \<exists>n \<in> set ns. reach w (p @ [n]) q) w w'"
      using 3(1) [OF Inl, of "Inr ()" w1 "()"] w1 e(2) by simp
    then show ?thesis by (rule settles_weaken) (use no in auto)
  next
    case (Inr nd)
    then obtain w1 where w1: "walk visit (p @ [n]) nd w = (Inr (), w1)" "walk_names visit p ns w1 = (Inr (), w')"
      using 3(5) by (auto split: prod.splits sum.splits)
    have "look w (p @ [n]) = Some nd"
      using Inr by (auto simp: walk_lstat_def os_Lstat_def split: if_splits option.splits)
    then have a: "settles (reach w (p @ [n])) w w1" using 3(2) [OF Inr] w1(1) by simp
    have b: "settles (\<lambda>q. \<exists>n \<in> set ns. reach w1 (p @ [n]) q) w1 w'" using 3(3) [OF Inr, of "Inr ()" w1 "()"] w1 by simp
    have m: "mode_change w w1" using a by (simp add: settles_def)
    show ?thesis by (rule settles_weaken [OF settles_trans [OF a b]]) (use reach_same [OF m] in auto)
  qed
qed

lemma Walk_settles:
  assumes "Walk visit root w = (Inr (), w')" and "root \<noteq> []"
  shows "settles (reach w root) w w'"
proof (cases "os_Lstat w root")
  case (Inl e)
  then have "visit root None (Some e) w = (Inr (), w')" using assms(1) by (simp add: Walk_def)
  from reports [OF this] have "look w root = None" and w: "w' = w" using Inl Lstat_missing by auto
  have "\<not> reach w root q" for q
  proof
    assume r: "reach w root q"
    show False
    proof (cases "q = root")
      case True
      then show False using r \<open>look w root = None\<close> by (simp add: reach_def)
    next
      case False
      obtain nd where "look w root = Some nd" using reach_child [OF r assms(2) False] by blast
      then show False using \<open>look w root = None\<close> by simp
    qed
  qed
  then show ?thesis using w settles_weaken [OF settles_refl] by blast
next
  case (Inr nd)
  then have "look w root = Some nd" by (auto simp: os_Lstat_def split: if_splits option.splits)
  with walk_settles(1) [of visit] assms Inr show ?thesis by (simp add: Walk_def)
qed

text \<open>What the caller needs: a path below the root, with the directories on its way, is repaired.\<close>

lemma Walk_repairs:
  assumes "Walk visit root w = (Inr (), w')" and "root \<noteq> []" and "reach w' root q" and "look w' q = Some x"
  shows "good q x"
proof -
  from Walk_settles [OF assms(1,2)] have s: "settles (reach w root) w w'" .
  then have "reach w root q" using reach_same [of w w' root q] assms(3) by (simp add: settles_def)
  moreover from this have "dir_ready w (butlast q)" by (simp add: reach_def)
  ultimately have "settled w' q" using s unfolding settles_def by blast
  with assms(4) show ?thesis by (simp add: settled_def)
qed

end

section \<open>The repair of keys\<close>

lemma repair_visit_ok:
  assumes "repair_visit act p (Some nd) None w = (Inr (), w')"
  obtains "is_temp p nd" "w' = w" | "act p nd w = (Inr (), w')" "\<not> is_temp p nd"
proof (cases "is_temp p nd")
  case True
  with assms have "w' = w" unfolding repair_visit_def by simp
  with True that(1) show thesis by blast
next
  case False
  with assms have "act p nd w = (Inr (), w')" unfolding repair_visit_def by simp
  with False that(2) show thesis by blast
qed

lemma repair_visit_reports: "repair_visit act p i (Some e) w = (Inr (), w') \<Longrightarrow> e = NotExist \<and> w' = w"
  by (simp add: repair_visit_def split: if_splits)

text \<open>
  The private files of the PKI, and what the repair makes of them. Temporary files of a write in progress
  are left alone.
\<close>

definition secret_file :: "path \<Rightarrow> bool" where
  "secret_file p \<longleftrightarrow> is_private p \<or> is_ext ''.key'' p"

definition only_owner :: "node \<Rightarrow> bool" where
  "only_owner x \<longleftrightarrow> n_mode x = perm_0600 \<and> n_uid x = 0 \<and> n_gid x = 0"

definition pki_good :: "path \<Rightarrow> node \<Rightarrow> bool" where
  "pki_good p x \<longleftrightarrow> (secret_file p \<and> is_regular x \<and> n_nlink x = 1 \<and> \<not> is_temp p x \<longrightarrow> only_owner x)"

lemma pki_act_cases:
  assumes "pki_act gid p nd w = (Inr (), w')"
  shows "w' = w \<or> (\<exists>m g. set_if_there p m g w = (Inr (), w'))"
  using assms unfolding pki_act_def by (simp split: if_split_asm) blast+

lemma pki_act_changes: "pki_act gid p nd w = (Inr (), w') \<Longrightarrow> mode_change w w' \<and> frame (\<lambda>q. q = p) w w'"
  using pki_act_cases [of gid p nd w w'] set_if_there_ok(1,2) [of p _ _ w w'] mode_change_refl by auto

lemma kind_tests: "n_kind x = n_kind y \<Longrightarrow> is_regular x = is_regular y \<and> is_dir x = is_dir y \<and> is_temp p x = is_temp p y"
  by (simp add: is_regular_def is_dir_def is_temp_def)

lemma regular_no_dir: "is_regular x \<Longrightarrow> \<not> is_dir x"
  by (auto simp: is_regular_def is_dir_def split: kind.splits)

lemma same_shape: "mode_change w w' \<Longrightarrow> look w p = Some a \<Longrightarrow> look w' p = Some b \<Longrightarrow> n_kind b = n_kind a \<and> n_nlink b = n_nlink a"
  unfolding mode_change_def by (elim conjE, drule spec [of _ p]) (simp add: shape_def)

interpretation pki_walk: repairing_walk "repair_visit (pki_act gid)" pki_good for gid
proof unfold_locales
  fix p :: path and nd :: node and w w' :: world
  assume v: "repair_visit (pki_act gid) p (Some nd) None w = (Inr (), w')"
  show "mode_change w w' \<and> frame (\<lambda>q. q = p) w w'"
    using v by (rule repair_visit_ok) (simp_all add: pki_act_changes mode_change_refl)
next
  fix p :: path and nd nd0 x :: node and w w' :: world
  assume v: "repair_visit (pki_act gid) p (Some nd) None w = (Inr (), w')" and d: "dir_ready w (butlast p)"
    and l: "look w p = Some nd0" and k: "n_kind nd0 = n_kind nd" and x: "look w' p = Some x"
  show "pki_good p x"
    using v
  proof (rule repair_visit_ok)
    assume "is_temp p nd" "w' = w"
    then show "pki_good p x" using x l kind_tests [OF k] by (simp add: pki_good_def)
  next
    assume a: "pki_act gid p nd w = (Inr (), w')"
    note same = same_shape [OF conjunct1 [OF pki_act_changes [OF a]] l x]
    show "pki_good p x" unfolding pki_good_def
    proof (intro impI)
      assume s: "secret_file p \<and> is_regular x \<and> n_nlink x = 1 \<and> \<not> is_temp p x"
      then have "\<not> is_dir nd" using same kind_tests [of x nd] k regular_no_dir by simp
      then have "set_if_there p perm_0600 0 w = (Inr (), w')" using a s unfolding pki_act_def secret_file_def by simp
      from set_if_there_ok(3) [OF this _ d l] s same x show "only_owner x" by (simp add: only_owner_def)
    qed
  qed
qed (rule repair_visit_reports)

text \<open>The files of the users: everything but the policy and the certificates is for root only.\<close>

definition user_good :: "int \<Rightarrow> path \<Rightarrow> node \<Rightarrow> bool" where
  "user_good gid p x \<longleftrightarrow> (is_regular x \<and> n_nlink x = 1 \<and> \<not> is_temp p x \<longrightarrow>
     n_mode x = user_perm p x \<and> n_uid x = 0 \<and> n_gid x = gid)"

lemma user_walk:
  assumes "0 \<le> gid"
  shows "repairing_walk (repair_visit (\<lambda>p nd. set_if_there p (user_perm p nd) gid)) (user_good gid)"
proof
  fix p :: path and nd :: node and w w' :: world
  assume v: "repair_visit (\<lambda>p nd. set_if_there p (user_perm p nd) gid) p (Some nd) None w = (Inr (), w')"
  show "mode_change w w' \<and> frame (\<lambda>q. q = p) w w'"
    using v by (rule repair_visit_ok) (simp_all add: set_if_there_ok(1,2) mode_change_refl)
next
  fix p :: path and nd nd0 x :: node and w w' :: world
  assume v: "repair_visit (\<lambda>p nd. set_if_there p (user_perm p nd) gid) p (Some nd) None w = (Inr (), w')"
    and d: "dir_ready w (butlast p)" and l: "look w p = Some nd0" and k: "n_kind nd0 = n_kind nd" and x: "look w' p = Some x"
  show "user_good gid p x"
    using v
  proof (rule repair_visit_ok)
    assume "is_temp p nd" "w' = w"
    then show ?thesis using x l kind_tests [OF k] by (simp add: user_good_def)
  next
    assume a: "set_if_there p (user_perm p nd) gid w = (Inr (), w')"
    note same = same_shape [OF set_if_there_ok(1) [OF a] l x]
    have "user_perm p x = user_perm p nd" using kind_tests [of x nd] same k by (simp add: user_perm_def)
    with set_if_there_ok(3) [OF a assms d l] same x show ?thesis by (auto simp: user_good_def)
  qed
qed (rule repair_visit_reports)

lemma repair_users_last:
  assumes "repair_users gid (ds @ [d]) w = (Inr (), w')" and "0 \<le> gid" and "d \<noteq> []"
    and "reach w' d q" and "look w' q = Some x"
  shows "user_good gid q x"
  using assms(1)
proof (induction ds arbitrary: w)
  case Nil
  then obtain w1 where "Walk (repair_visit (\<lambda>p nd. set_if_there p (user_perm p nd) gid)) d w1 = (Inr (), w')"
    by (auto split: prod.splits sum.splits)
  from repairing_walk.Walk_repairs [OF user_walk [OF assms(2)] this assms(3-5)] show ?case .
next
  case (Cons e ds)
  then show ?case by (auto split: prod.splits sum.splits)
qed

section \<open>What a completed repair guarantees\<close>

lemma mode_change_pass: "mode_change w w' \<Longrightarrow> MgmtPassFile w' = MgmtPassFile w"
proof -
  assume "mode_change w w'"
  then have e: "same_env w w'" unfolding mode_change_def by blast
  show ?thesis unfolding MgmtPassFile_def envPath_def joinRoot_def OpenVPNRoot_def envOr_same [OF e] ..
qed

lemma repair_secrets_step:
  assumes "repair_secrets gid (p # ps) w = (Inr (), w')"
  obtains v where "repair_secrets gid ps v = (Inr (), w')" and "frame (\<lambda>q. q = p) w v" and "mode_change w v"
    and "p \<noteq> MgmtPassFile w \<Longrightarrow> \<forall>x. look v p = Some x \<longrightarrow> only_owner x"
proof (cases "os_Lstat w p")
  case (Inl e)
  with assms have "e = NotExist" "repair_secrets gid ps w = (Inr (), w')" by (auto split: if_splits)
  with Inl Lstat_missing [of w p] show thesis by (intro that [of w]) simp_all
next
  case (Inr nd)
  let ?m = "if p = MgmtPassFile w then perm_0640 else perm_0600"
  let ?g = "if p = MgmtPassFile w then gid else 0"
  obtain r v where s: "SetPermissions p ?m 0 ?g w = (r, v)" by (cases "SetPermissions p ?m 0 ?g w")
  with assms Inr have v: "r = Inr ()" "repair_secrets gid ps v = (Inr (), w')" by (auto split: sum.splits)
  from SetPermissions_frame [OF s] SetPermissions_modes [OF s] show thesis
  proof (rule that [OF v(2)])
    assume "p \<noteq> MgmtPassFile w"
    then show "\<forall>x. look v p = Some x \<longrightarrow> only_owner x"
      using SetPermissions_ok [OF s [unfolded v(1)]] by (auto simp: only_owner_def)
  qed
qed

lemma repair_secrets_ok:
  assumes "repair_secrets gid [t, MgmtPassFile w] w = (Inr (), w')"
  shows "frame (\<lambda>q. q = t \<or> q = MgmtPassFile w') w w'"
    and "mode_change w w'"
    and "t \<noteq> MgmtPassFile w' \<Longrightarrow> look w' t = Some x \<Longrightarrow> only_owner x"
proof -
  obtain v where v: "repair_secrets gid [MgmtPassFile w] v = (Inr (), w')" "frame (\<lambda>q. q = t) w v"
    "mode_change w v" "t \<noteq> MgmtPassFile w \<Longrightarrow> \<forall>x. look v t = Some x \<longrightarrow> only_owner x"
    by (rule repair_secrets_step [OF assms]) blast
  obtain u where u: "repair_secrets gid [] u = (Inr (), w')" "frame (\<lambda>q. q = MgmtPassFile w) v u" "mode_change v u"
    by (rule repair_secrets_step [OF v(1)]) blast
  have e: "u = w'" using u(1) by simp
  show m: "mode_change w w'" using mode_change_trans [OF v(3) u(3)] e by simp
  note pass = mode_change_pass [OF m] mode_change_pass [OF v(3)]
  show "frame (\<lambda>q. q = t \<or> q = MgmtPassFile w') w w'"
    by (rule frame_trans [OF frame_mono [OF v(2)] frame_mono [OF u(2) [unfolded e]]]) (simp_all add: pass)
  assume t: "t \<noteq> MgmtPassFile w'" and "look w' t = Some x"
  then have "look v t = Some x" using frame_look [OF u(2), of t] e pass by simp
  with v(4) t pass show "only_owner x" by simp
qed

lemma seq_ok:
  fixes x :: "unit res \<times> world"
  assumes "(case x of (Inl e, w) \<Rightarrow> (Inl e, w) | (Inr _, w) \<Rightarrow> k w) = (Inr (), w')"
  shows "\<exists>w1. k w1 = (Inr (), w')"
  using assms by (auto split: prod.splits sum.splits)

lemma repair_stores_tail:
  assumes "repair_stores root d gid w = (Inr (), w')"
  obtains v where "repair_tail root d gid v = (Inr (), w')"
  using assms unfolding repair_stores_def by (auto dest!: seq_ok)

lemma Fix_tail:
  assumes "FixRuntimePermissions root w = (Inr (), w')" and "look w (root @ [''server'', ''pki'']) \<noteq> None"
  obtains gid v where "repair_tail root (root @ [''server'', ''pki'']) gid v = (Inr (), w')"
proof -
  define d where "d = root @ [''server'', ''pki'']"
  have "look w d \<noteq> None" using assms(2) unfolding d_def .
  then have "os_Lstat w d \<noteq> Inl NotExist" using Lstat_missing [of w d] by metis
  then obtain gid where "repair_tree root d gid w = (Inr (), w')"
    using assms(1) unfolding FixRuntimePermissions_def d_def [symmetric]
    by (auto split: if_split_asm sum.splits option.splits)
  from seq_ok [OF this [unfolded repair_tree_def]] obtain w1 where
    "(case repair_dirs (map (\<lambda>n. root @ [''ovnode'', n]) [''users'', ''sessions'', ''usage'', ''scripts'', ''state'']) perm_2750 gid w1 of
        (Inl e, w) \<Rightarrow> (Inl e, w)
      | (Inr _, w) \<Rightarrow>
      case repair_legacy root gid [''clients'', ''limits'', ''disabled'', ''ovnode-active'', ''scripts''] w of
        (Inl e, w) \<Rightarrow> (Inl e, w)
      | (Inr _, w) \<Rightarrow> repair_stores root d gid (MigrateLegacy root w)) = (Inr (), w')" by blast
  from seq_ok [OF this] obtain w2 where
    "(case repair_legacy root gid [''clients'', ''limits'', ''disabled'', ''ovnode-active'', ''scripts''] w2 of
        (Inl e, w) \<Rightarrow> (Inl e, w)
      | (Inr _, w) \<Rightarrow> repair_stores root d gid (MigrateLegacy root w)) = (Inr (), w')" by blast
  from seq_ok [OF this] obtain w3 where "repair_stores root d gid w3 = (Inr (), w')" by blast
  then obtain v where "repair_tail root d gid v = (Inr (), w')" by (rule repair_stores_tail)
  with that show thesis unfolding d_def by blast
qed

lemma repair_tail_ok:
  assumes "repair_tail root d gid v = (Inr (), w')" and "d \<noteq> []" and "\<not> prefix d (root @ [''server'', ''tls.key''])"
    and "\<not> prefix d (MgmtPassFile w')"
  shows "reach w' d q \<Longrightarrow> look w' q = Some x \<Longrightarrow> pki_good q x"
    and "root @ [''server'', ''tls.key''] \<noteq> MgmtPassFile w' \<Longrightarrow> look w' (root @ [''server'', ''tls.key'']) = Some x \<Longrightarrow> only_owner x"
proof -
  define t where "t = root @ [''server'', ''tls.key'']"
  obtain u where u: "Walk (repair_visit (pki_act gid)) d v = (Inr (), u)" "repair_secrets gid [t, MgmtPassFile u] u = (Inr (), w')"
    using assms(1) unfolding repair_tail_def t_def by (auto split: prod.splits sum.splits)
  note f = repair_secrets_ok [OF u(2)]
  show "root @ [''server'', ''tls.key''] \<noteq> MgmtPassFile w' \<Longrightarrow> look w' (root @ [''server'', ''tls.key'']) = Some x \<Longrightarrow> only_owner x"
    using f(3) unfolding t_def by blast
  assume r: "reach w' d q" and x: "look w' q = Some x"
  have "prefix d q" using r by (simp add: reach_def)
  then have "q \<noteq> t" "q \<noteq> MgmtPassFile w'" using assms(3,4) unfolding t_def by blast+
  then have "look u q = Some x" using frame_look [OF f(1), of q] x by simp
  moreover have "reach u d q" using reach_same [OF f(2)] r by blast
  ultimately show "pki_good q x" using pki_walk.Walk_repairs [OF u(1) assms(2)] by blast
qed

text \<open>The files meant: the TLS key of the server, and the private files below the PKI directory.\<close>

definition node_secret :: "path \<Rightarrow> world \<Rightarrow> path \<Rightarrow> node \<Rightarrow> bool" where
  "node_secret root w q x \<longleftrightarrow> look w q = Some x \<and> (q = root @ [''server'', ''tls.key''] \<or>
     reach w (root @ [''server'', ''pki'']) q \<and> secret_file q \<and> is_regular x \<and> n_nlink x = 1 \<and> \<not> is_temp q x)"

text \<open>
  C16: a repair that ends without an error leaves every private file of the node to root alone. Whatever
  the tree looked like before (left by an older release, by easy-rsa or by hand), a regular file with one
  link below the PKI directory that is a key or stands in a \<open>private\<close> directory then has mode 0600 and
  belongs to root and the group of root, and so has the TLS key of the server. The password file of the
  management interface, which the group may read, is the exception.
\<close>

theorem keys_private:
  assumes "FixRuntimePermissions root w = (Inr (), w')" and "look w (root @ [''server'', ''pki'']) \<noteq> None"
    and "\<not> prefix (root @ [''server'', ''pki'']) (MgmtPassFile w')"
    and "MgmtPassFile w' \<noteq> root @ [''server'', ''tls.key'']"
    and "node_secret root w' q x"
  shows "only_owner x"
proof -
  obtain gid v where t: "repair_tail root (root @ [''server'', ''pki'']) gid v = (Inr (), w')"
    by (rule Fix_tail [OF assms(1,2)])
  have d: "root @ [''server'', ''pki''] \<noteq> []" "\<not> prefix (root @ [''server'', ''pki'']) (root @ [''server'', ''tls.key''])" by simp_all
  note ok = repair_tail_ok [OF t d assms(3)]
  from assms(5) consider "q = root @ [''server'', ''tls.key'']" | "q \<noteq> root @ [''server'', ''tls.key'']" by blast
  then show ?thesis
  proof cases
    case 1
    then show ?thesis using ok(2) assms(4,5) unfolding node_secret_def by metis
  next
    case 2
    then show ?thesis using ok(1) [of q x] assms(5) unfolding node_secret_def pki_good_def by blast
  qed
qed

text \<open>A tree with a key of the PKI that everybody can read, and the one key that is private after the repair.\<close>

definition open_key :: "path \<times> node" where
  "open_key = ([''r'', ''server'', ''pki'', ''ca.key''], \<lparr>n_kind = Reg ''K'', n_mode = perm_0644, n_uid = 7, n_gid = 7, n_nlink = 1\<rparr>)"

definition loose_world :: world where
  "loose_world = (sample_world (open_key # map root_dir [[], [''r''], [''r'', ''server''], [''r'', ''server'', ''pki'']]))
     \<lparr>w_env := (\<lambda>n. if n = ''OVNODE_RUNTIME_GROUP'' then Some ''5''
        else if n = ''OVNODE_OPENVPN_ROOT'' then Some ''/r''
        else if n = ''OVNODE_DATA_DIR'' then Some ''/d''
        else if n = ''OVNODE_LOG_DIR'' then Some ''/l'' else None)\<rparr>"

definition run_tree :: "unit res \<times> world" where
  "run_tree = repair_dirs [[''r''], [''r''] @ [''server''], [''r'', ''server'', ''pki''], [''r''] @ [''ccd''], [''r''] @ [''ovnode''],
     OVNodeDir loose_world] perm_2750 5 loose_world"

definition run_dirs :: "unit res \<times> world" where
  "run_dirs = repair_dirs (map (\<lambda>n. [''r''] @ [''ovnode'', n]) [''users'', ''sessions'', ''usage'', ''scripts'', ''state'']) perm_2750 5
     (snd run_tree)"

definition run_legacy :: "unit res \<times> world" where
  "run_legacy = repair_legacy [''r''] 5 [''clients'', ''limits'', ''disabled'', ''ovnode-active'', ''scripts''] (snd run_dirs)"

definition run_stores :: "unit res \<times> world" where
  "run_stores = repair_stores [''r''] [''r'', ''server'', ''pki''] 5 (MigrateLegacy [''r''] (snd run_legacy))"

lemma run_tree_ok: "is_ok run_tree" by code_simp

lemma run_dirs_ok: "is_ok run_dirs" by code_simp

lemma run_legacy_ok: "is_ok run_legacy" by code_simp

lemma run_stores_end:
  "case run_stores of (Inl _, _) \<Rightarrow> False | (Inr _, w) \<Rightarrow>
     (case look w (fst open_key) of Some x \<Rightarrow> node_secret [''r''] w (fst open_key) x | None \<Rightarrow> False) \<and>
     \<not> prefix [''r'', ''server'', ''pki''] (MgmtPassFile w) \<and> MgmtPassFile w \<noteq> [''r'', ''server'', ''tls.key'']"
  by code_simp

lemma loose_start:
  "RuntimeGroupID loose_world = Inr 5 \<and>
   look loose_world [''r'', ''server'', ''pki''] \<noteq> None \<and>
   os_Lstat loose_world [''r'', ''server'', ''pki''] \<noteq> Inl NotExist \<and>
   lstat_error (os_Lstat loose_world [''r'', ''server'', ''pki'']) = None \<and>
   lstat_error (os_Lstat loose_world [''r'', ''server'', ''server.conf'']) = None"
  by code_simp

lemma ok_unit: "is_ok (r :: unit res \<times> world) \<Longrightarrow> r = (Inr (), snd r)"
  by (cases r) (auto simp: is_ok_def split: sum.splits)

lemma repair_tree_stages:
  assumes "repair_dirs [root, root @ [''server''], d, root @ [''ccd''], root @ [''ovnode''], OVNodeDir w] perm_2750 gid w = (Inr (), w1)"
    and "repair_dirs (map (\<lambda>n. root @ [''ovnode'', n]) [''users'', ''sessions'', ''usage'', ''scripts'', ''state'']) perm_2750 gid w1
      = (Inr (), w2)"
    and "repair_legacy root gid [''clients'', ''limits'', ''disabled'', ''ovnode-active'', ''scripts''] w2 = (Inr (), w3)"
  shows "repair_tree root d gid w = repair_stores root d gid (MigrateLegacy root w3)"
  unfolding repair_tree_def assms(1) by (simp only: prod.case sum.case assms(2,3))

lemma run_stages: "FixRuntimePermissions [''r''] loose_world = run_stores"
proof -
  have "FixRuntimePermissions [''r''] loose_world = repair_tree [''r''] [''r'', ''server'', ''pki''] 5 loose_world"
    using loose_start by (simp add: FixRuntimePermissions_def)
  also have "\<dots> = repair_stores [''r''] [''r'', ''server'', ''pki''] 5 (MigrateLegacy [''r''] (snd run_legacy))"
    by (rule repair_tree_stages)
      (unfold run_tree_def [symmetric] run_dirs_def [symmetric] run_legacy_def [symmetric],
       rule ok_unit [OF run_tree_ok] ok_unit [OF run_dirs_ok] ok_unit [OF run_legacy_ok])+
  finally show ?thesis unfolding run_stores_def .
qed

theorem keys_private_witness:
  "\<exists>w x. FixRuntimePermissions [''r''] loose_world = (Inr (), w) \<and> look w (fst open_key) = Some x \<and> only_owner x \<and>
     \<not> only_owner (snd open_key)"
proof -
  from run_stores_end obtain w x where w: "run_stores = (Inr (), w)" "look w (fst open_key) = Some x"
    and n: "node_secret [''r''] w (fst open_key) x"
    and m: "\<not> prefix ([''r''] @ [''server'', ''pki'']) (MgmtPassFile w)" "MgmtPassFile w \<noteq> [''r''] @ [''server'', ''tls.key'']"
    by (auto split: prod.splits sum.splits option.splits)
  note f = run_stages [unfolded w(1)]
  have "look loose_world ([''r''] @ [''server'', ''pki'']) \<noteq> None" using loose_start by simp
  from keys_private [OF f this m n] have "only_owner x" .
  moreover have "\<not> only_owner (snd open_key)" by code_simp
  ultimately show ?thesis using f w(2) by blast
qed

end
