(* ===== verification/Spec2Isabelle.thy ===== *)
theory Spec2Isabelle
  imports Counter Admission Ratelimit Pairing Policy Auth Ring Usage Rollback Deletion Pkisetup Api Natrules Updater Runtimeperms
begin

text \<open>
  A verification of OVNode, the node agent of an OpenVPN service (Go, \<open>src/internal\<close> and
  \<open>src/cmd\<close>).

  \<^bold>\<open>The program.\<close> OpenVPN runs the agent as hooks: \<open>hooks/connect.go\<close> admits a client (policy of the
  user, limit on live sessions, take-over of the old session), \<open>hooks/disconnect.go\<close> books its traffic
  and \<open>hooks/purge.go\<close> removes what crashed sessions leave behind. The state is files: one directory
  per user with its policy, one marker per session, one traffic counter per user, all written by
  \<open>fsx.WriteFileAtomic\<close> under \<open>store.Lock\<close>. A daemon serves the panel over HTTP (\<open>httpapi\<close>): every route
  passes the gate (key, limits of \<open>ratelimit\<close>, lease of \<open>pairing\<close>, contract version); behind it the users
  are created, changed and deleted (\<open>ovpn/users.go\<close>) with their certificates (\<open>pki\<close>), a new PKI is taken
  over, and \<open>ovpn/control.go\<close> changes the configuration of the server, with snapshots and rollback. The
  desired state (ports, DNS, IPv6, NAT) is kept by \<open>policy\<close>; \<open>nat\<close> puts the rules into the firewall.

  \<^bold>\<open>The model.\<close> A component is a group of executable definitions in one theory, in the order of its Go
  file and with the names of the source. Everything a function reads and changes outside its arguments
  is the record \<open>world\<close> of theory \<open>Fsx\<close>: the file system as a finite map from paths to nodes, the clock,
  the environment, the process identity, the caches, the logs, and \<open>w_fault\<close>, which says which system
  call fails on which path. A fallible function is \<open>world \<Rightarrow> (err + 'a) \<times> world\<close>, an error is a value,
  and a Go panic is \<open>None\<close>. 64-bit counters are \<open>64 word\<close>; times, lengths and other integers are
  unbounded where the code cannot reach the bounds, and reduced to 64 bits where it can. Other programs
  and the cryptography are arguments: easy-rsa, openvpn, dpkg, iptables, kill and pgrep as functions on
  the world or on the history of commands, \<open>crypto/x509\<close> and \<open>encoding/pem\<close> as the record \<open>crypto\<close> of
  theory \<open>Pki\<close>.

  \<^item> \<open>Prelude\<close>: the parts of \<open>strings\<close> and \<open>strconv\<close> the program uses, on byte strings.
  \<^item> \<open>Json\<close>: the encoder and decoder of \<open>encoding/json\<close>, with a round trip.
  \<^item> \<open>Fsx\<close>: files, \<open>fsx/name.go\<close>, \<open>atomic.go\<close>, \<open>permissions.go\<close>, and \<open>store.Lock\<close>; frames (which paths
    a call may change) and lemmas on runs without faults.
  \<^item> \<open>Paths\<close>: \<open>fsx/paths.go\<close>, the environment and the locations.
  \<^item> \<open>Cache\<close>, \<open>Counter\<close>, \<open>UserStore\<close>, \<open>Markers\<close>: \<open>store/cache.go\<close>, \<open>counter.go\<close> and \<open>usage.go\<close>,
    \<open>store.go\<close>, \<open>state.go\<close> and \<open>users.go\<close>, \<open>sessions.go\<close>.
  \<^item> \<open>Runtimeperms\<close>: the migration of old trees and the repair of permissions of \<open>store/users.go\<close>.
  \<^item> \<open>Logging\<close>, \<open>Ring\<close>: \<open>logging/logging.go\<close> and \<open>config/config.go\<close>; \<open>logging/ring.go\<close>.
  \<^item> \<open>Status\<close>, \<open>Mgmt\<close>: \<open>ovpn/status.go\<close>; \<open>ovpn/mgmt.go\<close> and the kill commands of \<open>disconnect.go\<close>,
    against a peer given by its replies.
  \<^item> \<open>Hooks\<close>: the three hooks; \<open>Admission\<close>: what they promise.
  \<^item> \<open>Usage\<close>: the usage poll of \<open>ovpn/usage.go\<close>, \<open>disconnect.go\<close>, the marker matching of \<open>sessions.go\<close>.
  \<^item> \<open>Ratelimit\<close>, \<open>Pairing\<close>, \<open>Policy\<close>: \<open>ratelimit.go\<close>, \<open>pairing.go\<close>, \<open>policy.go\<close>.
  \<^item> \<open>Settings\<close>, \<open>Serverconf\<close>: \<open>ovpn/settings.go\<close> and \<open>process.go\<close>; \<open>serverconf.go\<close>, which generates
    and repairs \<open>server.conf\<close> and the client template.
  \<^item> \<open>Netip\<close>, \<open>Control\<close>, \<open>Rollback\<close>: addresses and prefixes; \<open>ovpn/control.go\<close> in two parts, checking and
    applying a change, and what its rollback guarantees.
  \<^item> \<open>Certindex\<close>, \<open>Pki\<close>, \<open>Revocation\<close>: the certificate index; \<open>pki/ca.go\<close>, \<open>validate.go\<close>, \<open>client.go\<close>
    and \<open>certs.go\<close>; what issuing and the revocation list guarantee.
  \<^item> \<open>Users\<close>, \<open>Deletion\<close>: \<open>ovpn/users.go\<close>, \<open>lifecycle.go\<close>, \<open>profile.go\<close>; what a deletion guarantees.
  \<^item> \<open>Pkisetup\<close>: \<open>pki/easyrsa.go\<close> and \<open>setup.go\<close>, \<open>ovpn/pki.go\<close>, the renewal of the server certificate
    and \<open>filepath.Walk\<close>.
  \<^item> \<open>Auth\<close>, \<open>Api\<close>: \<open>httpapi/auth.go\<close>; the routes of \<open>httpapi/users.go\<close> and \<open>handlers.go\<close> that change
    the node, behind the gate and the recovery from panics.
  \<^item> \<open>Natrules\<close>, \<open>Updater\<close>: \<open>nat/nat.go\<close>; \<open>updater/updater.go\<close>.

  \<^bold>\<open>What is shown.\<close> Per operation the functional behaviour and the frame. For the counter, every byte is
  counted once over any run (locale \<open>accounting\<close>, interpreted by the pure bookkeeping and by the
  operations on files); for the hooks, who is admitted and in which order traffic is booked and markers
  are removed; for the limiter, that it refines the unbounded histories of requests (locale
  \<open>sliding_window\<close>, interpreted for its four windows); for the pairing, that it refines a lease and is
  exclusive; for the gate, that it refines both together, and that no route but the health probe is
  reached without it. A failed change of the configuration and a failed push of a PKI leave the files as
  they were; a repaired \<open>server.conf\<close> needs no second repair. A deleted user is revoked in the index and
  on a list that only grows, a deletion that fails after the user was disabled leaves the user disabled,
  and an operation that lost the race for the lifecycle lock does nothing. \<open>InitPKI\<close> never replaces an
  existing CA, \<open>CertExpiry\<close> returns on every file, and a completed repair of permissions leaves the
  private keys to root alone (locale \<open>repairing_walk\<close>: a walk whose visits repair one path each repairs
  the tree). The NAT code touches its own rules only, and an update runs only a trusted installer.

  \<^bold>\<open>Bounds.\<close> \<open>decode_value\<close> runs the JSON parser with fuel twice the length of the text, which is
  enough (\<open>Json.pval_fuel_enough\<close>); symbolic links are followed 40 times, as Linux does; \<open>filepath.Walk\<close>
  descends as far as paths go on Linux, 4095 levels; the rounds of the take-over are a parameter of the
  peer, because the code bounds them by time.

  \<^bold>\<open>Not modelled.\<close> The installer and the command line (interactive runs of other programs, flags and
  embedded files); host statistics (\<open>sysinfo.go\<close>); the child process of \<open>daemon.go\<close>; the diagnostics of
  \<open>events.go\<close> and \<open>UserDiagnostics\<close>, which only report (they classify log lines with regular expressions
  of package \<open>regexp\<close> and keep times as floating point numbers; their one file is a cache); the
  routes that only render state, the decoding of request bodies into their structs, TLS, gzip and the
  listening socket; the days until expiry read from the output of openssl. Locks are taken to exclude
  other processes; concurrency within a critical section is not modelled.
\<close>

end
